(* ===== verification/Exceptions.thy ===== *)
theory Exceptions
  imports Main
begin

text \<open>
  The error values of the model. Every exception class of
  \<^verbatim>\<open>testrange/exceptions.py\<close> and every built-in exception the modelled code raises is a
  constructor of \<open>exn\<close>; its argument lists the values the source interpolates into
  the message, in message order (the fixed English text is not modelled).
  The class hierarchy is the family of predicates \<open>is_...\<close>: a handler
  \<^verbatim>\<open>except C\<close> catches exactly the values of the predicate of \<open>C\<close>.
\<close>

type_synonym msg = "string list"

datatype exn =
    ValueError msg
  | JSONDecodeError msg
  | TypeError msg
  | KeyError msg
  | IndexError msg
  | AssertionError msg
  | OSError msg
  | KeyboardInterrupt msg
  | PlanError msg
  | DuplicateNodeError msg
  | DanglingDependencyError msg
  | SelfDependencyError msg
  | GraphCycleError msg
  | PreflightError msg
  | CacheError msg
  | CacheMissError msg
  | DriverError msg
  | ProfileError msg
  | GuestAgentError msg
  | StateError msg
  | StateLockedError msg
  | CommunicatorError msg
  | CommunicatorAlreadyBoundError msg
  | GatewayError msg
  | BuilderError msg
  | BuildNotReadyError msg
  | OrchestratorError msg
  | BuildFailedError msg
  | BuildTimeoutError msg
  | BuildRequiredError msg

fun is_GraphError :: "exn \<Rightarrow> bool" where
  "is_GraphError (DuplicateNodeError _) = True"
| "is_GraphError (DanglingDependencyError _) = True"
| "is_GraphError (SelfDependencyError _) = True"
| "is_GraphError (GraphCycleError _) = True"
| "is_GraphError _ = False"

fun is_PlanError :: "exn \<Rightarrow> bool" where
  "is_PlanError (PlanError _) = True"
| "is_PlanError e = is_GraphError e"

fun is_CacheError :: "exn \<Rightarrow> bool" where
  "is_CacheError (CacheError _) = True"
| "is_CacheError (CacheMissError _) = True"
| "is_CacheError _ = False"

fun is_StateError :: "exn \<Rightarrow> bool" where
  "is_StateError (StateError _) = True"
| "is_StateError (StateLockedError _) = True"
| "is_StateError _ = False"

text \<open>\<^verbatim>\<open>except Exception\<close> does not catch \<^verbatim>\<open>KeyboardInterrupt\<close>, a
  \<^verbatim>\<open>BaseException\<close> only.\<close>

fun is_Exception :: "exn \<Rightarrow> bool" where
  "is_Exception (KeyboardInterrupt _) = False"
| "is_Exception _ = True"

end
