(* ===== verification/Prelude.thy ===== *)
theory Prelude
  imports
    Exceptions
    "HOL-Library.AList"
    "HOL-Library.Char_ord"
    "HOL-Library.List_Lexorder"
    "HOL-Library.Code_Target_Nat"
begin

text \<open>
  What the component theories share: the type synonyms of the model, Python's
  insertion-ordered dictionaries as association lists, its sets as duplicate-free lists
  whose order no modelled code observes, \<^verbatim>\<open>sorted\<close> on strings as
  \<^const>\<open>sort\<close> for the code-point order, and sequencing of fallible computations.
\<close>

named_theorems dict_simps \<open>reading Python dictionaries after an update\<close>
named_theorems result_simps \<open>sequencing of fallible computations\<close>

type_synonym name = string
type_synonym ('k, 'v) dict = "('k \<times> 'v) list"
type_synonym 'a result = "exn + 'a"

subsection \<open>Fallible computations\<close>

definition bindR :: "'a result \<Rightarrow> ('a \<Rightarrow> 'b result) \<Rightarrow> 'b result" where
  "bindR m f = (case m of Inl e \<Rightarrow> Inl e | Inr x \<Rightarrow> f x)"

lemma bindR_simps [simp, result_simps]:
  "bindR (Inl e) f = Inl e" "bindR (Inr x) f = f x"
  by (simp_all add: bindR_def)

lemma bindR_Inr_iff [result_simps]: "bindR m f = Inr y \<longleftrightarrow> (\<exists>x. m = Inr x \<and> f x = Inr y)"
  by (cases m) auto

lemma bindR_Inl_iff [result_simps]:
  "bindR m f = Inl e \<longleftrightarrow> m = Inl e \<or> (\<exists>x. m = Inr x \<and> f x = Inl e)"
  by (cases m) auto

text \<open>\<^verbatim>\<open>if cond: raise e\<close> before the rest of a function body.\<close>

definition guardR :: "bool \<Rightarrow> exn \<Rightarrow> unit result" where
  "guardR ok e = (if ok then Inr () else Inl e)"

lemma guardR_simps [simp, result_simps]:
  "guardR True e = Inr ()" "guardR False e = Inl e"
  "guardR b e = Inr u \<longleftrightarrow> b" "guardR b e = Inl e' \<longleftrightarrow> \<not> b \<and> e = e'"
  by (auto simp: guardR_def)

text \<open>A \<^verbatim>\<open>for\<close> loop whose body may raise: the first error ends it.\<close>

fun for_each :: "('a \<Rightarrow> unit result) \<Rightarrow> 'a list \<Rightarrow> unit result" where
  "for_each f [] = Inr ()"
| "for_each f (x # xs) = bindR (f x) (\<lambda>_. for_each f xs)"

lemma for_each_Inr_iff [result_simps]:
  "for_each f xs = Inr u \<longleftrightarrow> (\<forall>x \<in> set xs. f x = Inr ())"
  by (induction xs) (auto simp: bindR_Inr_iff)

lemma for_each_Inl: "for_each f xs = Inl e \<Longrightarrow> \<exists>x \<in> set xs. f x = Inl e"
  by (induction xs) (auto simp: bindR_Inl_iff)

subsection \<open>Dictionaries\<close>

abbreviation dkeys :: "('k, 'v) dict \<Rightarrow> 'k list" where
  "dkeys d \<equiv> map fst d"

definition dget :: "('k, 'v list) dict \<Rightarrow> 'k \<Rightarrow> 'v list" where
  "dget d k = (case map_of d k of None \<Rightarrow> [] | Some vs \<Rightarrow> vs)"

text \<open>\<^verbatim>\<open>d[k].add(v)\<close> on a dictionary of sets.\<close>

definition dict_add :: "'k \<Rightarrow> 'v \<Rightarrow> ('k, 'v list) dict \<Rightarrow> ('k, 'v list) dict" where
  "dict_add k v d = map (\<lambda>(k', vs). if k' = k then (k', List.insert v vs) else (k', vs)) d"

lemma dkeys_dict_add [simp, dict_simps]: "dkeys (dict_add k v d) = dkeys d"
  by (induction d) (auto simp: dict_add_def)

lemma map_of_dict_add [dict_simps]:
  "map_of (dict_add k v d) k' =
     (if k' = k then map_option (List.insert v) (map_of d k) else map_of d k')"
  by (induction d) (auto simp: dict_add_def)

lemma set_dget_dict_add [dict_simps]:
  "k \<in> set (dkeys d) \<Longrightarrow>
   set (dget (dict_add k v d) k') = (if k' = k then insert v (set (dget d k')) else set (dget d k'))"
  by (cases "map_of d k") (auto simp: dget_def map_of_dict_add map_of_eq_None_iff)

lemma dget_notin [simp]: "k \<notin> set (dkeys d) \<Longrightarrow> dget d k = []"
  by (simp add: dget_def map_of_eq_None_iff[THEN iffD2])

lemma in_dget_key: "x \<in> set (dget d k) \<Longrightarrow> k \<in> set (dkeys d)"
  by (metis dget_notin empty_iff empty_set)

lemma map_of_in_keys: "k \<in> set (dkeys d) \<Longrightarrow> map_of d k = Some (dget d k)"
  by (auto simp: dget_def map_of_eq_None_iff split: option.splits)

lemma map_of_key_Some: "k \<in> set (dkeys d) \<Longrightarrow> \<exists>v. map_of d k = Some v"
  by (cases "map_of d k") (simp_all add: map_of_eq_None_iff)

lemma map_of_append_key: "k \<in> set (dkeys d) \<Longrightarrow> map_of (d @ e) k = map_of d k"
  using map_of_key_Some [of k d] by auto

lemma map_of_append_fresh: "k \<notin> set (dkeys d) \<Longrightarrow> map_of (d @ e) k = map_of e k"
  by (simp add: map_add_def map_of_eq_None_iff [THEN iffD2] split: option.split)

lemma dkeys_update_new: "k \<notin> set (dkeys d) \<Longrightarrow> AList.update k v d = d @ [(k, v)]"
  by (induction d) auto

lemma map_of_keys_graph:
  "map_of (map (\<lambda>x. (f x, g x)) xs) k = None \<longleftrightarrow> k \<notin> f ` set xs"
  by (induction xs) auto

lemma map_of_inj_graph:
  "inj_on f (set xs) \<Longrightarrow> x \<in> set xs \<Longrightarrow> map_of (map (\<lambda>x. (f x, x)) xs) (f x) = Some x"
  by (induction xs) (auto simp: inj_on_def)

subsection \<open>Lists\<close>

lemma in_concat_nth: "x \<in> set (concat xss) \<longleftrightarrow> (\<exists>i<length xss. x \<in> set (xss ! i))"
  by (metis (no_types, lifting) UN_iff in_set_conv_nth set_concat)

lemma in_concat_take_nth:
  "i \<le> length xss \<Longrightarrow> x \<in> set (concat (take i xss)) \<longleftrightarrow> (\<exists>j<i. x \<in> set (xss ! j))"
  by (auto simp: in_concat_nth simp del: set_concat)

lemma distinct_split_unique:
  assumes "distinct (xs @ a # ys)" and "xs @ a # ys = us @ a # vs"
  shows "us = xs \<and> vs = ys"
  using assms by (metis append_Cons_eq_iff distinct.simps(2) distinct_append not_distinct_conv_prefix
      disjoint_iff list.set_intros(1))

lemma append_sep_inj:
  "a \<notin> set xs \<Longrightarrow> a \<notin> set us \<Longrightarrow> xs @ a # ys = us @ a # vs \<longleftrightarrow> xs = us \<and> ys = vs"
proof (induction xs arbitrary: us)
  case Nil
  then show ?case by (cases us) auto
next
  case (Cons x xs)
  then show ?case by (cases us) auto
qed

subsection \<open>Sorted sets\<close>

text \<open>\<^verbatim>\<open>sorted(s)\<close> of a set given by a list of its elements.\<close>

definition sorted_set :: "'a::linorder list \<Rightarrow> 'a list" where
  "sorted_set xs = sort (remdups xs)"

lemma set_sorted_set [simp]: "set (sorted_set xs) = set xs"
  by (simp add: sorted_set_def)

lemma distinct_sorted_set [simp]: "distinct (sorted_set xs)"
  by (simp add: sorted_set_def)

lemma sorted_sorted_set [simp]: "sorted (sorted_set xs)"
  by (simp add: sorted_set_def)

lemma sorted_set_eq_Nil [simp]: "sorted_set xs = [] \<longleftrightarrow> xs = []"
  by (metis set_empty set_sorted_set)

lemma sorted_set_cong: "set xs = set ys \<Longrightarrow> sorted_set xs = sorted_set ys"
  by (intro sorted_distinct_set_unique) auto

end
