(* ===== verification/Names.thy ===== *)
theory Names
  imports Strings
begin

text \<open>
  The charset rules at the program's trust boundaries: plan names
  (\<^verbatim>\<open>networks/validate.py\<close>), the reserved data-disk marker
  (\<^verbatim>\<open>vms/validate.py\<close>), user names (\<^verbatim>\<open>credentials/base.py\<close>) and package names
  (\<^verbatim>\<open>packages/base.py\<close>). The regular
  expressions are all of the form ``one first character, then any number of rest characters'', so each is a
  pair of character predicates; what differs is the anchoring: \<^verbatim>\<open>fullmatch\<close> demands
  the whole string, while a pattern ending in \<^verbatim>\<open>$\<close> used with \<^verbatim>\<open>match\<close>
  or \<^verbatim>\<open>search\<close> also accepts one final line feed.
\<close>

subsection \<open>Matching\<close>

definition is_alpha :: "char \<Rightarrow> bool" where
  "is_alpha c \<longleftrightarrow> is_upper c \<or> is_lower c"

definition is_alnum :: "char \<Rightarrow> bool" where
  "is_alnum c \<longleftrightarrow> is_alpha c \<or> is_digit c"

fun class_match :: "(char \<Rightarrow> bool) \<Rightarrow> (char \<Rightarrow> bool) \<Rightarrow> string \<Rightarrow> bool" where
  "class_match first rest [] = False"
| "class_match first rest (c # s) = (first c \<and> list_all rest s)"

definition dollar :: "(string \<Rightarrow> bool) \<Rightarrow> string \<Rightarrow> bool" where
  "dollar P s \<longleftrightarrow> P s \<or> (s \<noteq> [] \<and> last s = CHR 0x0A \<and> P (butlast s))"

fun search :: "(string \<Rightarrow> bool) \<Rightarrow> string \<Rightarrow> bool" where
  "search P [] = P []"
| "search P (c # s) = (P (c # s) \<or> search P s)"

subsection \<open>Plan names\<close>

definition name_first :: "char \<Rightarrow> bool" where
  "name_first c \<longleftrightarrow> is_alnum c \<or> c = CHR ''_''"

definition name_rest :: "char \<Rightarrow> bool" where
  "name_rest c \<longleftrightarrow> is_alnum c \<or> c = CHR ''_'' \<or> c = CHR ''.'' \<or> c = CHR ''-''"

definition SAFE_NAME :: "string \<Rightarrow> bool" where
  "SAFE_NAME s = class_match name_first name_rest s"

definition validate_name :: "name \<Rightarrow> string \<Rightarrow> name result" where
  "validate_name value kind =
     (if value = [] then Inl (ValueError [kind])
      else if \<not> SAFE_NAME value then Inl (ValueError [kind, value])
      else Inr value)"

text \<open>\<^verbatim>\<open>[-_.]data\d+$\<close>, ignoring case, anywhere in the name.\<close>

definition data_marker_here :: "string \<Rightarrow> bool" where
  "data_marker_here s \<longleftrightarrow> s \<noteq> [] \<and> hd s \<in> {CHR ''-'', CHR ''_'', CHR ''.''} \<and>
     lower (take 4 (tl s)) = ''data'' \<and> 5 < length s \<and>
     dollar (\<lambda>u. u \<noteq> [] \<and> list_all is_digit u) (drop 5 s)"

definition DATA_DISK_MARKER :: "string \<Rightarrow> bool" where
  "DATA_DISK_MARKER s = search data_marker_here s"

subsection \<open>User and package names\<close>

definition user_first :: "char \<Rightarrow> bool" where
  "user_first c \<longleftrightarrow> is_alpha c \<or> c = CHR ''_''"

definition user_rest :: "char \<Rightarrow> bool" where
  "user_rest c \<longleftrightarrow> is_alnum c \<or> c = CHR ''_'' \<or> c = CHR ''-''"

definition check_username :: "string \<Rightarrow> unit result" where
  "check_username u =
     (if u = [] then Inl (ValueError [])
      else if \<not> dollar (class_match user_first user_rest) u then Inl (ValueError [u])
      else Inr ())"

record ssh_key =
  pub :: string
  priv :: string
  auth_line :: string
  algorithm :: string

record posix_cred =
  username :: string
  admin :: bool
  password :: "string option"
  pc_ssh_key :: "ssh_key option"
  groups :: "string list"

definition PosixCred :: "string \<Rightarrow> bool \<Rightarrow> string option \<Rightarrow> ssh_key option \<Rightarrow> string list \<Rightarrow> posix_cred result"
where
  "PosixCred u adm pw key grps =
     bindR (check_username u) (\<lambda>_.
     if pw = None \<and> key = None then Inl (ValueError [u])
     else Inr \<lparr>username = u, admin = adm, password = pw, pc_ssh_key = key, groups = grps\<rparr>)"

definition package_first :: "char \<Rightarrow> bool" where
  "package_first c = is_alnum c"

definition package_rest :: "char \<Rightarrow> bool" where
  "package_rest c \<longleftrightarrow> is_alnum c \<or> c = CHR ''.'' \<or> c = CHR ''_'' \<or> c = CHR ''+'' \<or> c = CHR ''-''"

definition Package :: "string \<Rightarrow> string \<Rightarrow> string result" where
  "Package cls n =
     (if n = [] then Inl (ValueError [cls])
      else if \<not> class_match package_first package_rest n then Inl (ValueError [cls, n])
      else Inr n)"

subsection \<open>Lemmas\<close>

lemma class_match_iff: "class_match f r s \<longleftrightarrow> s \<noteq> [] \<and> f (hd s) \<and> list_all r (tl s)"
  by (cases s) auto

lemma class_match_all: "class_match f r s \<Longrightarrow> (\<And>c. f c \<Longrightarrow> r c) \<Longrightarrow> list_all r s"
  by (cases s) auto

lemma dollar_iff: "dollar P s \<longleftrightarrow> P s \<or> (\<exists>t. s = t @ [CHR 0x0A] \<and> P t)"
  by (cases s rule: rev_cases) (auto simp: dollar_def)

lemma search_iff: "search P s \<longleftrightarrow> (\<exists>t u. s = t @ u \<and> P u)"
proof (induction s)
  case (Cons c s)
  show ?case
  proof
    assume "search P (c # s)"
    then consider "P (c # s)" | "search P s" by auto
    then show "\<exists>t u. c # s = t @ u \<and> P u"
    proof cases
      case 1
      then show ?thesis by (intro exI [of _ "[]"] exI [of _ "c # s"]) simp
    next
      case 2
      with Cons obtain t u where "s = t @ u" "P u" by blast
      then show ?thesis by (intro exI [of _ "c # t"] exI [of _ u]) simp
    qed
  next
    assume "\<exists>t u. c # s = t @ u \<and> P u"
    then show "search P (c # s)" using Cons by (auto simp: Cons_eq_append_conv)
  qed
qed auto

lemma validate_name_Inr [simp]: "validate_name v k = Inr r \<longleftrightarrow> SAFE_NAME v \<and> r = v"
  by (auto simp: validate_name_def SAFE_NAME_def)

lemma SAFE_NAME_chars: "SAFE_NAME v \<Longrightarrow> list_all name_rest v"
  unfolding SAFE_NAME_def by (erule class_match_all) (auto simp: name_first_def name_rest_def)

lemma name_rest_excludes:
  "\<not> name_rest (CHR '','')" "\<not> name_rest (CHR ''='')" "\<not> name_rest (CHR ''#'')" "\<not> name_rest (CHR 0x0A)"
  "\<not> name_rest (CHR '':'')" "\<not> name_rest (CHR ''/'')" "\<not> name_rest (CHR '' '')" "\<not> name_rest (CHR 0x00)"
  by code_simp+

subsection \<open>Properties\<close>

text \<open>A name that passes validation is non-empty, does not start with a dot or dash,
  and holds none of the characters that would end or split a \<^verbatim>\<open>dnsmasq.conf\<close> directive,
  a node name or a path: no comma, equals sign, hash, line feed, colon, slash, blank or NUL.\<close>

theorem validated_names_are_inert:
  assumes "validate_name v kind = Inr r"
  shows "r = v \<and> v \<noteq> [] \<and> hd v \<notin> {CHR ''.'', CHR ''-''} \<and>
    set v \<inter> {CHR '','', CHR ''='', CHR ''#'', CHR 0x0A, CHR '':'', CHR ''/'', CHR '' '', CHR 0x00} = {}"
proof -
  have s: "r = v" "SAFE_NAME v" using assms by simp_all
  have "\<not> name_first (CHR ''.'')" "\<not> name_first (CHR ''-'')" by code_simp+
  then have "hd v \<notin> {CHR ''.'', CHR ''-''}" "v \<noteq> []"
    using s(2) by (auto simp: SAFE_NAME_def class_match_iff)
  moreover have "set v \<inter> {CHR '','', CHR ''='', CHR ''#'', CHR 0x0A, CHR '':'', CHR ''/'', CHR '' '', CHR 0x00} = {}"
    using SAFE_NAME_chars [OF s(2)] name_rest_excludes by (auto simp: list_all_iff)
  ultimately show ?thesis using s(1) by simp
qed

theorem validated_names_are_inert_witness:
  "validate_name ''web_1.a'' ''VMSpec.name'' = Inr ''web_1.a'' \<and> CHR '','' \<notin> set ''web_1.a''"
proof -
  have "validate_name ''web_1.a'' ''VMSpec.name'' = Inr ''web_1.a''" by code_simp
  with validated_names_are_inert [OF this] show ?thesis by auto
qed

text \<open>The user name check is weaker than the pattern it cites. It accepts exactly the strings
  of the documented charset and those strings followed by one line feed, which a shell
  reads as the end of the command.\<close>

theorem username_admits_final_newline:
  "check_username u = Inr () \<longleftrightarrow>
     class_match user_first user_rest u \<or>
     (\<exists>t. u = t @ [CHR 0x0A] \<and> class_match user_first user_rest t)"
  by (auto simp: check_username_def dollar_iff)

end
