(* ===== verification/Ipv4.thy ===== *)
theory Ipv4
  imports Strings
begin

text \<open>
  The part of Python's standard \<^verbatim>\<open>ipaddress\<close> module the plan model uses, as of
  CPython 3.11: strict dotted-decimal parsing, printing, netmasks, networks, interfaces,
  membership and address arithmetic. \<open>None\<close> stands for a \<^verbatim>\<open>ValueError\<close>
  (\<^verbatim>\<open>AddressValueError\<close> and \<^verbatim>\<open>NetmaskValueError\<close> are subclasses of it).
  Addresses are natural numbers with the range check of the source; a bitwise and with a netmask is
  written with \<open>mod\<close>.
\<close>

subsection \<open>Addresses\<close>

definition ALL_ONES :: nat where
  "ALL_ONES = 2 ^ 32 - 1"

definition parse_octet :: "string \<Rightarrow> nat option" where
  "parse_octet s =
     (if s = [] \<or> \<not> list_all is_digit s \<or> 3 < length s \<or> (s \<noteq> ''0'' \<and> hd s = CHR ''0'') \<or>
         255 < nat_of_digits s
      then None else Some (nat_of_digits s))"

definition from_bytes :: "nat list \<Rightarrow> nat" where
  "from_bytes os = foldl (\<lambda>n d. n * 256 + d) 0 os"

definition ip_int_from_string :: "string \<Rightarrow> nat option" where
  "ip_int_from_string s =
     (let ws = split_on (CHR ''.'') s
      in if length ws \<noteq> 4 then None else map_option from_bytes (those (map parse_octet ws)))"

definition IPv4Address :: "string \<Rightarrow> nat option" where
  "IPv4Address s = (if CHR ''/'' \<in> set s then None else ip_int_from_string s)"

definition octets :: "nat \<Rightarrow> nat list" where
  "octets a = [a div 16777216 mod 256, a div 65536 mod 256, a div 256 mod 256, a mod 256]"

definition string_from_ip_int :: "nat \<Rightarrow> string" where
  "string_from_ip_int a = join ''.'' (map string_of_nat (octets a))"

text \<open>\<^verbatim>\<open>address + offset\<close>, which raises beyond the last address.\<close>

definition ip_add :: "nat \<Rightarrow> nat \<Rightarrow> nat option" where
  "ip_add a k = (if a + k > ALL_ONES then None else Some (a + k))"

subsection \<open>Networks and interfaces\<close>

record ipv4_network =
  network_address :: nat
  prefixlen :: nat

definition netmask_int :: "nat \<Rightarrow> nat" where
  "netmask_int p = 2 ^ 32 - 2 ^ (32 - p)"

definition host_part :: "nat \<Rightarrow> nat \<Rightarrow> nat" where
  "host_part p a = a mod 2 ^ (32 - p)"

definition prefix_from_prefix_string :: "string \<Rightarrow> nat option" where
  "prefix_from_prefix_string s =
     (if s = [] \<or> \<not> list_all is_digit s \<or> 32 < nat_of_digits s then None else Some (nat_of_digits s))"

definition prefix_from_ip_int :: "nat \<Rightarrow> nat option" where
  "prefix_from_ip_int m = List.find (\<lambda>p. netmask_int p = m) [0..<33]"

definition prefix_from_ip_string :: "string \<Rightarrow> nat option" where
  "prefix_from_ip_string s =
     (case ip_int_from_string s of
        None \<Rightarrow> None
      | Some m \<Rightarrow> (case prefix_from_ip_int m of
            Some p \<Rightarrow> Some p
          | None \<Rightarrow> prefix_from_ip_int (ALL_ONES - m)))"

definition make_netmask :: "string \<Rightarrow> nat option" where
  "make_netmask s =
     (case prefix_from_prefix_string s of
        Some p \<Rightarrow> Some p
      | None \<Rightarrow> prefix_from_ip_string s)"

text \<open>The address and the prefix length of \<^verbatim>\<open>addr[/mask]\<close>; no mask means 32.\<close>

definition split_addr_prefix :: "string \<Rightarrow> (nat \<times> nat) option" where
  "split_addr_prefix s =
     (case split_on (CHR ''/'') s of
        [a] \<Rightarrow> map_option (\<lambda>ip. (ip, 32)) (ip_int_from_string a)
      | [a, m] \<Rightarrow> (case ip_int_from_string a of
            None \<Rightarrow> None
          | Some ip \<Rightarrow> map_option (Pair ip) (make_netmask m))
      | _ \<Rightarrow> None)"

definition IPv4Network :: "string \<Rightarrow> ipv4_network option" where
  "IPv4Network s =
     (case split_addr_prefix s of
        None \<Rightarrow> None
      | Some (ip, p) \<Rightarrow>
          if host_part p ip \<noteq> 0 then None else Some \<lparr>network_address = ip, prefixlen = p\<rparr>)"

record ipv4_interface =
  if_ip :: nat
  if_prefixlen :: nat

definition IPv4Interface :: "string \<Rightarrow> ipv4_interface option" where
  "IPv4Interface s =
     map_option (\<lambda>(ip, p). \<lparr>if_ip = ip, if_prefixlen = p\<rparr>) (split_addr_prefix s)"

definition with_prefixlen :: "ipv4_interface \<Rightarrow> string" where
  "with_prefixlen i = string_from_ip_int (if_ip i) @ ''/'' @ string_of_nat (if_prefixlen i)"

definition broadcast_address :: "ipv4_network \<Rightarrow> nat" where
  "broadcast_address n = network_address n + 2 ^ (32 - prefixlen n) - 1"

definition in_network :: "nat \<Rightarrow> ipv4_network \<Rightarrow> bool" where
  "in_network a n \<longleftrightarrow> a - host_part (prefixlen n) a = network_address n"

definition string_of_network :: "ipv4_network \<Rightarrow> string" where
  "string_of_network n = string_from_ip_int (network_address n) @ ''/'' @ string_of_nat (prefixlen n)"

subsection \<open>Printing and parsing are inverse\<close>

lemma parse_octet_string_of_nat: "n \<le> 255 \<Longrightarrow> parse_octet (string_of_nat n) = Some n"
proof -
  assume n: "n \<le> 255"
  have "length (string_of_nat n) \<le> 3"
    using n by (simp add: string_of_nat.simps [of n] string_of_nat.simps [of "n div 10"]
        string_of_nat.simps [of "n div 100"] div_mult2_eq [symmetric])
  moreover have "string_of_nat n \<noteq> ''0'' \<longrightarrow> hd (string_of_nat n) \<noteq> CHR ''0''"
    using string_of_nat_leading [of n] by (cases "n = 0") auto
  ultimately show ?thesis using n string_of_nat_digits [of n] by (auto simp: parse_octet_def)
qed

lemma parse_octet_Some: "parse_octet s = Some n \<Longrightarrow> s = string_of_nat n \<and> n \<le> 255"
  by (auto simp: parse_octet_def string_of_nat_nat_of_digits split: if_splits)

lemma octets_bound: "o' \<in> set (octets a) \<Longrightarrow> o' \<le> 255"
proof -
  assume "o' \<in> set (octets a)"
  then have "o' < 256" by (auto simp: octets_def)
  then show ?thesis by simp
qed

lemma from_bytes_octets: "a < 2 ^ 32 \<Longrightarrow> from_bytes (octets a) = a"
proof -
  assume "a < 2 ^ 32"
  then have "a div 16777216 < 256" by simp
  then have top: "a div 16777216 mod 256 = a div 16777216" by simp
  have step: "x div 256 * 256 + x mod 256 = x" for x :: nat by simp
  have "a div 65536 = a div 256 div 256" "a div 16777216 = a div 256 div 256 div 256"
    by (simp_all add: div_mult2_eq [symmetric])
  with top step show ?thesis by (simp only: octets_def from_bytes_def foldl_Cons foldl_Nil add_0 mult_0)
qed

lemma octets_from_bytes:
  assumes "a \<le> 255" "b \<le> 255" "c \<le> 255" "d \<le> (255::nat)"
  shows "octets (from_bytes [a, b, c, d]) = [a, b, c, d]"
proof -
  have div: "(x * 256 + y) div 256 = x" and mod: "(x * 256 + y) mod 256 = y" if "y \<le> 255" for x y :: nat
    using that by simp_all
  have e: "x div 65536 = x div 256 div 256" "x div 16777216 = x div 256 div 256 div 256" for x :: nat
    by (simp_all add: div_mult2_eq [symmetric])
  have "from_bytes [a, b, c, d] = ((a * 256 + b) * 256 + c) * 256 + d"
    by (simp only: from_bytes_def foldl_Cons foldl_Nil mult_0 add_0)
  moreover have "a mod 256 = a" using assms(1) by simp
  ultimately show ?thesis
    by (simp only: octets_def e div [OF assms(2)] div [OF assms(3)] div [OF assms(4)]
        mod [OF assms(2)] mod [OF assms(3)] mod [OF assms(4)])
qed

lemma from_bytes_bound: "\<forall>x \<in> set os. x \<le> 255 \<Longrightarrow> from_bytes os < 256 ^ length os"
proof (induction os rule: rev_induct)
  case (snoc x os)
  then have "from_bytes os < 256 ^ length os" "x \<le> 255" by simp_all
  then have "from_bytes os * 256 + x < 256 ^ length os * 256" by linarith
  then show ?case by (simp add: from_bytes_def)
qed (simp add: from_bytes_def)

lemma split_string_from_ip_int:
  "split_on (CHR ''.'') (string_from_ip_int a) = map string_of_nat (octets a)"
  unfolding string_from_ip_int_def
  by (rule split_on_join) (use string_of_nat_digits digits_no_dot in \<open>auto simp: octets_def\<close>)

lemma string_from_ip_int_chars: "CHR ''/'' \<notin> set (string_from_ip_int a)"
  using string_of_nat_digits digits_no_slash by (auto simp: string_from_ip_int_def octets_def)

lemma those_map_Some: "those (map Some xs) = Some xs"
  by (induction xs) auto

lemma those_Some_iff: "those xs = Some ys \<longleftrightarrow> xs = map Some ys"
  by (induction xs arbitrary: ys) (auto simp: Cons_eq_map_conv split: option.splits)

lemma ip_int_roundtrip: "a < 2 ^ 32 \<Longrightarrow> ip_int_from_string (string_from_ip_int a) = Some a"
proof -
  assume a: "a < 2 ^ 32"
  have "map parse_octet (map string_of_nat (octets a)) = map Some (octets a)"
    using octets_bound [of _ a] by (simp add: parse_octet_string_of_nat)
  moreover have "length (map string_of_nat (octets a)) = 4" by (simp add: octets_def)
  ultimately show ?thesis
    by (simp only: ip_int_from_string_def split_string_from_ip_int Let_def those_map_Some
        option.map from_bytes_octets [OF a]) simp
qed

lemma ip_int_from_string_Some:
  assumes "ip_int_from_string s = Some a"
  shows "s = string_from_ip_int a \<and> a < 2 ^ 32"
proof -
  let ?ws = "split_on (CHR ''.'') s"
  obtain os where os: "map parse_octet ?ws = map Some os" and a: "a = from_bytes os" and len: "length ?ws = 4"
    using assms by (auto simp: ip_int_from_string_def Let_def those_Some_iff split: if_splits)
  have len': "length os = 4" using arg_cong [OF os, of length] len by simp
  have nth: "?ws ! i = string_of_nat (os ! i) \<and> os ! i \<le> 255" if "i < 4" for i
    using arg_cong [OF os, of "\<lambda>l. l ! i"] that len len' parse_octet_Some by simp
  then have ws: "?ws = map string_of_nat os" by (intro nth_equalityI) (simp_all add: len len')
  have b: "\<forall>x \<in> set os. x \<le> 255" using nth len' by (auto simp: in_set_conv_nth)
  obtain w x y z where o4: "os = [w, x, y, z]" using len' by (auto simp: length_Suc_conv numeral_eq_Suc)
  then have "octets a = os" using octets_from_bytes [of w x y z] b a by simp
  then have "s = string_from_ip_int a"
    using join_split_on [of "CHR ''.''" s] ws by (simp add: string_from_ip_int_def)
  moreover have "a < 2 ^ 32" using from_bytes_bound [OF b] a len' by simp
  ultimately show ?thesis by simp
qed

lemma IPv4Address_iff: "IPv4Address s = Some a \<longleftrightarrow> a < 2 ^ 32 \<and> s = string_from_ip_int a"
  using ip_int_from_string_Some [of s a] ip_int_roundtrip [of a] string_from_ip_int_chars [of a]
  by (auto simp: IPv4Address_def)

lemma string_from_ip_int_inj:
  "a < 2 ^ 32 \<Longrightarrow> b < 2 ^ 32 \<Longrightarrow> string_from_ip_int a = string_from_ip_int b \<longleftrightarrow> a = b"
  by (metis ip_int_roundtrip option.inject)

lemma prefix_from_ip_int_bound: "prefix_from_ip_int m = Some q \<Longrightarrow> q \<le> 32"
  by (auto simp: prefix_from_ip_int_def find_Some_iff)

lemma make_netmask_bound: "make_netmask m = Some q \<Longrightarrow> q \<le> 32"
  by (auto simp: make_netmask_def prefix_from_prefix_string_def prefix_from_ip_string_def
      split: option.splits if_splits dest: prefix_from_ip_int_bound)

lemma split_addr_prefix_cases:
  assumes "split_addr_prefix s = Some (ip, p)"
  obtains a m where "ip_int_from_string a = Some ip" and "p = 32 \<or> make_netmask m = Some p"
  using assms that
  by (auto simp: split_addr_prefix_def split: list.splits option.splits)

lemma split_addr_prefix_bound: "split_addr_prefix s = Some (ip, p) \<Longrightarrow> ip < 2 ^ 32 \<and> p \<le> 32"
  by (erule split_addr_prefix_cases) (use ip_int_from_string_Some make_netmask_bound in blast)

lemma string_from_ip_int_split:
  "a < 2 ^ 32 \<Longrightarrow> split_addr_prefix (string_from_ip_int a) = Some (a, 32)"
  using ip_int_roundtrip [of a]
  by (simp add: split_addr_prefix_def split_on_no_sep string_from_ip_int_chars)

lemma prefix_string_roundtrip: "p \<le> 32 \<Longrightarrow> make_netmask (string_of_nat p) = Some p"
  using string_of_nat_digits [of p] by (simp add: make_netmask_def prefix_from_prefix_string_def)

lemma cidr_split:
  "a < 2 ^ 32 \<Longrightarrow> p \<le> 32 \<Longrightarrow>
   split_addr_prefix (string_from_ip_int a @ CHR ''/'' # string_of_nat p) = Some (a, p)"
  using ip_int_roundtrip [of a] string_from_ip_int_chars [of a] digits_no_slash [OF string_of_nat_digits [of p]]
  by (simp add: split_addr_prefix_def split_on_append_sep split_on_no_sep prefix_string_roundtrip)

subsection \<open>Membership\<close>

lemma in_network_iff:
  assumes "host_part (prefixlen n) (network_address n) = 0"
  shows "in_network a n \<longleftrightarrow> network_address n \<le> a \<and> a \<le> broadcast_address n"
proof -
  let ?m = "2 ^ (32 - prefixlen n) :: nat"
  obtain q where q: "network_address n = q * ?m"
    using assms by (auto simp: host_part_def mod_eq_0_iff_dvd dvd_def)
  have sub: "a - a mod ?m = a div ?m * ?m" by (simp add: minus_mod_eq_div_mult)
  have pos: "0 < ?m" by simp
  have "a div ?m = q \<longleftrightarrow> q * ?m \<le> a \<and> a < q * ?m + ?m"
  proof
    assume "a div ?m = q"
    then show "q * ?m \<le> a \<and> a < q * ?m + ?m"
      using div_times_less_eq_dividend [of a ?m] dividend_less_div_times [OF pos, of a]
      by (simp add: add.commute)
  next
    assume "q * ?m \<le> a \<and> a < q * ?m + ?m"
    then show "a div ?m = q" by (intro div_nat_eqI) (simp_all add: mult.commute add.commute)
  qed
  moreover have "a div ?m * ?m = q * ?m \<longleftrightarrow> a div ?m = q" by simp
  moreover have "a < q * ?m + ?m \<longleftrightarrow> a \<le> q * ?m + ?m - 1" using pos by linarith
  ultimately show ?thesis
    by (simp add: in_network_def host_part_def sub broadcast_address_def q)
qed

end
