(* ===== verification/Devices.thy ===== *)
theory Devices
  imports Names Ipv4
begin

text \<open>
  The value types of a plan: typed handles (\<^verbatim>\<open>handles.py\<close>), NIC address modes and
  devices (\<^verbatim>\<open>devices/\<close> and the backend-specific subclasses of
  \<^verbatim>\<open>drivers/proxmox/devices.py\<close> and \<^verbatim>\<open>drivers/esxi/devices.py\<close>), storage pools,
  VM specs and recipes (\<^verbatim>\<open>vms/\<close>). A Python constructor that validates is a function into
  the result type; the dataclass itself is a record or a constructor of a datatype. A handle
  is a Python \<^verbatim>\<open>str\<close>, so code that compares or formats a handle reads
  its name.
\<close>

subsection \<open>Handles\<close>

datatype handle =
    PoolHandle name
  | SwitchHandle name
  | NetworkHandle name name
  | VMHandle name

definition mk_PoolHandle :: "name \<Rightarrow> handle result" where
  "mk_PoolHandle n = (if n = [] then Inl (ValueError []) else Inr (PoolHandle n))"

definition mk_SwitchHandle :: "name \<Rightarrow> handle result" where
  "mk_SwitchHandle n = (if n = [] then Inl (ValueError []) else Inr (SwitchHandle n))"

definition mk_NetworkHandle :: "name \<Rightarrow> name \<Rightarrow> handle result" where
  "mk_NetworkHandle n sw =
     (if n = [] then Inl (ValueError []) else if sw = [] then Inl (ValueError [n])
      else Inr (NetworkHandle n sw))"

definition mk_VMHandle :: "name \<Rightarrow> handle result" where
  "mk_VMHandle n = (if n = [] then Inl (ValueError []) else Inr (VMHandle n))"

fun handle_str :: "handle \<Rightarrow> name" where
  "handle_str (PoolHandle n) = n"
| "handle_str (SwitchHandle n) = n"
| "handle_str (NetworkHandle n _) = n"
| "handle_str (VMHandle n) = n"

fun node_name :: "handle \<Rightarrow> name" where
  "node_name (PoolHandle n) = ''pool:'' @ n"
| "node_name (SwitchHandle n) = ''network:'' @ n"
| "node_name (NetworkHandle _ sw) = ''network:'' @ sw"
| "node_name (VMHandle n) = ''vm:'' @ n"

fun is_PoolHandle :: "handle \<Rightarrow> bool" where
  "is_PoolHandle (PoolHandle _) = True"
| "is_PoolHandle _ = False"

fun is_NetworkHandle :: "handle \<Rightarrow> bool" where
  "is_NetworkHandle (NetworkHandle _ _) = True"
| "is_NetworkHandle _ = False"

subsection \<open>Address modes\<close>

record static_addr =
  addr :: string
  gw :: "string option"
  dns :: "string list"

datatype addr_mode = DHCPAddr | StaticAddr static_addr

definition mk_StaticAddr :: "string \<Rightarrow> string option \<Rightarrow> string list \<Rightarrow> static_addr result" where
  "mk_StaticAddr a g ds =
     bindR (guardR (IPv4Interface a \<noteq> None) (ValueError [a])) (\<lambda>_.
     bindR (guardR (case g of None \<Rightarrow> True | Some x \<Rightarrow> IPv4Address x \<noteq> None) (ValueError (case g of None \<Rightarrow> [] | Some x \<Rightarrow> [x]))) (\<lambda>_.
     bindR (for_each (\<lambda>d. guardR (IPv4Address d \<noteq> None) (ValueError [d])) ds) (\<lambda>_.
     Inr \<lparr>addr = a, gw = g, dns = ds\<rparr>)))"

definition host :: "static_addr \<Rightarrow> string" where
  "host a = string_from_ip_int (if_ip (the (IPv4Interface (addr a))))"

definition static_cidr :: "static_addr \<Rightarrow> nat option \<Rightarrow> string result" where
  "static_cidr a derived =
     (let iface = the (IPv4Interface (addr a))
      in if CHR ''/'' \<in> set (addr a) then Inr (with_prefixlen iface)
         else case derived of
             None \<Rightarrow> Inl (ValueError [addr a])
           | Some p \<Rightarrow> Inr (string_from_ip_int (if_ip iface) @ ''/'' @ string_of_nat p))"

subsection \<open>Devices\<close>

datatype device =
    CPU int bool
  | Memory int
  | OSDrive handle int
  | LibvirtOSDrive handle int string
  | HardDrive handle int
  | LibvirtDataDrive handle int string
  | ProxmoxHardDrive handle int string
  | ESXiHardDrive handle int string
  | NetworkIface handle "addr_mode option"
  | LibvirtNetworkIface handle "addr_mode option" string

definition mk_CPU :: "int \<Rightarrow> bool \<Rightarrow> device result" where
  "mk_CPU n nested = (if n < 1 then Inl (ValueError [string_of_int n]) else Inr (CPU n nested))"

definition mk_Memory :: "int \<Rightarrow> device result" where
  "mk_Memory mb = (if mb < 1 then Inl (ValueError [string_of_int mb]) else Inr (Memory mb))"

text \<open>\<^verbatim>\<open>_Disk.__post_init__\<close>, given the name of the concrete class.\<close>

definition check_disk :: "string \<Rightarrow> handle \<Rightarrow> int \<Rightarrow> unit result" where
  "check_disk cls pool size_gb =
     bindR (guardR (is_PoolHandle pool) (TypeError [cls])) (\<lambda>_.
     guardR (1 \<le> size_gb) (ValueError [cls, string_of_int size_gb]))"

definition mk_OSDrive :: "handle \<Rightarrow> int \<Rightarrow> device result" where
  "mk_OSDrive p s = bindR (check_disk ''OSDrive'' p s) (\<lambda>_. Inr (OSDrive p s))"

definition mk_HardDrive :: "handle \<Rightarrow> int \<Rightarrow> device result" where
  "mk_HardDrive p s = bindR (check_disk ''HardDrive'' p s) (\<lambda>_. Inr (HardDrive p s))"

definition LIBVIRT_DISK_BUSES :: "string list" where
  "LIBVIRT_DISK_BUSES = [''virtio'', ''sata'', ''ide'', ''scsi'']"

definition check_libvirt_disk :: "string \<Rightarrow> handle \<Rightarrow> int \<Rightarrow> string \<Rightarrow> unit result" where
  "check_libvirt_disk cls p s bus =
     bindR (check_disk cls p s) (\<lambda>_.
     guardR (bus \<in> set LIBVIRT_DISK_BUSES) (ValueError [cls, bus]))"

definition mk_LibvirtOSDrive :: "handle \<Rightarrow> int \<Rightarrow> string \<Rightarrow> device result" where
  "mk_LibvirtOSDrive p s bus =
     bindR (check_libvirt_disk ''LibvirtOSDrive'' p s bus) (\<lambda>_. Inr (LibvirtOSDrive p s bus))"

definition mk_LibvirtDataDrive :: "handle \<Rightarrow> int \<Rightarrow> string \<Rightarrow> device result" where
  "mk_LibvirtDataDrive p s bus =
     bindR (check_libvirt_disk ''LibvirtDataDrive'' p s bus) (\<lambda>_. Inr (LibvirtDataDrive p s bus))"

definition PVE_DISK_BUSES :: "string list" where
  "PVE_DISK_BUSES = [''scsi'', ''virtio'', ''sata'', ''ide'']"

definition mk_ProxmoxHardDrive :: "handle \<Rightarrow> int \<Rightarrow> string \<Rightarrow> device result" where
  "mk_ProxmoxHardDrive p s bus =
     bindR (check_disk ''ProxmoxHardDrive'' p s) (\<lambda>_.
     bindR (guardR (bus \<in> set PVE_DISK_BUSES) (ValueError [bus])) (\<lambda>_. Inr (ProxmoxHardDrive p s bus)))"

definition ESXI_DISK_BUSES :: "string list" where
  "ESXI_DISK_BUSES = [''scsi'', ''sata'', ''ide'', ''nvme'']"

definition mk_ESXiHardDrive :: "handle \<Rightarrow> int \<Rightarrow> string \<Rightarrow> device result" where
  "mk_ESXiHardDrive p s bus =
     bindR (check_disk ''ESXiHardDrive'' p s) (\<lambda>_.
     bindR (guardR (bus \<in> set ESXI_DISK_BUSES) (ValueError [bus])) (\<lambda>_. Inr (ESXiHardDrive p s bus)))"

definition mk_NetworkIface :: "handle \<Rightarrow> addr_mode option \<Rightarrow> device result" where
  "mk_NetworkIface n a = (if is_NetworkHandle n then Inr (NetworkIface n a) else Inl (TypeError []))"

definition LIBVIRT_NIC_MODELS :: "string list" where
  "LIBVIRT_NIC_MODELS = [''virtio'', ''e1000'', ''e1000e'', ''rtl8139'']"

definition mk_LibvirtNetworkIface :: "handle \<Rightarrow> addr_mode option \<Rightarrow> string \<Rightarrow> device result" where
  "mk_LibvirtNetworkIface n a model =
     bindR (mk_NetworkIface n a) (\<lambda>_.
     bindR (guardR (model \<in> set LIBVIRT_NIC_MODELS) (ValueError [model])) (\<lambda>_.
     Inr (LibvirtNetworkIface n a model)))"

text \<open>The \<^verbatim>\<open>isinstance\<close> tests on devices, and the fields the subclasses share.\<close>

fun is_CPU :: "device \<Rightarrow> bool" where
  "is_CPU (CPU _ _) = True" | "is_CPU _ = False"

fun is_Memory :: "device \<Rightarrow> bool" where
  "is_Memory (Memory _) = True" | "is_Memory _ = False"

fun is_OSDrive :: "device \<Rightarrow> bool" where
  "is_OSDrive (OSDrive _ _) = True" | "is_OSDrive (LibvirtOSDrive _ _ _) = True" | "is_OSDrive _ = False"

fun is_HardDrive :: "device \<Rightarrow> bool" where
  "is_HardDrive (HardDrive _ _) = True" | "is_HardDrive (LibvirtDataDrive _ _ _) = True"
| "is_HardDrive (ProxmoxHardDrive _ _ _) = True" | "is_HardDrive (ESXiHardDrive _ _ _) = True"
| "is_HardDrive _ = False"

fun is_NetworkIface :: "device \<Rightarrow> bool" where
  "is_NetworkIface (NetworkIface _ _) = True" | "is_NetworkIface (LibvirtNetworkIface _ _ _) = True"
| "is_NetworkIface _ = False"

fun disk_pool :: "device \<Rightarrow> handle" where
  "disk_pool (OSDrive p _) = p" | "disk_pool (LibvirtOSDrive p _ _) = p"
| "disk_pool (HardDrive p _) = p" | "disk_pool (LibvirtDataDrive p _ _) = p"
| "disk_pool (ProxmoxHardDrive p _ _) = p" | "disk_pool (ESXiHardDrive p _ _) = p"
| "disk_pool _ = PoolHandle []"

fun disk_size_gb :: "device \<Rightarrow> int" where
  "disk_size_gb (OSDrive _ s) = s" | "disk_size_gb (LibvirtOSDrive _ s _) = s"
| "disk_size_gb (HardDrive _ s) = s" | "disk_size_gb (LibvirtDataDrive _ s _) = s"
| "disk_size_gb (ProxmoxHardDrive _ s _) = s" | "disk_size_gb (ESXiHardDrive _ s _) = s"
| "disk_size_gb _ = 0"

fun nic_network :: "device \<Rightarrow> handle" where
  "nic_network (NetworkIface n _) = n" | "nic_network (LibvirtNetworkIface n _ _) = n"
| "nic_network _ = NetworkHandle [] []"

fun nic_addr :: "device \<Rightarrow> addr_mode option" where
  "nic_addr (NetworkIface _ a) = a" | "nic_addr (LibvirtNetworkIface _ a _) = a"
| "nic_addr _ = None"

subsection \<open>Pools, specs and recipes\<close>

record storage_pool =
  sp_name :: name
  sp_size_gb :: int

definition StoragePool :: "name \<Rightarrow> int \<Rightarrow> storage_pool result" where
  "StoragePool n s =
     (if n = [] then Inl (ValueError [])
      else if s < 1 then Inl (ValueError [string_of_int s])
      else Inr \<lparr>sp_name = n, sp_size_gb = s\<rparr>)"

record vm_spec =
  vs_name :: name
  devices :: "device list"
  firmware :: string

definition FIRMWARES :: "string list" where
  "FIRMWARES = [''bios'', ''uefi'']"

definition count_dev :: "(device \<Rightarrow> bool) \<Rightarrow> device list \<Rightarrow> nat" where
  "count_dev P ds = length (filter P ds)"

definition VMSpec :: "name \<Rightarrow> device list \<Rightarrow> string \<Rightarrow> vm_spec result" where
  "VMSpec n ds fw =
     bindR (guardR (n \<noteq> []) (ValueError [])) (\<lambda>_.
     bindR (guardR (fw \<in> set FIRMWARES) (ValueError [n, fw])) (\<lambda>_.
     bindR (guardR (count_dev is_CPU ds = 1) (ValueError [n, string_of_nat (count_dev is_CPU ds)])) (\<lambda>_.
     bindR (guardR (count_dev is_Memory ds = 1) (ValueError [n, string_of_nat (count_dev is_Memory ds)])) (\<lambda>_.
     bindR (guardR (count_dev is_OSDrive ds = 1) (ValueError [n, string_of_nat (count_dev is_OSDrive ds)])) (\<lambda>_.
     Inr \<lparr>vs_name = n, devices = ds, firmware = fw\<rparr>)))))"

text \<open>The accessors; \<^verbatim>\<open>next(...)\<close> on an empty generator raises, which the constructor
  rules out, so it is the head of the filtered list.\<close>

definition cpu :: "vm_spec \<Rightarrow> device" where
  "cpu s = hd (filter is_CPU (devices s))"

definition memory :: "vm_spec \<Rightarrow> device" where
  "memory s = hd (filter is_Memory (devices s))"

definition os_drive :: "vm_spec \<Rightarrow> device" where
  "os_drive s = hd (filter is_OSDrive (devices s))"

definition data_drives :: "vm_spec \<Rightarrow> device list" where
  "data_drives s = filter is_HardDrive (devices s)"

definition nics :: "vm_spec \<Rightarrow> device list" where
  "nics s = filter is_NetworkIface (devices s)"

text \<open>A recipe: the builder and the communicator are opaque to the plan.\<close>

record ('b, 'c) vm_recipe =
  vr_spec :: vm_spec
  vr_builder :: 'b
  vr_communicator :: 'c

definition vr_name :: "('b, 'c) vm_recipe \<Rightarrow> name" where
  "vr_name r = vs_name (vr_spec r)"

subsection \<open>Lemmas\<close>

lemma static_addr_iface:
  assumes "mk_StaticAddr a g ds = Inr s"
  shows "\<exists>i. IPv4Interface (addr s) = Some i \<and> if_ip i < 2 ^ 32 \<and> if_prefixlen i \<le> 32"
  using assms split_addr_prefix_bound [of a]
  by (auto simp: mk_StaticAddr_def IPv4Interface_def result_simps)

lemma filter_count_1: "count_dev P ds = 1 \<Longrightarrow> filter P ds = [hd (filter P ds)]"
  by (cases "filter P ds") (simp_all add: count_dev_def)

lemma devices_partition:
  "length ds = count_dev is_CPU ds + count_dev is_Memory ds + count_dev is_OSDrive ds
     + count_dev is_HardDrive ds + count_dev is_NetworkIface ds"
proof (induction ds)
  case (Cons d ds)
  then show ?case by (cases d) (simp_all add: count_dev_def)
qed (simp add: count_dev_def)

lemma VMSpec_Inr:
  "VMSpec n ds fw = Inr s \<longleftrightarrow> n \<noteq> [] \<and> fw \<in> set FIRMWARES \<and> count_dev is_CPU ds = 1 \<and>
     count_dev is_Memory ds = 1 \<and> count_dev is_OSDrive ds = 1 \<and> s = \<lparr>vs_name = n, devices = ds, firmware = fw\<rparr>"
  by (auto simp: VMSpec_def result_simps)

subsection \<open>Properties\<close>

text \<open>A VM spec is accepted exactly when it is named, its firmware is known and it has
  exactly one CPU, one memory and one OS drive; the accessors then return that one device,
  and the data drives and NICs are the remaining disks and NICs in declaration order.\<close>

theorem VMSpec_singletons:
  assumes "VMSpec n ds fw = Inr s"
  shows "n \<noteq> [] \<and> fw \<in> {''bios'', ''uefi''} \<and>
    filter is_CPU ds = [cpu s] \<and> filter is_Memory ds = [memory s] \<and> filter is_OSDrive ds = [os_drive s] \<and>
    length ds = 3 + length (data_drives s) + length (nics s)"
proof -
  have s: "n \<noteq> []" "fw \<in> set FIRMWARES" "count_dev is_CPU ds = 1" "count_dev is_Memory ds = 1"
    "count_dev is_OSDrive ds = 1" "devices s = ds"
    using assms by (auto simp: VMSpec_Inr)
  have "length ds = 3 + length (data_drives s) + length (nics s)"
    using devices_partition [of ds] s(3-6) by (simp add: data_drives_def nics_def count_dev_def)
  moreover have "filter is_CPU ds = [cpu s]" "filter is_Memory ds = [memory s]"
      "filter is_OSDrive ds = [os_drive s]"
    unfolding cpu_def memory_def os_drive_def s(6) by (rule filter_count_1, fact)+
  ultimately show ?thesis using s(1,2) by (simp add: FIRMWARES_def)
qed

theorem VMSpec_singletons_witness:
  "\<exists>s. VMSpec ''web'' [CPU 2 False, Memory 512, OSDrive (PoolHandle ''p'') 8] ''bios'' = Inr s \<and>
     os_drive s = OSDrive (PoolHandle ''p'') 8"
proof -
  obtain s where "VMSpec ''web'' [CPU 2 False, Memory 512, OSDrive (PoolHandle ''p'') 8] ''bios'' = Inr s"
    by (simp add: VMSpec_Inr count_dev_def FIRMWARES_def)
  with VMSpec_singletons [OF this] show ?thesis by auto
qed

text \<open>A static address prints as one canonical string. The host string of an accepted address
  parses back to the address itself, so two accepted addresses have the same host string exactly
  when they denote the same host; and the CIDR form carries the address's own prefix if one is
  written and otherwise the derived one, failing only when there is neither.\<close>

theorem static_addr_canonical:
  assumes "mk_StaticAddr a g ds = Inr s" and "mk_StaticAddr a' g' ds' = Inr s'"
    and "p = None \<or> the p \<le> 32"
  defines "ip \<equiv> if_ip (the (IPv4Interface a))" and "ip' \<equiv> if_ip (the (IPv4Interface a'))"
  shows "IPv4Address (host s) = Some ip \<and> (host s = host s' \<longleftrightarrow> ip = ip') \<and>
    (case static_cidr s p of
       Inr t \<Rightarrow> split_addr_prefix t = Some (ip, if CHR ''/'' \<in> set a then if_prefixlen (the (IPv4Interface a)) else the p)
     | Inl e \<Rightarrow> e = ValueError [a] \<and> CHR ''/'' \<notin> set a \<and> p = None)"
proof -
  have eq: "addr s = a" "addr s' = a'" using assms(1,2) by (auto simp: mk_StaticAddr_def result_simps)
  obtain i where i: "IPv4Interface a = Some i" "if_ip i < 2 ^ 32" "if_prefixlen i \<le> 32"
    using static_addr_iface [OF assms(1)] eq by auto
  obtain i' where i': "IPv4Interface a' = Some i'" "if_ip i' < 2 ^ 32"
    using static_addr_iface [OF assms(2)] eq by auto
  have h: "host s = string_from_ip_int ip" "host s' = string_from_ip_int ip'" "ip = if_ip i" "ip' = if_ip i'"
    by (simp_all add: host_def eq ip_def ip'_def i(1) i'(1))
  have "IPv4Address (host s) = Some ip" using h i(2) by (simp only: IPv4Address_iff)
  moreover have "host s = host s' \<longleftrightarrow> ip = ip'"
    using string_from_ip_int_inj [OF i(2) i'(2)] by (simp only: h)
  moreover have "split_addr_prefix (string_from_ip_int ip @ ''/'' @ string_of_nat q) = Some (ip, q)" if "q \<le> 32" for q
    using cidr_split [of ip q] that i(2) h by simp
  ultimately show ?thesis
    using i(3) assms(3) by (auto simp: static_cidr_def eq i(1) with_prefixlen_def h(3) Let_def split: option.splits)
qed

theorem static_addr_canonical_witness:
  "\<exists>s s'. mk_StaticAddr ''10.0.0.5/24'' None [] = Inr s \<and> mk_StaticAddr ''10.0.0.5'' None [] = Inr s' \<and>
     host s = host s'"
proof -
  have h: "mk_StaticAddr ''10.0.0.5/24'' None [] = Inr \<lparr>addr = ''10.0.0.5/24'', gw = None, dns = []\<rparr>"
    "mk_StaticAddr ''10.0.0.5'' None [] = Inr \<lparr>addr = ''10.0.0.5'', gw = None, dns = []\<rparr>"
    "if_ip (the (IPv4Interface ''10.0.0.5/24'')) = if_ip (the (IPv4Interface ''10.0.0.5''))"
    by code_simp+
  show ?thesis using static_addr_canonical [OF h(1,2), of None] h by auto
qed

end
