(* ===== verification/Networks.thy ===== *)
theory Networks
  imports Devices
begin

text \<open>
  Switches, networks, sidecars and the addressing layout: \<^verbatim>\<open>networks/base.py\<close> and
  \<^verbatim>\<open>networks/_addressing_consts.py\<close>.
\<close>

subsection \<open>The reserved-address layout\<close>

definition SIDECAR_OFFSET :: nat where "SIDECAR_OFFSET = 1"
definition MGMT_OFFSET :: nat where "MGMT_OFFSET = 2"
definition BUILD_NIC_OFFSET :: nat where "BUILD_NIC_OFFSET = 3"
definition DHCP_RANGE_LO :: nat where "DHCP_RANGE_LO = 10"
definition DHCP_RANGE_HI :: nat where "DHCP_RANGE_HI = 99"
definition USER_STATIC_LO :: nat where "USER_STATIC_LO = 100"
definition USER_STATIC_HI :: nat where "USER_STATIC_HI = 254"

lemmas layout_defs = SIDECAR_OFFSET_def MGMT_OFFSET_def BUILD_NIC_OFFSET_def DHCP_RANGE_LO_def
  DHCP_RANGE_HI_def USER_STATIC_LO_def USER_STATIC_HI_def

subsection \<open>Declarations\<close>

record network =
  nw_name :: name

definition Network :: "name \<Rightarrow> network result" where
  "Network n = (if n = [] then Inl (ValueError []) else Inr \<lparr>nw_name = n\<rparr>)"

record sidecar =
  dhcp :: bool
  sc_dns :: bool
  nat_flag :: bool
  sc_addr :: "static_addr option"

definition Sidecar :: "bool \<Rightarrow> bool \<Rightarrow> bool \<Rightarrow> static_addr option \<Rightarrow> sidecar result" where
  "Sidecar dh dn nt a =
     bindR (guardR (dh \<or> dn \<or> nt) (ValueError [])) (\<lambda>_.
     bindR (case a of
        None \<Rightarrow> Inr ()
      | Some s \<Rightarrow> bindR (guardR nt (ValueError [])) (\<lambda>_.
                   guardR (CHR ''/'' \<in> set (addr s)) (ValueError [addr s]))) (\<lambda>_.
     Inr \<lparr>dhcp = dh, sc_dns = dn, nat_flag = nt, sc_addr = a\<rparr>))"

record switch =
  sw_name :: name
  networks :: "network list"
  cidr :: string
  uplink :: "name option"
  mgmt :: bool
  sw_sidecar :: "sidecar option"

text \<open>\<^verbatim>\<open>Switch.__init__\<close>. The strict network parse fails on host bits, and the constructor
  rejects what is not IPv4; both raise a \<^verbatim>\<open>ValueError\<close> naming the CIDR.\<close>

definition Switch :: "name \<Rightarrow> network list \<Rightarrow> string \<Rightarrow> name option \<Rightarrow> bool \<Rightarrow> sidecar option \<Rightarrow> switch result"
where
  "Switch n nets c up mg sc =
     bindR (guardR (n \<noteq> []) (ValueError [])) (\<lambda>_.
     bindR (guardR (up \<noteq> Some []) (ValueError [])) (\<lambda>_.
     case IPv4Network c of
       None \<Rightarrow> Inl (ValueError [c])
     | Some parsed \<Rightarrow>
         bindR (guardR (prefixlen parsed \<le> 24) (ValueError [string_of_nat (prefixlen parsed), c])) (\<lambda>_.
         bindR (guardR (case sc of None \<Rightarrow> True | Some s \<Rightarrow> \<not> (nat_flag s \<and> up = None)) (ValueError [n])) (\<lambda>_.
         Inr \<lparr>sw_name = n, networks = nets, cidr = c, uplink = up, mgmt = mg, sw_sidecar = sc\<rparr>))))"

definition sw_network :: "switch \<Rightarrow> ipv4_network" where
  "sw_network s = the (IPv4Network (cidr s))"

text \<open>Addresses at an offset from the network address; the sum is in range for every
  accepted switch (property below), so the model keeps the number.\<close>

definition at_offset :: "switch \<Rightarrow> nat \<Rightarrow> nat" where
  "at_offset s k = the (ip_add (network_address (sw_network s)) k)"

definition sidecar_ip :: "switch \<Rightarrow> string" where
  "sidecar_ip s = string_from_ip_int (at_offset s SIDECAR_OFFSET)"

definition mgmt_ip :: "switch \<Rightarrow> string" where
  "mgmt_ip s = string_from_ip_int (at_offset s MGMT_OFFSET)"

definition needs_sidecar :: "switch \<Rightarrow> bool" where
  "needs_sidecar s \<longleftrightarrow> sw_sidecar s \<noteq> None"

record network_addressing =
  na_cidr :: string
  na_prefix_len :: nat
  na_dhcp :: bool
  na_gateway :: "string option"
  na_dns_server :: "string option"

definition from_switch :: "switch \<Rightarrow> network_addressing" where
  "from_switch s =
     \<lparr>na_cidr = cidr s,
      na_prefix_len = prefixlen (sw_network s),
      na_dhcp = (case sw_sidecar s of None \<Rightarrow> False | Some c \<Rightarrow> dhcp c),
      na_gateway = (case sw_sidecar s of Some c \<Rightarrow> if nat_flag c then Some (sidecar_ip s) else None | None \<Rightarrow> None),
      na_dns_server = (case sw_sidecar s of Some c \<Rightarrow> if sc_dns c then Some (sidecar_ip s) else None | None \<Rightarrow> None)\<rparr>"

subsection \<open>Lemmas\<close>

definition switch_ok :: "switch \<Rightarrow> bool" where
  "switch_ok s \<longleftrightarrow> sw_name s \<noteq> [] \<and>
     (\<exists>n. IPv4Network (cidr s) = Some n \<and> prefixlen n \<le> 24) \<and>
     (\<forall>c. sw_sidecar s = Some c \<and> nat_flag c \<longrightarrow> uplink s \<noteq> None)"

lemma Switch_ok: "Switch n nets c up mg sc = Inr s \<Longrightarrow> switch_ok s"
  by (auto simp: Switch_def switch_ok_def result_simps split: option.splits)

lemma IPv4Network_props:
  assumes "IPv4Network c = Some n"
  shows "network_address n < 2 ^ 32" "prefixlen n \<le> 32" "host_part (prefixlen n) (network_address n) = 0"
proof -
  obtain ip p where s: "split_addr_prefix c = Some (ip, p)" and h: "host_part p ip = 0"
    and n: "n = \<lparr>network_address = ip, prefixlen = p\<rparr>"
    using assms by (auto simp: IPv4Network_def split: option.splits if_splits)
  show "network_address n < 2 ^ 32" "prefixlen n \<le> 32" "host_part (prefixlen n) (network_address n) = 0"
    using split_addr_prefix_bound [OF s] h unfolding n by simp_all
qed

lemma sw_network_props:
  assumes "switch_ok s"
  shows "network_address (sw_network s) + 255 < 2 ^ 32" "prefixlen (sw_network s) \<le> 24"
    "host_part (prefixlen (sw_network s)) (network_address (sw_network s)) = 0"
    "network_address (sw_network s) + 255 \<le> broadcast_address (sw_network s)"
    "broadcast_address (sw_network s) < 2 ^ 32"
proof -
  obtain n where n: "IPv4Network (cidr s) = Some n" "prefixlen n \<le> 24"
    using assms by (auto simp: switch_ok_def)
  note p = IPv4Network_props [OF n(1)]
  let ?h = "2 ^ (32 - prefixlen n) :: nat"
  have "(2::nat) ^ 8 \<le> ?h" by (rule power_increasing) (use n(2) in auto)
  then have h: "256 \<le> ?h" by simp
  have dvd: "?h dvd 2 ^ 32" by (rule le_imp_power_dvd) simp
  have "?h dvd network_address n" using p(3) by (auto simp: host_part_def)
  with dvd p(1) have "network_address n + ?h \<le> 2 ^ 32"
    by (metis dvd_imp_le dvd_diff_nat le_diff_conv2 less_imp_le_nat zero_less_diff add.commute)
  then show "network_address (sw_network s) + 255 < 2 ^ 32" "prefixlen (sw_network s) \<le> 24"
    "host_part (prefixlen (sw_network s)) (network_address (sw_network s)) = 0"
    "network_address (sw_network s) + 255 \<le> broadcast_address (sw_network s)"
    "broadcast_address (sw_network s) < 2 ^ 32"
    using h n p(3) by (simp_all add: sw_network_def broadcast_address_def)
qed

lemma at_offset_eq: "switch_ok s \<Longrightarrow> k \<le> 255 \<Longrightarrow> at_offset s k = network_address (sw_network s) + k"
  using sw_network_props(1) [of s] by (simp add: at_offset_def ip_add_def ALL_ONES_def)

lemma at_offset_bound: "switch_ok s \<Longrightarrow> k \<le> 255 \<Longrightarrow> at_offset s k < 2 ^ 32"
  using sw_network_props(1) [of s] by (simp add: at_offset_eq)

lemma at_offset_in:
  assumes "switch_ok s" and "0 < k" and "k < 255"
  shows "in_network (at_offset s k) (sw_network s)"
    "network_address (sw_network s) < at_offset s k" "at_offset s k < broadcast_address (sw_network s)"
  using assms sw_network_props [OF assms(1)] in_network_iff [of "sw_network s" "at_offset s k"]
  by (simp_all add: at_offset_eq)

subsection \<open>Properties\<close>

text \<open>The reserved layout fits every accepted switch. At each offset from 1 to 254 the address
  arithmetic does not overflow and the result is a host address of the subnet: inside it, and
  neither its network nor its broadcast address. Different offsets give different
  printed addresses, so the sidecar, the management adapter, the build NIC, the DHCP pool
  and the user static range never overlap.\<close>

theorem reserved_layout_fits:
  assumes "Switch n nets c up mg sc = Inr s" and "0 < k" and "k \<le> 254"
  shows "ip_add (network_address (sw_network s)) k = Some (at_offset s k) \<and>
    in_network (at_offset s k) (sw_network s) \<and>
    at_offset s k \<noteq> network_address (sw_network s) \<and> at_offset s k \<noteq> broadcast_address (sw_network s) \<and>
    (\<forall>j. 0 < j \<and> j \<le> 254 \<longrightarrow>
       (string_from_ip_int (at_offset s j) = string_from_ip_int (at_offset s k) \<longleftrightarrow> j = k))"
proof -
  note ok = Switch_ok [OF assms(1)]
  have "ip_add (network_address (sw_network s)) k = Some (at_offset s k)"
    using at_offset_eq [OF ok, of k] at_offset_bound [OF ok, of k] assms(3)
    by (simp add: ip_add_def ALL_ONES_def)
  moreover have "string_from_ip_int (at_offset s j) = string_from_ip_int (at_offset s k) \<longleftrightarrow> j = k"
    if "0 < j \<and> j \<le> 254" for j
    using string_from_ip_int_inj [OF at_offset_bound [OF ok, of j] at_offset_bound [OF ok, of k]] that assms(3)
    by (simp add: at_offset_eq [OF ok])
  ultimately show ?thesis
    using at_offset_in [OF ok assms(2)] assms(3) by auto
qed

theorem reserved_layout_fits_witness:
  "\<exists>s. Switch ''lan'' [\<lparr>nw_name = ''a''\<rparr>] ''192.168.10.0/24'' None True None = Inr s \<and>
     in_network (at_offset s SIDECAR_OFFSET) (sw_network s)"
proof -
  have h: "Switch ''lan'' [\<lparr>nw_name = ''a''\<rparr>] ''192.168.10.0/24'' None True None =
    Inr \<lparr>sw_name = ''lan'', networks = [\<lparr>nw_name = ''a''\<rparr>], cidr = ''192.168.10.0/24'', uplink = None,
         mgmt = True, sw_sidecar = None\<rparr>" by code_simp
  show ?thesis using reserved_layout_fits [OF h, of SIDECAR_OFFSET] h by (auto simp: SIDECAR_OFFSET_def)
qed

text \<open>What a guest is told about its network agrees with the switch: the prefix is the CIDR's,
  at most 24, a gateway is announced exactly when the sidecar routes, a resolver exactly when it
  serves DNS, both at the sidecar's own address, and a routing sidecar always has an uplink.\<close>

theorem addressing_reflects_switch:
  assumes "Switch n nets c up mg sc = Inr s"
  defines "a \<equiv> from_switch s"
  shows "na_prefix_len a \<le> 24 \<and>
    (na_gateway a \<noteq> None \<longleftrightarrow> (\<exists>x. sc = Some x \<and> nat_flag x)) \<and>
    (na_dns_server a \<noteq> None \<longleftrightarrow> (\<exists>x. sc = Some x \<and> sc_dns x)) \<and>
    (na_dhcp a \<longleftrightarrow> (\<exists>x. sc = Some x \<and> dhcp x)) \<and>
    set_option (na_gateway a) \<union> set_option (na_dns_server a) \<subseteq> {sidecar_ip s} \<and>
    (na_gateway a \<noteq> None \<longrightarrow> up \<noteq> None)"
proof -
  have sc: "sw_sidecar s = sc" "uplink s = up"
    using assms(1) by (auto simp: Switch_def result_simps split: option.splits)
  have "up \<noteq> None" if "sc = Some x" "nat_flag x" for x
    using Switch_ok [OF assms(1)] that sc by (auto simp: switch_ok_def)
  then show ?thesis
    using sw_network_props(2) [OF Switch_ok [OF assms(1)]] sc
    by (auto simp: a_def from_switch_def split: option.splits if_splits)
qed

theorem addressing_reflects_switch_witness:
  "\<exists>s. Switch ''lan'' [] ''10.1.0.0/16'' None False None = Inr s \<and> na_gateway (from_switch s) = None"
proof -
  have h: "Switch ''lan'' [] ''10.1.0.0/16'' None False None =
    Inr \<lparr>sw_name = ''lan'', networks = [], cidr = ''10.1.0.0/16'', uplink = None,
         mgmt = False, sw_sidecar = None\<rparr>" by code_simp
  show ?thesis using addressing_reflects_switch [OF h] h by auto
qed

end
