(* ===== verification/Plan_Validation.thy ===== *)
theory Plan_Validation
  imports Networks
begin

text \<open>
  Whole-plan validation: \<^verbatim>\<open>vms/validate.py\<close> and \<^verbatim>\<open>networks/validate.py\<close>. The
  structural checks raise on the first defect; the addressing checks walk every NIC of every VM in
  declaration order and report all problems together.
\<close>

subsection \<open>VM and pool declarations\<close>

definition duplicates :: "name list \<Rightarrow> name list" where
  "duplicates ns = sorted_set (filter (\<lambda>n. 1 < count_list ns n) ns)"

definition reserved_names :: "name list \<Rightarrow> name list" where
  "reserved_names ns = sorted_set (filter (\<lambda>n. startswith n ''__'') ns)"

definition validate_vm_plan :: "('b, 'c) vm_recipe list \<Rightarrow> storage_pool list \<Rightarrow> unit result" where
  "validate_vm_plan rs pools =
     (let pool_names = map sp_name pools; vm_names = map vr_name rs in
      bindR (guardR (duplicates vm_names = []) (ValueError (duplicates vm_names))) (\<lambda>_.
      bindR (for_each (\<lambda>r. bindR (validate_name (vr_name r) ''VMSpec.name'') (\<lambda>_. Inr ())) rs) (\<lambda>_.
      bindR (guardR (reserved_names vm_names = []) (ValueError (reserved_names vm_names))) (\<lambda>_.
      bindR (guardR (sort (filter DATA_DISK_MARKER vm_names) = []) (ValueError (sort (filter DATA_DISK_MARKER vm_names)))) (\<lambda>_.
      for_each (\<lambda>r. guardR (handle_str (disk_pool (os_drive (vr_spec r))) \<in> set pool_names)
          (ValueError (vr_name r # handle_str (disk_pool (os_drive (vr_spec r))) # sorted_set pool_names))) rs)))))"

subsection \<open>Addressing\<close>

text \<open>A NIC's position: VM name, NIC index, network name.\<close>

type_synonym origin = "name \<times> nat \<times> name"

datatype problem =
    UnknownNetwork name
  | InvalidAddress
  | NotInSubnet string name
  | IsNetworkAddress
  | IsBroadcastAddress
  | SidecarSlot string
  | MgmtSlot string
  | InDhcpPool string string
  | DuplicateAddress origin

definition switch_for :: "switch list \<Rightarrow> (name, switch) dict" where
  "switch_for switches = concat (map (\<lambda>sw. map (\<lambda>n. (nw_name n, sw)) (networks sw)) switches)"

text \<open>The checks on one static address that do not depend on other NICs, in source order.\<close>

definition slot_problem :: "switch \<Rightarrow> nat \<Rightarrow> problem option" where
  "slot_problem sw a =
     (let subnet = sw_network sw in
      if \<not> in_network a subnet then Some (NotInSubnet (string_of_network subnet) (sw_name sw))
      else if a = network_address subnet then Some IsNetworkAddress
      else if a = broadcast_address subnet then Some IsBroadcastAddress
      else if needs_sidecar sw \<and> a = at_offset sw SIDECAR_OFFSET then Some (SidecarSlot (sidecar_ip sw))
      else if mgmt sw \<and> a = at_offset sw MGMT_OFFSET then Some (MgmtSlot (mgmt_ip sw))
      else if (case sw_sidecar sw of None \<Rightarrow> False | Some s \<Rightarrow> dhcp s) \<and>
              at_offset sw DHCP_RANGE_LO \<le> a \<and> a \<le> at_offset sw DHCP_RANGE_HI
        then Some (InDhcpPool (string_from_ip_int (at_offset sw DHCP_RANGE_LO)) (string_from_ip_int (at_offset sw DHCP_RANGE_HI)))
      else None)"

type_synonym seen_map = "(name, (string \<times> origin) list) dict"

fun check_nic :: "(name, switch) dict \<Rightarrow> seen_map \<Rightarrow> name \<times> nat \<times> device \<Rightarrow> problem option \<times> seen_map" where
  "check_nic sws seen (vm, idx, nic) =
     (let net = handle_str (nic_network nic); here = (vm, idx, net) in
      case map_of sws net of
        None \<Rightarrow> (Some (UnknownNetwork net), seen)
      | Some sw \<Rightarrow>
          (case nic_addr nic of
             Some (StaticAddr sa) \<Rightarrow>
               (case IPv4Address (host sa) of
                  None \<Rightarrow> (Some InvalidAddress, seen)
                | Some a \<Rightarrow>
                    (case slot_problem sw a of
                       Some p \<Rightarrow> (Some p, seen)
                     | None \<Rightarrow>
                         (case map_of (dget seen (sw_name sw)) (host sa) of
                            Some prior \<Rightarrow> (Some (DuplicateAddress prior), seen)
                          | None \<Rightarrow> (None, AList.update (sw_name sw) (AList.update (host sa) here (dget seen (sw_name sw))) seen))))
           | _ \<Rightarrow> (None, seen)))"

fun check_nics :: "(name, switch) dict \<Rightarrow> seen_map \<Rightarrow> (name \<times> nat \<times> device) list \<Rightarrow> (origin \<times> problem) list" where
  "check_nics sws seen [] = []"
| "check_nics sws seen (t # ts) =
     (case check_nic sws seen t of
        (None, seen') \<Rightarrow> check_nics sws seen' ts
      | (Some p, seen') \<Rightarrow>
          ((fst t, fst (snd t), handle_str (nic_network (snd (snd t)))), p) # check_nics sws seen' ts)"

definition nic_slots :: "('b, 'c) vm_recipe list \<Rightarrow> (name \<times> nat \<times> device) list" where
  "nic_slots vms = concat (map (\<lambda>vm. map (\<lambda>(i, nic). (vr_name vm, i, nic)) (enumerate 0 (nics (vr_spec vm)))) vms)"

definition addressing_problems :: "switch list \<Rightarrow> ('b, 'c) vm_recipe list \<Rightarrow> (origin \<times> problem) list" where
  "addressing_problems switches vms = check_nics (switch_for switches) [] (nic_slots vms)"

definition origin_text :: "origin \<Rightarrow> string" where
  "origin_text org = (case org of (vm, idx, net) \<Rightarrow> vm @ '' NIC '' @ string_of_nat idx @ '' '' @ net)"

definition validate_addressing :: "switch list \<Rightarrow> ('b, 'c) vm_recipe list \<Rightarrow> unit result" where
  "validate_addressing switches vms =
     (let problems = addressing_problems switches vms in
      guardR (problems = []) (ValueError (string_of_nat (length problems) # map (origin_text \<circ> fst) problems)))"

subsection \<open>The entry point\<close>

definition all_nets :: "switch list \<Rightarrow> name list" where
  "all_nets switches = concat (map (\<lambda>s. map nw_name (networks s)) switches)"

definition validate_hypervisor_plan ::
  "switch list \<Rightarrow> storage_pool list \<Rightarrow> ('b, 'c) vm_recipe list \<Rightarrow> unit result" where
  "validate_hypervisor_plan switches pools rs =
     (let nets = all_nets switches; swnets = map sw_name switches @ nets in
      bindR (validate_vm_plan rs pools) (\<lambda>_.
      bindR (guardR (duplicates nets = []) (ValueError (duplicates nets))) (\<lambda>_.
      bindR (for_each (\<lambda>s. bindR (validate_name (sw_name s) ''Switch.name'') (\<lambda>_. Inr ())) switches) (\<lambda>_.
      bindR (for_each (\<lambda>n. bindR (validate_name n ''Network.name'') (\<lambda>_. Inr ())) nets) (\<lambda>_.
      bindR (guardR (reserved_names swnets = []) (ValueError (reserved_names swnets))) (\<lambda>_.
      bindR (for_each (\<lambda>r. for_each (\<lambda>nic. guardR (handle_str (nic_network nic) \<in> set nets)
               (ValueError (vr_name r # handle_str (nic_network nic) # sorted_set nets))) (nics (vr_spec r))) rs) (\<lambda>_.
      validate_addressing switches rs)))))))"

subsection \<open>Lemmas on the structural checks\<close>

lemma distinct_count_list: "distinct xs \<longleftrightarrow> (\<forall>x \<in> set xs. count_list xs x \<le> 1)"
  by (induction xs) (auto simp: count_list_0_iff le_Suc_eq)

lemma duplicates_Nil [simp]: "duplicates ns = [] \<longleftrightarrow> distinct ns"
  by (auto simp: duplicates_def filter_empty_conv distinct_count_list not_less)

lemma reserved_names_Nil [simp]: "reserved_names ns = [] \<longleftrightarrow> (\<forall>n \<in> set ns. \<not> startswith n ''__'')"
  by (auto simp: reserved_names_def filter_empty_conv)

lemma sort_Nil [simp]: "sort xs = [] \<longleftrightarrow> xs = []"
  by (metis set_empty set_sort)

definition user_name :: "name \<Rightarrow> bool" where
  "user_name n \<longleftrightarrow> SAFE_NAME n \<and> \<not> startswith n ''__''"

lemma validate_vm_plan_Inr:
  "validate_vm_plan rs pools = Inr u \<longleftrightarrow>
     distinct (map vr_name rs) \<and>
     (\<forall>r \<in> set rs. user_name (vr_name r) \<and> \<not> DATA_DISK_MARKER (vr_name r) \<and>
        handle_str (disk_pool (os_drive (vr_spec r))) \<in> sp_name ` set pools)"
  by (auto simp: validate_vm_plan_def Let_def result_simps filter_empty_conv user_name_def)

lemma validate_hypervisor_plan_Inr:
  "validate_hypervisor_plan switches pools rs = Inr u \<longleftrightarrow>
     validate_vm_plan rs pools = Inr () \<and> distinct (all_nets switches) \<and>
     (\<forall>n \<in> sw_name ` set switches \<union> set (all_nets switches). user_name n) \<and>
     (\<forall>r \<in> set rs. \<forall>nic \<in> set (nics (vr_spec r)). handle_str (nic_network nic) \<in> set (all_nets switches)) \<and>
     validate_addressing switches rs = Inr ()"
  by (auto simp: validate_hypervisor_plan_def Let_def result_simps user_name_def)

subsection \<open>Lemmas on the addressing walk\<close>

text \<open>The wire position of a static NIC: its switch's name and its printed address.\<close>

fun static_key :: "(name, switch) dict \<Rightarrow> name \<times> nat \<times> device \<Rightarrow> (name \<times> string) option" where
  "static_key sws (vm, idx, nic) =
     (case (map_of sws (handle_str (nic_network nic)), nic_addr nic) of
        (Some sw, Some (StaticAddr sa)) \<Rightarrow> Some (sw_name sw, host sa)
      | _ \<Rightarrow> None)"

fun slot_good :: "(name, switch) dict \<Rightarrow> name \<times> nat \<times> device \<Rightarrow> bool" where
  "slot_good sws (vm, idx, nic) =
     (case map_of sws (handle_str (nic_network nic)) of
        None \<Rightarrow> False
      | Some sw \<Rightarrow>
          (case nic_addr nic of
             Some (StaticAddr sa) \<Rightarrow>
               (case IPv4Address (host sa) of None \<Rightarrow> False | Some a \<Rightarrow> slot_problem sw a = None)
           | _ \<Rightarrow> True))"

definition used :: "seen_map \<Rightarrow> name \<times> string \<Rightarrow> bool" where
  "used seen k \<longleftrightarrow> map_of (dget seen (fst k)) (snd k) \<noteq> None"

lemma used_update:
  "used (AList.update s (AList.update ip org (dget seen s)) seen) k \<longleftrightarrow> k = (s, ip) \<or> used seen k"
  by (cases k; cases org) (auto simp: used_def dget_def update_conv')

lemma check_nic_spec:
  "check_nic sws seen t =
     (None, seen') \<Longrightarrow> slot_good sws t \<and>
       (case static_key sws t of
          None \<Rightarrow> seen' = seen
        | Some k \<Rightarrow> \<not> used seen k \<and> (\<forall>k'. used seen' k' \<longleftrightarrow> k' = k \<or> used seen k'))"
  by (cases t) (auto simp: Let_def used_update used_def [of seen]
      split: option.splits addr_mode.splits)

lemma check_nic_fails:
  "check_nic sws seen t = (Some p, seen') \<Longrightarrow> \<not> slot_good sws t \<or> (\<exists>k. static_key sws t = Some k \<and> used seen k)"
  by (cases t) (auto simp: Let_def used_def split: option.splits addr_mode.splits)

definition static_keys :: "(name, switch) dict \<Rightarrow> (name \<times> nat \<times> device) list \<Rightarrow> (name \<times> string) list" where
  "static_keys sws ts = List.map_filter (static_key sws) ts"

lemma check_nics_Nil:
  "check_nics sws seen ts = [] \<longleftrightarrow> (\<forall>t \<in> set ts. slot_good sws t) \<and> distinct (static_keys sws ts) \<and>
     (\<forall>k \<in> set (static_keys sws ts). \<not> used seen k)"
proof (induction ts arbitrary: seen)
  case (Cons t ts)
  obtain r seen' where r: "check_nic sws seen t = (r, seen')" by (cases "check_nic sws seen t")
  show ?case
  proof (cases r)
    case None
    note s = check_nic_spec [OF r [unfolded None]]
    then show ?thesis
    proof (cases "static_key sws t")
      case None
      then show ?thesis using s Cons.IH [of seen'] r \<open>r = None\<close>
        by (simp add: static_keys_def List.map_filter_simps)
    next
      case (Some k)
      with s have "used seen' = (\<lambda>k'. k' = k \<or> used seen k')" and "\<not> used seen k" and "slot_good sws t"
        by (simp_all add: fun_eq_iff)
      with Some show ?thesis using Cons.IH [of seen'] r \<open>r = None\<close>
        by (auto simp add: static_keys_def List.map_filter_simps)
    qed
  next
    case (Some p)
    with check_nic_fails [OF r [unfolded Some]] r show ?thesis
      by (auto simp: static_keys_def List.map_filter_simps)
  qed
qed (simp add: static_keys_def List.map_filter_simps)

lemma addressing_accepts:
  "validate_addressing switches vms = Inr () \<longleftrightarrow>
     (\<forall>t \<in> set (nic_slots vms). slot_good (switch_for switches) t) \<and>
     distinct (static_keys (switch_for switches) (nic_slots vms))"
  by (simp add: validate_addressing_def addressing_problems_def Let_def check_nics_Nil used_def)

lemma distinct_map_filter:
  "distinct (List.map_filter f xs) \<longleftrightarrow>
     (\<forall>i j k. i < j \<and> j < length xs \<and> f (xs ! i) = Some k \<longrightarrow> f (xs ! j) \<noteq> Some k)"
proof (induction xs)
  case (Cons x xs)
  have set: "k \<in> set (List.map_filter f xs) \<longleftrightarrow> (\<exists>j < length xs. f (xs ! j) = Some k)" for k
    by (force simp: List.map_filter_def in_set_conv_nth)
  have split: "(\<forall>i j k. i < j \<and> j < length (x # xs) \<and> f ((x # xs) ! i) = Some k \<longrightarrow> f ((x # xs) ! j) \<noteq> Some k) \<longleftrightarrow>
      (\<forall>j k. j < length xs \<and> f x = Some k \<longrightarrow> f (xs ! j) \<noteq> Some k) \<and>
      (\<forall>i j k. i < j \<and> j < length xs \<and> f (xs ! i) = Some k \<longrightarrow> f (xs ! j) \<noteq> Some k)" (is "?l = ?r")
  proof
    assume l: ?l
    have "f (xs ! j) \<noteq> Some k" if "j < length xs" "f x = Some k" for j k
      using l [rule_format, of 0 "Suc j" k] that by simp
    moreover have "f (xs ! j) \<noteq> Some k" if "i < j" "j < length xs" "f (xs ! i) = Some k" for i j k
      using l [rule_format, of "Suc i" "Suc j" k] that by simp
    ultimately show ?r by blast
  next
    assume r: ?r
    show ?l
    proof (intro allI impI)
      fix i j k
      assume h: "i < j \<and> j < length (x # xs) \<and> f ((x # xs) ! i) = Some k"
      then obtain j' where j: "j = Suc j'" by (cases j) auto
      show "f ((x # xs) ! j) \<noteq> Some k" using h r j by (cases i) auto
    qed
  qed
  show ?case
    unfolding split using Cons.IH set by (cases "f x") (auto simp: List.map_filter_simps)
qed (simp add: List.map_filter_simps)

text \<open>What a static address must satisfy on its switch, independently of other NICs.\<close>

definition serves_dhcp :: "switch \<Rightarrow> bool" where
  "serves_dhcp sw = (case sw_sidecar sw of None \<Rightarrow> False | Some s \<Rightarrow> dhcp s)"

definition address_free :: "switch \<Rightarrow> static_addr \<Rightarrow> bool" where
  "address_free sw sa =
     (case IPv4Address (host sa) of
        None \<Rightarrow> False
      | Some a \<Rightarrow> network_address (sw_network sw) < a \<and> a < broadcast_address (sw_network sw) \<and>
          (needs_sidecar sw \<longrightarrow> host sa \<noteq> sidecar_ip sw) \<and> (mgmt sw \<longrightarrow> host sa \<noteq> mgmt_ip sw) \<and>
          (serves_dhcp sw \<longrightarrow> a < at_offset sw DHCP_RANGE_LO \<or> at_offset sw DHCP_RANGE_HI < a))"

lemma if_Some_None: "(if b then Some x else y) = None \<longleftrightarrow> \<not> b \<and> y = None"
  by simp

lemma slot_problem_None:
  assumes "switch_ok sw" and "IPv4Address (host sa) = Some a"
  shows "slot_problem sw a = None \<longleftrightarrow> address_free sw sa"
proof -
  have a: "host sa = string_from_ip_int a" "a < 2 ^ 32" using assms(2) by (simp_all only: IPv4Address_iff)
  have inj: "string_from_ip_int a = string_from_ip_int (at_offset sw k) \<longleftrightarrow> a = at_offset sw k" if "k \<le> 255" for k
    using string_from_ip_int_inj [OF a(2) at_offset_bound [OF assms(1) that]] .
  have range: "in_network a (sw_network sw) \<and> a \<noteq> network_address (sw_network sw) \<and> a \<noteq> broadcast_address (sw_network sw)
      \<longleftrightarrow> network_address (sw_network sw) < a \<and> a < broadcast_address (sw_network sw)"
    unfolding in_network_iff [OF sw_network_props(3) [OF assms(1)]] less_le by blast
  have "slot_problem sw a = None \<longleftrightarrow>
      (in_network a (sw_network sw) \<and> a \<noteq> network_address (sw_network sw) \<and> a \<noteq> broadcast_address (sw_network sw)) \<and>
      (needs_sidecar sw \<longrightarrow> a \<noteq> at_offset sw SIDECAR_OFFSET) \<and> (mgmt sw \<longrightarrow> a \<noteq> at_offset sw MGMT_OFFSET) \<and>
      (serves_dhcp sw \<longrightarrow> a < at_offset sw DHCP_RANGE_LO \<or> at_offset sw DHCP_RANGE_HI < a)"
    unfolding slot_problem_def Let_def serves_dhcp_def [symmetric]
    by (simp only: if_Some_None not_not de_Morgan_conj not_le simp_thms imp_conv_disj disj_assoc conj_assoc)
  then show ?thesis
    unfolding range address_free_def assms(2) option.case
    unfolding a(1) sidecar_ip_def mgmt_ip_def
    by (simp add: inj SIDECAR_OFFSET_def MGMT_OFFSET_def)
qed

lemma switch_for_switch: "map_of (switch_for sws) n = Some sw \<Longrightarrow> sw \<in> set sws \<and> n \<in> nw_name ` set (networks sw)"
  by (drule map_of_SomeD) (auto simp: switch_for_def)

lemma slot_good_iff:
  assumes "\<forall>sw \<in> set switches. switch_ok sw"
  shows "slot_good (switch_for switches) = (\<lambda>(vm, i, nic).
      \<exists>sw. map_of (switch_for switches) (handle_str (nic_network nic)) = Some sw \<and>
        (\<forall>sa. nic_addr nic = Some (StaticAddr sa) \<longrightarrow> address_free sw sa))"
proof (intro ext, clarify)
  fix vm i nic
  show "slot_good (switch_for switches) (vm, i, nic) = (\<exists>sw.
      map_of (switch_for switches) (handle_str (nic_network nic)) = Some sw \<and>
        (\<forall>sa. nic_addr nic = Some (StaticAddr sa) \<longrightarrow> address_free sw sa))"
  proof (cases "map_of (switch_for switches) (handle_str (nic_network nic))")
    case (Some sw)
    then have ok: "switch_ok sw" using assms switch_for_switch by blast
    have "(case IPv4Address (host sa) of None \<Rightarrow> False | Some a \<Rightarrow> slot_problem sw a = None) = address_free sw sa" for sa
      using slot_problem_None [OF ok, of sa] by (cases "IPv4Address (host sa)") (simp_all add: address_free_def)
    then show ?thesis
      by (simp only: slot_good.simps Some option.case) (simp split: option.split addr_mode.split del: option.case_eq_if)
  qed simp
qed

lemma check_nics_complete:
  assumes "(vm, i, nic) \<in> set ts" and "\<not> slot_good sws (vm, i, nic)"
  shows "\<exists>p. ((vm, i, handle_str (nic_network nic)), p) \<in> set (check_nics sws seen ts)"
  using assms
proof (induction ts arbitrary: seen)
  case (Cons t ts)
  obtain r seen' where r: "check_nic sws seen t = (r, seen')" by (cases "check_nic sws seen t")
  show ?case
  proof (cases "t = (vm, i, nic)")
    case True
    with Cons.prems(2) r check_nic_spec [of sws seen t seen'] obtain p where "r = Some p" by (cases r) auto
    with r True show ?thesis by (auto simp del: check_nic.simps)
  next
    case False
    with Cons.prems have "(vm, i, nic) \<in> set ts" by auto
    from Cons.IH [OF this Cons.prems(2), of seen'] r show ?thesis
      by (auto simp del: check_nic.simps split: option.splits)
  qed
qed simp

subsection \<open>Properties\<close>

text \<open>A one-switch, one-VM plan, which the witnesses share.\<close>

definition sample_switch :: switch where
  "sample_switch = \<lparr>sw_name = ''lan'', networks = [\<lparr>nw_name = ''a''\<rparr>], cidr = ''192.168.10.0/24'', uplink = None,
     mgmt = True, sw_sidecar = Some \<lparr>dhcp = True, sc_dns = True, nat_flag = False, sc_addr = None\<rparr>\<rparr>"

definition sample_vm :: "string \<Rightarrow> (unit, unit) vm_recipe" where
  "sample_vm ip = \<lparr>vr_spec = \<lparr>vs_name = ''web'', devices = [CPU 1 False, Memory 512, OSDrive (PoolHandle ''p'') 8,
       NetworkIface (NetworkHandle ''a'' ''lan'') (Some (StaticAddr \<lparr>addr = ip, gw = None, dns = []\<rparr>))],
       firmware = ''bios''\<rparr>, vr_builder = (), vr_communicator = ()\<rparr>"

lemma sample_switch_built:
  "Switch ''lan'' [\<lparr>nw_name = ''a''\<rparr>] ''192.168.10.0/24'' None True
     (Some \<lparr>dhcp = True, sc_dns = True, nat_flag = False, sc_addr = None\<rparr>) = Inr sample_switch"
  by code_simp

lemma sample_switch_ok: "switch_ok sample_switch"
  by (rule Switch_ok [OF sample_switch_built])

text \<open>C5: addressing validation accepts exactly the conflict-free plans. Every NIC's network belongs
  to a declared switch; a static address is a host address strictly inside its switch's subnet,
  is not the sidecar's or the management adapter's when the switch has one, and is outside the
  DHCP pool when the sidecar serves leases; and no two static NICs on one switch, whatever network
  label they use, have the same address.\<close>

theorem validate_addressing_iff:
  assumes "\<forall>sw \<in> set switches. switch_ok sw"
  shows "validate_addressing switches vms = Inr () \<longleftrightarrow>
    (\<forall>(vm, i, nic) \<in> set (nic_slots vms). \<exists>sw.
       map_of (switch_for switches) (handle_str (nic_network nic)) = Some sw \<and>
       (\<forall>sa. nic_addr nic = Some (StaticAddr sa) \<longrightarrow> address_free sw sa)) \<and>
    (\<forall>i j k. i < j \<and> j < length (nic_slots vms) \<and> static_key (switch_for switches) (nic_slots vms ! i) = Some k \<longrightarrow>
       static_key (switch_for switches) (nic_slots vms ! j) \<noteq> Some k)"
  unfolding addressing_accepts static_keys_def distinct_map_filter slot_good_iff [OF assms] ..

theorem validate_addressing_iff_witness:
  "validate_addressing [sample_switch] [sample_vm ''192.168.10.100''] = Inr () \<and>
   address_free sample_switch \<lparr>addr = ''192.168.10.100'', gw = None, dns = []\<rparr>"
proof -
  have ok: "\<forall>sw \<in> set [sample_switch]. switch_ok sw" by (simp add: sample_switch_ok)
  have h: "validate_addressing [sample_switch] [sample_vm ''192.168.10.100''] = Inr ()"
    "nic_slots [sample_vm ''192.168.10.100''] = [(''web'', 0, NetworkIface (NetworkHandle ''a'' ''lan'')
       (Some (StaticAddr \<lparr>addr = ''192.168.10.100'', gw = None, dns = []\<rparr>)))]"
    "map_of (switch_for [sample_switch]) ''a'' = Some sample_switch"
    by code_simp+
  from h(1) [unfolded validate_addressing_iff [OF ok] h(2)] h(3)
  have "address_free sample_switch \<lparr>addr = ''192.168.10.100'', gw = None, dns = []\<rparr>" by simp
  with h(1) show ?thesis by blast
qed

text \<open>Validation reports every defective NIC, not only the first. Whenever a NIC is on an
  unknown network or has an address its switch does not allow, the error counts it and names it.\<close>

theorem every_bad_nic_is_reported:
  assumes "\<forall>sw \<in> set switches. switch_ok sw" and "(vm, i, nic) \<in> set (nic_slots vms)"
    and "\<And>sw. map_of (switch_for switches) (handle_str (nic_network nic)) = Some sw \<Longrightarrow>
        \<exists>sa. nic_addr nic = Some (StaticAddr sa) \<and> \<not> address_free sw sa"
  shows "\<exists>(ps :: (origin \<times> problem) list) p. validate_addressing switches vms = Inl (ValueError (string_of_nat (length ps) # map (origin_text \<circ> fst) ps)) \<and>
    ((vm, i, handle_str (nic_network nic)), p) \<in> set ps"
proof -
  have "\<not> slot_good (switch_for switches) (vm, i, nic)"
    unfolding slot_good_iff [OF assms(1)] using assms(3) by auto
  then obtain p where p: "((vm, i, handle_str (nic_network nic)), p) \<in> set (addressing_problems switches vms)"
    using check_nics_complete [OF assms(2)] unfolding addressing_problems_def by blast
  then have "addressing_problems switches vms \<noteq> []" by auto
  then have "validate_addressing switches vms =
      Inl (ValueError (string_of_nat (length (addressing_problems switches vms)) #
        map (origin_text \<circ> fst) (addressing_problems switches vms)))"
    by (simp add: validate_addressing_def Let_def)
  with p show ?thesis by blast
qed

theorem every_bad_nic_is_reported_witness:
  "\<exists>(ps :: (origin \<times> problem) list) p. validate_addressing [sample_switch] [sample_vm ''192.168.10.2''] =
       Inl (ValueError (string_of_nat (length ps) # map (origin_text \<circ> fst) ps)) \<and>
     ((''web'', 0, ''a''), p) \<in> set ps"
proof -
  let ?nic = "NetworkIface (NetworkHandle ''a'' ''lan'')
       (Some (StaticAddr \<lparr>addr = ''192.168.10.2'', gw = None, dns = []\<rparr>))"
  have h: "nic_slots [sample_vm ''192.168.10.2''] = [(''web'', 0, ?nic)]"
    "map_of (switch_for [sample_switch]) ''a'' = Some sample_switch"
    "\<not> address_free sample_switch \<lparr>addr = ''192.168.10.2'', gw = None, dns = []\<rparr>"
    by code_simp+
  have "\<exists>(ps :: (origin \<times> problem) list) p. validate_addressing [sample_switch] [sample_vm ''192.168.10.2''] =
       Inl (ValueError (string_of_nat (length ps) # map (origin_text \<circ> fst) ps)) \<and>
     ((''web'', 0, handle_str (nic_network ?nic)), p) \<in> set ps"
    by (rule every_bad_nic_is_reported) (use h sample_switch_ok in simp_all)
  then show ?thesis by simp
qed

end
