(* ===== verification/Hypervisor.thy ===== *)
theory Hypervisor
  imports Plan_Validation
begin

text \<open>
  The mutable plan container of \<^verbatim>\<open>hypervisor.py\<close> and the recording of explicit ordering
  edges by \<^verbatim>\<open>VMHandle.needs\<close> (\<^verbatim>\<open>handles.py\<close>). An operation maps the container to its
  result and the container after it, so that what an operation leaves behind when it
  raises is part of the model.
\<close>

subsection \<open>The container\<close>

record ('b, 'c) hypervisor =
  build_switch :: "switch option"
  h_pools :: "(name, storage_pool) dict"
  h_switches :: "(name, switch) dict"
  h_vms :: "(name, ('b, 'c) vm_recipe) dict"
  pool_handles :: "(name, handle) dict"
  switch_handles :: "(name, handle) dict"
  network_handles :: "(name, handle) dict"
  vm_handles :: "(name, handle) dict"
  explicit_edges :: "(name \<times> name) list"
  frozen :: bool

definition new_hypervisor :: "switch option \<Rightarrow> ('b, 'c) hypervisor" where
  "new_hypervisor bs = \<lparr>build_switch = bs, h_pools = [], h_switches = [], h_vms = [], pool_handles = [],
     switch_handles = [], network_handles = [], vm_handles = [], explicit_edges = [], frozen = False\<rparr>"

definition require_mutable :: "string \<Rightarrow> ('b, 'c) hypervisor \<Rightarrow> unit result" where
  "require_mutable action h = guardR (\<not> frozen h) (ValueError [action])"

subsection \<open>Registration\<close>

definition add_pool :: "storage_pool \<Rightarrow> ('b, 'c) hypervisor \<Rightarrow> handle result \<times> ('b, 'c) hypervisor" where
  "add_pool p h =
     (case bindR (require_mutable ''add_pool'' h) (\<lambda>_.
           bindR (guardR (sp_name p \<notin> set (dkeys (h_pools h))) (ValueError [sp_name p])) (\<lambda>_.
           mk_PoolHandle (sp_name p))) of
        Inl e \<Rightarrow> (Inl e, h)
      | Inr hnd \<Rightarrow> (Inr hnd, h\<lparr>h_pools := AList.update (sp_name p) p (h_pools h),
                            pool_handles := AList.update (sp_name p) hnd (pool_handles h)\<rparr>))"

definition network_owner :: "handle \<Rightarrow> name" where
  "network_owner hnd = (case hnd of NetworkHandle _ sw \<Rightarrow> sw | _ \<Rightarrow> [])"

definition add_switch :: "switch \<Rightarrow> ('b, 'c) hypervisor \<Rightarrow> handle result \<times> ('b, 'c) hypervisor" where
  "add_switch sw h =
     (case bindR (require_mutable ''add_switch'' h) (\<lambda>_.
           bindR (guardR (sw_name sw \<notin> set (dkeys (h_switches h))) (ValueError [sw_name sw])) (\<lambda>_.
           bindR (for_each (\<lambda>net. case map_of (network_handles h) (nw_name net) of
                     None \<Rightarrow> Inr ()
                   | Some hnd \<Rightarrow> Inl (ValueError [nw_name net, network_owner hnd])) (networks sw)) (\<lambda>_.
           mk_SwitchHandle (sw_name sw)))) of
        Inl e \<Rightarrow> (Inl e, h)
      | Inr hnd \<Rightarrow>
          (Inr hnd, h\<lparr>h_switches := AList.update (sw_name sw) sw (h_switches h),
                    switch_handles := AList.update (sw_name sw) hnd (switch_handles h),
                    network_handles := fold (\<lambda>net. AList.update (nw_name net) (NetworkHandle (nw_name net) (sw_name sw)))
                      (networks sw) (network_handles h)\<rparr>))"

definition add_vm :: "('b, 'c) vm_recipe \<Rightarrow> ('b, 'c) hypervisor \<Rightarrow> handle result \<times> ('b, 'c) hypervisor" where
  "add_vm r h =
     (case bindR (require_mutable ''add_vm'' h) (\<lambda>_.
           bindR (guardR (vr_name r \<notin> set (dkeys (h_vms h))) (ValueError [vr_name r])) (\<lambda>_.
           mk_VMHandle (vr_name r))) of
        Inl e \<Rightarrow> (Inl e, h)
      | Inr hnd \<Rightarrow> (Inr hnd, h\<lparr>h_vms := AList.update (vr_name r) r (h_vms h),
                            vm_handles := AList.update (vr_name r) hnd (vm_handles h)\<rparr>))"

text \<open>The facade: the devices are packed in a fixed order.\<close>

definition vm :: "name \<Rightarrow> device \<Rightarrow> device \<Rightarrow> device \<Rightarrow> 'b \<Rightarrow> 'c \<Rightarrow> device list \<Rightarrow> device list \<Rightarrow> string \<Rightarrow>
    ('b, 'c) hypervisor \<Rightarrow> handle result \<times> ('b, 'c) hypervisor" where
  "vm n c m o' bld com ns dds fw h =
     (case VMSpec n ([c, m, o'] @ dds @ ns) fw of
        Inl e \<Rightarrow> (Inl e, h)
      | Inr spec \<Rightarrow> add_vm \<lparr>vr_spec = spec, vr_builder = bld, vr_communicator = com\<rparr> h)"

definition add_explicit_edge :: "name \<Rightarrow> name \<Rightarrow> ('b, 'c) hypervisor \<Rightarrow> unit result \<times> ('b, 'c) hypervisor" where
  "add_explicit_edge d y h =
     (case require_mutable ''add an ordering edge'' h of
        Inl e \<Rightarrow> (Inl e, h)
      | Inr _ \<Rightarrow> (Inr (), h\<lparr>explicit_edges := explicit_edges h @ [(d, y)]\<rparr>))"

text \<open>\<^verbatim>\<open>self.needs(*others)\<close>: edges recorded before a failing argument stay recorded.\<close>

fun needs :: "handle \<Rightarrow> handle list \<Rightarrow> ('b, 'c) hypervisor \<Rightarrow> unit result \<times> ('b, 'c) hypervisor" where
  "needs self [] h = (Inr (), h)"
| "needs self (other # others) h =
     (if node_name other = node_name self then (Inl (ValueError [handle_str self]), h)
      else case add_explicit_edge (node_name self) (node_name other) h of
          (Inl e, h') \<Rightarrow> (Inl e, h')
        | (Inr _, h') \<Rightarrow> needs self others h')"

definition freeze :: "('b, 'c) hypervisor \<Rightarrow> ('b, 'c) hypervisor" where
  "freeze h = h\<lparr>frozen := True\<rparr>"

subsection \<open>Views\<close>

definition registry_get :: "string \<Rightarrow> (name, handle) dict \<Rightarrow> name \<Rightarrow> handle result" where
  "registry_get kind items n =
     (case map_of items n of
        None \<Rightarrow> Inl (KeyError (kind # n # sorted_set (dkeys items)))
      | Some hnd \<Rightarrow> Inr hnd)"

definition declared_pools :: "('b, 'c) hypervisor \<Rightarrow> storage_pool list" where
  "declared_pools h = map snd (h_pools h)"

definition declared_switches :: "('b, 'c) hypervisor \<Rightarrow> switch list" where
  "declared_switches h = map snd (h_switches h)"

definition declared_vms :: "('b, 'c) hypervisor \<Rightarrow> ('b, 'c) vm_recipe list" where
  "declared_vms h = map snd (h_vms h)"

subsection \<open>Reachable containers\<close>

text \<open>Everything a plan file can do with a container, in any order and with any arguments.\<close>

inductive reachable :: "('b, 'c) hypervisor \<Rightarrow> bool" where
  new: "reachable (new_hypervisor bs)"
| pool: "reachable h \<Longrightarrow> reachable (snd (add_pool p h))"
| switch: "reachable h \<Longrightarrow> reachable (snd (add_switch sw h))"
| recipe: "reachable h \<Longrightarrow> reachable (snd (add_vm r h))"
| facade: "reachable h \<Longrightarrow> reachable (snd (vm n c m o' b com ns dds fw h))"
| edge: "reachable h \<Longrightarrow> reachable (snd (needs self others h))"
| frozen: "reachable h \<Longrightarrow> reachable (freeze h)"

text \<open>The invariant: each registry is keyed by the names of what it holds, without repetition.\<close>

definition keyed :: "('v \<Rightarrow> name) \<Rightarrow> (name, 'v) dict \<Rightarrow> bool" where
  "keyed f d \<longleftrightarrow> (\<forall>(k, v) \<in> set d. k = f v) \<and> distinct (dkeys d)"

definition handles_of :: "(name \<Rightarrow> handle) \<Rightarrow> (name, 'v) dict \<Rightarrow> (name, handle) dict" where
  "handles_of mk d = map (\<lambda>(n, _). (n, mk n)) d"

definition hyp_inv :: "('b, 'c) hypervisor \<Rightarrow> bool" where
  "hyp_inv h \<longleftrightarrow>
     keyed sp_name (h_pools h) \<and> keyed sw_name (h_switches h) \<and> keyed vr_name (h_vms h) \<and>
     pool_handles h = handles_of PoolHandle (h_pools h) \<and>
     switch_handles h = handles_of SwitchHandle (h_switches h) \<and>
     vm_handles h = handles_of VMHandle (h_vms h) \<and>
     (\<forall>n hnd. map_of (network_handles h) n = Some hnd \<longleftrightarrow>
        (\<exists>s \<in> snd ` set (h_switches h). hnd = NetworkHandle n (sw_name s) \<and> n \<in> nw_name ` set (networks s)))"

subsection \<open>Preservation\<close>

lemma hyp_inv_new: "hyp_inv (new_hypervisor bs)"
  by (simp add: hyp_inv_def new_hypervisor_def keyed_def handles_of_def)

lemma add_pool_cases:
  obtains (err) e where "add_pool p h = (Inl e, h)"
  | (ok) "\<not> frozen h" "sp_name p \<notin> set (dkeys (h_pools h))" "sp_name p \<noteq> []"
    "add_pool p h = (Inr (PoolHandle (sp_name p)), h\<lparr>h_pools := AList.update (sp_name p) p (h_pools h),
       pool_handles := AList.update (sp_name p) (PoolHandle (sp_name p)) (pool_handles h)\<rparr>)"
proof (cases "\<not> frozen h \<and> sp_name p \<notin> set (dkeys (h_pools h)) \<and> sp_name p \<noteq> []")
  case True
  then show ?thesis by (intro ok) (simp_all add: add_pool_def require_mutable_def mk_PoolHandle_def)
next
  case False
  then have "\<exists>e. add_pool p h = (Inl e, h)" by (auto simp: add_pool_def require_mutable_def mk_PoolHandle_def guardR_def)
  then show ?thesis using err by blast
qed

lemma add_vm_cases:
  obtains (err) e where "add_vm r h = (Inl e, h)"
  | (ok) "\<not> frozen h" "vr_name r \<notin> set (dkeys (h_vms h))" "vr_name r \<noteq> []"
    "add_vm r h = (Inr (VMHandle (vr_name r)), h\<lparr>h_vms := AList.update (vr_name r) r (h_vms h),
       vm_handles := AList.update (vr_name r) (VMHandle (vr_name r)) (vm_handles h)\<rparr>)"
proof (cases "\<not> frozen h \<and> vr_name r \<notin> set (dkeys (h_vms h)) \<and> vr_name r \<noteq> []")
  case True
  then show ?thesis by (intro ok) (simp_all add: add_vm_def require_mutable_def mk_VMHandle_def)
next
  case False
  then have "\<exists>e. add_vm r h = (Inl e, h)" by (auto simp: add_vm_def require_mutable_def mk_VMHandle_def guardR_def)
  then show ?thesis using err by blast
qed

lemma add_switch_cases:
  obtains (err) e where "add_switch sw h = (Inl e, h)"
  | (ok) "\<not> frozen h" "sw_name sw \<notin> set (dkeys (h_switches h))" "sw_name sw \<noteq> []"
    "\<And>net. net \<in> set (networks sw) \<Longrightarrow> map_of (network_handles h) (nw_name net) = None"
    "add_switch sw h = (Inr (SwitchHandle (sw_name sw)), h\<lparr>h_switches := AList.update (sw_name sw) sw (h_switches h),
       switch_handles := AList.update (sw_name sw) (SwitchHandle (sw_name sw)) (switch_handles h),
       network_handles := fold (\<lambda>net. AList.update (nw_name net) (NetworkHandle (nw_name net) (sw_name sw)))
         (networks sw) (network_handles h)\<rparr>)"
proof (cases "fst (add_switch sw h)")
  case (Inl e)
  then have "add_switch sw h = (Inl e, h)" by (auto simp: add_switch_def split: sum.splits)
  then show ?thesis by (rule err)
next
  case (Inr hnd)
  then have "require_mutable ''add_switch'' h = Inr ()" and fresh: "sw_name sw \<notin> set (dkeys (h_switches h))"
    and nets: "\<forall>net \<in> set (networks sw). (case map_of (network_handles h) (nw_name net) of
        None \<Rightarrow> Inr () | Some hnd \<Rightarrow> Inl (ValueError [nw_name net, network_owner hnd])) = Inr ()"
    and hnd: "mk_SwitchHandle (sw_name sw) = Inr hnd"
    by (auto simp: add_switch_def result_simps split: sum.splits)
  then have "\<not> frozen h" "sw_name sw \<noteq> []" "hnd = SwitchHandle (sw_name sw)"
    by (auto simp: require_mutable_def mk_SwitchHandle_def split: if_splits)
  moreover have "map_of (network_handles h) (nw_name net) = None" if "net \<in> set (networks sw)" for net
    using nets that by (auto split: option.splits)
  moreover have "snd (add_switch sw h) = h\<lparr>h_switches := AList.update (sw_name sw) sw (h_switches h),
       switch_handles := AList.update (sw_name sw) hnd (switch_handles h),
       network_handles := fold (\<lambda>net. AList.update (nw_name net) (NetworkHandle (nw_name net) (sw_name sw)))
         (networks sw) (network_handles h)\<rparr>"
    using Inr by (auto simp: add_switch_def split: sum.splits)
  ultimately show ?thesis using fresh Inr by (intro ok) (simp_all add: prod_eq_iff)
qed

lemma keyed_snoc: "keyed f d \<Longrightarrow> f v \<notin> set (dkeys d) \<Longrightarrow> keyed f (d @ [(f v, v)])"
  by (auto simp: keyed_def)

lemma keyed_names: "keyed f d \<Longrightarrow> map f (map snd d) = dkeys d"
  by (auto simp: keyed_def)

lemma dkeys_handles_of [simp]: "dkeys (handles_of mk d) = dkeys d"
  by (auto simp: handles_of_def)

lemma handles_of_snoc [simp]: "handles_of mk (d @ [(n, v)]) = handles_of mk d @ [(n, mk n)]"
  by (simp add: handles_of_def)

lemma map_of_handles_of: "map_of (handles_of mk d) n = (if n \<in> set (dkeys d) then Some (mk n) else None)"
  by (induction d) (auto simp: handles_of_def)

lemma network_fold:
  "map_of (fold (\<lambda>net. AList.update (nw_name net) (NetworkHandle (nw_name net) sw)) nets d) n =
     (if n \<in> nw_name ` set nets then Some (NetworkHandle n sw) else map_of d n)"
  by (induction nets arbitrary: d) (auto simp: update_conv')

lemma hyp_inv_add_pool: "hyp_inv h \<Longrightarrow> hyp_inv (snd (add_pool p h))"
  by (cases p h rule: add_pool_cases) (auto simp: hyp_inv_def dkeys_update_new keyed_snoc)

lemma hyp_inv_add_vm: "hyp_inv h \<Longrightarrow> hyp_inv (snd (add_vm r h))"
  by (cases r h rule: add_vm_cases) (auto simp: hyp_inv_def dkeys_update_new keyed_snoc)

lemma hyp_inv_net:
  "hyp_inv h \<Longrightarrow> map_of (network_handles h) n = Some hnd \<longleftrightarrow>
     (\<exists>s \<in> snd ` set (h_switches h). hnd = NetworkHandle n (sw_name s) \<and> n \<in> nw_name ` set (networks s))"
  unfolding hyp_inv_def by blast

lemma hyp_inv_add_switch:
  assumes inv: "hyp_inv h"
  shows "hyp_inv (snd (add_switch sw h))"
proof (cases sw h rule: add_switch_cases)
  case ok
  have other: "nw_name net \<notin> nw_name ` set (networks sw)"
    if "s \<in> snd ` set (h_switches h)" "net \<in> set (networks s)" for s net
  proof
    assume "nw_name net \<in> nw_name ` set (networks sw)"
    with ok(4) have "map_of (network_handles h) (nw_name net) = None" by auto
    moreover have "map_of (network_handles h) (nw_name net) = Some (NetworkHandle (nw_name net) (sw_name s))"
      using hyp_inv_net [OF inv] that by blast
    ultimately show False by simp
  qed
  have k: "keyed sw_name (h_switches h @ [(sw_name sw, sw)])"
    using inv ok(2) by (simp add: hyp_inv_def keyed_snoc)
  have n: "map_of (network_handles (snd (add_switch sw h))) n = Some hnd \<longleftrightarrow>
      (\<exists>s \<in> insert sw (snd ` set (h_switches h)). hnd = NetworkHandle n (sw_name s) \<and> n \<in> nw_name ` set (networks s))" for n hnd
  proof (cases "n \<in> nw_name ` set (networks sw)")
    case True
    with other have "\<not> (\<exists>s \<in> snd ` set (h_switches h). n \<in> nw_name ` set (networks s))" by blast
    with True show ?thesis unfolding ok(5) by (simp add: network_fold) blast
  next
    case False
    then show ?thesis using hyp_inv_net [OF inv, of n hnd] unfolding ok(5) by (simp add: network_fold)
  qed
  from inv ok(2) k n show ?thesis
    unfolding ok(5) hyp_inv_def by (simp add: dkeys_update_new del: fold_map)
qed (use inv in simp)

text \<open>\<open>needs\<close> only ever appends edges between node names.\<close>

lemma needs_preserves:
  assumes "P h" and "\<And>h x. P h \<Longrightarrow> P (h\<lparr>explicit_edges := explicit_edges h @ [(node_name self, node_name x)]\<rparr>)"
  shows "P (snd (needs self others h))"
  using assms(1)
proof (induction others arbitrary: h)
  case (Cons other others)
  let ?h = "h\<lparr>explicit_edges := explicit_edges h @ [(node_name self, node_name other)]\<rparr>"
  have "needs self (other # others) h = (if node_name other = node_name self then (Inl (ValueError [handle_str self]), h)
      else if frozen h then (Inl (ValueError [''add an ordering edge'']), h) else needs self others ?h)"
    by (simp add: add_explicit_edge_def require_mutable_def)
  then show ?case using Cons.prems Cons.IH [of ?h] assms(2) [of h other] by simp
qed simp

lemma hyp_inv_needs: "hyp_inv h \<Longrightarrow> hyp_inv (snd (needs self others h))"
  by (rule needs_preserves) (simp_all add: hyp_inv_def)

lemma reachable_inv: "reachable h \<Longrightarrow> hyp_inv h"
proof (induction rule: reachable.induct)
  case (facade h n c m o' b com ns dds fw)
  then show ?case by (auto simp: vm_def hyp_inv_add_vm split: sum.splits)
next
  case (frozen h)
  then show ?case by (simp add: freeze_def hyp_inv_def)
qed (simp_all add: hyp_inv_new hyp_inv_add_pool hyp_inv_add_switch hyp_inv_add_vm hyp_inv_needs)

lemma keyed_distinct: "keyed f d \<Longrightarrow> distinct (map f (map snd d))"
  by (simp only: keyed_names) (simp add: keyed_def)

lemma keyed_set: "keyed f d \<Longrightarrow> set (dkeys d) = f ` set (map snd d)"
  by (metis keyed_names set_map)

lemma hyp_inv_distinct:
  assumes "hyp_inv h"
  shows "distinct (map sp_name (declared_pools h))" "distinct (map sw_name (declared_switches h))"
    "distinct (map vr_name (declared_vms h))"
  using assms unfolding hyp_inv_def declared_pools_def declared_switches_def declared_vms_def
  by (blast intro: keyed_distinct)+

subsection \<open>Properties\<close>


definition sample_hypervisor :: "(unit, unit) hypervisor" where
  "sample_hypervisor = snd (add_vm (sample_vm ''192.168.10.100'') (snd (add_switch sample_switch
     (snd (add_pool \<lparr>sp_name = ''p'', sp_size_gb = 100\<rparr> (new_hypervisor None))))))"

lemma sample_hypervisor_reachable: "reachable sample_hypervisor"
  unfolding sample_hypervisor_def by (intro reachable.intros)


text \<open>C7: a frozen container is sealed. Every registration and every new ordering edge
  raises and leaves the container as it was.\<close>

theorem frozen_is_sealed:
  assumes "frozen h"
  shows "add_pool p h = (Inl (ValueError [''add_pool'']), h) \<and>
    add_switch sw h = (Inl (ValueError [''add_switch'']), h) \<and>
    add_vm r h = (Inl (ValueError [''add_vm'']), h) \<and>
    add_explicit_edge d y h = (Inl (ValueError [''add an ordering edge'']), h) \<and>
    snd (needs self others h) = h \<and> (others \<noteq> [] \<longrightarrow> (\<exists>e. fst (needs self others h) = Inl e)) \<and>
    snd (vm n c m o' b com ns dds fw h) = h \<and> (\<exists>e. fst (vm n c m o' b com ns dds fw h) = Inl e)"
proof -
  have vm: "add_vm r' h = (Inl (ValueError [''add_vm'']), h)" for r'
    using assms by (simp add: add_vm_def require_mutable_def)
  have "snd (needs self others h) = h \<and> (others \<noteq> [] \<longrightarrow> (\<exists>e. fst (needs self others h) = Inl e))"
    using assms by (cases others) (simp_all add: add_explicit_edge_def require_mutable_def)
  then show ?thesis
    using assms by (simp add: vm vm_def add_pool_def add_switch_def add_explicit_edge_def require_mutable_def split: sum.splits)
qed

theorem frozen_is_sealed_witness:
  "frozen (freeze sample_hypervisor) \<and>
   add_pool \<lparr>sp_name = ''q'', sp_size_gb = 1\<rparr> (freeze sample_hypervisor) =
     (Inl (ValueError [''add_pool'']), freeze sample_hypervisor)"
proof -
  have "frozen (freeze sample_hypervisor)" by (simp add: freeze_def)
  with frozen_is_sealed [OF this] show ?thesis by blast
qed

end
