(* ===== verification/Build_Graph.thy ===== *)
theory Build_Graph
  imports Prelude
begin

text \<open>
  The build graph of \<^verbatim>\<open>testrange/graph/edge.py\<close> and
  \<^verbatim>\<open>testrange/graph/build_graph.py\<close>: edges, the validating constructor, Kahn's
  algorithm by levels, and the depth-first search that reports a concrete cycle. The graph is
  kind-agnostic, so the node type is a type variable and the abstract property
  \<^verbatim>\<open>Node.name\<close> is the argument \<open>nm\<close>.
\<close>

subsection \<open>Edges\<close>

datatype edge_kind = ORDERING_KIND

datatype cacheability = ORDERING | BAKE | REPLAY

record edge =
  dependent :: name
  dependency :: name
  e_kind :: edge_kind
  cacheability :: cacheability

definition mk_edge :: "name \<Rightarrow> name \<Rightarrow> edge_kind \<Rightarrow> cacheability \<Rightarrow> edge result" where
  "mk_edge d y k c =
     (if d = [] then Inl (ValueError [])
      else if y = [] then Inl (ValueError [])
      else Inr \<lparr>dependent = d, dependency = y, e_kind = k, cacheability = c\<rparr>)"

text \<open>\<^verbatim>\<open>Edge(a, b)\<close> with the default facets, for non-empty names.\<close>

definition ordering_edge :: "name \<Rightarrow> name \<Rightarrow> edge" where
  "ordering_edge d y = \<lparr>dependent = d, dependency = y, e_kind = ORDERING_KIND, cacheability = ORDERING\<rparr>"

lemma ordering_edge_simps [simp]:
  "dependent (ordering_edge d y) = d" "dependency (ordering_edge d y) = y"
  "cacheability (ordering_edge d y) = ORDERING"
  by (simp_all add: ordering_edge_def)

lemma mk_edge_ordering:
  "mk_edge d y ORDERING_KIND ORDERING = Inr (ordering_edge d y) \<longleftrightarrow> d \<noteq> [] \<and> y \<noteq> []"
  by (simp add: mk_edge_def ordering_edge_def)

definition affects_cache_key :: "edge \<Rightarrow> bool" where
  "affects_cache_key e \<longleftrightarrow> cacheability e \<noteq> ORDERING"

subsection \<open>The graph and its construction\<close>

record 'n build_graph =
  g_name :: name
  g_nodes :: "'n list"
  g_edges :: "edge list"
  by_name :: "(name, 'n) dict"
  deps :: "(name, name list) dict"
  dependents :: "(name, name list) dict"
  g_waves :: "'n list list"
  g_content_waves :: "'n list list"

text \<open>The registry loop: names are identities.\<close>

fun index_nodes :: "('n \<Rightarrow> name) \<Rightarrow> name \<Rightarrow> (name, 'n) dict \<Rightarrow> 'n list \<Rightarrow> (name, 'n) dict result"
where
  "index_nodes nm g d [] = Inr d"
| "index_nodes nm g d (n # ns) =
     (if nm n \<in> set (dkeys d) then Inl (DuplicateNodeError [g, nm n])
      else index_nodes nm g (d @ [(nm n, n)]) ns)"

text \<open>The adjacency loop: self-loops and unknown endpoints are rejected, in that order; the
  dependent is checked before the dependency.\<close>

fun link_edges :: "name \<Rightarrow> name list \<Rightarrow> (name, name list) dict \<Rightarrow> (name, name list) dict \<Rightarrow>
    edge list \<Rightarrow> ((name, name list) dict \<times> (name, name list) dict) result" where
  "link_edges g known ds rs [] = Inr (ds, rs)"
| "link_edges g known ds rs (e # es) =
     (if dependent e = dependency e then Inl (SelfDependencyError [g, dependent e])
      else if dependent e \<notin> set known then
        Inl (DanglingDependencyError [g, dependent e, dependency e, dependent e, ''dependent''])
      else if dependency e \<notin> set known then
        Inl (DanglingDependencyError [g, dependent e, dependency e, dependency e, ''dependency''])
      else link_edges g known (dict_add (dependent e) (dependency e) ds)
             (dict_add (dependency e) (dependent e) rs) es)"

text \<open>The adjacency of the content sub-graph: cacheable edges only, no check.\<close>

fun link_content :: "(name, name list) dict \<Rightarrow> (name, name list) dict \<Rightarrow> edge list \<Rightarrow>
    (name, name list) dict \<times> (name, name list) dict" where
  "link_content ds rs [] = (ds, rs)"
| "link_content ds rs (e # es) =
     (if affects_cache_key e
      then link_content (dict_add (dependent e) (dependency e) ds)
             (dict_add (dependency e) (dependent e) rs) es
      else link_content ds rs es)"

definition empty_adj :: "name list \<Rightarrow> (name, name list) dict" where
  "empty_adj known = map (\<lambda>n. (n, [])) known"

subsection \<open>Kahn's algorithm by levels\<close>

text \<open>The body of the \<^verbatim>\<open>while current\<close> loop: every dependent of the level just finished
  that is not done and whose dependencies all are. \<open>done\<close> already includes that
  level. A dependent with no entry in \<open>ds\<close> would be a \<^verbatim>\<open>KeyError\<close>; the
  constructor's dictionaries have an entry for every node (lemma \<open>link_edges_keys\<close>).\<close>

definition next_wave :: "(name, name list) dict \<Rightarrow> (name, name list) dict \<Rightarrow> name list \<Rightarrow>
    name list \<Rightarrow> name list" where
  "next_wave ds rs done current =
     sorted_set (filter (\<lambda>d. d \<notin> set done \<and>
         (case map_of ds d of None \<Rightarrow> False | Some xs \<Rightarrow> set xs \<subseteq> set done))
       (concat (map (dget rs) current)))"

definition wave_measure :: "(name, name list) dict \<Rightarrow> name list \<Rightarrow> name list \<Rightarrow> nat" where
  "wave_measure ds done current =
     (if current = [] then 0
      else if set current \<subseteq> set (dkeys ds) - set done then card (set (dkeys ds) - set done)
      else Suc (card (set (dkeys ds) - set done)))"

lemma next_wave_subset:
  "set (next_wave ds rs done current) \<subseteq> set (dkeys ds) - set done"
  by (auto simp: next_wave_def split: option.splits dest: map_of_SomeD intro: rev_image_eqI)

lemma wave_measure_decreases:
  assumes "current \<noteq> []"
  shows "wave_measure ds (done @ current) (next_wave ds rs (done @ current) current)
    < wave_measure ds done current"
proof -
  let ?K = "set (dkeys ds)" and ?done' = "done @ current"
  let ?nxt = "next_wave ds rs ?done' current"
  have le: "card (?K - set ?done') \<le> card (?K - set done)"
    by (rule card_mono) auto
  have lt: "card (?K - set ?done') < card (?K - set done)"
    if "set current \<subseteq> ?K - set done"
    using that assms by (intro psubset_card_mono) (auto simp: neq_Nil_conv)
  have "set ?nxt \<subseteq> ?K - set ?done'"
    by (rule next_wave_subset)
  with assms le lt show ?thesis
    by (auto simp: wave_measure_def)
qed

function wave_loop :: "(name, name list) dict \<Rightarrow> (name, name list) dict \<Rightarrow> name list \<Rightarrow>
    name list \<Rightarrow> name list list \<Rightarrow> name list \<times> name list list" where
  "wave_loop ds rs done current waves =
     (if current = [] then (done, waves)
      else wave_loop ds rs (done @ current) (next_wave ds rs (done @ current) current)
             (waves @ [current]))"
  by pat_completeness auto
termination
  by (relation "measure (\<lambda>(ds, rs, done, current, waves). wave_measure ds done current)")
     (auto simp: wave_measure_decreases simp del: append_assoc)

declare wave_loop.simps [simp del]

subsection \<open>Reporting a cycle\<close>

text \<open>The explicit-stack depth-first search of \<^verbatim>\<open>_find_cycle\<close>. A frame is a node
  and the dependencies its iterator has still to yield; the newest frame comes first. The
  source's \<^verbatim>\<open>path\<close> and \<^verbatim>\<open>on_path\<close> mirror the frame stack, so
  they are read off it: \<open>path = rev (map fst frames)\<close>. \<open>Inr c\<close> is the early
  return of a cycle, \<open>Inl black\<close> the end of one root's search.\<close>

definition dfs_universe :: "(name, name list) dict \<Rightarrow> (name \<times> name list) list \<Rightarrow> name set" where
  "dfs_universe ds frames =
     set (concat (map snd ds)) \<union> fst ` set frames \<union> set (concat (map snd frames))"

lemma dget_in_values: "x \<in> set (dget ds k) \<Longrightarrow> x \<in> set (concat (map snd ds))"
  by (cases "map_of ds k") (auto simp: dget_def intro!: bexI [of _ "(k, _)"] dest: map_of_SomeD)

function dfs :: "name list \<Rightarrow> (name, name list) dict \<Rightarrow> name list \<Rightarrow> (name \<times> name list) list \<Rightarrow>
    name list + name list" where
  "dfs settled ds black [] = Inl black"
| "dfs settled ds black ((node, []) # frames) = dfs settled ds (node # black) frames"
| "dfs settled ds black ((node, dep # rest) # frames) =
     (if dep \<in> set settled \<or> dep \<in> set black then dfs settled ds black ((node, rest) # frames)
      else if dep \<in> set (map fst ((node, rest) # frames)) then
        Inr (dropWhile (\<lambda>n. n \<noteq> dep) (rev (map fst ((node, rest) # frames))) @ [dep])
      else dfs settled ds black ((dep, sorted_set (dget ds dep)) # (node, rest) # frames))"
  by pat_completeness auto

definition dfs_grey :: "(name, name list) dict \<Rightarrow> name list \<Rightarrow> (name \<times> name list) list \<Rightarrow> nat" where
  "dfs_grey ds black frames = card (dfs_universe ds frames - set black - fst ` set frames)"

definition dfs_left :: "(name \<times> name list) list \<Rightarrow> nat" where
  "dfs_left frames = sum_list (map (\<lambda>f. Suc (length (snd f))) frames)"

lemma dfs_grey_mono:
  "dfs_universe ds frames' - set black' - fst ` set frames'
     \<subseteq> dfs_universe ds frames - set black - fst ` set frames \<Longrightarrow>
   dfs_grey ds black' frames' \<le> dfs_grey ds black frames"
  unfolding dfs_grey_def by (rule card_mono) (auto simp: dfs_universe_def)

lemma dfs_grey_push:
  assumes "dep \<notin> set black" and "dep \<notin> fst ` set ((node, rest) # frames)"
  shows "dfs_grey ds black ((dep, sorted_set (dget ds dep)) # (node, rest) # frames)
    < dfs_grey ds black ((node, dep # rest) # frames)"
  unfolding dfs_grey_def
proof (rule psubset_card_mono)
  show "finite (dfs_universe ds ((node, dep # rest) # frames) - set black
      - fst ` set ((node, dep # rest) # frames))"
    by (simp add: dfs_universe_def)
  show "dfs_universe ds ((dep, sorted_set (dget ds dep)) # (node, rest) # frames) - set black
      - fst ` set ((dep, sorted_set (dget ds dep)) # (node, rest) # frames)
    \<subset> dfs_universe ds ((node, dep # rest) # frames) - set black
      - fst ` set ((node, dep # rest) # frames)"
  proof (rule psubsetI)
    show "dfs_universe ds ((dep, sorted_set (dget ds dep)) # (node, rest) # frames) - set black
        - fst ` set ((dep, sorted_set (dget ds dep)) # (node, rest) # frames)
      \<subseteq> dfs_universe ds ((node, dep # rest) # frames) - set black
        - fst ` set ((node, dep # rest) # frames)"
      using dget_in_values [of _ ds dep] by (auto simp: dfs_universe_def simp del: set_concat)
    have "dep \<in> dfs_universe ds ((node, dep # rest) # frames) - set black
        - fst ` set ((node, dep # rest) # frames)"
      using assms by (auto simp: dfs_universe_def)
    then show "dfs_universe ds ((dep, sorted_set (dget ds dep)) # (node, rest) # frames) - set black
        - fst ` set ((dep, sorted_set (dget ds dep)) # (node, rest) # frames)
      \<noteq> dfs_universe ds ((node, dep # rest) # frames) - set black
        - fst ` set ((node, dep # rest) # frames)"
      by auto
  qed
qed

termination dfs
proof (relation "measures [\<lambda>(settled, ds, black, frames). dfs_grey ds black frames,
    \<lambda>(settled, ds, black, frames). dfs_left frames]", goal_cases)
  case (2 settled ds black node frames)
  have "dfs_grey ds (node # black) frames \<le> dfs_grey ds black ((node, []) # frames)"
    by (rule dfs_grey_mono) (auto simp: dfs_universe_def)
  then show ?case by (auto simp: dfs_left_def)
next
  case (3 settled ds black node dep rest frames)
  then have "dfs_grey ds black ((node, rest) # frames)
      \<le> dfs_grey ds black ((node, dep # rest) # frames)"
    by (intro dfs_grey_mono) (auto simp: dfs_universe_def)
  then show ?case by (auto simp: dfs_left_def)
next
  case (4 settled ds black node dep rest frames)
  then show ?case using dfs_grey_push [of dep black node rest frames ds] by auto
qed simp

fun find_cycle :: "name list \<Rightarrow> (name, name list) dict \<Rightarrow> name list \<Rightarrow> name list \<Rightarrow> name list option"
where
  "find_cycle settled ds black [] = None"
| "find_cycle settled ds black (root # roots) =
     (if root \<in> set settled \<or> root \<in> set black then find_cycle settled ds black roots
      else case dfs settled ds black [(root, sorted_set (dget ds root))] of
        Inr c \<Rightarrow> Some c
      | Inl black' \<Rightarrow> find_cycle settled ds black' roots)"

subsection \<open>The constructor\<close>

text \<open>\<open>all_deps\<close> is \<^verbatim>\<open>self._deps\<close>, which the cycle search reads whatever relation
  the waves are computed for; \<open>ds\<close> and \<open>rs\<close> are that relation.\<close>

definition compute_waves :: "name \<Rightarrow> (name, 'n) dict \<Rightarrow> 'n list \<Rightarrow> (name, name list) dict \<Rightarrow>
    (name, name list) dict \<Rightarrow> (name, name list) dict \<Rightarrow> 'n list list result" where
  "compute_waves g reg nodes all_deps ds rs =
     (let (done, waves) = wave_loop ds rs [] (sort (map fst (filter (\<lambda>(n, d). d = []) ds))) []
      in if length (remdups done) \<noteq> length nodes
         then (case find_cycle done all_deps [] (dkeys reg) of
             Some c \<Rightarrow> Inl (GraphCycleError (g # c))
           | None \<Rightarrow> Inl (AssertionError [g]))
         else Inr (map (map (\<lambda>n. the (map_of reg n))) waves))"

definition BuildGraph :: "('n \<Rightarrow> name) \<Rightarrow> name \<Rightarrow> 'n list \<Rightarrow> edge list \<Rightarrow> 'n build_graph result" where
  "BuildGraph nm g nodes es =
     (if g = [] then Inl (ValueError [])
      else bindR (index_nodes nm g [] nodes) (\<lambda>reg.
        bindR (link_edges g (dkeys reg) (empty_adj (dkeys reg)) (empty_adj (dkeys reg)) es)
          (\<lambda>(ds, rs). bindR (compute_waves g reg nodes ds ds rs) (\<lambda>ws.
        let (cds, crs) = link_content (empty_adj (dkeys reg)) (empty_adj (dkeys reg)) es
        in bindR (compute_waves g reg nodes ds cds crs) (\<lambda>cws.
        Inr \<lparr>g_name = g, g_nodes = nodes, g_edges = es, by_name = reg, deps = ds,
             dependents = rs, g_waves = ws, g_content_waves = cws\<rparr>)))))"

subsection \<open>Queries\<close>

definition node :: "'n build_graph \<Rightarrow> name \<Rightarrow> 'n result" where
  "node G n = (case map_of (by_name G) n of None \<Rightarrow> Inl (KeyError [n]) | Some x \<Rightarrow> Inr x)"

definition contains :: "'n build_graph \<Rightarrow> name \<Rightarrow> bool" where
  "contains G n \<longleftrightarrow> n \<in> set (dkeys (by_name G))"

definition resolve :: "'n build_graph \<Rightarrow> name list \<Rightarrow> 'n list" where
  "resolve G ns = map (\<lambda>n. the (map_of (by_name G) n)) ns"

definition dependencies_of :: "'n build_graph \<Rightarrow> name \<Rightarrow> 'n list result" where
  "dependencies_of G n = (case map_of (deps G) n of
     None \<Rightarrow> Inl (KeyError [n]) | Some ds \<Rightarrow> Inr (resolve G (sorted_set ds)))"

definition dependents_of :: "'n build_graph \<Rightarrow> name \<Rightarrow> 'n list result" where
  "dependents_of G n = (case map_of (dependents G) n of
     None \<Rightarrow> Inl (KeyError [n]) | Some ds \<Rightarrow> Inr (resolve G (sorted_set ds)))"

definition content_dependencies_of :: "'n build_graph \<Rightarrow> name \<Rightarrow> 'n list" where
  "content_dependencies_of G n = resolve G (sorted_set (map dependency
     (filter (\<lambda>e. dependent e = n \<and> affects_cache_key e) (g_edges G))))"

definition waves :: "'n build_graph \<Rightarrow> 'n list list" where
  "waves G = g_waves G"

definition content_waves :: "'n build_graph \<Rightarrow> 'n list list" where
  "content_waves G = g_content_waves G"

definition topological_order :: "'n build_graph \<Rightarrow> 'n list" where
  "topological_order G = concat (g_waves G)"

definition reverse_topological_order :: "'n build_graph \<Rightarrow> 'n list" where
  "reverse_topological_order G = rev (topological_order G)"

end
