(* ===== verification/Graph_Schedule.thy ===== *)
theory Graph_Schedule
  imports Build_Graph
begin

text \<open>
  The topological waves. Kahn's algorithm looks only at the dependents of the level it has just
  finished; here it is shown equal to the definition the documentation gives, in which a level
  is every remaining node whose dependencies are all in earlier levels
  (\<open>ready\<close>, \<open>level_loop\<close>). Everything else is proved about the reference loop.
\<close>

subsection \<open>The adjacency the constructor builds\<close>

definition adj :: "name list \<Rightarrow> (name, name list) dict \<Rightarrow> (name, name list) dict \<Rightarrow> bool" where
  "adj known ds rs \<longleftrightarrow> distinct known \<and> dkeys ds = known \<and> dkeys rs = known \<and>
     (\<forall>a b. b \<in> set (dget ds a) \<longleftrightarrow> a \<in> set (dget rs b))"

definition pairs :: "edge list \<Rightarrow> (name \<times> name) set" where
  "pairs es = (\<lambda>e. (dependent e, dependency e)) ` set es"

lemma pairs_simps [simp]:
  "pairs [] = {}"
  "pairs (e # es) = insert (dependent e, dependency e) (pairs es)"
  by (auto simp: pairs_def)

lemma dget_empty_adj [simp]: "dget (empty_adj ks) k = []"
  by (induction ks) (auto simp: empty_adj_def dget_def)

lemma dkeys_empty_adj [simp]: "dkeys (empty_adj ks) = ks"
  by (simp add: empty_adj_def comp_def)

lemma link_edges_keys:
  "link_edges g known ds rs es = Inr (ds', rs') \<Longrightarrow> dkeys ds' = dkeys ds \<and> dkeys rs' = dkeys rs"
  by (induction g known ds rs es rule: link_edges.induct) (auto split: if_splits)

lemma link_edges_ok:
  "link_edges g known ds rs es = Inr r \<Longrightarrow>
   \<forall>(a, b) \<in> pairs es. a \<noteq> b \<and> a \<in> set known \<and> b \<in> set known"
  by (induction g known ds rs es rule: link_edges.induct) (auto split: if_splits)

lemma link_edges_total:
  "\<forall>(a, b) \<in> pairs es. a \<noteq> b \<and> a \<in> set known \<and> b \<in> set known \<Longrightarrow>
   \<exists>r. link_edges g known ds rs es = Inr r"
  by (induction g known ds rs es rule: link_edges.induct) auto

lemma link_edges_adj:
  assumes "link_edges g known ds rs es = Inr (ds', rs')"
    and "dkeys ds = known" and "dkeys rs = known"
  shows "set (dget ds' a) = set (dget ds a) \<union> {b. (a, b) \<in> pairs es}"
    and "set (dget rs' b) = set (dget rs b) \<union> {a. (a, b) \<in> pairs es}"
  using assms
  by (induction g known ds rs es rule: link_edges.induct)
     (auto simp: set_dget_dict_add split: if_splits)

lemma link_content_keys:
  "link_content ds rs es = (ds', rs') \<Longrightarrow> dkeys ds' = dkeys ds \<and> dkeys rs' = dkeys rs"
  by (induction ds rs es rule: link_content.induct) (auto split: if_splits)

lemma link_content_adj:
  assumes "link_content ds rs es = (ds', rs')"
    and "\<forall>(a, b) \<in> pairs es. a \<in> set (dkeys ds) \<and> b \<in> set (dkeys rs)"
  shows "set (dget ds' a) = set (dget ds a) \<union> {b. (a, b) \<in> pairs (filter affects_cache_key es)}"
    and "set (dget rs' b) = set (dget rs b) \<union> {a. (a, b) \<in> pairs (filter affects_cache_key es)}"
  using assms
  by (induction ds rs es rule: link_content.induct)
     (auto simp: set_dget_dict_add split: if_splits)

lemma adjI_link_edges:
  assumes "link_edges g known (empty_adj known) (empty_adj known) es = Inr (ds, rs)"
    and "distinct known"
  shows "adj known ds rs" and "set (dget ds a) = {b. (a, b) \<in> pairs es}"
  using link_edges_adj [OF assms(1)] link_edges_keys [OF assms(1)] assms(2)
  by (auto simp: adj_def)

lemma adjI_link_content:
  assumes "link_content (empty_adj known) (empty_adj known) es = (ds, rs)"
    and "distinct known" and "\<forall>(a, b) \<in> pairs es. a \<in> set known \<and> b \<in> set known"
  shows "adj known ds rs" and "set (dget ds a) = {b. (a, b) \<in> pairs (filter affects_cache_key es)}"
  using link_content_adj [OF assms(1)] link_content_keys [OF assms(1)] assms(2,3)
  by (auto simp: adj_def)

subsection \<open>The reference loop\<close>

definition ready :: "(name, name list) dict \<Rightarrow> name list \<Rightarrow> name list" where
  "ready ds done = sorted_set (filter (\<lambda>n. n \<notin> set done \<and> set (dget ds n) \<subseteq> set done) (dkeys ds))"

lemma ready_subset: "set (ready ds done) \<subseteq> set (dkeys ds) - set done"
  by (auto simp: ready_def)

lemma ready_iff:
  "n \<in> set (ready ds done) \<longleftrightarrow> n \<in> set (dkeys ds) \<and> n \<notin> set done \<and> set (dget ds n) \<subseteq> set done"
  by (auto simp: ready_def)

lemma distinct_ready [simp]: "distinct (ready ds done)"
  by (simp add: ready_def)

function level_loop :: "(name, name list) dict \<Rightarrow> name list \<Rightarrow> name list list" where
  "level_loop ds done =
     (if ready ds done = [] then [] else ready ds done # level_loop ds (done @ ready ds done))"
  by pat_completeness auto
termination
proof (relation "measure (\<lambda>(ds, done). card (set (dkeys ds) - set done))", goal_cases)
  case (2 ds "done")
  then have "\<exists>n. n \<in> set (ready ds done)" by (auto simp: neq_Nil_conv)
  then show ?case
    using ready_subset [of ds "done"] by (auto intro!: psubset_card_mono)
qed simp

declare level_loop.simps [simp del]

lemma next_wave_iff:
  "d \<in> set (next_wave ds rs done current) \<longleftrightarrow>
   d \<in> (\<Union>f \<in> set current. set (dget rs f)) \<and> d \<in> set (dkeys ds) \<and> d \<notin> set done \<and>
   set (dget ds d) \<subseteq> set done"
proof (cases "map_of ds d")
  case None
  then have "d \<notin> set (dkeys ds)" by (simp add: map_of_eq_None_iff)
  with None show ?thesis by (simp add: next_wave_def)
next
  case (Some xs)
  then have "d \<in> set (dkeys ds)" and "dget ds d = xs"
    by (auto simp: dget_def dest: map_of_SomeD intro: rev_image_eqI)
  with Some show ?thesis by (auto simp: next_wave_def)
qed

lemma next_wave_ready:
  assumes "adj known ds rs" and cur: "current = ready ds done"
  shows "next_wave ds rs (done @ current) current = ready ds (done @ current)"
proof (rule sorted_distinct_set_unique)
  let ?D = "set (done @ current)"
  have new: "d \<in> (\<Union>f \<in> set current. set (dget rs f))"
    if "d \<in> set (dkeys ds)" "d \<notin> ?D" "set (dget ds d) \<subseteq> ?D" for d
  proof -
    from that have "\<not> set (dget ds d) \<subseteq> set done" by (auto simp: cur ready_iff)
    with that(3) obtain b where "b \<in> set (dget ds d)" "b \<in> set current" by auto
    then show ?thesis using assms(1) by (auto simp: adj_def)
  qed
  show "set (next_wave ds rs (done @ current) current) = set (ready ds (done @ current))"
    by (rule set_eqI) (unfold next_wave_iff ready_iff, use new in blast)
qed (simp_all add: next_wave_def ready_def)

lemma wave_loop_levels:
  assumes "adj known ds rs" and "current = ready ds done"
  shows "wave_loop ds rs done current ws =
    (done @ concat (level_loop ds done), ws @ level_loop ds done)"
  using assms
proof (induction ds rs "done" current ws rule: wave_loop.induct)
  case (1 ds rs "done" current ws)
  show ?case
  proof (cases "current = []")
    case True
    then show ?thesis using "1.prems" by (simp add: wave_loop.simps level_loop.simps)
  next
    case False
    have "next_wave ds rs (done @ current) current = ready ds (done @ current)"
      using "1.prems" by (rule next_wave_ready)
    with False "1.IH" "1.prems" show ?thesis
      by (simp add: wave_loop.simps [of ds rs "done" "ready ds done"] level_loop.simps [of ds "done"])
  qed
qed

lemma initial_wave:
  assumes "distinct (dkeys ds)"
  shows "sort (map fst (filter (\<lambda>(n, d). d = []) ds)) = ready ds []"
proof (intro sorted_distinct_set_unique)
  have eq: "d = dget ds n" if "(n, d) \<in> set ds" for n d
    using that assms by (auto simp: dget_def)
  show "distinct (sort (map fst (filter (\<lambda>(n, d). d = []) ds)))"
    using assms by (auto simp: distinct_map intro: inj_on_subset)
  show "set (sort (map fst (filter (\<lambda>(n, d). d = []) ds))) = set (ready ds [])"
  proof (rule set_eqI)
    fix n
    have "n \<in> set (sort (map fst (filter (\<lambda>(n, d). d = []) ds))) \<longleftrightarrow> (n, []) \<in> set ds"
      by force
    also have "\<dots> \<longleftrightarrow> n \<in> set (dkeys ds) \<and> dget ds n = []"
      by (metis (no_types, lifting) eq imageE image_eqI fst_conv list.set_map prod.collapse)
    finally show "n \<in> set (sort (map fst (filter (\<lambda>(n, d). d = []) ds))) \<longleftrightarrow> n \<in> set (ready ds [])"
      by (simp add: ready_iff)
  qed
qed (simp_all add: ready_def)

subsection \<open>What a schedule promises\<close>

lemma set_level_loop: "set (concat (level_loop ds done)) \<subseteq> set (dkeys ds) - set done"
proof (induction ds "done" rule: level_loop.induct)
  case (1 ds "done")
  then show ?case
    using ready_subset [of ds "done"] by (subst level_loop.simps) auto
qed

lemma distinct_level_loop: "distinct (concat (level_loop ds done))"
proof (induction ds "done" rule: level_loop.induct)
  case (1 ds "done")
  then show ?case
    using set_level_loop [of ds "done @ ready ds done"] by (subst level_loop.simps) auto
qed

lemma level_loop_unfold:
  "ready ds done \<noteq> [] \<Longrightarrow>
   level_loop ds done = ready ds done # level_loop ds (done @ ready ds done)"
  by (subst level_loop.simps) simp

lemma level_loop_nonempty: "[] \<notin> set (level_loop ds done)"
proof (induction ds "done" rule: level_loop.induct)
  case (1 ds "done")
  then show ?case by (subst level_loop.simps) auto
qed

lemma level_loop_nth:
  "i < length (level_loop ds done) \<Longrightarrow>
   level_loop ds done ! i = ready ds (done @ concat (take i (level_loop ds done)))"
proof (induction ds "done" arbitrary: i rule: level_loop.induct)
  case (1 ds "done")
  show ?case
  proof (cases "ready ds done = []")
    case True
    with "1.prems" show ?thesis by (simp add: level_loop.simps)
  next
    case False
    note eq = level_loop_unfold [OF False]
    show ?thesis
    proof (cases i)
      case 0
      then show ?thesis by (simp add: eq)
    next
      case (Suc j)
      then show ?thesis using "1.IH" [OF False, of j] "1.prems" by (simp add: eq)
    qed
  qed
qed

lemma level_loop_stuck: "ready ds (done @ concat (level_loop ds done)) = []"
proof (induction ds "done" rule: level_loop.induct)
  case (1 ds "done")
  show ?case
  proof (cases "ready ds done = []")
    case True
    then show ?thesis by (simp add: level_loop.simps)
  next
    case False
    from "1.IH" [OF False] show ?thesis by (simp add: level_loop_unfold [OF False])
  qed
qed

lemmas level_loop_facts = set_level_loop distinct_level_loop level_loop_stuck

end
