(* ===== verification/Graph_Cycle.thy ===== *)
theory Graph_Cycle
  imports Graph_Schedule
begin

text \<open>
  The cycle report. The search of \<open>dfs\<close> keeps two facts: every finished (black) node has only
  settled and earlier-finished dependencies, and the frames spell a path of the dependency
  relation. The first makes a search that ends without a cycle impossible once Kahn's
  algorithm is stuck, the second makes the reported path a genuine cycle.
  Throughout, \<open>S\<close> is the set of settled nodes and \<open>U\<close> the set of the others.
\<close>

definition is_cycle :: "(name, name list) dict \<Rightarrow> name list \<Rightarrow> bool" where
  "is_cycle ds c \<longleftrightarrow> 2 \<le> length c \<and> hd c = last c \<and> successively (\<lambda>a b. b \<in> set (dget ds a)) c"

definition split_nodes :: "name set \<Rightarrow> name set \<Rightarrow> (name, name list) dict \<Rightarrow> bool" where
  "split_nodes S U ds \<longleftrightarrow> S \<inter> U = {} \<and> (\<forall>n. set (dget ds n) \<subseteq> S \<union> U)"

text \<open>Finished nodes, newest first.\<close>

fun black_ok :: "name set \<Rightarrow> name set \<Rightarrow> (name, name list) dict \<Rightarrow> name list \<Rightarrow> bool" where
  "black_ok S U ds [] = True"
| "black_ok S U ds (b # bs) = (b \<in> U \<and> set (dget ds b) \<subseteq> S \<union> set bs \<and> black_ok S U ds bs)"

text \<open>Frames, newest first; \<open>C\<close> holds the node of the frame above, if there is one.\<close>

fun frames_ok :: "name set \<Rightarrow> name set \<Rightarrow> (name, name list) dict \<Rightarrow> name set \<Rightarrow> name set \<Rightarrow>
    (name \<times> name list) list \<Rightarrow> bool" where
  "frames_ok S U ds B C [] = True"
| "frames_ok S U ds B C ((n, rest) # fs) =
     (n \<in> U \<and> C \<union> set rest \<subseteq> set (dget ds n) \<and> set (dget ds n) \<subseteq> S \<union> B \<union> set rest \<union> C
      \<and> frames_ok S U ds B {n} fs)"

lemma frames_ok_mono: "frames_ok S U ds B C fs \<Longrightarrow> B \<subseteq> B' \<Longrightarrow> frames_ok S U ds B' C fs"
  by (induction S U ds B C fs rule: frames_ok.induct) auto

lemma frames_ok_pop: "frames_ok S U ds B {n} fs \<Longrightarrow> frames_ok S U ds (insert n B) {} fs"
proof (cases fs)
  case (Cons f fs')
  assume *: "frames_ok S U ds B {n} fs"
  obtain m rest where f: "f = (m, rest)" by (cases f)
  with * Cons have "frames_ok S U ds (insert n B) {m} fs'"
    by (auto intro: frames_ok_mono)
  with * Cons f show ?thesis by auto
qed simp

lemma frames_ok_path:
  "frames_ok S U ds B C fs \<Longrightarrow> successively (\<lambda>a b. b \<in> set (dget ds a)) (rev (map fst fs))
     \<and> set (map fst fs) \<subseteq> U"
proof (induction S U ds B C fs rule: frames_ok.induct)
  case (2 S U ds B C n rest fs)
  then show ?case by (cases fs) (auto simp: successively_append_iff)
qed simp

lemma dropWhile_path:
  assumes "successively P xs" and "x \<in> set xs"
  shows "successively P (dropWhile (\<lambda>n. n \<noteq> x) xs)" and "hd (dropWhile (\<lambda>n. n \<noteq> x) xs) = x"
    and "dropWhile (\<lambda>n. n \<noteq> x) xs \<noteq> []" and "last (dropWhile (\<lambda>n. n \<noteq> x) xs) = last xs"
proof -
  let ?d = "dropWhile (\<lambda>n. n \<noteq> x) xs"
  have split: "takeWhile (\<lambda>n. n \<noteq> x) xs @ ?d = xs" by simp
  show ne: "?d \<noteq> []" using assms(2) by (auto simp: dropWhile_eq_Nil_conv)
  show "successively P ?d"
    using assms(1) successively_append_iff [of P "takeWhile (\<lambda>n. n \<noteq> x) xs" ?d] by simp
  show "hd ?d = x" using hd_dropWhile [OF ne] by simp
  show "last ?d = last xs" by (metis ne split last_appendR)
qed

lemma close_cycle:
  assumes "frames_ok S U ds B C fs" and "dep \<in> set (map fst fs)"
    and "dep \<in> set (dget ds (fst (hd fs)))"
  shows "is_cycle ds (dropWhile (\<lambda>n. n \<noteq> dep) (rev (map fst fs)) @ [dep])"
    and "set (dropWhile (\<lambda>n. n \<noteq> dep) (rev (map fst fs)) @ [dep]) \<subseteq> U"
proof -
  let ?p = "rev (map fst fs)"
  let ?d = "dropWhile (\<lambda>n. n \<noteq> dep) ?p"
  have path: "successively (\<lambda>a b. b \<in> set (dget ds a)) ?p" "set ?p \<subseteq> U"
    using frames_ok_path [OF assms(1)] by auto
  have dep: "dep \<in> set ?p" using assms(2) by simp
  note d = dropWhile_path [OF path(1) dep]
  have "last ?p = fst (hd fs)" using assms(2) by (cases fs) auto
  with assms(3) d have "successively (\<lambda>a b. b \<in> set (dget ds a)) (?d @ [dep])"
    by (simp add: successively_append_iff)
  then show "is_cycle ds (?d @ [dep])"
    using d(2,3) by (cases ?d) (auto simp: is_cycle_def)
  show "set (?d @ [dep]) \<subseteq> U"
    using path(2) dep set_dropWhileD [of _ "\<lambda>n. n \<noteq> dep" ?p] by auto
qed

lemma dfs_invariant:
  assumes "split_nodes (set settled) U ds"
    and "black_ok (set settled) U ds black"
    and "frames_ok (set settled) U ds (set black) {} frames"
  shows "case dfs settled ds black frames of
      Inl black' \<Rightarrow> black_ok (set settled) U ds black' \<and> set black \<union> fst ` set frames \<subseteq> set black'
    | Inr c \<Rightarrow> is_cycle ds c \<and> set c \<subseteq> U"
  using assms
proof (induction settled ds black frames rule: dfs.induct)
  case (2 settled ds black node frames)
  then have "black_ok (set settled) U ds (node # black)"
    and "frames_ok (set settled) U ds (set (node # black)) {} frames"
    by (auto intro: frames_ok_pop)
  from "2.IH" [OF "2.prems"(1) this] show ?case by (auto split: sum.splits)
next
  case (3 settled ds black node dep rest frames)
  let ?fs = "(node, rest) # frames"
  consider "dep \<in> set settled \<or> dep \<in> set black"
    | "\<not> (dep \<in> set settled \<or> dep \<in> set black)" "dep \<in> set (map fst ?fs)"
    | "\<not> (dep \<in> set settled \<or> dep \<in> set black)" "dep \<notin> set (map fst ?fs)"
    by blast
  then show ?case
  proof cases
    case 1
    with "3.prems" have "frames_ok (set settled) U ds (set black) {} ?fs" by auto
    from "3.IH"(1) [OF 1 "3.prems"(1,2) this] 1 show ?thesis by (auto split: sum.splits)
  next
    case 2
    then show ?thesis
      using close_cycle [OF "3.prems"(3), of dep] "3.prems"(3) by auto
  next
    case 3
    have "set (dget ds node) \<subseteq> set settled \<union> U"
      using "3.prems"(1) by (auto simp: split_nodes_def)
    then have "frames_ok (set settled) U ds (set black) {} ((dep, sorted_set (dget ds dep)) # ?fs)"
      using "3.prems"(3) 3 by auto
    from "3.IH"(2) [OF 3 "3.prems"(1,2) this] 3 show ?thesis by (auto split: sum.splits)
  qed
qed auto

lemma dfs_root:
  assumes "split_nodes (set settled) U ds" and "black_ok (set settled) U ds black"
    and "root \<in> U"
  shows "dfs settled ds black [(root, sorted_set (dget ds root))] = Inl black' \<Longrightarrow>
      black_ok (set settled) U ds black' \<and> root \<in> set black'"
    and "dfs settled ds black [(root, sorted_set (dget ds root))] = Inr c \<Longrightarrow>
      is_cycle ds c \<and> set c \<subseteq> U"
  using dfs_invariant [OF assms(1,2), of "[(root, sorted_set (dget ds root))]"] assms(3)
  by auto

lemma find_cycle_sound:
  assumes "split_nodes (set settled) U ds" and "black_ok (set settled) U ds black"
    and "set roots \<subseteq> set settled \<union> U" and "find_cycle settled ds black roots = Some c"
  shows "is_cycle ds c \<and> set c \<subseteq> U"
  using assms
proof (induction settled ds black roots rule: find_cycle.induct)
  case (2 settled ds black root roots)
  show ?case
  proof (cases "root \<in> set settled \<or> root \<in> set black")
    case True
    with "2.IH"(1) "2.prems" show ?thesis by auto
  next
    case False
    with "2.prems" have root: "root \<in> U" by auto
    show ?thesis
    proof (cases "dfs settled ds black [(root, sorted_set (dget ds root))]")
      case (Inl black')
      with False "2.IH"(2) [OF False Inl] "2.prems" dfs_root(1) [OF "2.prems"(1,2) root Inl]
      show ?thesis by auto
    next
      case (Inr c')
      with False "2.prems"(4) dfs_root(2) [OF "2.prems"(1,2) root Inr]
      show ?thesis by auto
    qed
  qed
qed simp

text \<open>Every unsettled node still waits for an unsettled dependency.\<close>

definition stuck :: "name set \<Rightarrow> name set \<Rightarrow> (name, name list) dict \<Rightarrow> bool" where
  "stuck S U ds \<longleftrightarrow> (\<forall>n \<in> U. \<not> set (dget ds n) \<subseteq> S)"

lemma stuck_no_black: "black_ok S U ds bs \<Longrightarrow> stuck S U ds \<Longrightarrow> bs = []"
  by (induction S U ds bs rule: black_ok.induct) (auto simp: stuck_def)

lemma find_cycle_complete:
  assumes "split_nodes (set settled) U ds" and "stuck (set settled) U ds"
    and "set roots \<subseteq> set settled \<union> U" and "set roots \<inter> U \<noteq> {}"
  shows "find_cycle settled ds [] roots \<noteq> None"
  using assms(3,4)
proof (induction roots)
  case (Cons root roots)
  show ?case
  proof (cases "root \<in> set settled")
    case True
    with Cons assms(1) show ?thesis by (auto simp: split_nodes_def)
  next
    case False
    with Cons.prems have root: "root \<in> U" by auto
    have nil: "black_ok (set settled) U ds []" by simp
    show ?thesis
    proof (cases "dfs settled ds [] [(root, sorted_set (dget ds root))]")
      case (Inl black')
      from dfs_root(1) [OF assms(1) nil root Inl] stuck_no_black [OF _ assms(2)]
      show ?thesis by force
    qed (simp add: False)
  qed
qed simp

text \<open>A relation with a rank that drops along every edge has no cycle.\<close>

lemma successively_rank:
  assumes "successively (\<lambda>a b. rank b < (rank a :: nat)) c" and "2 \<le> length c"
  shows "rank (last c) < rank (hd c)"
  using assms
proof (induction c)
  case (Cons a c)
  show ?case
  proof (cases c)
    case (Cons b c')
    with Cons.prems Cons.IH show ?thesis by (cases c') auto
  qed (use Cons.prems in simp)
qed simp

lemma ranked_no_cycle:
  assumes "\<And>a b. b \<in> set (dget ds a) \<Longrightarrow> rank b < (rank a :: nat)"
  shows "\<not> is_cycle ds c"
proof
  assume c: "is_cycle ds c"
  then have "successively (\<lambda>a b. rank b < rank a) c"
    by (auto simp: is_cycle_def intro: assms elim: successively_mono)
  with c have "rank (last c) < rank (hd c)"
    by (intro successively_rank) (auto simp: is_cycle_def)
  with c show False by (simp add: is_cycle_def)
qed

end
