(* ===== verification/Graph_Contract.thy ===== *)
theory Graph_Contract
  imports Graph_Cycle
begin

text \<open>
  What a client of the build graph may rely on. The contract of a wave schedule is the locale
  \<open>wave_schedule\<close>: the waves list every node once and a node's dependencies are in earlier
  waves. The constructor's two schedules, \<open>waves\<close> and \<open>content_waves\<close>, are its
  interpretations. The rest of the theory characterises the constructor: when it
  succeeds, which error it raises otherwise, and that a reported cycle is one.
\<close>

subsection \<open>The contract\<close>

locale wave_schedule =
  fixes waves_of :: "'g \<Rightarrow> 'n list list"
    and nodes_of :: "'g \<Rightarrow> 'n list"
    and needs :: "'g \<Rightarrow> 'n \<Rightarrow> 'n \<Rightarrow> bool"
    and valid :: "'g \<Rightarrow> bool"
  assumes complete: "valid G \<Longrightarrow> set (concat (waves_of G)) = set (nodes_of G)"
    and once: "valid G \<Longrightarrow> distinct (concat (waves_of G))"
    and gated: "valid G \<Longrightarrow> i < length (waves_of G) \<Longrightarrow> a \<in> set (waves_of G ! i) \<Longrightarrow>
      needs G a b \<Longrightarrow> \<exists>j<i. b \<in> set (waves_of G ! j)"
begin

lemma wave_of: "valid G \<Longrightarrow> n \<in> set (nodes_of G) \<Longrightarrow>
    \<exists>i<length (waves_of G). n \<in> set (waves_of G ! i)"
  using complete [of G] in_concat_nth [of n "waves_of G"] by simp

lemma earlier_waves_done:
  assumes "valid G" and "waves_of G = before @ w # after" and "a \<in> set w" and "needs G a b"
  shows "b \<in> set (concat before)"
proof -
  have "waves_of G ! length before = w" "length before < length (waves_of G)"
    using assms(2) by simp_all
  then obtain j where "j < length before" "b \<in> set (waves_of G ! j)"
    using gated [OF assms(1), of "length before" a b] assms(3,4) by auto
  then show ?thesis using assms(2) by (force simp: nth_append)
qed

lemma flattened_order:
  assumes "valid G" and "concat (waves_of G) = before @ a # after" and "needs G a b"
  shows "b \<in> set before"
proof -
  from assms(2) have "a \<in> set (concat (waves_of G))" by simp
  then obtain us w vs where w: "waves_of G = us @ w # vs" "a \<in> set w"
    by (auto dest: split_list)
  from earlier_waves_done [OF assms(1) w assms(3)] have b: "b \<in> set (concat us)" .
  obtain x y where "w = x @ a # y" using w(2) by (auto dest: split_list)
  with w assms(2) have "(concat us @ x) @ a # y @ concat vs = before @ a # after" by simp
  moreover have "distinct (before @ a # after)" using once [OF assms(1)] assms(2) by simp
  ultimately have "concat us @ x = before" using distinct_split_unique by metis
  with b show ?thesis by auto
qed

lemma needs_irrefl:
  assumes "valid G" and "a \<in> set (nodes_of G)"
  shows "\<not> needs G a a"
proof
  assume *: "needs G a a"
  obtain before after where "concat (waves_of G) = before @ a # after"
    using complete [OF assms(1)] assms(2) by (metis split_list)
  with flattened_order [OF assms(1) this *] once [OF assms(1)] show False by simp
qed

end

subsection \<open>Levels of a relation\<close>

definition level :: "(name, name list) dict \<Rightarrow> name \<Rightarrow> nat" where
  "level ds n = length (takeWhile (\<lambda>w. n \<notin> set w) (level_loop ds []))"

lemma level_bound: "i < length (level_loop ds []) \<Longrightarrow> n \<in> set (level_loop ds [] ! i) \<Longrightarrow> level ds n \<le> i"
  unfolding level_def
  by (metis (mono_tags, lifting) nth_mem set_takeWhileD takeWhile_nth not_le)

lemma level_dep:
  assumes "i < length (level_loop ds [])" and "n \<in> set (level_loop ds [] ! i)"
    and "b \<in> set (dget ds n)"
  shows "\<exists>j<i. b \<in> set (level_loop ds [] ! j)"
proof -
  have "b \<in> set (concat (take i (level_loop ds [])))"
    using assms by (simp add: level_loop_nth ready_iff subset_iff)
  then show ?thesis using assms(1) by (simp only: in_concat_take_nth less_imp_le)
qed

lemma level_mem:
  assumes "n \<in> set (concat (level_loop ds []))"
  shows "level ds n < length (level_loop ds [])" and "n \<in> set (level_loop ds [] ! level ds n)"
proof -
  from assms obtain i where "i < length (level_loop ds [])" "n \<in> set (level_loop ds [] ! i)"
    by (auto simp only: in_concat_nth)
  with level_bound show 1: "level ds n < length (level_loop ds [])"
    using le_less_trans by blast
  show "n \<in> set (level_loop ds [] ! level ds n)"
    using nth_length_takeWhile [of "\<lambda>w. n \<notin> set w" "level_loop ds []"] 1
    by (simp add: level_def)
qed

text \<open>A relation whose levels reach every node is ranked by them.\<close>

lemma level_rank:
  assumes "set (concat (level_loop ds [])) = set (dkeys ds)" and "b \<in> set (dget ds a)"
  shows "level ds b < level ds a"
proof -
  have "a \<in> set (dkeys ds)" using assms(2) by (metis dget_notin emptyE empty_set)
  then have "a \<in> set (concat (level_loop ds []))" using assms(1) by simp
  from level_mem [OF this] obtain j
    where "j < level ds a" "b \<in> set (level_loop ds [] ! j)"
    using level_dep assms(2) by blast
  with level_bound [of j ds b] level_mem(1) [OF \<open>a \<in> set (concat (level_loop ds []))\<close>]
  show ?thesis by simp
qed

lemma adj_values: "adj known ds rs \<Longrightarrow> set (dget ds n) \<subseteq> set known"
  using in_dget_key [of n rs] by (metis adj_def subsetI)

lemma levels_split:
  assumes "adj known ds rs"
  defines "S \<equiv> set (concat (level_loop ds []))"
  shows "split_nodes S (set known - S) ds" and "stuck S (set known - S) ds" and "S \<subseteq> set known"
proof -
  show "split_nodes S (set known - S) ds"
    using adj_values [OF assms(1)] by (auto simp: split_nodes_def)
  show "stuck S (set known - S) ds"
    using level_loop_stuck [of ds "[]"] assms(1) ready_iff [of _ ds "concat (level_loop ds [])"]
    by (auto simp: stuck_def S_def adj_def simp del: set_concat)
  show "S \<subseteq> set known"
    using set_level_loop [of ds "[]"] assms(1) by (auto simp: S_def adj_def simp del: set_concat)
qed

lemma levels_incomplete_cycle:
  assumes "adj known ds rs" and "set (concat (level_loop ds [])) \<noteq> set known"
  shows "\<exists>c. find_cycle (concat (level_loop ds [])) ds [] known = Some c \<and> is_cycle ds c
    \<and> set c \<subseteq> set known"
proof -
  note sp = levels_split [OF assms(1)]
  from assms(2) sp(3) have "find_cycle (concat (level_loop ds [])) ds [] known \<noteq> None"
    by (intro find_cycle_complete [OF sp(1,2)]) auto
  then obtain c where c: "find_cycle (concat (level_loop ds [])) ds [] known = Some c" by auto
  from find_cycle_sound [OF sp(1) _ _ c] sp(3) have "is_cycle ds c" "set c \<subseteq> set known" by auto
  with c show ?thesis by blast
qed

lemma levels_complete_iff:
  assumes "adj known ds rs"
  shows "set (concat (level_loop ds [])) = set known \<longleftrightarrow> (\<nexists>c. is_cycle ds c)"
proof
  assume "set (concat (level_loop ds [])) = set known"
  with assms have "\<And>a b. b \<in> set (dget ds a) \<Longrightarrow> level ds b < level ds a"
    by (intro level_rank) (auto simp: adj_def)
  then show "\<nexists>c. is_cycle ds c" using ranked_no_cycle [of ds "level ds"] by blast
next
  assume "\<nexists>c. is_cycle ds c"
  then show "set (concat (level_loop ds [])) = set known"
    using levels_incomplete_cycle [OF assms] by blast
qed

lemma successively_trancl:
  "successively (\<lambda>a b. (a, b) \<in> r) c \<Longrightarrow> 2 \<le> length c \<Longrightarrow> (hd c, last c) \<in> r\<^sup>+"
proof (induction c)
  case (Cons a c)
  show ?case
  proof (cases c)
    case (Cons b c')
    show ?thesis
    proof (cases c')
      case Nil
      then show ?thesis using Cons.prems Cons by auto
    next
      case (Cons d c'')
      then have "(b, last c) \<in> r\<^sup>+" using Cons.prems Cons.IH \<open>c = b # c'\<close> by auto
      then show ?thesis using Cons.prems Cons \<open>c = b # c'\<close> by (auto intro: trancl_into_trancl2)
    qed
  qed (use Cons.prems in simp)
qed simp

lemma acyclic_iff_no_cycle:
  assumes "adj known ds rs" and "\<And>a. set (dget ds a) = {b. (a, b) \<in> r}"
  shows "acyclic r \<longleftrightarrow> (\<nexists>c. is_cycle ds c)"
proof
  assume "acyclic r"
  then show "\<nexists>c. is_cycle ds c"
    using successively_trancl [of r] assms(2) by (force simp: is_cycle_def acyclic_def)
next
  assume "\<nexists>c. is_cycle ds c"
  then have "set (concat (level_loop ds [])) = set (dkeys ds)"
    using levels_complete_iff [OF assms(1)] assms(1) by (auto simp: adj_def)
  then have "\<And>a b. (a, b) \<in> r \<Longrightarrow> level ds b < level ds a"
    using level_rank assms(2) by blast
  then show "acyclic r" by (rule acyclicI_order)
qed

subsection \<open>The constructor's loops\<close>

lemma index_nodes_Inr_iff:
  "index_nodes nm g d ns = Inr reg \<longleftrightarrow>
   distinct (map nm ns) \<and> set (map nm ns) \<inter> set (dkeys d) = {} \<and>
   reg = d @ map (\<lambda>n. (nm n, n)) ns"
  by (induction nm g d ns rule: index_nodes.induct) auto

lemma index_nodes_Inl:
  "index_nodes nm g d ns = Inl e \<Longrightarrow>
   \<exists>n \<in> set ns. e = DuplicateNodeError [g, nm n] \<and>
     (nm n \<in> set (dkeys d) \<or> 2 \<le> count_list (map nm ns) (nm n))"
proof (induction nm g d ns rule: index_nodes.induct)
  case (2 nm g d n ns)
  show ?case
  proof (cases "nm n \<in> set (dkeys d)")
    case True
    with "2.prems" show ?thesis by auto
  next
    case False
    with "2" obtain m where m: "m \<in> set ns" "e = DuplicateNodeError [g, nm m]"
      "nm m \<in> set (dkeys d) \<or> nm m = nm n \<or> 2 \<le> count_list (map nm ns) (nm m)"
      by auto
    have "nm m = nm n \<Longrightarrow> 1 \<le> count_list (map nm ns) (nm m)"
      using m(1) by (metis One_nat_def Suc_leI count_list_0_iff image_eqI list.set_map not_gr_zero)
    with m show ?thesis by (auto intro!: bexI [of _ m])
  qed
qed simp

definition edge_error :: "name \<Rightarrow> name list \<Rightarrow> edge \<Rightarrow> exn option" where
  "edge_error g known e =
     (if dependent e = dependency e then Some (SelfDependencyError [g, dependent e])
      else if dependent e \<notin> set known then
        Some (DanglingDependencyError [g, dependent e, dependency e, dependent e, ''dependent''])
      else if dependency e \<notin> set known then
        Some (DanglingDependencyError [g, dependent e, dependency e, dependency e, ''dependency''])
      else None)"

lemma link_edges_Inl:
  "link_edges g known ds rs es = Inl x \<Longrightarrow> \<exists>e \<in> set es. edge_error g known e = Some x"
  by (induction g known ds rs es rule: link_edges.induct)
     (auto simp: edge_error_def split: if_splits)

lemma edge_error_None_iff:
  "(\<forall>e \<in> set es. edge_error g known e = None) \<longleftrightarrow>
   (\<forall>(a, b) \<in> pairs es. a \<noteq> b \<and> a \<in> set known \<and> b \<in> set known)"
  by (auto simp: edge_error_def pairs_def)

lemma names_of_registry [simp]:
  "distinct (map nm nodes) \<Longrightarrow> set w \<subseteq> set (map nm nodes) \<Longrightarrow>
   map nm (map (\<lambda>n. the (map_of (map (\<lambda>n. (nm n, n)) nodes) n)) w) = w"
proof (induction w)
  case (Cons a w)
  then obtain n where "n \<in> set nodes" "a = nm n" by auto
  with Cons show ?case by (simp add: map_of_inj_graph distinct_map)
qed simp

text \<open>Both calls of \<open>compute_waves\<close>, in terms of the reference levels.\<close>

lemma compute_waves_eq:
  assumes "adj (map nm nodes) ds rs"
  shows "compute_waves g reg nodes all_deps ds rs =
    (if set (concat (level_loop ds [])) = set (map nm nodes)
     then Inr (map (map (\<lambda>n. the (map_of reg n))) (level_loop ds []))
     else (case find_cycle (concat (level_loop ds [])) all_deps [] (dkeys reg) of
         Some c \<Rightarrow> Inl (GraphCycleError (g # c))
       | None \<Rightarrow> Inl (AssertionError [g])))"
proof -
  let ?L = "concat (level_loop ds [])"
  have known: "distinct (map nm nodes)" "dkeys ds = map nm nodes"
    using assms by (auto simp: adj_def)
  have loop: "wave_loop ds rs [] (sort (map fst (filter (\<lambda>(n, d). d = []) ds))) [] =
      (?L, level_loop ds [])"
    using wave_loop_levels [OF assms initial_wave] known by simp
  have "length (remdups ?L) = card (set ?L)" by (simp add: length_remdups_card_conv)
  moreover have "length nodes = card (set (map nm nodes))"
    using distinct_card [OF known(1)] by simp
  moreover have "set ?L \<subseteq> set (map nm nodes)" by (rule levels_split(3) [OF assms])
  ultimately have "length (remdups ?L) = length nodes \<longleftrightarrow> set ?L = set (map nm nodes)"
    using card_subset_eq [OF finite_set] by metis
  then show ?thesis unfolding compute_waves_def loop by simp
qed

text \<open>The content relation never makes the constructor fail: it is part of a relation whose
  levels are complete.\<close>

lemma content_levels_complete:
  assumes "adj known ds rs" and "adj known cds crs"
    and "set (concat (level_loop ds [])) = set known"
    and "\<And>a. set (dget cds a) \<subseteq> set (dget ds a)"
  shows "set (concat (level_loop cds [])) = set known"
proof -
  have "set (concat (level_loop ds [])) = set (dkeys ds)" using assms(1,3) by (simp add: adj_def)
  then have "\<And>a b. b \<in> set (dget cds a) \<Longrightarrow> level ds b < level ds a"
    using level_rank assms(4) by blast
  then have "\<nexists>c. is_cycle cds c" using ranked_no_cycle [of cds "level ds"] by blast
  then show ?thesis using levels_complete_iff [OF assms(2)] by simp
qed

end
