(* ===== verification/Graph_Theorems.thy ===== *)
theory Graph_Theorems
  imports Graph_Contract
begin

text \<open>
  The correctness of \<open>BuildGraph\<close>: the interpretations of the schedule contract and the
  properties of the constructor.
\<close>

subsection \<open>What the constructor establishes\<close>

definition well_formed :: "('n \<Rightarrow> name) \<Rightarrow> name \<Rightarrow> 'n list \<Rightarrow> edge list \<Rightarrow> bool" where
  "well_formed nm g nodes es \<longleftrightarrow> g \<noteq> [] \<and> distinct (map nm nodes) \<and>
     (\<forall>(a, b) \<in> pairs es. a \<noteq> b \<and> a \<in> set (map nm nodes) \<and> b \<in> set (map nm nodes))"

definition look :: "('n \<Rightarrow> name) \<Rightarrow> 'n list \<Rightarrow> name \<Rightarrow> 'n" where
  "look nm nodes n = the (map_of (map (\<lambda>n. (nm n, n)) nodes) n)"

definition levels_of :: "('n \<Rightarrow> name) \<Rightarrow> 'n list \<Rightarrow> (name \<times> name) set \<Rightarrow> (name, name list) dict \<Rightarrow>
    'n list list \<Rightarrow> bool" where
  "levels_of nm nodes r ds ws \<longleftrightarrow> (\<exists>rs. adj (map nm nodes) ds rs) \<and>
     (\<forall>a. set (dget ds a) = {b. (a, b) \<in> r}) \<and>
     set (concat (level_loop ds [])) = set (map nm nodes) \<and>
     ws = map (map (look nm nodes)) (level_loop ds [])"

definition built :: "('n \<Rightarrow> name) \<Rightarrow> 'n build_graph \<Rightarrow> bool" where
  "built nm G \<longleftrightarrow> g_name G \<noteq> [] \<and> distinct (map nm (g_nodes G)) \<and>
     by_name G = map (\<lambda>n. (nm n, n)) (g_nodes G) \<and>
     adj (map nm (g_nodes G)) (deps G) (dependents G) \<and>
     well_formed nm (g_name G) (g_nodes G) (g_edges G) \<and>
     levels_of nm (g_nodes G) (pairs (g_edges G)) (deps G) (g_waves G) \<and>
     (\<exists>cds. levels_of nm (g_nodes G) (pairs (filter affects_cache_key (g_edges G))) cds
        (g_content_waves G))"

lemma link_well_formed:
  assumes "well_formed nm g nodes es"
  obtains ds rs cds crs where
    "link_edges g (map nm nodes) (empty_adj (map nm nodes)) (empty_adj (map nm nodes)) es = Inr (ds, rs)"
    "link_content (empty_adj (map nm nodes)) (empty_adj (map nm nodes)) es = (cds, crs)"
    "adj (map nm nodes) ds rs" "adj (map nm nodes) cds crs"
    "\<And>a. set (dget ds a) = {b. (a, b) \<in> pairs es}"
    "\<And>a. set (dget cds a) = {b. (a, b) \<in> pairs (filter affects_cache_key es)}"
proof -
  let ?E = "empty_adj (map nm nodes)"
  have wf: "distinct (map nm nodes)"
      "\<forall>(a, b) \<in> pairs es. a \<noteq> b \<and> a \<in> set (map nm nodes) \<and> b \<in> set (map nm nodes)"
    using assms by (auto simp: well_formed_def)
  obtain ds rs where l: "link_edges g (map nm nodes) ?E ?E es = Inr (ds, rs)"
    using link_edges_total [OF wf(2)] by fastforce
  obtain cds crs where c: "link_content ?E ?E es = (cds, crs)" by (cases "link_content ?E ?E es")
  have "\<forall>(a, b) \<in> pairs es. a \<in> set (map nm nodes) \<and> b \<in> set (map nm nodes)"
    using wf(2) by auto
  with that [OF l c] adjI_link_edges [OF l wf(1)] adjI_link_content [OF c wf(1)]
  show ?thesis by metis
qed

lemma BuildGraph_acyclic:
  assumes wf: "well_formed nm g nodes es" and "acyclic (pairs es)"
  shows "\<exists>G. BuildGraph nm g nodes es = Inr G \<and> built nm G \<and> g_name G = g \<and> g_nodes G = nodes
    \<and> g_edges G = es"
proof -
  from wf obtain ds rs cds crs where l:
    "link_edges g (map nm nodes) (empty_adj (map nm nodes)) (empty_adj (map nm nodes)) es = Inr (ds, rs)"
    "link_content (empty_adj (map nm nodes)) (empty_adj (map nm nodes)) es = (cds, crs)"
    and a: "adj (map nm nodes) ds rs" "adj (map nm nodes) cds crs"
    and d: "\<And>a. set (dget ds a) = {b. (a, b) \<in> pairs es}"
      "\<And>a. set (dget cds a) = {b. (a, b) \<in> pairs (filter affects_cache_key es)}"
    by (rule link_well_formed) blast
  let ?reg = "map (\<lambda>n. (nm n, n)) nodes"
  have full: "set (concat (level_loop ds [])) = set (map nm nodes)"
    using levels_complete_iff [OF a(1)] acyclic_iff_no_cycle [OF a(1) d(1)] assms(2) by simp
  have content: "set (concat (level_loop cds [])) = set (map nm nodes)"
    by (rule content_levels_complete [OF a full]) (auto simp: d pairs_def)
  have "index_nodes nm g [] nodes = Inr ?reg"
    using wf by (simp add: index_nodes_Inr_iff well_formed_def)
  moreover have "dkeys ?reg = map nm nodes" by simp
  moreover note wf
  ultimately show ?thesis
    using l full content a d
    by (auto simp: BuildGraph_def well_formed_def compute_waves_eq [OF a(1)]
        compute_waves_eq [OF a(2)] built_def levels_of_def look_def comp_def)
qed

lemma BuildGraph_cyclic:
  assumes wf: "well_formed nm g nodes es" and "\<not> acyclic (pairs es)"
  shows "\<exists>c. BuildGraph nm g nodes es = Inl (GraphCycleError (g # c)) \<and> 2 \<le> length c
    \<and> hd c = last c \<and> successively (\<lambda>a b. (a, b) \<in> pairs es) c"
proof -
  from wf obtain ds rs where l:
    "link_edges g (map nm nodes) (empty_adj (map nm nodes)) (empty_adj (map nm nodes)) es = Inr (ds, rs)"
    and a: "adj (map nm nodes) ds rs"
    and d: "\<And>a. set (dget ds a) = {b. (a, b) \<in> pairs es}"
    by (rule link_well_formed) blast
  have inc: "set (concat (level_loop ds [])) \<noteq> set (map nm nodes)"
    using levels_complete_iff [OF a] acyclic_iff_no_cycle [OF a d] assms(2) by simp
  from levels_incomplete_cycle [OF a inc] obtain c
    where c: "find_cycle (concat (level_loop ds [])) ds [] (map nm nodes) = Some c" "is_cycle ds c"
    by blast
  have "index_nodes nm g [] nodes = Inr (map (\<lambda>n. (nm n, n)) nodes)"
    using wf by (simp add: index_nodes_Inr_iff well_formed_def)
  then have "BuildGraph nm g nodes es = Inl (GraphCycleError (g # c))"
    using l inc c(1) wf by (simp add: BuildGraph_def well_formed_def compute_waves_eq [OF a] comp_def)
  with c(2) show ?thesis by (auto simp: is_cycle_def d)
qed

lemma BuildGraph_ill_formed:
  assumes "\<not> well_formed nm g nodes es"
  shows "\<exists>x. BuildGraph nm g nodes es = Inl x \<and>
    (x = ValueError [] \<and> g = []
     \<or> (\<exists>n \<in> set nodes. x = DuplicateNodeError [g, nm n] \<and> 2 \<le> count_list (map nm nodes) (nm n))
     \<or> (\<exists>e \<in> set es. edge_error g (map nm nodes) e = Some x))"
proof (cases "g = []")
  case False
  show ?thesis
  proof (cases "index_nodes nm g [] nodes")
    case (Inl x)
    with False index_nodes_Inl [OF Inl] show ?thesis by (auto simp: BuildGraph_def)
  next
    case (Inr reg)
    then have reg: "reg = map (\<lambda>n. (nm n, n)) nodes" "distinct (map nm nodes)"
      by (auto simp: index_nodes_Inr_iff)
    let ?E = "empty_adj (map nm nodes)"
    show ?thesis
    proof (cases "link_edges g (map nm nodes) ?E ?E es")
      case (Inl x)
      with False Inr reg link_edges_Inl [OF Inl] show ?thesis
        by (auto simp: BuildGraph_def comp_def)
    next
      case (Inr r)
      from link_edges_ok [OF this] False reg(2) assms show ?thesis by (auto simp: well_formed_def)
    qed
  qed
qed (simp add: BuildGraph_def)

lemma BuildGraph_built:
  assumes "BuildGraph nm g nodes es = Inr G"
  shows "built nm G" "g_name G = g" "g_nodes G = nodes" "g_edges G = es"
    "well_formed nm g nodes es" "acyclic (pairs es)"
  using assms BuildGraph_ill_formed [of nm g nodes es] BuildGraph_cyclic [of nm g nodes es]
    BuildGraph_acyclic [of nm g nodes es] by fastforce+

subsection \<open>The two schedules meet the contract\<close>

definition needs_edge :: "(edge \<Rightarrow> bool) \<Rightarrow> ('n \<Rightarrow> name) \<Rightarrow> 'n build_graph \<Rightarrow> 'n \<Rightarrow> 'n \<Rightarrow> bool" where
  "needs_edge P nm G a b \<longleftrightarrow> b \<in> set (g_nodes G) \<and> (nm a, nm b) \<in> pairs (filter P (g_edges G))"

lemma look_name [simp]: "distinct (map nm nodes) \<Longrightarrow> n \<in> set nodes \<Longrightarrow> look nm nodes (nm n) = n"
  by (simp add: look_def map_of_inj_graph distinct_map)

lemma name_look [simp]: "distinct (map nm nodes) \<Longrightarrow> a \<in> set (map nm nodes) \<Longrightarrow> nm (look nm nodes a) = a"
  using look_name [of nm nodes] by auto

lemma levels_of_names:
  assumes "levels_of nm nodes r ds ws" and "i < length ws"
  shows "map nm (ws ! i) = level_loop ds [] ! i" and "length ws = length (level_loop ds [])"
proof -
  have d: "distinct (map nm nodes)" using assms(1) by (auto simp: levels_of_def adj_def)
  have i: "i < length (level_loop ds [])" "ws ! i = map (look nm nodes) (level_loop ds [] ! i)"
    using assms by (auto simp: levels_of_def)
  then have "set (level_loop ds [] ! i) \<subseteq> set (map nm nodes)"
    using assms(1) in_concat_nth [of _ "level_loop ds []"] by (auto simp: levels_of_def)
  with d i(2) show "map nm (ws ! i) = level_loop ds [] ! i"
    by (simp add: map_idI subset_iff del: set_map)
  show "length ws = length (level_loop ds [])" using assms(1) by (simp add: levels_of_def)
qed

lemma levels_of_nodes:
  assumes "levels_of nm nodes r ds ws"
  shows "set (concat ws) = set nodes" and "distinct (concat ws)"
proof -
  have d: "distinct (map nm nodes)" using assms by (auto simp: levels_of_def adj_def)
  have c: "concat ws = map (look nm nodes) (concat (level_loop ds []))"
    using assms by (simp add: levels_of_def map_concat)
  have s: "set (concat (level_loop ds [])) = set (map nm nodes)"
    using assms by (simp add: levels_of_def)
  have "set (concat ws) = look nm nodes ` set (map nm nodes)" by (simp only: c set_map s)
  also have "\<dots> = set nodes" using d by (force simp: image_iff)
  finally show "set (concat ws) = set nodes" .
  have "inj_on (look nm nodes) (set (concat (level_loop ds [])))"
    unfolding s by (rule inj_on_inverseI [of _ nm]) (rule name_look [OF d])
  with distinct_level_loop [of ds "[]"] show "distinct (concat ws)"
    by (simp only: c distinct_map)
qed

lemma levels_of_gated:
  assumes "levels_of nm nodes r ds ws" and "i < length ws" and "a \<in> set (ws ! i)"
    and "(nm a, nm b) \<in> r" and "b \<in> set nodes"
  shows "\<exists>j<i. b \<in> set (ws ! j)"
proof -
  have d: "distinct (map nm nodes)" using assms(1) by (auto simp: levels_of_def adj_def)
  note names = levels_of_names [OF assms(1)]
  have img: "set (level_loop ds [] ! k) = nm ` set (ws ! k)" if "k < length ws" for k
    using arg_cong [OF names(1) [OF that], of set] by simp
  have "nm a \<in> set (level_loop ds [] ! i)" using img [OF assms(2)] assms(3) by simp
  moreover have "nm b \<in> set (dget ds (nm a))" using assms(1,4) by (simp add: levels_of_def)
  moreover have "i < length (level_loop ds [])" using names(2) [OF assms(2)] assms(2) by simp
  ultimately obtain j where j: "j < i" "nm b \<in> set (level_loop ds [] ! j)"
    using level_dep by blast
  with img [of j] assms(2) obtain b' where b': "b' \<in> set (ws ! j)" "nm b' = nm b"
    by auto
  moreover have "b' \<in> set nodes"
    using levels_of_nodes(1) [OF assms(1)] b'(1) j(1) assms(2) in_concat_nth [of b' ws] by auto
  ultimately show ?thesis using d assms(5) j(1) by (auto simp: distinct_map inj_on_def)
qed

lemma built_full:
  "built nm G \<Longrightarrow> levels_of nm (g_nodes G) (pairs (g_edges G)) (deps G) (waves G)"
  by (simp add: built_def waves_def)

lemma built_content:
  "built nm G \<Longrightarrow> \<exists>cds. levels_of nm (g_nodes G) (pairs (filter affects_cache_key (g_edges G))) cds
     (content_waves G)"
  by (simp add: built_def content_waves_def)

interpretation full: wave_schedule waves g_nodes "needs_edge (\<lambda>_. True) nm" "built nm" for nm
proof (unfold_locales, goal_cases)
  case (1 G)
  from levels_of_nodes(1) [OF built_full [OF 1]] show ?case .
next
  case (2 G)
  from levels_of_nodes(2) [OF built_full [OF 2]] show ?case .
next
  case (3 G i a b)
  from levels_of_gated [OF built_full [OF 3(1)] 3(2,3)] 3(4) show ?case
    by (simp add: needs_edge_def)
qed

interpretation content: wave_schedule content_waves g_nodes "needs_edge affects_cache_key nm"
  "built nm" for nm
proof (unfold_locales, goal_cases)
  case (1 G)
  from built_content [OF 1] levels_of_nodes(1) show ?case by metis
next
  case (2 G)
  from built_content [OF 2] levels_of_nodes(2) show ?case by metis
next
  case (3 G i a b)
  from built_content [OF 3(1)] levels_of_gated 3(2-4) show ?case
    unfolding needs_edge_def by metis
qed

subsection \<open>Properties of the constructor\<close>

lemma well_formed_edges:
  "well_formed nm g nodes es \<longleftrightarrow> g \<noteq> [] \<and> distinct (map nm nodes) \<and>
     (\<forall>e \<in> set es. dependent e \<noteq> dependency e \<and> dependent e \<in> nm ` set nodes \<and>
        dependency e \<in> nm ` set nodes)"
  by (auto simp: well_formed_def pairs_def)

lemma edge_error_cases:
  "edge_error g known e = Some x \<Longrightarrow>
   dependent e = dependency e \<and> x = SelfDependencyError [g, dependent e] \<or>
   (\<exists>n role. n \<notin> set known \<and> n \<in> {dependent e, dependency e} \<and>
      x = DanglingDependencyError [g, dependent e, dependency e, n, role])"
  by (auto simp: edge_error_def split: if_splits)

lemma pairs_all:
  "(\<forall>b. (a, b) \<in> pairs es \<longrightarrow> b \<in> X) \<longleftrightarrow> (\<forall>e \<in> set es. dependent e = a \<longrightarrow> dependency e \<in> X)"
  by (auto simp: pairs_def)

lemma level_prefix:
  assumes "levels_of nm nodes r ds ws" and "i \<le> length ws"
  shows "set (concat (take i (level_loop ds []))) = nm ` set (concat (take i ws))"
proof -
  have len: "length (level_loop ds []) = length ws" using assms(1) by (simp add: levels_of_def)
  have "map (map nm) ws = level_loop ds []"
    by (rule nth_equalityI) (simp_all add: len levels_of_names(1) [OF assms(1)])
  then have "concat (take i (level_loop ds [])) = map nm (concat (take i ws))"
    by (metis map_concat take_map)
  then show ?thesis by (simp only: set_map)
qed

lemma waves_names_level:
  assumes "levels_of nm nodes r ds ws" and "i < length ws"
  shows "map nm (ws ! i) = sorted_set (map nm (filter (\<lambda>n.
      nm n \<notin> nm ` set (concat (take i ws)) \<and>
      (\<forall>b. (nm n, b) \<in> r \<longrightarrow> b \<in> nm ` set (concat (take i ws)))) nodes))"
proof -
  let ?D = "concat (take i (level_loop ds []))"
  have D: "set ?D = nm ` set (concat (take i ws))"
    using level_prefix [OF assms(1)] assms(2) by simp
  have ds: "dkeys ds = map nm nodes" "\<And>a. set (dget ds a) = {b. (a, b) \<in> r}"
    using assms(1) by (auto simp: levels_of_def adj_def)
  have "i < length (level_loop ds [])" using levels_of_names [OF assms] assms(2) by simp
  then have "map nm (ws ! i) = ready ds ?D"
    using levels_of_names(1) [OF assms] level_loop_nth [of i ds "[]"] by simp
  also have "\<dots> = sorted_set (map nm (filter (\<lambda>n. nm n \<notin> set ?D \<and>
      (\<forall>b. (nm n, b) \<in> r \<longrightarrow> b \<in> set ?D)) nodes))"
    unfolding ready_def ds by (intro sorted_set_cong) (auto simp: subset_iff simp del: set_concat)
  finally show ?thesis unfolding D .
qed

text \<open>A graph of two nodes and one edge, which the witnesses below share.\<close>

definition sample_graph :: "name build_graph" where
  "sample_graph = \<lparr>g_name = ''g'', g_nodes = [''b'', ''c''], g_edges = [ordering_edge ''b'' ''c''],
     by_name = [(''b'', ''b''), (''c'', ''c'')], deps = [(''b'', [''c'']), (''c'', [])],
     dependents = [(''b'', []), (''c'', [''b''])], g_waves = [[''c''], [''b'']],
     g_content_waves = [[''b'', ''c'']]\<rparr>"

lemma sample_graph:
  "BuildGraph id ''g'' [''b'', ''c''] [ordering_edge ''b'' ''c''] = Inr sample_graph"
  by code_simp

text \<open>C1: the constructor succeeds exactly on a non-empty graph name, distinct node names, edges
  between two different known nodes, and an acyclic dependency relation. Nothing else is
  rejected, and in particular the content schedule never makes it fail.\<close>

theorem BuildGraph_succeeds_iff:
  "(\<exists>G. BuildGraph nm g nodes es = Inr G) \<longleftrightarrow>
   g \<noteq> [] \<and> distinct (map nm nodes) \<and>
   (\<forall>e \<in> set es. dependent e \<noteq> dependency e \<and> dependent e \<in> nm ` set nodes \<and>
      dependency e \<in> nm ` set nodes) \<and>
   acyclic {(dependent e, dependency e) | e. e \<in> set es}"
proof -
  have "{(dependent e, dependency e) | e. e \<in> set es} = pairs es" by (auto simp: pairs_def)
  moreover have "(\<exists>G. BuildGraph nm g nodes es = Inr G) \<longleftrightarrow> well_formed nm g nodes es \<and> acyclic (pairs es)"
    using BuildGraph_built(5,6) [of nm g nodes es] BuildGraph_acyclic [of nm g nodes es] by blast
  ultimately show ?thesis by (simp add: well_formed_edges)
qed

theorem BuildGraph_succeeds_iff_witness:
  "distinct (map id [''b'', ''c'']) \<and>
   acyclic {(dependent e, dependency e) | e. e \<in> set [ordering_edge ''b'' ''c'']}"
  using sample_graph BuildGraph_succeeds_iff [of id "''g''" "[''b'', ''c'']"
      "[ordering_edge ''b'' ''c'']"] by blast

text \<open>C2: every failure is one of the five documented defects, and is a real one: an empty
  graph name, a name two nodes share, an edge from a node to itself, an edge with
  an unknown endpoint, or a dependency cycle, in which case the reported path starts and ends
  at the same node and each step of it is a dependency of the plan. The internal assertion
  ``unsettled nodes but no cycle'' is unreachable.\<close>

theorem BuildGraph_error_is_real:
  assumes "BuildGraph nm g nodes es = Inl x"
  shows "x = ValueError [] \<and> g = []
    \<or> (\<exists>n \<in> set nodes. x = DuplicateNodeError [g, nm n] \<and> 2 \<le> count_list (map nm nodes) (nm n))
    \<or> (\<exists>e \<in> set es. dependent e = dependency e \<and> x = SelfDependencyError [g, dependent e])
    \<or> (\<exists>e \<in> set es. \<exists>n role. n \<notin> nm ` set nodes \<and> n \<in> {dependent e, dependency e} \<and>
        x = DanglingDependencyError [g, dependent e, dependency e, n, role])
    \<or> (\<exists>c. x = GraphCycleError (g # c) \<and> 2 \<le> length c \<and> hd c = last c \<and>
        successively (\<lambda>a b. \<exists>e \<in> set es. dependent e = a \<and> dependency e = b) c)"
proof (cases "well_formed nm g nodes es")
  case True
  have eq: "(\<lambda>a b. (a, b) \<in> pairs es) = (\<lambda>a b. \<exists>e \<in> set es. dependent e = a \<and> dependency e = b)"
    by (auto simp: pairs_def fun_eq_iff)
  from True assms BuildGraph_acyclic [OF True] BuildGraph_cyclic [OF True]
  show ?thesis unfolding eq by auto
next
  case False
  from BuildGraph_ill_formed [OF False] assms
  consider "x = ValueError []" "g = []"
    | n where "n \<in> set nodes" "x = DuplicateNodeError [g, nm n]" "2 \<le> count_list (map nm nodes) (nm n)"
    | e where "e \<in> set es" "edge_error g (map nm nodes) e = Some x"
    by auto
  then show ?thesis
  proof cases
    case (3 e)
    from edge_error_cases [OF 3(2)] 3(1) show ?thesis unfolding set_map by blast
  qed blast+
qed

theorem BuildGraph_error_is_real_witness:
  "BuildGraph id ''g'' [''b'', ''c''] [ordering_edge ''b'' ''c'', ordering_edge ''c'' ''b''] =
     Inl (GraphCycleError [''g'', ''b'', ''c'', ''b'']) \<and>
   successively (\<lambda>a b. \<exists>e \<in> set [ordering_edge ''b'' ''c'', ordering_edge ''c'' ''b''].
     dependent e = a \<and> dependency e = b) [''b'', ''c'', ''b'']"
proof -
  have h: "BuildGraph id ''g'' [''b'', ''c''] [ordering_edge ''b'' ''c'', ordering_edge ''c'' ''b''] =
     Inl (GraphCycleError [''g'', ''b'', ''c'', ''b''])" by code_simp
  show ?thesis using h BuildGraph_error_is_real [OF h] by auto
qed

text \<open>C3: the waves are a schedule. Flattened, they list every node exactly once, and each
  edge's dependency is in a strictly earlier wave than its dependent.\<close>

theorem waves_are_a_schedule:
  assumes "BuildGraph nm g nodes es = Inr G"
  shows "distinct (topological_order G) \<and> set (topological_order G) = set nodes \<and>
    (\<forall>e \<in> set es. \<exists>i j m n. j < i \<and> i < length (waves G) \<and>
       n \<in> set (waves G ! i) \<and> nm n = dependent e \<and> m \<in> set (waves G ! j) \<and> nm m = dependency e)"
proof -
  note b = BuildGraph_built [OF assms]
  have "\<exists>i j m n. j < i \<and> i < length (waves G) \<and>
       n \<in> set (waves G ! i) \<and> nm n = dependent e \<and> m \<in> set (waves G ! j) \<and> nm m = dependency e"
    if e: "e \<in> set es" for e
  proof -
    obtain n m where nm: "n \<in> set nodes" "nm n = dependent e" "m \<in> set nodes" "nm m = dependency e"
      using b(5) e by (auto simp: well_formed_edges)
    then have "needs_edge (\<lambda>_. True) nm G n m" using e b by (auto simp: needs_edge_def pairs_def)
    moreover obtain i where "i < length (waves G)" "n \<in> set (waves G ! i)"
      using full.wave_of [OF b(1)] nm(1) b(3) by auto
    ultimately show ?thesis using full.gated [OF b(1)] nm by metis
  qed
  then show ?thesis
    using full.complete [OF b(1)] full.once [OF b(1)] b(3)
    by (auto simp: topological_order_def waves_def)
qed

theorem waves_are_a_schedule_witness:
  "\<exists>G. BuildGraph id ''g'' [''b'', ''c''] [ordering_edge ''b'' ''c''] = Inr G \<and>
     distinct (topological_order G) \<and> set (topological_order G) = set [''b'', ''c'']"
proof -
  obtain G where h: "BuildGraph id ''g'' [''b'', ''c''] [ordering_edge ''b'' ''c''] = Inr G"
    using sample_graph by blast
  show ?thesis using h waves_are_a_schedule [OF h] by auto
qed

text \<open>C4: each wave is as early and as large as it can be, and in name order: wave \<open>i\<close>
  is the sorted list of exactly the nodes that are in no earlier wave and all of whose
  dependencies are. The incremental algorithm of the source (which looks only at the
  dependents of the wave just finished) agrees with this definition.\<close>

theorem waves_are_levels:
  assumes "BuildGraph nm g nodes es = Inr G" and "i < length (waves G)"
  defines "earlier \<equiv> nm ` set (concat (take i (waves G)))"
  shows "map nm (waves G ! i) = sorted_set (map nm (filter (\<lambda>n. nm n \<notin> earlier \<and>
    (\<forall>e \<in> set es. dependent e = nm n \<longrightarrow> dependency e \<in> earlier)) nodes))"
proof -
  note b = BuildGraph_built [OF assms(1)]
  have "levels_of nm nodes (pairs es) (deps G) (waves G)"
    using built_full [OF b(1)] b by simp
  from waves_names_level [OF this assms(2)] show ?thesis
    by (simp only: earlier_def pairs_all)
qed

theorem waves_are_levels_witness:
  "\<exists>G. BuildGraph id ''g'' [''b'', ''c''] [ordering_edge ''b'' ''c''] = Inr G \<and>
     map id (waves G ! 1) = [''b'']"
proof -
  obtain G where h: "BuildGraph id ''g'' [''b'', ''c''] [ordering_edge ''b'' ''c''] = Inr G"
    and w: "waves G = [[''c''], [''b'']]"
    using sample_graph by (simp add: sample_graph_def waves_def)
  then have "1 < length (waves G)" by simp
  from waves_are_levels [OF h this] h w show ?thesis by (auto simp: sorted_set_def)
qed

text \<open>The build schedule ignores ordering edges. When no edge is cacheable, all nodes are
  in one content wave, sorted by name, so every node may build at once.\<close>

theorem ordering_only_content_waves:
  assumes "BuildGraph nm g nodes es = Inr G" and "nodes \<noteq> []"
    and "\<And>e. e \<in> set es \<Longrightarrow> cacheability e = ORDERING"
  shows "\<exists>w. content_waves G = [w] \<and> map nm w = sort (map nm nodes) \<and> set w = set nodes"
proof -
  note b = BuildGraph_built [OF assms(1)]
  have "filter affects_cache_key es = []"
    using assms(3) by (auto simp: filter_empty_conv affects_cache_key_def)
  then obtain cds where lv: "levels_of nm nodes {} cds (content_waves G)"
    using built_content [OF b(1)] b(3,4) by auto
  have names: "map nm (content_waves G ! i) = sorted_set (map nm (filter (\<lambda>n.
      nm n \<notin> nm ` set (concat (take i (content_waves G)))) nodes))"
    if "i < length (content_waves G)" for i
    using waves_names_level [OF lv that] by simp
  have set: "set (concat (content_waves G)) = set nodes" by (rule levels_of_nodes(1) [OF lv])
  then obtain w ws where cw: "content_waves G = w # ws"
    using assms(2) by (cases "content_waves G") auto
  have w: "map nm w = sort (map nm nodes)"
    using names [of 0] b(5) cw by (simp add: sorted_set_def well_formed_def distinct_remdups_id)
  have "ws = []"
  proof (rule ccontr)
    assume "ws \<noteq> []"
    then have 1: "1 < length (content_waves G)" by (simp add: cw)
    have "nm ` set w = nm ` set nodes" using arg_cong [OF w, of set] by simp
    then have "map nm (content_waves G ! 1) = []"
      using names [OF 1] by (simp add: cw sorted_set_def)
    moreover have "content_waves G ! 1 \<noteq> []"
      using lv nth_mem [OF 1] level_loop_nonempty [of cds "[]"] by (auto simp: levels_of_def)
    ultimately show False by simp
  qed
  with w set cw show ?thesis by simp
qed

theorem ordering_only_content_waves_witness:
  "\<exists>G w. BuildGraph id ''g'' [''b'', ''c''] [ordering_edge ''b'' ''c''] = Inr G \<and>
     content_waves G = [w] \<and> map id w = [''b'', ''c'']"
proof -
  obtain G where h: "BuildGraph id ''g'' [''b'', ''c''] [ordering_edge ''b'' ''c''] = Inr G"
    using sample_graph by blast
  have "\<exists>w. content_waves G = [w] \<and> map id w = sort (map id [''b'', ''c'']) \<and> set w = set [''b'', ''c'']"
    by (rule ordering_only_content_waves [OF h]) auto
  with h show ?thesis by auto
qed

end
