(* ===== verification/Cache_Keys.thy ===== *)
theory Cache_Keys
  imports Graph_Theorems
begin

text \<open>
  Content-addressed keys: the transitive walk of \<^verbatim>\<open>testrange/graph/keys.py\<close> and the
  hashing helpers of \<^verbatim>\<open>testrange/nodes.py\<close>. A node's own \<^verbatim>\<open>cache_key\<close>
  is an argument \<open>ck\<close>; it takes the content dependencies' keys and the executor context, and
  returns a key and the context after it (a VM node records its cache probe there) or raises.
  The digest \<^verbatim>\<open>hashlib.sha256(...).hexdigest()\<close> is an argument \<open>sha\<close> on the bytes
  fed to it.
\<close>

subsection \<open>The walk\<close>

type_synonym ('n, 'c) cache_key_fun = "'n \<Rightarrow> (name, string) dict \<Rightarrow> 'c \<Rightarrow> (string \<times> 'c) result"

text \<open>\<^verbatim>\<open>{dep.name: keys[dep.name] for dep in ...}\<close>: a missing key raises.\<close>

fun lookup_keys :: "(name, string) dict \<Rightarrow> name list \<Rightarrow> (name, string) dict result" where
  "lookup_keys keys [] = Inr []"
| "lookup_keys keys (d # ds) =
     (case map_of keys d of
        None \<Rightarrow> Inl (KeyError [d])
      | Some k \<Rightarrow> bindR (lookup_keys keys ds) (\<lambda>rest. Inr ((d, k) # rest)))"

fun key_walk :: "('n \<Rightarrow> name) \<Rightarrow> ('n, 'c) cache_key_fun \<Rightarrow> 'n build_graph \<Rightarrow> (name, string) dict \<Rightarrow>
    'c \<Rightarrow> 'n list \<Rightarrow> ((name, string) dict \<times> 'c) result" where
  "key_walk nm ck G keys ctx [] = Inr (keys, ctx)"
| "key_walk nm ck G keys ctx (n # ns) =
     bindR (lookup_keys keys (map nm (content_dependencies_of G (nm n)))) (\<lambda>dks.
     bindR (ck n dks ctx) (\<lambda>(k, ctx').
     key_walk nm ck G (AList.update (nm n) k keys) ctx' ns))"

definition compute_cache_keys :: "('n \<Rightarrow> name) \<Rightarrow> ('n, 'c) cache_key_fun \<Rightarrow> 'n build_graph \<Rightarrow> 'c \<Rightarrow>
    ((name, string) dict \<times> 'c) result" where
  "compute_cache_keys nm ck G ctx = key_walk nm ck G [] ctx (topological_order G)"

subsection \<open>Hashing\<close>

definition NUL :: char where
  "NUL = CHR 0x00"

definition fold_preimage :: "string \<Rightarrow> (name, string) dict \<Rightarrow> string" where
  "fold_preimage own dks =
     own @ concat (map (\<lambda>d. NUL # d @ ''='' @ the (map_of dks d)) (sort (dkeys dks)))"

definition fold_dependency_keys :: "(string \<Rightarrow> string) \<Rightarrow> string \<Rightarrow> (name, string) dict \<Rightarrow> string" where
  "fold_dependency_keys sha own dks = (if dks = [] then own else take 16 (sha (fold_preimage own dks)))"

definition hash_preimage :: "string list \<Rightarrow> string" where
  "hash_preimage parts = concat (map (\<lambda>p. p @ [NUL]) parts)"

definition hash_inputs :: "(string \<Rightarrow> string) \<Rightarrow> string list \<Rightarrow> string" where
  "hash_inputs sha parts = take 16 (sha (hash_preimage parts))"

subsection \<open>Lemmas on the walk\<close>

definition dep_keys :: "('n \<Rightarrow> name) \<Rightarrow> 'n build_graph \<Rightarrow> (name, string) dict \<Rightarrow> 'n \<Rightarrow> (name, string) dict"
where
  "dep_keys nm G keys n =
     map (\<lambda>d. (nm d, the (map_of keys (nm d)))) (content_dependencies_of G (nm n))"

lemma lookup_keys_total:
  "set ds \<subseteq> set (dkeys keys) \<Longrightarrow> lookup_keys keys ds = Inr (map (\<lambda>d. (d, the (map_of keys d))) ds)"
proof (induction ds)
  case (Cons d ds)
  then obtain k where "map_of keys d = Some k"
    using map_of_key_Some [of d keys] by auto
  with Cons show ?case by simp
qed simp

lemma look_image:
  assumes "distinct (map nm nodes)" and "D \<subseteq> nm ` set nodes"
  shows "look nm nodes ` D = {d \<in> set nodes. nm d \<in> D}"
proof (intro set_eqI iffI)
  fix x
  assume "x \<in> look nm nodes ` D"
  then obtain a where a: "a \<in> D" "x = look nm nodes a" by blast
  with assms(2) obtain n where "n \<in> set nodes" "a = nm n" by blast
  with a look_name [OF assms(1)] show "x \<in> {d \<in> set nodes. nm d \<in> D}" by simp
next
  fix x
  assume "x \<in> {d \<in> set nodes. nm d \<in> D}"
  with look_name [OF assms(1), of x] show "x \<in> look nm nodes ` D" by (auto intro: rev_image_eqI)
qed

lemma content_dependencies_set:
  assumes "built nm G"
  shows "set (content_dependencies_of G (nm n)) = {d. needs_edge affects_cache_key nm G n d}"
proof -
  have wf: "distinct (map nm (g_nodes G))" "by_name G = map (\<lambda>n. (nm n, n)) (g_nodes G)"
    "well_formed nm (g_name G) (g_nodes G) (g_edges G)"
    using assms by (auto simp: built_def)
  have look: "resolve G ns = map (look nm (g_nodes G)) ns" for ns
    by (simp add: resolve_def look_def wf(2))
  let ?D = "dependency ` {e \<in> set (g_edges G). dependent e = nm n \<and> affects_cache_key e}"
  have "set (content_dependencies_of G (nm n)) = look nm (g_nodes G) ` ?D"
    by (auto simp: content_dependencies_of_def look)
  also have "\<dots> = {d \<in> set (g_nodes G). nm d \<in> ?D}"
    by (rule look_image [OF wf(1)]) (use wf(3) in \<open>auto simp: well_formed_edges\<close>)
  also have "\<dots> = {d. needs_edge affects_cache_key nm G n d}"
    by (auto simp: needs_edge_def pairs_def image_iff)
  finally show ?thesis .
qed

lemma content_needs_needs: "needs_edge affects_cache_key nm G a b \<Longrightarrow> needs_edge (\<lambda>_. True) nm G a b"
  by (auto simp: needs_edge_def pairs_def)

lemma content_deps_before:
  assumes "built nm G" and "topological_order G = before @ n # after"
  shows "set (content_dependencies_of G (nm n)) \<subseteq> set before"
proof
  fix d
  assume "d \<in> set (content_dependencies_of G (nm n))"
  then have "needs_edge (\<lambda>_. True) nm G n d"
    using content_dependencies_set [OF assms(1), of n] by (simp add: content_needs_needs)
  then show "d \<in> set before"
    using full.flattened_order [OF assms(1)] assms(2) by (auto simp: topological_order_def waves_def)
qed

lemma key_walk_spec:
  assumes "built nm G" and "topological_order G = before @ ns" and "dkeys keys = map nm before"
    and "distinct (map nm (before @ ns))"
  shows "case key_walk nm ck G keys ctx ns of
      Inl e \<Rightarrow> \<exists>n \<in> set ns. \<exists>dks ctx'. ck n dks ctx' = Inl e
    | Inr (keys', ctx') \<Rightarrow> dkeys keys' = map nm (before @ ns) \<and>
        (\<exists>new. keys' = keys @ new) \<and>
        (\<forall>n \<in> set ns. \<exists>k c1 c2. map_of keys' (nm n) = Some k \<and> ck n (dep_keys nm G keys' n) c1 = Inr (k, c2))"
  using assms(2-4)
proof (induction ns arbitrary: before keys ctx)
  case (Cons n ns)
  have deps: "nm ` set (content_dependencies_of G (nm n)) \<subseteq> set (dkeys keys)"
    using content_deps_before [OF assms(1) Cons.prems(1)] Cons.prems(2) by auto
  then have look: "lookup_keys keys (map nm (content_dependencies_of G (nm n))) = Inr (dep_keys nm G keys n)"
    using lookup_keys_total [of "map nm (content_dependencies_of G (nm n))" keys]
    by (simp add: dep_keys_def comp_def)
  show ?case
  proof (cases "ck n (dep_keys nm G keys n) ctx")
    case (Inl e)
    then show ?thesis by (auto simp: look)
  next
    case (Inr r)
    obtain k c where r: "r = (k, c)" by (cases r)
    have fresh: "nm n \<notin> set (dkeys keys)" using Cons.prems(2,3) by auto
    then have keys': "AList.update (nm n) k keys = keys @ [(nm n, k)]" by (rule dkeys_update_new)
    have rest: "case key_walk nm ck G (keys @ [(nm n, k)]) c ns of
        Inl e \<Rightarrow> \<exists>n \<in> set ns. \<exists>dks ctx'. ck n dks ctx' = Inl e
      | Inr (keys', ctx') \<Rightarrow> dkeys keys' = map nm ((before @ [n]) @ ns) \<and>
          (\<exists>new. keys' = (keys @ [(nm n, k)]) @ new) \<and>
          (\<forall>n \<in> set ns. \<exists>k c1 c2. map_of keys' (nm n) = Some k \<and>
             ck n (dep_keys nm G keys' n) c1 = Inr (k, c2))"
      by (rule Cons.IH) (use Cons.prems in auto)
    show ?thesis
    proof (cases "key_walk nm ck G (keys @ [(nm n, k)]) c ns")
      case (Inl e)
      with rest Inr show ?thesis by (auto simp: look r keys')
    next
      case (Inr r')
      obtain kf cf where r': "r' = (kf, cf)" by (cases r')
      with rest Inr obtain new where new: "kf = keys @ (nm n, k) # new" by auto
      have "map_of kf d = map_of keys d" if "d \<in> set (dkeys keys)" for d
        using map_of_append_key [OF that] by (simp only: new)
      with deps have "dep_keys nm G kf n = dep_keys nm G keys n"
        unfolding dep_keys_def by (intro map_cong) (simp_all add: image_subset_iff)
      moreover have "map_of kf (nm n) = Some k"
        using map_of_append_fresh [OF fresh, of "(nm n, k) # new"] by (simp only: new) simp
      ultimately have "\<exists>k c1 c2. map_of kf (nm n) = Some k \<and> ck n (dep_keys nm G kf n) c1 = Inr (k, c2)"
        using \<open>ck n (dep_keys nm G keys n) ctx = Inr r\<close> r by auto
      then show ?thesis
        using rest Inr \<open>ck n (dep_keys nm G keys n) ctx = Inr r\<close> new
        by (auto simp: look r keys' r')
    qed
  qed
qed simp

lemma key_walk_ctx:
  "key_walk nm (\<lambda>n dks c. Inr (f n dks, c)) G keys ctx ns = Inr (keys', ctx') \<Longrightarrow> ctx' = ctx"
  by (induction ns arbitrary: keys) (auto simp: bindR_Inr_iff)

subsection \<open>Preimages of the digests\<close>

lemma hash_preimage_inj:
  assumes "\<forall>p \<in> set ps. NUL \<notin> set p" and "\<forall>q \<in> set qs. NUL \<notin> set q"
    and "hash_preimage ps = hash_preimage qs"
  shows "ps = qs"
  using assms
proof (induction ps arbitrary: qs)
  case Nil
  then show ?case by (cases qs) (auto simp: hash_preimage_def)
next
  case (Cons p ps)
  then obtain q qs' where qs: "qs = q # qs'" by (cases qs) (auto simp: hash_preimage_def)
  with Cons.prems(3) have eq: "p @ NUL # hash_preimage ps = q @ NUL # hash_preimage qs'"
    by (simp add: hash_preimage_def)
  with Cons.prems(1,2) qs have "p = q \<and> hash_preimage ps = hash_preimage qs'"
    by (simp add: append_sep_inj)
  moreover have "ps = qs'" if "hash_preimage ps = hash_preimage qs'"
    by (rule Cons.IH) (use that Cons.prems(1,2) qs in simp_all)
  ultimately show ?case by (simp add: qs)
qed

subsection \<open>Properties\<close>

lemma cache_keys_walk_pack:
  assumes "BuildGraph nm g nodes es = Inr G"
  shows "case compute_cache_keys nm ck G ctx of
      Inl e \<Rightarrow> \<exists>n \<in> set nodes. \<exists>dks c. ck n dks c = Inl e
    | Inr (keys, ctx') \<Rightarrow> dkeys keys = map nm (topological_order G) \<and>
        (\<forall>n \<in> set nodes. \<exists>k c1 c2. map_of keys (nm n) = Some k \<and>
           ck n (map (\<lambda>d. (nm d, the (map_of keys (nm d)))) (content_dependencies_of G (nm n))) c1 = Inr (k, c2))"
proof -
  note b = BuildGraph_built [OF assms]
  have set: "set (topological_order G) = set nodes"
    using full.complete [OF b(1)] b(3) by (simp add: topological_order_def waves_def)
  have inj: "inj_on nm (set nodes)" using b(5) by (simp add: well_formed_def distinct_map)
  have "distinct (topological_order G)"
    using full.once [OF b(1)] by (simp add: topological_order_def waves_def)
  then have "distinct (map nm (topological_order G))" using inj set by (simp add: distinct_map)
  then have "case key_walk nm ck G [] ctx (topological_order G) of
      Inl e \<Rightarrow> \<exists>n \<in> set (topological_order G). \<exists>dks ctx'. ck n dks ctx' = Inl e
    | Inr (keys', ctx') \<Rightarrow> dkeys keys' = map nm ([] @ topological_order G) \<and>
        (\<exists>new. keys' = [] @ new) \<and>
        (\<forall>n \<in> set (topological_order G). \<exists>k c1 c2. map_of keys' (nm n) = Some k \<and>
          ck n (dep_keys nm G keys' n) c1 = Inr (k, c2))"
    by (intro key_walk_spec [OF b(1)]) simp_all
  then show ?thesis
    unfolding compute_cache_keys_def set dep_keys_def by (auto split: sum.splits)
qed

text \<open>The key walk on a constructed graph. It never looks up a key that is not there yet: if
  it raises, some node's own \<^verbatim>\<open>cache_key\<close> raised. If it returns, every node has exactly
  one key, listed in dependency order, and each key is what the node computes from the final keys of
  its content dependencies.\<close>

theorem cache_keys_walk:
  assumes "BuildGraph nm g nodes es = Inr G"
  shows "case compute_cache_keys nm ck G ctx of
      Inl e \<Rightarrow> \<exists>n \<in> set nodes. \<exists>dks c. ck n dks c = Inl e
    | Inr (keys, ctx') \<Rightarrow> dkeys keys = map nm (topological_order G) \<and>
        (\<forall>n \<in> set nodes. \<exists>k c1 c2. map_of keys (nm n) = Some k \<and>
           ck n (map (\<lambda>d. (nm d, the (map_of keys (nm d)))) (content_dependencies_of G (nm n))) c1 = Inr (k, c2))"
  by (rule cache_keys_walk_pack [OF assms])

theorem cache_keys_walk_witness:
  "BuildGraph id ''g'' [''b'', ''c''] [ordering_edge ''b'' ''c''] = Inr sample_graph \<and>
   compute_cache_keys id (\<lambda>n dks c. Inr (fold_dependency_keys id n dks, c)) sample_graph () =
     Inr ([(''c'', ''c''), (''b'', ''b'')], ()) \<and>
   dkeys [(''c'', ''c''), (''b'', ''b'')] = map id (topological_order sample_graph)"
proof -
  have h: "compute_cache_keys id (\<lambda>n dks c. Inr (fold_dependency_keys id n dks, c)) sample_graph () =
     Inr ([(''c'', ''c''), (''b'', ''b'')], ())" by code_simp
  show ?thesis
    using cache_keys_walk [OF sample_graph, of "\<lambda>n dks c. Inr (fold_dependency_keys id n dks, c)" "()"]
      h sample_graph by auto
qed

text \<open>With ordering edges only, a node's key is its own-inputs key, whatever the graph: an
  edge that merely orders two nodes never changes a cache key.\<close>

theorem ordering_edges_keep_keys:
  assumes "BuildGraph nm g nodes es = Inr G"
    and "\<And>e. e \<in> set es \<Longrightarrow> cacheability e = ORDERING"
  shows "\<exists>keys. compute_cache_keys nm (\<lambda>n dks c. Inr (fold_dependency_keys sha (own n) dks, c)) G ctx = Inr (keys, ctx) \<and>
    (\<forall>n \<in> set nodes. map_of keys (nm n) = Some (own n))"
proof -
  let ?ck = "\<lambda>n dks c. Inr (fold_dependency_keys sha (own n) dks, c)"
  note b = BuildGraph_built [OF assms(1)]
  have "\<not> needs_edge affects_cache_key nm G n d" for n d
    using assms(2) b(4) by (auto simp: needs_edge_def pairs_def affects_cache_key_def)
  then have nil: "content_dependencies_of G (nm n) = []" for n
    using content_dependencies_set [OF b(1), of n] by simp
  obtain keys c where keys: "compute_cache_keys nm ?ck G ctx = Inr (keys, c)"
    using cache_keys_walk_pack [OF assms(1), of ?ck ctx] by (auto split: sum.splits)
  moreover have "c = ctx" using key_walk_ctx [OF keys [unfolded compute_cache_keys_def]] by simp
  ultimately show ?thesis
    using cache_keys_walk_pack [OF assms(1), of ?ck ctx] by (simp add: nil fold_dependency_keys_def)
qed

theorem ordering_edges_keep_keys_witness:
  "\<exists>keys. compute_cache_keys id (\<lambda>n dks c. Inr (fold_dependency_keys id (''k'' @ n) dks, c)) sample_graph () =
     Inr (keys, ()) \<and> (\<forall>n \<in> set [''b'', ''c'']. map_of keys (id n) = Some (''k'' @ n))"
  by (rule ordering_edges_keep_keys [OF sample_graph]) (auto simp: ordering_edge_def)

text \<open>The own-inputs preimage separates its parts. Two declared shapes whose parts hold no
  NUL byte feed the same bytes to the digest only if they are the same list of parts, so (unless the
  truncated digest collides on these two byte strings) two nodes have the same key exactly when
  their declared shapes are equal.\<close>

theorem hash_inputs_injective:
  assumes "\<forall>p \<in> set ps. NUL \<notin> set p" and "\<forall>q \<in> set qs. NUL \<notin> set q"
    and "inj_on (\<lambda>b. take 16 (sha b)) {hash_preimage ps, hash_preimage qs}"
  shows "hash_inputs sha ps = hash_inputs sha qs \<longleftrightarrow> ps = qs"
  using hash_preimage_inj [OF assms(1,2)] assms(3) by (auto simp: hash_inputs_def inj_on_def)

theorem hash_inputs_injective_witness:
  "hash_inputs id [''pool'', ''a''] \<noteq> hash_inputs id [''poola'']"
  using hash_inputs_injective [of "[''pool'', ''a'']" "[''poola'']" id]
  by (simp add: NUL_def hash_preimage_def)

end
