(* ===== verification/Plan_Graph.thy ===== *)
theory Plan_Graph
  imports Hypervisor Cache_Keys
begin

text \<open>
  From a container to a validated build graph: the node kinds and \<^verbatim>\<open>assemble_graph\<close> of
  \<^verbatim>\<open>nodes.py\<close> and \<^verbatim>\<open>Plan\<close> of \<^verbatim>\<open>plan.py\<close>. The lifecycle hooks of the
  nodes are modelled with the orchestrator; here are identity, kind, cache key and topology.
\<close>

subsection \<open>Nodes\<close>

datatype ('b, 'c) plan_node =
    PoolNode storage_pool
  | NetworkNode switch
  | SidecarNode switch
  | VMNode "('b, 'c) vm_recipe" nat

fun pn_name :: "('b, 'c) plan_node \<Rightarrow> name" where
  "pn_name (PoolNode p) = ''pool:'' @ sp_name p"
| "pn_name (NetworkNode s) = ''network:'' @ sw_name s"
| "pn_name (SidecarNode s) = ''sidecar:'' @ sw_name s"
| "pn_name (VMNode r _) = ''vm:'' @ vr_name r"

fun pn_kind :: "('b, 'c) plan_node \<Rightarrow> string" where
  "pn_kind (PoolNode _) = ''pool''"
| "pn_kind (NetworkNode _) = ''network''"
| "pn_kind (SidecarNode _) = ''sidecar''"
| "pn_kind (VMNode _ _) = ''vm''"

subsection \<open>Cache keys\<close>

definition str_bool :: "bool \<Rightarrow> string" where
  "str_bool b = (if b then ''True'' else ''False'')"

text \<open>\<^verbatim>\<open>repr\<close> of the values a sidecar declaration prints; the strings are IPv4 texts, so
  Python quotes them with single quotes.\<close>

definition repr_str :: "string \<Rightarrow> string" where
  "repr_str s = [CHR 0x27] @ s @ [CHR 0x27]"

definition repr_tuple :: "string list \<Rightarrow> string" where
  "repr_tuple xs =
     (case xs of [x] \<Rightarrow> ''('' @ repr_str x @ '',)'' | _ \<Rightarrow> ''('' @ join '', '' (map repr_str xs) @ '')'')"

definition repr_static_addr :: "static_addr option \<Rightarrow> string" where
  "repr_static_addr a =
     (case a of
        None \<Rightarrow> ''None''
      | Some s \<Rightarrow> ''StaticAddr(addr='' @ repr_str (addr s) @
          '', gw='' @ (case gw s of None \<Rightarrow> ''None'' | Some g \<Rightarrow> repr_str g) @
          '', dns='' @ repr_tuple (dns s) @ '')'')"

definition sidecar_text :: "sidecar option \<Rightarrow> string" where
  "sidecar_text sc =
     (case sc of
        None \<Rightarrow> []
      | Some s \<Rightarrow> ''dhcp='' @ str_bool (dhcp s) @ '',dns='' @ str_bool (sc_dns s) @
          '',nat='' @ str_bool (nat_flag s) @ '',addr='' @ repr_static_addr (sc_addr s))"

fun own_parts :: "('b, 'c) plan_node \<Rightarrow> string list" where
  "own_parts (PoolNode p) = [''pool'', sp_name p, string_of_int (sp_size_gb p)]"
| "own_parts (NetworkNode s) = [''network'', sw_name s, cidr s, (case uplink s of None \<Rightarrow> [] | Some u \<Rightarrow> u),
     str_bool (mgmt s), join '','' (map nw_name (networks s))]"
| "own_parts (SidecarNode s) = [''sidecar'', sw_name s, sidecar_text (sw_sidecar s)]"
| "own_parts (VMNode _ _) = []"

text \<open>The hook as the key walk calls it. The context is the probe ledger
  \<^verbatim>\<open>ctx.vm_probes\<close>; \<open>probe\<close> is \<^verbatim>\<open>probe_vm\<close> with the resolved sidecar
  digest and build switch, \<open>config_hash\<close> the field of a probe.\<close>

fun node_cache_key :: "(string \<Rightarrow> string) \<Rightarrow> (('b, 'c) vm_recipe \<Rightarrow> nat \<Rightarrow> 'p result) \<Rightarrow> ('p \<Rightarrow> string) \<Rightarrow>
    (('b, 'c) plan_node, (name, 'p) dict) cache_key_fun" where
  "node_cache_key sha probe config_hash (VMNode r i) dks ctx =
     (let nm = pn_name (VMNode r i) in
      bindR (case map_of ctx nm of
               Some p \<Rightarrow> Inr (p, ctx)
             | None \<Rightarrow> bindR (probe r i) (\<lambda>p. Inr (p, AList.update nm p ctx)))
        (\<lambda>(p, ctx'). Inr (fold_dependency_keys sha (config_hash p) dks, ctx')))"
| "node_cache_key sha probe config_hash n dks ctx =
     Inr (fold_dependency_keys sha (hash_inputs sha (own_parts n)) dks, ctx)"

subsection \<open>Assembling the graph\<close>

text \<open>\<^verbatim>\<open>edges.setdefault((a, b), Edge(a, b))\<close>: the edge is constructed, and so
  checked, every time.\<close>

definition add_edge :: "name \<Rightarrow> name \<Rightarrow> (name \<times> name, edge) dict \<Rightarrow> (name \<times> name, edge) dict result" where
  "add_edge a b d =
     bindR (mk_edge a b ORDERING_KIND ORDERING) (\<lambda>e.
     Inr (if (a, b) \<in> set (dkeys d) then d else d @ [((a, b), e)]))"

fun add_edges :: "(name \<times> name) list \<Rightarrow> (name \<times> name, edge) dict \<Rightarrow> (name \<times> name, edge) dict result" where
  "add_edges [] d = Inr d"
| "add_edges ((a, b) # ps) d = bindR (add_edge a b d) (add_edges ps)"

text \<open>The switch loop: a network node per switch, and a sidecar node with its two edges when
  the switch has one.\<close>

fun switch_part :: "storage_pool option \<Rightarrow> switch list \<Rightarrow> (('b, 'c) plan_node list \<times> (name \<times> name) list) result" where
  "switch_part first_pool [] = Inr ([], [])"
| "switch_part first_pool (s # ss) =
     (if needs_sidecar s then
        (case first_pool of
           None \<Rightarrow> Inl (OrchestratorError [sw_name s])
         | Some p \<Rightarrow> bindR (switch_part first_pool ss) (\<lambda>(ns, es).
             Inr (NetworkNode s # SidecarNode s # ns,
                  (''sidecar:'' @ sw_name s, ''network:'' @ sw_name s) #
                  (''sidecar:'' @ sw_name s, ''pool:'' @ sp_name p) # es)))
      else bindR (switch_part first_pool ss) (\<lambda>(ns, es). Inr (NetworkNode s # ns, es)))"

definition switch_by_network_node :: "switch list \<Rightarrow> (name, switch) dict" where
  "switch_by_network_node ss = fold (\<lambda>s. AList.update (''network:'' @ sw_name s) s) ss []"

definition vm_pairs :: "(name, switch) dict \<Rightarrow> ('b, 'c) vm_recipe \<Rightarrow> (name \<times> name) list" where
  "vm_pairs sws r =
     (let me = ''vm:'' @ vr_name r; spec = vr_spec r in
      (me, node_name (disk_pool (os_drive spec))) #
      map (\<lambda>d. (me, node_name (disk_pool d))) (data_drives spec) @
      concat (map (\<lambda>nic.
        (me, node_name (nic_network nic)) #
        (case map_of sws (node_name (nic_network nic)) of
           Some sw \<Rightarrow> if needs_sidecar sw then [(me, ''sidecar:'' @ sw_name sw)] else []
         | None \<Rightarrow> [])) (nics spec)))"

definition assemble_graph :: "name \<Rightarrow> ('b, 'c) hypervisor \<Rightarrow> ('b, 'c) plan_node build_graph result" where
  "assemble_graph n h =
     (let pools = declared_pools h; ss = declared_switches h; vms = declared_vms h;
          first_pool = (case pools of [] \<Rightarrow> None | p # _ \<Rightarrow> Some p) in
      bindR (switch_part first_pool ss) (\<lambda>(sns, ses).
      bindR (add_edges (ses @ concat (map (vm_pairs (switch_by_network_node ss)) vms) @ explicit_edges h) []) (\<lambda>edges.
      BuildGraph pn_name n (map PoolNode pools @ sns @ map (\<lambda>(i, r). VMNode r i) (enumerate 0 vms)) (map snd edges))))"

subsection \<open>Plans\<close>

record ('b, 'c) plan =
  p_name :: name
  p_hypervisor :: "('b, 'c) hypervisor"
  p_graph :: "('b, 'c) plan_node build_graph"

text \<open>The container is frozen once validation has passed, even if the graph is then rejected.\<close>

definition Plan :: "name \<Rightarrow> ('b, 'c) hypervisor \<Rightarrow> ('b, 'c) plan result \<times> ('b, 'c) hypervisor" where
  "Plan n h =
     (if n = [] then (Inl (ValueError []), h)
      else case validate_hypervisor_plan (declared_switches h) (declared_pools h) (declared_vms h) of
          Inl e \<Rightarrow> (Inl e, h)
        | Inr _ \<Rightarrow> (let h' = freeze h in
            (bindR (assemble_graph n h') (\<lambda>g. Inr \<lparr>p_name = n, p_hypervisor = h', p_graph = g\<rparr>), h')))"

subsection \<open>Edges\<close>

definition edge_dict_ok :: "(name \<times> name, edge) dict \<Rightarrow> bool" where
  "edge_dict_ok d \<longleftrightarrow> (\<forall>(k, e) \<in> set d. e = ordering_edge (fst k) (snd k))"

lemma add_edges_spec:
  assumes "\<forall>(a, b) \<in> set ps. a \<noteq> [] \<and> b \<noteq> []" and "edge_dict_ok d"
  shows "\<exists>d'. add_edges ps d = Inr d' \<and> edge_dict_ok d' \<and> set (dkeys d') = set (dkeys d) \<union> set ps"
  using assms
proof (induction ps d rule: add_edges.induct)
  case (2 a b ps d)
  let ?d = "if (a, b) \<in> set (dkeys d) then d else d @ [((a, b), ordering_edge a b)]"
  have e: "add_edge a b d = Inr ?d"
    using 2(2) mk_edge_ordering [of a b] by (simp add: add_edge_def)
  have ok: "edge_dict_ok ?d" and k: "set (dkeys ?d) = insert (a, b) (set (dkeys d))"
    using 2(3) by (auto simp: edge_dict_ok_def)
  have "\<exists>d'. add_edges ps ?d = Inr d' \<and> edge_dict_ok d' \<and> set (dkeys d') = set (dkeys ?d) \<union> set ps"
    by (rule "2.IH" [OF _ ok]) (use 2(2) in auto)
  then obtain d' where d': "add_edges ps ?d = Inr d'" "edge_dict_ok d'" "set (dkeys d') = set (dkeys ?d) \<union> set ps"
    by blast
  have "add_edges ((a, b) # ps) d = Inr d'" unfolding add_edges.simps e bindR_simps(2) by (rule d'(1))
  moreover have "set (dkeys d') = set (dkeys d) \<union> set ((a, b) # ps)" unfolding d'(3) k by simp
  ultimately show ?case using d'(2) by blast
qed simp

lemma edge_dict_pairs: "edge_dict_ok d \<Longrightarrow> pairs (map snd d) = set (dkeys d)"
  by (force simp: edge_dict_ok_def pairs_def)

lemma edge_dict_ordering: "edge_dict_ok d \<Longrightarrow> e \<in> set (map snd d) \<Longrightarrow> cacheability e = ORDERING"
  by (auto simp: edge_dict_ok_def)

subsection \<open>The switch loop\<close>

definition switch_nodes :: "switch \<Rightarrow> ('b, 'c) plan_node list" where
  "switch_nodes s = (if needs_sidecar s then [NetworkNode s, SidecarNode s] else [NetworkNode s])"

definition sidecar_pairs :: "storage_pool option \<Rightarrow> switch \<Rightarrow> (name \<times> name) list" where
  "sidecar_pairs fp s = (if needs_sidecar s then
     [(''sidecar:'' @ sw_name s, ''network:'' @ sw_name s), (''sidecar:'' @ sw_name s, ''pool:'' @ sp_name (the fp))] else [])"

lemma switch_part_ok:
  "fp \<noteq> None \<or> (\<forall>s \<in> set ss. \<not> needs_sidecar s) \<Longrightarrow>
   switch_part fp ss = Inr (concat (map switch_nodes ss), concat (map (sidecar_pairs fp) ss))"
  by (induction ss) (auto simp: switch_nodes_def sidecar_pairs_def split: option.splits)

lemma switch_part_err:
  "\<exists>s \<in> set ss. needs_sidecar s \<Longrightarrow> \<exists>s \<in> set ss. needs_sidecar s \<and>
   (switch_part None ss :: (('b, 'c) plan_node list \<times> (name \<times> name) list) result) = Inl (OrchestratorError [sw_name s])"
proof (induction ss)
  case (Cons t ss)
  show ?case
  proof (cases "needs_sidecar t")
    case False
    with Cons obtain s where "s \<in> set ss" "needs_sidecar s"
      "(switch_part None ss :: (('b, 'c) plan_node list \<times> (name \<times> name) list) result) = Inl (OrchestratorError [sw_name s])"
      by auto
    with False show ?thesis by auto
  qed simp
qed simp

lemma switch_by_network_node_fold:
  "map_of (fold (\<lambda>s. AList.update (''network:'' @ sw_name s) s) ss d) k = Some s \<Longrightarrow>
   (s \<in> set ss \<and> k = ''network:'' @ sw_name s) \<or> map_of d k = Some s"
proof (induction ss arbitrary: d)
  case (Cons t ss)
  from Cons.IH [of "AList.update (''network:'' @ sw_name t) t d"] Cons.prems show ?case
    by (auto simp: update_conv' split: if_splits)
qed simp

lemma switch_by_network_node_sound:
  "map_of (switch_by_network_node ss) k = Some s \<Longrightarrow> s \<in> set ss \<and> k = ''network:'' @ sw_name s"
  using switch_by_network_node_fold [of ss "[]" k s] by (simp add: switch_by_network_node_def)

lemma switch_by_network_node_keep:
  "\<forall>t \<in> set ss. sw_name t \<noteq> sw_name s \<Longrightarrow> map_of d (''network:'' @ sw_name s) = Some s \<Longrightarrow>
   map_of (fold (\<lambda>s. AList.update (''network:'' @ sw_name s) s) ss d) (''network:'' @ sw_name s) = Some s"
  by (induction ss arbitrary: d) (auto simp: update_conv')

lemma switch_by_network_node_complete:
  assumes "distinct (map sw_name ss)" and "s \<in> set ss"
  shows "map_of (switch_by_network_node ss) (''network:'' @ sw_name s) = Some s"
proof -
  obtain us vs where ss: "ss = us @ s # vs" using assms(2) by (auto dest: split_list)
  have "sw_name s \<notin> sw_name ` set vs" using assms(1) ss by simp
  then have "\<forall>t \<in> set vs. sw_name t \<noteq> sw_name s" by (metis image_eqI)
  then show ?thesis
    unfolding switch_by_network_node_def ss fold_append o_apply fold_Cons
    by (rule switch_by_network_node_keep) (simp add: update_conv')
qed

subsection \<open>Ranks\<close>

text \<open>The inferred edges point from later to earlier kinds, so they cannot form a cycle.\<close>

definition rank :: "name \<Rightarrow> nat" where
  "rank n = (if startswith n ''vm:'' then 2 else if startswith n ''sidecar:'' then 1 else 0)"

lemma rank_simps:
  "rank (''vm:'' @ n) = 2" "rank (''sidecar:'' @ n) = 1" "rank (''network:'' @ n) = 0" "rank (''pool:'' @ n) = 0"
  by (simp_all add: rank_def startswith_def)

lemma ranked_acyclic: "\<forall>(a, b) \<in> r. rank b < rank a \<Longrightarrow> acyclic r"
proof -
  assume "\<forall>(a, b) \<in> r. rank b < rank a"
  then have "r \<subseteq> (measure rank)\<inverse>" by auto
  moreover have "acyclic ((measure rank)\<inverse>)"
    using wf_acyclic [OF wf_measure [of rank]] by (simp only: acyclic_converse)
  ultimately show ?thesis using acyclic_subset by blast
qed

text \<open>What the device constructors establish: disks are on pools and NICs on networks.\<close>

definition device_ok :: "device \<Rightarrow> bool" where
  "device_ok d \<longleftrightarrow> (is_OSDrive d \<or> is_HardDrive d \<longrightarrow> is_PoolHandle (disk_pool d)) \<and>
     (is_NetworkIface d \<longrightarrow> is_NetworkHandle (nic_network d))"

lemma device_ok_constructors:
  "mk_CPU n b = Inr d \<Longrightarrow> device_ok d" "mk_Memory m = Inr d \<Longrightarrow> device_ok d"
  "mk_OSDrive p s = Inr d \<Longrightarrow> device_ok d" "mk_HardDrive p s = Inr d \<Longrightarrow> device_ok d"
  "mk_LibvirtOSDrive p s u = Inr d \<Longrightarrow> device_ok d" "mk_LibvirtDataDrive p s u = Inr d \<Longrightarrow> device_ok d"
  "mk_ProxmoxHardDrive p s u = Inr d \<Longrightarrow> device_ok d" "mk_ESXiHardDrive p s u = Inr d \<Longrightarrow> device_ok d"
  "mk_NetworkIface p a = Inr d \<Longrightarrow> device_ok d" "mk_LibvirtNetworkIface p a u = Inr d \<Longrightarrow> device_ok d"
  by (auto simp: device_ok_def mk_CPU_def mk_Memory_def mk_OSDrive_def mk_HardDrive_def
      mk_LibvirtOSDrive_def mk_LibvirtDataDrive_def mk_ProxmoxHardDrive_def mk_ESXiHardDrive_def
      mk_NetworkIface_def mk_LibvirtNetworkIface_def check_disk_def check_libvirt_disk_def result_simps split: if_splits)

lemma node_name_PoolHandle: "is_PoolHandle h \<Longrightarrow> node_name h = ''pool:'' @ handle_str h"
  by (cases h) auto

lemma node_name_NetworkHandle: "is_NetworkHandle h \<Longrightarrow> \<exists>sw. node_name h = ''network:'' @ sw"
  by (cases h) auto

subsection \<open>The assembled graph\<close>

definition plan_nodes :: "('b, 'c) hypervisor \<Rightarrow> ('b, 'c) plan_node list" where
  "plan_nodes h = map PoolNode (declared_pools h) @ concat (map switch_nodes (declared_switches h)) @
     map (\<lambda>(i, r). VMNode r i) (enumerate 0 (declared_vms h))"

definition first_pool :: "('b, 'c) hypervisor \<Rightarrow> storage_pool option" where
  "first_pool h = (case declared_pools h of [] \<Rightarrow> None | p # _ \<Rightarrow> Some p)"

definition plan_pairs :: "('b, 'c) hypervisor \<Rightarrow> (name \<times> name) list" where
  "plan_pairs h = concat (map (sidecar_pairs (first_pool h)) (declared_switches h)) @
     concat (map (vm_pairs (switch_by_network_node (declared_switches h))) (declared_vms h)) @ explicit_edges h"

definition sidecars_placeable :: "('b, 'c) hypervisor \<Rightarrow> bool" where
  "sidecars_placeable h \<longleftrightarrow> declared_pools h \<noteq> [] \<or> (\<forall>s \<in> set (declared_switches h). \<not> needs_sidecar s)"

lemma pn_name_kind: "pn_name a = pn_name b \<Longrightarrow> pn_kind a = pn_kind b"
  by (cases a; cases b) auto

lemma kinds_disjoint: "(\<And>a b. a \<in> A \<Longrightarrow> b \<in> B \<Longrightarrow> pn_kind a \<noteq> pn_kind b) \<Longrightarrow> pn_name ` A \<inter> pn_name ` B = {}"
  using pn_name_kind by fastforce

lemma insert_image_split:
  "insert (f s) (if c s then {g s} else {}) \<union> (f ` A \<union> g ` {x \<in> A. c x}) = f ` insert s A \<union> g ` {x \<in> insert s A. c x}"
  by auto

lemma switch_nodes_names:
  "pn_name ` set (concat (map switch_nodes ss) :: ('b, 'c) plan_node list) = (\<lambda>x. ''network:'' @ sw_name x) ` set ss \<union>
      (\<lambda>x. ''sidecar:'' @ sw_name x) ` {s \<in> set ss. needs_sidecar s}"
proof (induction ss)
  case (Cons s ss)
  have "pn_name ` set (switch_nodes s :: ('b, 'c) plan_node list) =
      insert (''network:'' @ sw_name s) (if needs_sidecar s then {''sidecar:'' @ sw_name s} else {})"
    by (simp add: switch_nodes_def)
  with Cons insert_image_split [of "\<lambda>x. ''network:'' @ sw_name x" s needs_sidecar "\<lambda>x. ''sidecar:'' @ sw_name x" "set ss"]
  show ?case by (simp only: list.map concat.simps set_append image_Un list.set)
qed simp

lemma switch_nodes_distinct:
  "distinct (map sw_name ss) \<Longrightarrow> distinct (map pn_name (concat (map switch_nodes ss) :: ('b, 'c) plan_node list))"
proof (induction ss)
  case (Cons s ss)
  have "''network:'' @ sw_name s \<notin> pn_name ` set (concat (map switch_nodes ss) :: ('b, 'c) plan_node list)"
    "''sidecar:'' @ sw_name s \<notin> pn_name ` set (concat (map switch_nodes ss) :: ('b, 'c) plan_node list)"
    using Cons.prems unfolding switch_nodes_names by auto
  then show ?case using Cons by (simp add: switch_nodes_def [of s] del: set_concat)
qed simp

lemma vm_node_names:
  "map pn_name (map (\<lambda>(i, r). VMNode r i) (enumerate k rs)) = map (\<lambda>r. ''vm:'' @ vr_name r) rs"
  by (induction rs arbitrary: k) auto

lemma plan_node_names:
  "pn_name ` set (plan_nodes (h :: ('b, 'c) hypervisor)) = (\<lambda>x. ''pool:'' @ sp_name x) ` set (declared_pools h) \<union>
     (\<lambda>x. ''network:'' @ sw_name x) ` set (declared_switches h) \<union>
     (\<lambda>x. ''sidecar:'' @ sw_name x) ` {s \<in> set (declared_switches h). needs_sidecar s} \<union>
     (\<lambda>x. ''vm:'' @ vr_name x) ` set (declared_vms h)"
proof -
  have "pn_name ` set (map (\<lambda>(i, r). VMNode r i) (enumerate 0 (declared_vms h))) =
      set (map pn_name (map (\<lambda>(i, r). VMNode r i) (enumerate 0 (declared_vms h))))" by (simp only: set_map)
  also have "\<dots> = (\<lambda>x. ''vm:'' @ vr_name x) ` set (declared_vms h)"
    unfolding vm_node_names by simp
  finally have vms: "pn_name ` set (map (\<lambda>(i, r). VMNode r i) (enumerate 0 (declared_vms h))) =
      (\<lambda>x. ''vm:'' @ vr_name x) ` set (declared_vms h)" .
  have "pn_name ` set (map PoolNode (declared_pools h) :: ('b, 'c) plan_node list) = (\<lambda>x. ''pool:'' @ sp_name x) ` set (declared_pools h)"
    by (simp add: image_image)
  with vms show ?thesis
    unfolding plan_nodes_def set_append image_Un switch_nodes_names by (simp only: Un_assoc)
qed

lemma plan_nodes_distinct:
  assumes "hyp_inv (h :: ('b, 'c) hypervisor)"
  shows "distinct (map pn_name (plan_nodes h))"
proof -
  note d = hyp_inv_distinct [OF assms]
  have inj: "inj_on ((@) p) S" for p :: string and S by (simp add: inj_on_def)
  have pools: "distinct (map pn_name (map PoolNode (declared_pools h)))"
    using d(1) by (simp add: distinct_map comp_def inj_on_def)
  have vms_d: "distinct (map pn_name (map (\<lambda>(i, r). VMNode r i) (enumerate 0 (declared_vms h))))"
    unfolding vm_node_names using d(3) by (simp add: distinct_map inj_on_def)
  note sw = switch_nodes_distinct
  let ?P = "map PoolNode (declared_pools h) :: ('b, 'c) plan_node list"
    and ?S = "concat (map switch_nodes (declared_switches h)) :: ('b, 'c) plan_node list"
    and ?V = "map (\<lambda>(i, r). VMNode r i) (enumerate 0 (declared_vms h))"
  have k: "pn_kind x = ''pool''" if "x \<in> set ?P" for x using that by auto
  have l: "pn_kind x \<in> {''network'', ''sidecar''}" if "x \<in> set ?S" for x
    using that by (auto simp: switch_nodes_def split: if_splits)
  have m: "pn_kind x = ''vm''" if "x \<in> set ?V" for x using that by auto
  have "pn_name ` set ?P \<inter> pn_name ` set ?S = {}"
    by (rule kinds_disjoint) (use k l in fastforce)
  moreover have "pn_name ` set ?P \<inter> pn_name ` set ?V = {}"
    by (rule kinds_disjoint) (use k m in fastforce)
  moreover have "pn_name ` set ?S \<inter> pn_name ` set ?V = {}"
    by (rule kinds_disjoint) (use l m in fastforce)
  ultimately show ?thesis
    using pools vms_d sw [OF d(2)] unfolding plan_nodes_def map_append distinct_append set_append set_map [of pn_name]
    by (simp only: Int_Un_distrib Int_Un_distrib2 Un_empty simp_thms)
qed

lemma node_name_neq_Nil [simp]: "node_name h \<noteq> []"
  by (cases h) auto

lemma needs_edges:
  "\<forall>(a, b) \<in> set (explicit_edges h). a \<noteq> [] \<and> b \<noteq> [] \<Longrightarrow>
   \<forall>(a, b) \<in> set (explicit_edges (snd (needs self others h))). a \<noteq> [] \<and> b \<noteq> []"
  by (rule needs_preserves) auto

lemma reachable_edges: "reachable h \<Longrightarrow> \<forall>(a, b) \<in> set (explicit_edges h). a \<noteq> [] \<and> b \<noteq> []"
proof (induction rule: reachable.induct)
  case (pool h p)
  then show ?case by (cases p h rule: add_pool_cases) simp_all
next
  case (switch h sw)
  then show ?case by (cases sw h rule: add_switch_cases) simp_all
next
  case (recipe h r)
  then show ?case by (cases r h rule: add_vm_cases) simp_all
next
  case (facade h n c m o' b com ns dds fw)
  have "explicit_edges (snd (add_vm r h)) = explicit_edges h" for r :: "('a, 'b) vm_recipe"
    by (cases r h rule: add_vm_cases) simp_all
  with facade show ?case by (simp add: vm_def split: sum.splits)
next
  case (edge h self others)
  then show ?case by (intro needs_edges)
qed (simp_all add: new_hypervisor_def freeze_def)

lemma plan_pairs_neq_Nil: "reachable h \<Longrightarrow> \<forall>(a, b) \<in> set (plan_pairs h). a \<noteq> [] \<and> b \<noteq> []"
  using reachable_edges [of h]
  by (auto simp: plan_pairs_def sidecar_pairs_def vm_pairs_def Let_def split: if_splits option.splits)

lemma assemble_graph_eq:
  assumes "reachable h" and "sidecars_placeable h"
  obtains d where "edge_dict_ok d" "set (dkeys d) = set (plan_pairs h)"
    "assemble_graph n h = BuildGraph pn_name n (plan_nodes h) (map snd d)"
proof -
  obtain d where d: "add_edges (plan_pairs h) [] = Inr d" "edge_dict_ok d" "set (dkeys d) = set (plan_pairs h)"
    using add_edges_spec [OF plan_pairs_neq_Nil [OF assms(1)], of "[]"] by (auto simp: edge_dict_ok_def)
  have "switch_part (first_pool h) (declared_switches h) =
      Inr (concat (map switch_nodes (declared_switches h)) :: ('a, 'b) plan_node list, concat (map (sidecar_pairs (first_pool h)) (declared_switches h)))"
    by (rule switch_part_ok) (use assms(2) in \<open>auto simp: sidecars_placeable_def first_pool_def split: list.splits\<close>)
  then have "assemble_graph n h = BuildGraph pn_name n (plan_nodes h) (map snd d)"
    using d(1) by (simp add: assemble_graph_def Let_def first_pool_def [symmetric] plan_pairs_def plan_nodes_def)
  with d(2,3) show ?thesis by (rule that)
qed

lemma assemble_succeeds_iff:
  assumes "reachable (h :: ('b, 'c) hypervisor)"
  shows "(\<exists>g. assemble_graph n h = Inr g) \<longleftrightarrow> n \<noteq> [] \<and> sidecars_placeable h \<and>
    (\<forall>(a, b) \<in> set (plan_pairs h). a \<in> pn_name ` set (plan_nodes h) \<and> b \<in> pn_name ` set (plan_nodes h)) \<and>
    acyclic (set (plan_pairs h))"
proof (cases "sidecars_placeable h")
  case False
  then have "declared_pools h = []" "\<exists>s \<in> set (declared_switches h). needs_sidecar s"
    by (auto simp: sidecars_placeable_def)
  then obtain s :: switch where "(switch_part None (declared_switches h) :: (('b, 'c) plan_node list \<times> (name \<times> name) list) result) =
      Inl (OrchestratorError [sw_name s])"
    using switch_part_err [where ?'b = 'b and ?'c = 'c] by blast
  with \<open>declared_pools h = []\<close> have "assemble_graph n h = Inl (OrchestratorError [sw_name s])"
    by (simp add: assemble_graph_def Let_def)
  with False show ?thesis by auto
next
  case True
  obtain d where d: "edge_dict_ok d" "set (dkeys d) = set (plan_pairs h)"
    "assemble_graph n h = BuildGraph pn_name n (plan_nodes h) (map snd d)"
    using assemble_graph_eq [OF assms True] .
  have p: "pairs (map snd d) = set (plan_pairs h)" using edge_dict_pairs [OF d(1)] d(2) by simp
  have dist: "distinct (map pn_name (plan_nodes h))" by (rule plan_nodes_distinct [OF reachable_inv [OF assms]])
  have irr: "acyclic R \<Longrightarrow> (a, b) \<in> R \<Longrightarrow> a \<noteq> b" for R :: "(name \<times> name) set" and a b
    by (auto simp: acyclic_def)
  have "(\<exists>g. assemble_graph n h = Inr g) \<longleftrightarrow> well_formed pn_name n (plan_nodes h) (map snd d) \<and> acyclic (set (plan_pairs h))"
    unfolding d(3) p [symmetric]
    using BuildGraph_built(5,6) [of pn_name n "plan_nodes h" "map snd d"] BuildGraph_acyclic [of pn_name n "plan_nodes h" "map snd d"]
    by blast
  then show ?thesis
    using True dist irr [of "set (plan_pairs h)"] unfolding well_formed_def p set_map by blast
qed

subsection \<open>Plans without explicit edges\<close>

text \<open>A recipe as the constructors build it.\<close>

definition recipe_ok :: "('b, 'c) vm_recipe \<Rightarrow> bool" where
  "recipe_ok r \<longleftrightarrow> count_dev is_OSDrive (devices (vr_spec r)) = 1 \<and> list_all device_ok (devices (vr_spec r))"

lemma recipe_ok_handles:
  assumes "recipe_ok r"
  shows "is_PoolHandle (disk_pool (os_drive (vr_spec r)))"
    "d \<in> set (data_drives (vr_spec r)) \<Longrightarrow> is_PoolHandle (disk_pool d)"
    "nic \<in> set (nics (vr_spec r)) \<Longrightarrow> is_NetworkHandle (nic_network nic)"
proof -
  have "os_drive (vr_spec r) \<in> set (filter is_OSDrive (devices (vr_spec r)))"
    using filter_count_1 [of is_OSDrive "devices (vr_spec r)"] assms
    by (metis list.set_intros(1) os_drive_def recipe_ok_def)
  then show "is_PoolHandle (disk_pool (os_drive (vr_spec r)))"
    using assms by (auto simp: recipe_ok_def list_all_iff device_ok_def)
qed (use assms in \<open>auto simp: recipe_ok_def list_all_iff device_ok_def data_drives_def nics_def\<close>)

lemma set_vm_pairs:
  "(a, b) \<in> set (vm_pairs sws r) \<longleftrightarrow> a = ''vm:'' @ vr_name r \<and>
     (b = node_name (disk_pool (os_drive (vr_spec r))) \<or>
      (\<exists>d \<in> set (data_drives (vr_spec r)). b = node_name (disk_pool d)) \<or>
      (\<exists>nic \<in> set (nics (vr_spec r)). b = node_name (nic_network nic) \<or>
         (\<exists>sw. map_of sws (node_name (nic_network nic)) = Some sw \<and> needs_sidecar sw \<and> b = ''sidecar:'' @ sw_name sw)))"
proof -
  have case_set: "(a, b) \<in> set (case x of Some sw \<Rightarrow> if needs_sidecar sw then [(me, f sw)] else [] | None \<Rightarrow> []) \<longleftrightarrow>
      a = me \<and> (\<exists>sw. x = Some sw \<and> needs_sidecar sw \<and> b = f sw)" for x me and f :: "switch \<Rightarrow> name"
    by (cases x) auto
  show ?thesis
    unfolding vm_pairs_def Let_def list.set insert_iff set_append Un_iff set_concat set_map UN_iff image_iff prod.inject case_set bex_simps
    by blast
qed

lemma vm_pairs_ranked:
  assumes "recipe_ok r" and "(a, b) \<in> set (vm_pairs sws r)"
  shows "rank b < rank a"
proof -
  have z: "rank (node_name h) = 0" if "is_PoolHandle h \<or> is_NetworkHandle h" for h
    using that by (cases h) (simp_all add: rank_def startswith_def)
  note hs = recipe_ok_handles [OF assms(1)]
  have a: "a = ''vm:'' @ vr_name r" using assms(2) unfolding set_vm_pairs by blast
  consider h where "b = node_name h" "is_PoolHandle h \<or> is_NetworkHandle h" | s where "b = ''sidecar:'' @ s"
    using assms(2) hs unfolding set_vm_pairs by blast
  then show ?thesis
  proof cases
    case 1
    then show ?thesis unfolding a rank_simps using z by simp
  next
    case 2
    then show ?thesis by (simp only: a rank_simps)
  qed
qed

lemma sidecar_pairs_ranked: "(a, b) \<in> set (sidecar_pairs fp s) \<Longrightarrow> rank b < rank a"
  by (auto simp: sidecar_pairs_def rank_def startswith_def split: if_splits)

lemma ball_concat:
  "\<forall>x \<in> set xs. \<forall>y \<in> set (f x). P y \<Longrightarrow>
   (\<forall>y \<in> set (concat (map f xs) @ concat (map g zs) @ []). P y) \<longleftrightarrow> (\<forall>z \<in> set zs. \<forall>y \<in> set (g z). P y)"
  by auto

lemma inferred_acyclic:
  assumes "explicit_edges h = []" and "\<forall>r \<in> set (declared_vms h). recipe_ok r"
  shows "acyclic (set (plan_pairs h))"
proof (rule ranked_acyclic)
  show "\<forall>(a, b) \<in> set (plan_pairs h). rank b < rank a"
    using assms vm_pairs_ranked sidecar_pairs_ranked by (fastforce simp: plan_pairs_def)
qed

lemma name_known:
  "''pool:'' @ x \<in> pn_name ` set (plan_nodes h) \<longleftrightarrow> x \<in> sp_name ` set (declared_pools h)"
  "''network:'' @ x \<in> pn_name ` set (plan_nodes h) \<longleftrightarrow> x \<in> sw_name ` set (declared_switches h)"
  "''sidecar:'' @ x \<in> pn_name ` set (plan_nodes h) \<longleftrightarrow> x \<in> sw_name ` {s \<in> set (declared_switches h). needs_sidecar s}"
  "''vm:'' @ x \<in> pn_name ` set (plan_nodes h) \<longleftrightarrow> x \<in> vr_name ` set (declared_vms h)"
  unfolding plan_node_names by auto

lemma sidecar_pairs_known:
  assumes "sidecars_placeable h" and "s \<in> set (declared_switches h)" and "(a, b) \<in> set (sidecar_pairs (first_pool h) s)"
  shows "a \<in> pn_name ` set (plan_nodes h) \<and> b \<in> pn_name ` set (plan_nodes h)"
proof -
  have n: "needs_sidecar s" "a = ''sidecar:'' @ sw_name s"
    "b = ''network:'' @ sw_name s \<or> b = ''pool:'' @ sp_name (the (first_pool h))"
    using assms(3) by (auto simp: sidecar_pairs_def split: if_splits)
  then have "declared_pools h \<noteq> []" using assms(1,2) by (auto simp: sidecars_placeable_def)
  then have "the (first_pool h) \<in> set (declared_pools h)" by (simp add: first_pool_def split: list.splits)
  with n assms(2) show ?thesis unfolding n(2) using name_known by blast
qed

lemma vm_pairs_known:
  assumes "r \<in> set (declared_vms h)" and "recipe_ok r"
  shows "(\<forall>(a, b) \<in> set (vm_pairs (switch_by_network_node (declared_switches h)) r).
      a \<in> pn_name ` set (plan_nodes h) \<and> b \<in> pn_name ` set (plan_nodes h)) \<longleftrightarrow>
    handle_str (disk_pool (os_drive (vr_spec r))) \<in> sp_name ` set (declared_pools h) \<and>
    (\<forall>d \<in> set (data_drives (vr_spec r)). handle_str (disk_pool d) \<in> sp_name ` set (declared_pools h)) \<and>
    (\<forall>nic \<in> set (nics (vr_spec r)). node_name (nic_network nic) \<in> (\<lambda>s. ''network:'' @ sw_name s) ` set (declared_switches h))"
    (is "?l \<longleftrightarrow> ?r")
proof -
  let ?N = "pn_name ` set (plan_nodes h)"
  note hs = recipe_ok_handles [OF assms(2)]
  have me: "''vm:'' @ vr_name r \<in> ?N" using assms(1) name_known(4) by blast
  have os: "node_name (disk_pool (os_drive (vr_spec r))) \<in> ?N \<longleftrightarrow> handle_str (disk_pool (os_drive (vr_spec r))) \<in> sp_name ` set (declared_pools h)"
    unfolding node_name_PoolHandle [OF hs(1)] by (rule name_known(1))
  have dd: "node_name (disk_pool d) \<in> ?N \<longleftrightarrow> handle_str (disk_pool d) \<in> sp_name ` set (declared_pools h)"
    if "d \<in> set (data_drives (vr_spec r))" for d
    unfolding node_name_PoolHandle [OF hs(2) [OF that]] by (rule name_known(1))
  have nn: "node_name (nic_network nic) \<in> ?N \<longleftrightarrow> node_name (nic_network nic) \<in> (\<lambda>s. ''network:'' @ sw_name s) ` set (declared_switches h)"
    if "nic \<in> set (nics (vr_spec r))" for nic
  proof -
    have "is_NetworkHandle (nic_network nic)" using hs(3) that by blast
    then obtain sw where sw: "node_name (nic_network nic) = ''network:'' @ sw"
      using node_name_NetworkHandle by blast
    show ?thesis unfolding sw using name_known(2) [of sw h] by auto
  qed
  have sc: "''sidecar:'' @ sw_name sw \<in> ?N"
    if "map_of (switch_by_network_node (declared_switches h)) k = Some sw" "needs_sidecar sw" for k sw
    using switch_by_network_node_sound [OF that(1)] that(2) name_known(3) by blast
  show ?thesis
  proof
    assume l: ?l
    then have "b \<in> ?N" if "(''vm:'' @ vr_name r, b) \<in> set (vm_pairs (switch_by_network_node (declared_switches h)) r)" for b
      using that by blast
    then show ?r using os dd nn unfolding set_vm_pairs by blast
  next
    assume r: ?r
    have "a \<in> ?N \<and> b \<in> ?N" if "(a, b) \<in> set (vm_pairs (switch_by_network_node (declared_switches h)) r)" for a b
      using that r os dd nn sc me unfolding set_vm_pairs by blast
    then show ?l by blast
  qed
qed

subsection \<open>Properties\<close>

text \<open>A plan that uses no explicit ordering is never rejected for a cycle. Its construction
  succeeds exactly when it is named, validation accepts its declarations, a pool exists for every
  sidecar to land in, every data disk is on a declared pool and every NIC's handle belongs to a
  declared switch.\<close>

theorem plan_without_needs_iff:
  assumes "reachable h" and "explicit_edges h = []" and "\<forall>r \<in> set (declared_vms h). recipe_ok r"
  shows "(\<exists>p. fst (Plan n h) = Inr p) \<longleftrightarrow>
    n \<noteq> [] \<and> validate_hypervisor_plan (declared_switches h) (declared_pools h) (declared_vms h) = Inr () \<and>
    (declared_pools h \<noteq> [] \<or> (\<forall>s \<in> set (declared_switches h). \<not> needs_sidecar s)) \<and>
    (\<forall>r \<in> set (declared_vms h).
      (\<forall>d \<in> set (data_drives (vr_spec r)). handle_str (disk_pool d) \<in> sp_name ` set (declared_pools h)) \<and>
      (\<forall>nic \<in> set (nics (vr_spec r)).
         node_name (nic_network nic) \<in> (\<lambda>s. ''network:'' @ sw_name s) ` set (declared_switches h)))"
proof (cases "n \<noteq> [] \<and> validate_hypervisor_plan (declared_switches h) (declared_pools h) (declared_vms h) = Inr ()")
  case False
  then show ?thesis by (auto simp: Plan_def split: sum.splits)
next
  case True
  have fr: "reachable (freeze h)" "plan_nodes (freeze h) = plan_nodes h" "plan_pairs (freeze h) = plan_pairs h"
    "sidecars_placeable (freeze h) = sidecars_placeable h"
    using assms(1) reachable.frozen by (auto simp: freeze_def plan_nodes_def plan_pairs_def first_pool_def
        sidecars_placeable_def declared_pools_def declared_switches_def declared_vms_def)
  have "(\<exists>p. fst (Plan n h) = Inr p) \<longleftrightarrow> (\<exists>g. assemble_graph n (freeze h) = Inr g)"
    using True by (auto simp: Plan_def Let_def result_simps)
  also have "\<dots> \<longleftrightarrow> sidecars_placeable h \<and>
      (\<forall>(a, b) \<in> set (plan_pairs h). a \<in> pn_name ` set (plan_nodes h) \<and> b \<in> pn_name ` set (plan_nodes h))"
    unfolding assemble_succeeds_iff [OF fr(1)] fr(2-4) using True inferred_acyclic [OF assms(2,3)] by blast
  finally have eq: "(\<exists>p. fst (Plan n h) = Inr p) \<longleftrightarrow> sidecars_placeable h \<and>
      (\<forall>(a, b) \<in> set (plan_pairs h). a \<in> pn_name ` set (plan_nodes h) \<and> b \<in> pn_name ` set (plan_nodes h))" .
  have os: "handle_str (disk_pool (os_drive (vr_spec r))) \<in> sp_name ` set (declared_pools h)"
    if "r \<in> set (declared_vms h)" for r
    using True that unfolding validate_hypervisor_plan_Inr validate_vm_plan_Inr by blast
  have step: "(\<forall>(a, b) \<in> set (plan_pairs h). a \<in> pn_name ` set (plan_nodes h) \<and> b \<in> pn_name ` set (plan_nodes h)) \<longleftrightarrow>
      (\<forall>r \<in> set (declared_vms h). \<forall>(a, b) \<in> set (vm_pairs (switch_by_network_node (declared_switches h)) r).
         a \<in> pn_name ` set (plan_nodes h) \<and> b \<in> pn_name ` set (plan_nodes h))"
    if "sidecars_placeable h"
    unfolding plan_pairs_def assms(2) by (rule ball_concat) (use sidecar_pairs_known [OF that] in blast)
  have each: "(\<forall>(a, b) \<in> set (vm_pairs (switch_by_network_node (declared_switches h)) r).
         a \<in> pn_name ` set (plan_nodes h) \<and> b \<in> pn_name ` set (plan_nodes h)) \<longleftrightarrow>
      (\<forall>d \<in> set (data_drives (vr_spec r)). handle_str (disk_pool d) \<in> sp_name ` set (declared_pools h)) \<and>
      (\<forall>nic \<in> set (nics (vr_spec r)).
         node_name (nic_network nic) \<in> (\<lambda>s. ''network:'' @ sw_name s) ` set (declared_switches h))"
    if "r \<in> set (declared_vms h)" for r
    using vm_pairs_known [OF that] assms(3) os [OF that] that by meson
  show ?thesis
    unfolding eq sidecars_placeable_def [symmetric] using True step
    by (simp only: each simp_thms cong: conj_cong ball_cong)
qed

theorem plan_without_needs_iff_witness:
  "\<exists>p. fst (Plan ''t'' sample_hypervisor) = Inr p"
proof -
  have "explicit_edges sample_hypervisor = []" "\<forall>r \<in> set (declared_vms sample_hypervisor). recipe_ok r"
    by code_simp+
  note iff = plan_without_needs_iff [OF sample_hypervisor_reachable this, of "''t''"]
  show ?thesis unfolding iff by code_simp
qed

text \<open>C8: a VM is realized after everything it stands on. In the topological order of an accepted
  plan, the pools of all its disks, the switches of all its NICs, the sidecar of each of those
  switches that has one, and every node it was told to need come before the VM.\<close>

theorem vm_after_its_infrastructure:
  assumes "reachable h" and "fst (Plan n h) = Inr p" and "r \<in> set (declared_vms h)"
    and "topological_order (p_graph p) = before @ VMNode r i # after"
  shows "node_name (disk_pool (os_drive (vr_spec r))) \<in> pn_name ` set before \<and>
    (\<forall>d \<in> set (data_drives (vr_spec r)). node_name (disk_pool d) \<in> pn_name ` set before) \<and>
    (\<forall>nic \<in> set (nics (vr_spec r)). node_name (nic_network nic) \<in> pn_name ` set before \<and>
      (\<forall>s \<in> set (declared_switches h). node_name (nic_network nic) = ''network:'' @ sw_name s \<and> needs_sidecar s \<longrightarrow>
         ''sidecar:'' @ sw_name s \<in> pn_name ` set before)) \<and>
    (\<forall>y. (''vm:'' @ vr_name r, y) \<in> set (explicit_edges h) \<longrightarrow> y \<in> pn_name ` set before)"
proof -
  have g: "assemble_graph n (freeze h) = Inr (p_graph p)" "reachable (freeze h)"
    using assms(1,2) reachable.frozen by (auto simp: Plan_def Let_def result_simps split: if_splits sum.splits)
  have fr: "plan_nodes (freeze h) = plan_nodes h" "plan_pairs (freeze h) = plan_pairs h"
    by (auto simp: freeze_def plan_nodes_def plan_pairs_def first_pool_def
        declared_pools_def declared_switches_def declared_vms_def)
  have pl: "sidecars_placeable (freeze h)" using g assemble_succeeds_iff [OF g(2), of n] by blast
  obtain d where d: "edge_dict_ok d" "set (dkeys d) = set (plan_pairs h)"
    "BuildGraph pn_name n (plan_nodes h) (map snd d) = Inr (p_graph p)"
    using assemble_graph_eq [OF g(2) pl, of n] g(1) unfolding fr by metis
  note b = BuildGraph_built [OF d(3)]
  have pairs: "pairs (g_edges (p_graph p)) = set (plan_pairs h)"
    using edge_dict_pairs [OF d(1)] d(2) b(4) by simp
  have before: "y \<in> pn_name ` set before" if "(''vm:'' @ vr_name r, y) \<in> set (plan_pairs h)" for y
  proof -
    have "\<forall>(x, y) \<in> set (plan_pairs h). x \<noteq> y \<and> x \<in> set (map pn_name (plan_nodes h)) \<and> y \<in> set (map pn_name (plan_nodes h))"
      using b(5) unfolding well_formed_def edge_dict_pairs [OF d(1)] d(2) by (elim conjE)
    from bspec [OF this that] have "y \<in> pn_name ` set (plan_nodes h)" by (simp only: split set_map)
    then obtain m where m: "m \<in> set (plan_nodes h)" "y = pn_name m" by blast
    then have "needs_edge (\<lambda>_. True) pn_name (p_graph p) (VMNode r i) m"
      using that pairs b(3) by (simp add: needs_edge_def)
    from full.flattened_order [OF b(1) _ this] assms(4) m(2) show ?thesis
      by (auto simp: topological_order_def waves_def)
  qed
  have vm: "(''vm:'' @ vr_name r, y) \<in> set (plan_pairs h)"
    if "(''vm:'' @ vr_name r, y) \<in> set (vm_pairs (switch_by_network_node (declared_switches h)) r)" for y
    using that assms(3) unfolding plan_pairs_def by auto
  have dist: "distinct (map sw_name (declared_switches h))"
    by (rule hyp_inv_distinct [OF reachable_inv [OF assms(1)]])
  have sc: "(''vm:'' @ vr_name r, ''sidecar:'' @ sw_name s) \<in> set (vm_pairs (switch_by_network_node (declared_switches h)) r)"
    if "nic \<in> set (nics (vr_spec r))" "s \<in> set (declared_switches h)" "node_name (nic_network nic) = ''network:'' @ sw_name s"
      "needs_sidecar s" for nic s
  proof -
    have "map_of (switch_by_network_node (declared_switches h)) (node_name (nic_network nic)) = Some s"
      unfolding that(3) by (rule switch_by_network_node_complete [OF dist that(2)])
    with that(1,4) show ?thesis unfolding set_vm_pairs by blast
  qed
  have ex: "(''vm:'' @ vr_name r, y) \<in> set (plan_pairs h)" if "(''vm:'' @ vr_name r, y) \<in> set (explicit_edges h)" for y
    using that by (simp add: plan_pairs_def)
  show ?thesis
  proof (intro conjI ballI allI impI)
    show "node_name (disk_pool (os_drive (vr_spec r))) \<in> pn_name ` set before"
      by (rule before, rule vm) (simp only: set_vm_pairs simp_thms)
    show "node_name (disk_pool d) \<in> pn_name ` set before" if "d \<in> set (data_drives (vr_spec r))" for d
      by (rule before, rule vm) (use that in \<open>unfold set_vm_pairs, blast\<close>)
    show "node_name (nic_network nic) \<in> pn_name ` set before" if "nic \<in> set (nics (vr_spec r))" for nic
      by (rule before, rule vm) (use that in \<open>unfold set_vm_pairs, blast\<close>)
    show "''sidecar:'' @ sw_name s \<in> pn_name ` set before"
      if "nic \<in> set (nics (vr_spec r))" "s \<in> set (declared_switches h)"
        "node_name (nic_network nic) = ''network:'' @ sw_name s \<and> needs_sidecar s" for nic s
      by (rule before, rule vm, rule sc) (use that in blast)+
    show "y \<in> pn_name ` set before" if "(''vm:'' @ vr_name r, y) \<in> set (explicit_edges h)" for y
      by (rule before, rule ex) fact
  qed
qed

definition is_Inr :: "'a result \<Rightarrow> bool" where
  "is_Inr m = (case m of Inl _ \<Rightarrow> False | Inr _ \<Rightarrow> True)"

lemma is_Inr_ex: "is_Inr m \<Longrightarrow> \<exists>x. m = Inr x"
  by (cases m) (simp_all add: is_Inr_def)

definition sample_plan :: "(unit, unit) plan" where
  "sample_plan = (case fst (Plan ''t'' sample_hypervisor) of Inr p \<Rightarrow> p | Inl _ \<Rightarrow> undefined)"

lemma sample_plan: "fst (Plan ''t'' sample_hypervisor) = Inr sample_plan"
proof -
  have "is_Inr (fst (Plan ''t'' sample_hypervisor))" by code_simp
  from is_Inr_ex [OF this] show ?thesis by (auto simp: sample_plan_def)
qed

theorem vm_after_its_infrastructure_witness:
  "\<exists>before. topological_order (p_graph sample_plan) = before @ [VMNode (sample_vm ''192.168.10.100'') 0] \<and>
     ''sidecar:lan'' \<in> pn_name ` set before"
proof -
  let ?r = "sample_vm ''192.168.10.100''" and ?t = "topological_order (p_graph sample_plan)"
  have e: "last ?t = VMNode ?r 0" "?t \<noteq> []" by code_simp+
  then have t: "?t = butlast ?t @ VMNode ?r 0 # []" by (metis append_butlast_last_id)
  have r: "?r \<in> set (declared_vms sample_hypervisor)" by code_simp
  have s: "sample_switch \<in> set (declared_switches sample_hypervisor)" "needs_sidecar sample_switch" by code_simp+
  have n: "NetworkIface (NetworkHandle ''a'' ''lan'') (Some (StaticAddr \<lparr>addr = ''192.168.10.100'', gw = None, dns = []\<rparr>))
      \<in> set (nics (vr_spec ?r))" by code_simp
  have "node_name (NetworkHandle ''a'' ''lan'') = ''network:'' @ sw_name sample_switch" by code_simp
  with vm_after_its_infrastructure [OF sample_hypervisor_reachable sample_plan r t] s n
  have "''sidecar:'' @ sw_name sample_switch \<in> pn_name ` set (butlast ?t)" by (metis nic_network.simps(1))
  with t show ?thesis by (auto simp: sample_switch_def)
qed

end
