(* ===== verification/Effects.thy ===== *)
theory Effects
  imports Prelude
begin

text \<open>
  Stateful code that may raise: an effect maps the world to a result and the world after it.
  Sequencing stops at the first exception; the handlers model \<^verbatim>\<open>except Exception\<close>,
  \<^verbatim>\<open>except C\<close>, \<^verbatim>\<open>finally\<close> and the bodies of \<^verbatim>\<open>for\<close> loops. The relations
  \<open>keeps\<close> and \<open>steps\<close> say what an effect does to the world however it ends, which is what
  crash-safety arguments need.
\<close>

type_synonym ('w, 'a) eff = "'w \<Rightarrow> 'a result \<times> 'w"

named_theorems eff_intros \<open>composition rules for effects\<close>

definition ret :: "'a \<Rightarrow> ('w, 'a) eff" where
  "ret x w = (Inr x, w)"

definition throw :: "exn \<Rightarrow> ('w, 'a) eff" where
  "throw e w = (Inl e, w)"

definition bindE :: "('w, 'a) eff \<Rightarrow> ('a \<Rightarrow> ('w, 'b) eff) \<Rightarrow> ('w, 'b) eff" where
  "bindE m f w = (case m w of (Inl e, w') \<Rightarrow> (Inl e, w') | (Inr x, w') \<Rightarrow> f x w')"

definition seqE :: "('w, 'a) eff \<Rightarrow> ('w, 'b) eff \<Rightarrow> ('w, 'b) eff" where
  "seqE m n = bindE m (\<lambda>_. n)"

definition getE :: "('w \<Rightarrow> 'a) \<Rightarrow> ('w, 'a) eff" where
  "getE f w = (Inr (f w), w)"

definition modE :: "('w \<Rightarrow> 'w) \<Rightarrow> ('w, unit) eff" where
  "modE f w = (Inr (), f w)"

definition liftR :: "'a result \<Rightarrow> ('w, 'a) eff" where
  "liftR r w = (r, w)"

definition handle_if :: "(exn \<Rightarrow> bool) \<Rightarrow> ('w, 'a) eff \<Rightarrow> (exn \<Rightarrow> ('w, 'a) eff) \<Rightarrow> ('w, 'a) eff" where
  "handle_if P m h w = (case m w of (Inl e, w') \<Rightarrow> if P e then h e w' else (Inl e, w') | r \<Rightarrow> r)"

text \<open>\<^verbatim>\<open>try: m except Exception as e: h\<close>.\<close>

definition catchE :: "('w, 'a) eff \<Rightarrow> (exn \<Rightarrow> ('w, 'a) eff) \<Rightarrow> ('w, 'a) eff" where
  "catchE m h = handle_if is_Exception m h"

definition finallyE :: "('w, 'a) eff \<Rightarrow> ('w, unit) eff \<Rightarrow> ('w, 'a) eff" where
  "finallyE m fin w =
     (case m w of (r, w') \<Rightarrow> (case fin w' of (Inl e, w'') \<Rightarrow> (Inl e, w'') | (Inr _, w'') \<Rightarrow> (r, w'')))"

fun forE :: "('a \<Rightarrow> ('w, 's) eff) \<Rightarrow> 'a list \<Rightarrow> ('w, 's list) eff" where
  "forE f [] = ret []"
| "forE f (x # xs) = bindE (f x) (\<lambda>y. bindE (forE f xs) (\<lambda>ys. ret (y # ys)))"

text \<open>A loop with an accumulator.\<close>

fun foldE :: "('a \<Rightarrow> 's \<Rightarrow> ('w, 's) eff) \<Rightarrow> 'a list \<Rightarrow> 's \<Rightarrow> ('w, 's) eff" where
  "foldE f [] s = ret s"
| "foldE f (x # xs) s = bindE (f x s) (foldE f xs)"

subsection \<open>Relational reasoning\<close>

text \<open>\<open>steps R m\<close>: running \<open>m\<close> relates the world before and after by \<open>R\<close>, however
  it ends; \<open>keeps P m\<close> is the special case of an invariant.\<close>

definition steps :: "('w \<Rightarrow> 'w \<Rightarrow> bool) \<Rightarrow> ('w, 'a) eff \<Rightarrow> bool" where
  "steps R m \<longleftrightarrow> (\<forall>w. R w (snd (m w)))"

definition keeps :: "('w \<Rightarrow> bool) \<Rightarrow> ('w, 'a) eff \<Rightarrow> bool" where
  "keeps P m \<longleftrightarrow> (\<forall>w. P w \<longrightarrow> P (snd (m w)))"

lemma keepsD: "keeps P m \<Longrightarrow> P w \<Longrightarrow> P (snd (m w))"
  by (simp add: keeps_def)

lemma keepsD2: "keeps P m \<Longrightarrow> P w \<Longrightarrow> m w = (r, w') \<Longrightarrow> P w'"
  using keepsD by fastforce

lemma keeps_ret [eff_intros]: "keeps P (ret x)" and keeps_throw [eff_intros]: "keeps P (throw e)"
  and keeps_getE [eff_intros]: "keeps P (getE f)" and keeps_liftR [eff_intros]: "keeps P (liftR r)"
  by (simp_all add: keeps_def ret_def throw_def getE_def liftR_def)

lemma keeps_bindE [eff_intros]: "keeps P m \<Longrightarrow> (\<And>x. keeps P (f x)) \<Longrightarrow> keeps P (bindE m f)"
  unfolding keeps_def bindE_def by (auto split: prod.split sum.split)

lemma keeps_seqE [eff_intros]: "keeps P m \<Longrightarrow> keeps P n \<Longrightarrow> keeps P (seqE m n)"
  unfolding seqE_def by (intro keeps_bindE)

lemma keeps_handle_if [eff_intros]: "keeps P m \<Longrightarrow> (\<And>e. keeps P (h e)) \<Longrightarrow> keeps P (handle_if Q m h)"
  unfolding keeps_def handle_if_def by (auto split: prod.split sum.split)

lemma keeps_catchE [eff_intros]: "keeps P m \<Longrightarrow> (\<And>e. keeps P (h e)) \<Longrightarrow> keeps P (catchE m h)"
  unfolding catchE_def by (rule keeps_handle_if)

lemma keeps_finallyE [eff_intros]: "keeps P m \<Longrightarrow> keeps P fin \<Longrightarrow> keeps P (finallyE m fin)"
  unfolding keeps_def finallyE_def by (auto split: prod.split sum.split)

lemma keeps_forE [eff_intros]: "(\<And>x. x \<in> set xs \<Longrightarrow> keeps P (f x)) \<Longrightarrow> keeps P (forE f xs)"
  by (induction xs) (auto intro!: eff_intros)

lemma keeps_foldE [eff_intros]: "(\<And>x s. x \<in> set xs \<Longrightarrow> keeps P (f x s)) \<Longrightarrow> keeps P (foldE f xs s)"
  by (induction xs arbitrary: s) (auto intro!: eff_intros)

lemma keeps_if [eff_intros]: "(b \<Longrightarrow> keeps P m) \<Longrightarrow> (\<not> b \<Longrightarrow> keeps P n) \<Longrightarrow> keeps P (if b then m else n)"
  by simp

lemma keeps_option [eff_intros]:
  "(x = None \<Longrightarrow> keeps P m) \<Longrightarrow> (\<And>y. x = Some y \<Longrightarrow> keeps P (f y)) \<Longrightarrow> keeps P (case x of None \<Rightarrow> m | Some y \<Rightarrow> f y)"
  by (cases x) simp_all

subsection \<open>Total correctness\<close>

text \<open>\<open>succeeds P m Q\<close>: from a world where \<open>P\<close> holds, \<open>m\<close> returns a value without raising, and \<open>Q\<close>
  holds of the value and the world after it.\<close>

definition succeeds :: "('w \<Rightarrow> bool) \<Rightarrow> ('w, 'a) eff \<Rightarrow> ('a \<Rightarrow> 'w \<Rightarrow> bool) \<Rightarrow> bool" where
  "succeeds P m Q \<longleftrightarrow> (\<forall>w. P w \<longrightarrow> (\<exists>x w'. m w = (Inr x, w') \<and> Q x w'))"

lemma succeedsD: "succeeds P m Q \<Longrightarrow> P w \<Longrightarrow> \<exists>x w'. m w = (Inr x, w') \<and> Q x w'"
  by (simp add: succeeds_def)

lemma succeeds_ret: "(\<And>w. P w \<Longrightarrow> Q x w) \<Longrightarrow> succeeds P (ret x) Q"
  by (simp add: succeeds_def ret_def)

lemma succeeds_bindE: "succeeds P m R \<Longrightarrow> (\<And>x. succeeds (R x) (f x) Q) \<Longrightarrow> succeeds P (bindE m f) Q"
  unfolding succeeds_def bindE_def by (fastforce split: prod.split sum.split)

lemma succeeds_seqE: "succeeds P m (\<lambda>_. R) \<Longrightarrow> succeeds R n Q \<Longrightarrow> succeeds P (seqE m n) Q"
  unfolding seqE_def by (rule succeeds_bindE)

lemma succeeds_forE:
  assumes "\<And>x ys. succeeds (P ys) (f x) (\<lambda>_. P (ys @ [x]))"
  shows "succeeds (P ys) (forE f xs) (\<lambda>_. P (ys @ xs))"
proof (induction xs arbitrary: ys)
  case (Cons x xs)
  have "succeeds (P (ys @ [x])) (bindE (forE f xs) (\<lambda>zs. ret (y # zs))) (\<lambda>_. P (ys @ x # xs))" for y
    by (rule succeeds_bindE [OF Cons.IH]) (simp add: succeeds_ret)
  with assms [of ys x] show ?case by (auto intro: succeeds_bindE)
qed (simp add: succeeds_ret)

lemma succeeds_forE_length:
  assumes "\<And>x. x \<in> set xs \<Longrightarrow> succeeds P (f x) (\<lambda>_. P)"
  shows "succeeds P (forE f xs) (\<lambda>ys w. length ys = length xs \<and> P w)"
  using assms
proof (induction xs)
  case (Cons x xs)
  have "succeeds P (bindE (forE f xs) (\<lambda>zs. ret (y # zs))) (\<lambda>ys w. length ys = length (x # xs) \<and> P w)" for y
    by (rule succeeds_bindE [OF Cons.IH]) (use Cons.prems in \<open>auto intro: succeeds_ret\<close>)
  moreover have "succeeds P (f x) (\<lambda>_. P)" using Cons.prems by simp
  ultimately show ?case by (auto intro: succeeds_bindE)
qed (simp add: succeeds_ret)

lemma succeeds_foldE:
  assumes "\<And>x s ds. x \<in> set xs \<Longrightarrow> succeeds (P ds s) (f x s) (P (ds @ [x]))"
  shows "succeeds (P ds s) (foldE f xs s) (P (ds @ xs))"
  using assms
proof (induction xs arbitrary: ds s)
  case (Cons x xs)
  have "succeeds (P (ds @ [x]) s') (foldE f xs s') (P ((ds @ [x]) @ xs))" for s'
    by (rule Cons.IH) (use Cons.prems in simp)
  moreover have "succeeds (P ds s) (f x s) (P (ds @ [x]))" using Cons.prems by simp
  ultimately show ?case by (auto intro: succeeds_bindE)
qed (simp add: succeeds_ret)

lemma succeeds_liftR: "r = Inr x \<Longrightarrow> (\<And>w. P w \<Longrightarrow> Q x w) \<Longrightarrow> succeeds P (liftR r) Q"
  by (simp add: succeeds_def liftR_def)

lemma succeeds_assume: "(\<And>w. P w \<Longrightarrow> a) \<Longrightarrow> (a \<Longrightarrow> succeeds P m Q) \<Longrightarrow> succeeds P m Q"
  unfolding succeeds_def by blast

lemma succeeds_weaken: "succeeds P m Q \<Longrightarrow> (\<And>w. P' w \<Longrightarrow> P w) \<Longrightarrow> (\<And>x w. Q x w \<Longrightarrow> Q' x w) \<Longrightarrow> succeeds P' m Q'"
  unfolding succeeds_def by meson

subsection \<open>Sequencing\<close>

lemma bindE_Inr: "m w = (Inr x, w') \<Longrightarrow> bindE m f w = f x w'"
  by (simp add: bindE_def)

lemma bindE_Inl: "m w = (Inl e, w') \<Longrightarrow> bindE m f w = (Inl e, w')"
  by (simp add: bindE_def)

lemma bindE_ret [simp]: "bindE (ret x) f = f x" "bindE (throw e) f = throw e"
  by (simp_all add: bindE_def ret_def throw_def fun_eq_iff)

end
