(* ===== verification/State_Schema.thy ===== *)
theory State_Schema
  imports Prelude Strings
begin

text \<open>
  The on-disk schema of a run (\<^verbatim>\<open>state/schema.py\<close>): resources, node records and the state
  envelope, with their JSON form. The JSON text itself is the standard library's business; a
  JSON document is a value of \<open>json\<close>, with object members in insertion order. A member of
  the wrong JSON type, which \<^verbatim>\<open>from_json\<close> would store unchecked, is outside the typed
  records and is reported as a \<^verbatim>\<open>TypeError\<close>.
\<close>

subsection \<open>JSON values\<close>

datatype json = JNull | JBool bool | JInt int | JStr string | JList "json list" | JObj "(string \<times> json) list"

definition opt_str :: "string option \<Rightarrow> json" where
  "opt_str x = (case x of None \<Rightarrow> JNull | Some s \<Rightarrow> JStr s)"

definition as_str :: "json \<Rightarrow> string result" where
  "as_str j = (case j of JStr s \<Rightarrow> Inr s | _ \<Rightarrow> Inl (TypeError []))"

definition as_opt_str :: "json \<Rightarrow> string option result" where
  "as_opt_str j = (case j of JNull \<Rightarrow> Inr None | JStr s \<Rightarrow> Inr (Some s) | _ \<Rightarrow> Inl (TypeError []))"

definition as_obj :: "json \<Rightarrow> (string \<times> json) list result" where
  "as_obj j = (case j of JObj m \<Rightarrow> Inr m | _ \<Rightarrow> Inl (TypeError []))"

definition as_list :: "json \<Rightarrow> json list result" where
  "as_list j = (case j of JList xs \<Rightarrow> Inr xs | _ \<Rightarrow> Inl (TypeError []))"

text \<open>\<^verbatim>\<open>data[key]\<close> and \<^verbatim>\<open>data.get(key, default)\<close>.\<close>

definition item :: "(string \<times> json) list \<Rightarrow> string \<Rightarrow> json result" where
  "item m k = (case map_of m k of None \<Rightarrow> Inl (KeyError [k]) | Some v \<Rightarrow> Inr v)"

definition get :: "(string \<times> json) list \<Rightarrow> string \<Rightarrow> json \<Rightarrow> json" where
  "get m k d = (case map_of m k of None \<Rightarrow> d | Some v \<Rightarrow> v)"

fun map_result :: "('a \<Rightarrow> 'b result) \<Rightarrow> 'a list \<Rightarrow> 'b list result" where
  "map_result f [] = Inr []"
| "map_result f (x # xs) = bindR (f x) (\<lambda>y. bindR (map_result f xs) (\<lambda>ys. Inr (y # ys)))"

subsection \<open>Resources\<close>

record resource =
  r_kind :: string
  r_backend_name :: name
  r_plan_name :: "name option"
  intent_at :: string
  outcome_at :: "string option"
  metadata :: "(string, json) dict"

definition with_outcome :: "string \<Rightarrow> (string, json) dict \<Rightarrow> resource \<Rightarrow> resource" where
  "with_outcome t extra r =
     r\<lparr>outcome_at := Some t, metadata := fold (\<lambda>(k, v). AList.update k v) extra (metadata r)\<rparr>"

definition resource_to_json :: "resource \<Rightarrow> json" where
  "resource_to_json r = JObj
     [(''kind'', JStr (r_kind r)), (''backend_name'', JStr (r_backend_name r)),
      (''plan_name'', opt_str (r_plan_name r)), (''intent_at'', JStr (intent_at r)),
      (''outcome_at'', opt_str (outcome_at r)), (''metadata'', JObj (metadata r))]"

text \<open>\<^verbatim>\<open>dict(data.get("metadata") or {})\<close>: a missing or null value is empty.\<close>

definition metadata_of :: "json \<Rightarrow> (string, json) dict result" where
  "metadata_of j = (case j of JNull \<Rightarrow> Inr [] | _ \<Rightarrow> as_obj j)"

definition resource_from_json :: "json \<Rightarrow> resource result" where
  "resource_from_json j =
     bindR (as_obj j) (\<lambda>m.
     bindR (bindR (item m ''kind'') as_str) (\<lambda>k.
     bindR (bindR (item m ''backend_name'') as_str) (\<lambda>b.
     bindR (as_opt_str (get m ''plan_name'' JNull)) (\<lambda>p.
     bindR (bindR (item m ''intent_at'') as_str) (\<lambda>i.
     bindR (as_opt_str (get m ''outcome_at'' JNull)) (\<lambda>out.
     bindR (metadata_of (get m ''metadata'' JNull)) (\<lambda>md.
     Inr \<lparr>r_kind = k, r_backend_name = b, r_plan_name = p, intent_at = i, outcome_at = out, metadata = md\<rparr>)))))))"

subsection \<open>Node records\<close>

record node_record =
  nr_name :: name
  materialized_at :: "string option"
  realized_at :: "string option"

definition node_record_to_json :: "node_record \<Rightarrow> json" where
  "node_record_to_json n = JObj
     [(''name'', JStr (nr_name n)), (''materialized_at'', opt_str (materialized_at n)),
      (''realized_at'', opt_str (realized_at n))]"

definition node_record_from_json :: "json \<Rightarrow> node_record result" where
  "node_record_from_json j =
     bindR (as_obj j) (\<lambda>m.
     bindR (bindR (item m ''name'') as_str) (\<lambda>n.
     bindR (as_opt_str (get m ''materialized_at'' JNull)) (\<lambda>ma.
     bindR (as_opt_str (get m ''realized_at'' JNull)) (\<lambda>re.
     Inr \<lparr>nr_name = n, materialized_at = ma, realized_at = re\<rparr>))))"

subsection \<open>The state envelope\<close>

definition SCHEMA_VERSION :: int where
  "SCHEMA_VERSION = 1"

record state =
  schema_version :: int
  s_run_id :: name
  s_plan_name :: name
  driver_class :: string
  driver_uri :: string
  phase :: string
  created_at :: string
  resources :: "resource list"
  nodes :: "node_record list"

definition with_resource :: "resource \<Rightarrow> state \<Rightarrow> state" where
  "with_resource r s = s\<lparr>resources := resources s @ [r]\<rparr>"

definition replace_resource :: "name \<Rightarrow> resource \<Rightarrow> state \<Rightarrow> state result" where
  "replace_resource b new s =
     (if list_ex (\<lambda>r. r_backend_name r = b) (resources s)
      then Inr (s\<lparr>resources := map (\<lambda>r. if r_backend_name r = b then new else r) (resources s)\<rparr>)
      else Inl (StateError [b]))"

definition remove_resource :: "name \<Rightarrow> state \<Rightarrow> state" where
  "remove_resource b s = s\<lparr>resources := filter (\<lambda>r. r_backend_name r \<noteq> b) (resources s)\<rparr>"

definition with_node_record :: "node_record \<Rightarrow> state \<Rightarrow> state" where
  "with_node_record n s = s\<lparr>nodes := filter (\<lambda>m. nr_name m \<noteq> nr_name n) (nodes s) @ [n]\<rparr>"

definition find_node_record :: "name \<Rightarrow> state \<Rightarrow> node_record option" where
  "find_node_record n s = List.find (\<lambda>m. nr_name m = n) (nodes s)"

definition state_to_json :: "state \<Rightarrow> json" where
  "state_to_json s = JObj
     [(''schema_version'', JInt (schema_version s)), (''run_id'', JStr (s_run_id s)),
      (''plan_name'', JStr (s_plan_name s)), (''driver_class'', JStr (driver_class s)),
      (''driver_uri'', JStr (driver_uri s)), (''phase'', JStr (phase s)),
      (''created_at'', JStr (created_at s)),
      (''resources'', JList (map resource_to_json (resources s))),
      (''nodes'', JList (map node_record_to_json (nodes s)))]"

text \<open>\<^verbatim>\<open>int(value)\<close> on the JSON types that have one.\<close>

definition as_int :: "json \<Rightarrow> int result" where
  "as_int j =
     (case j of
        JInt i \<Rightarrow> Inr i
      | JBool b \<Rightarrow> Inr (if b then 1 else 0)
      | JStr s \<Rightarrow> (if s \<noteq> [] \<and> list_all is_digit s then Inr (int (nat_of_digits s)) else Inl (ValueError [s]))
      | _ \<Rightarrow> Inl (TypeError []))"

definition state_from_json :: "json \<Rightarrow> state result" where
  "state_from_json j =
     bindR (as_obj j) (\<lambda>m.
     bindR (as_int (get m ''schema_version'' (JInt 0))) (\<lambda>v.
     bindR (guardR (v = SCHEMA_VERSION) (StateError [string_of_int v, string_of_int SCHEMA_VERSION])) (\<lambda>_.
     bindR (as_str (get m ''run_id'' (JStr []))) (\<lambda>rid.
     bindR (as_str (get m ''plan_name'' (JStr []))) (\<lambda>pn.
     bindR (as_str (get m ''driver_class'' (JStr []))) (\<lambda>dc.
     bindR (as_str (get m ''driver_uri'' (JStr []))) (\<lambda>du.
     bindR (as_str (get m ''phase'' (JStr ''preflight''))) (\<lambda>ph.
     bindR (as_str (get m ''created_at'' (JStr []))) (\<lambda>ca.
     bindR (bindR (as_list (get m ''resources'' (JList []))) (map_result resource_from_json)) (\<lambda>rs.
     bindR (bindR (as_list (get m ''nodes'' (JList []))) (map_result node_record_from_json)) (\<lambda>ns.
     Inr \<lparr>schema_version = v, s_run_id = rid, s_plan_name = pn, driver_class = dc, driver_uri = du,
          phase = ph, created_at = ca, resources = rs, nodes = ns\<rparr>)))))))))))"

definition backend_names :: "state \<Rightarrow> name list" where
  "backend_names s = map r_backend_name (resources s)"

subsection \<open>Lemmas\<close>

lemma as_opt_str_opt_str [simp]: "as_opt_str (opt_str x) = Inr x"
  by (cases x) (simp_all add: opt_str_def as_opt_str_def)

lemma as_str_JStr [simp]: "as_str (JStr s) = Inr s"
  by (simp add: as_str_def)

lemma map_result_inverse: "\<forall>x \<in> set xs. f (g x) = Inr x \<Longrightarrow> map_result f (map g xs) = Inr xs"
  by (induction xs) auto

lemma resource_roundtrip [simp]: "resource_from_json (resource_to_json r) = Inr r"
  by (simp add: resource_from_json_def resource_to_json_def as_obj_def item_def get_def metadata_of_def)

lemma node_record_roundtrip [simp]: "node_record_from_json (node_record_to_json n) = Inr n"
  by (simp add: node_record_from_json_def node_record_to_json_def as_obj_def item_def get_def)

lemma state_roundtrip: "schema_version s = SCHEMA_VERSION \<Longrightarrow> state_from_json (state_to_json s) = Inr s"
  by (simp add: state_from_json_def state_to_json_def as_obj_def get_def as_int_def as_list_def map_result_inverse)

lemma backend_names_with_resource [simp]: "backend_names (with_resource r s) = backend_names s @ [r_backend_name r]"
  by (simp add: backend_names_def with_resource_def)

lemma backend_names_remove [simp]: "backend_names (remove_resource b s) = filter (\<lambda>n. n \<noteq> b) (backend_names s)"
  by (simp add: backend_names_def remove_resource_def filter_map comp_def)

lemma backend_names_replace:
  "replace_resource b new s = Inr s' \<Longrightarrow> r_backend_name new = b \<Longrightarrow> backend_names s' = backend_names s"
  by (auto simp: replace_resource_def backend_names_def split: if_splits)

lemma backend_names_with_node_record [simp]: "backend_names (with_node_record n s) = backend_names s"
  by (simp add: backend_names_def with_node_record_def)

lemma schema_version_ops [simp]:
  "schema_version (with_resource r s) = schema_version s" "schema_version (remove_resource b s) = schema_version s"
  "schema_version (with_node_record n s) = schema_version s"
  by (simp_all add: with_resource_def remove_resource_def with_node_record_def)

lemma with_outcome_name [simp]: "r_backend_name (with_outcome t x r) = r_backend_name r"
  by (simp add: with_outcome_def)

lemma find_node_record_with:
  "find_node_record n (with_node_record m s) = (if nr_name m = n then Some m else find_node_record n s)"
proof -
  have "List.find P (filter Q xs @ [m]) = (if P m then Some m else List.find P xs)"
    if "\<And>x. P x \<Longrightarrow> Q x \<longleftrightarrow> \<not> P m" "P m \<longrightarrow> (\<forall>x. P x \<longrightarrow> \<not> Q x)" for P Q :: "node_record \<Rightarrow> bool" and xs
    using that by (induction xs) auto
  from this [of "\<lambda>x. nr_name x = n" "\<lambda>x. nr_name x \<noteq> nr_name m" "nodes s"] show ?thesis
    by (auto simp: find_node_record_def with_node_record_def)
qed

subsection \<open>Properties\<close>

text \<open>C9: what is written is what is read back. Decoding the JSON form of any state of this schema
  version returns that state, resources, metadata and node records included, in order; a
  document of any other version is refused, whatever else it holds.\<close>

theorem state_json_roundtrip:
  "(schema_version s = SCHEMA_VERSION \<longrightarrow> state_from_json (state_to_json s) = Inr s) \<and>
   (schema_version s \<noteq> SCHEMA_VERSION \<longrightarrow>
      state_from_json (state_to_json s) = Inl (StateError [string_of_int (schema_version s), string_of_int SCHEMA_VERSION]))"
  using state_roundtrip [of s]
  by (simp add: state_from_json_def state_to_json_def as_obj_def get_def as_int_def)

theorem state_json_roundtrip_witness:
  "state_from_json (state_to_json \<lparr>schema_version = 1, s_run_id = ''r'', s_plan_name = ''p'', driver_class = ''d'',
     driver_uri = ''u'', phase = ''run'', created_at = ''t'', resources = [], nodes = []\<rparr>) =
   Inr \<lparr>schema_version = 1, s_run_id = ''r'', s_plan_name = ''p'', driver_class = ''d'',
     driver_uri = ''u'', phase = ''run'', created_at = ''t'', resources = [], nodes = []\<rparr>"
  using state_json_roundtrip [of "\<lparr>schema_version = 1, s_run_id = ''r'', s_plan_name = ''p'', driver_class = ''d'',
     driver_uri = ''u'', phase = ''run'', created_at = ''t'', resources = [], nodes = []\<rparr>"]
  by (simp add: SCHEMA_VERSION_def)

end
