(* ===== verification/State_Store.thy ===== *)
theory State_Store
  imports Effects State_Schema
begin

text \<open>
  The crash-safe store of one run (\<^verbatim>\<open>state/store.py\<close>) over an explicit world: the run
  directories with their files, the holder of each advisory lock, and the resources that exist on the
  backend. What the environment decides (a failing write, the clock, how the backend answers a
  call and whether the call took effect although it raised) is the argument \<open>env\<close>, a
  function of the number of interactions so far, so a theorem about every \<open>env\<close> covers every failure
  at every point. \<open>calls\<close> lists the driver calls made, the latest first, and \<open>history\<close> records, after each write and each driver call, what exists on the
  backend and what the ledger on disk names: the states a crash can leave behind.
\<close>

subsection \<open>The world\<close>

datatype doc = Corrupt | Doc json

record run_dir =
  rd_exists :: bool
  rd_state :: "doc option"
  rd_pid :: "nat option"
  rd_lock :: bool
  rd_tmp :: bool
  rd_foreign :: bool

datatype call =
    Create string name
  | Destroy string name "(string, json) dict"
  | Connect string string
  | Disconnect
  | StartVM name
  | Touch string name

record world =
  runs :: "name \<Rightarrow> run_dir"
  lock_holder :: "name \<Rightarrow> nat option"
  tick :: nat
  backend :: "name list"
  calls :: "call list"
  history :: "(name list \<times> name list) list"

record env =
  write_fault :: "nat \<Rightarrow> exn option"
  read_fault :: "nat \<Rightarrow> exn option"
  clock :: "nat \<Rightarrow> string"
  reply :: "nat \<Rightarrow> call \<Rightarrow> (exn + string option) \<times> bool"
  getpid :: nat

definition empty_dir :: run_dir where
  "empty_dir = \<lparr>rd_exists = False, rd_state = None, rd_pid = None, rd_lock = False, rd_tmp = False, rd_foreign = False\<rparr>"

definition ledger_of :: "doc option \<Rightarrow> name list" where
  "ledger_of d =
     (case d of Some (Doc j) \<Rightarrow> (case state_from_json j of Inr s \<Rightarrow> backend_names s | Inl _ \<Rightarrow> []) | _ \<Rightarrow> [])"

definition recorded :: "name \<Rightarrow> world \<Rightarrow> name list" where
  "recorded rid w = ledger_of (rd_state (runs w rid))"

definition upd_dir :: "name \<Rightarrow> (run_dir \<Rightarrow> run_dir) \<Rightarrow> world \<Rightarrow> world" where
  "upd_dir rid f w = w\<lparr>runs := (runs w)(rid := f (runs w rid))\<rparr>"

definition snapshot :: "name \<Rightarrow> world \<Rightarrow> world" where
  "snapshot rid w = w\<lparr>history := (backend w, recorded rid w) # history w\<rparr>"

definition tock :: "(world, nat) eff" where
  "tock w = (Inr (tick w), w\<lparr>tick := Suc (tick w)\<rparr>)"

subsection \<open>Files\<close>

text \<open>\<^verbatim>\<open>_write_state_atomic\<close>: a temporary file and a rename, so a fault leaves the old document
  (and perhaps the temporary file).\<close>

definition write_state_atomic :: "env \<Rightarrow> name \<Rightarrow> state \<Rightarrow> (world, unit) eff" where
  "write_state_atomic E rid s =
     bindE tock (\<lambda>t.
     case write_fault E t of
       Some e \<Rightarrow> seqE (modE (upd_dir rid (\<lambda>d. d\<lparr>rd_tmp := True\<rparr>))) (throw e)
     | None \<Rightarrow> modE (\<lambda>w. snapshot rid (upd_dir rid (\<lambda>d. d\<lparr>rd_state := Some (Doc (state_to_json s)), rd_tmp := False\<rparr>) w)))"

definition write_pid_atomic :: "env \<Rightarrow> name \<Rightarrow> (world, unit) eff" where
  "write_pid_atomic E rid =
     bindE tock (\<lambda>t.
     case write_fault E t of
       Some e \<Rightarrow> seqE (modE (upd_dir rid (\<lambda>d. d\<lparr>rd_tmp := True\<rparr>))) (throw e)
     | None \<Rightarrow> modE (upd_dir rid (\<lambda>d. d\<lparr>rd_pid := Some (getpid E)\<rparr>)))"

definition exists_state :: "name \<Rightarrow> (world, bool) eff" where
  "exists_state rid = getE (\<lambda>w. rd_state (runs w rid) \<noteq> None)"

definition read_state :: "env \<Rightarrow> name \<Rightarrow> (world, state) eff" where
  "read_state E rid =
     bindE (getE (\<lambda>w. rd_state (runs w rid))) (\<lambda>d.
     bindE tock (\<lambda>t.
     case d of
       None \<Rightarrow> throw (StateError [rid])
     | Some c \<Rightarrow>
         (case read_fault E t of
            Some e \<Rightarrow> throw e
          | None \<Rightarrow> (case c of Corrupt \<Rightarrow> throw (StateError [rid]) | Doc j \<Rightarrow> liftR (state_from_json j)))))"

subsection \<open>Ownership\<close>

text \<open>A store instance is identified by a number; it holds the lock when \<^verbatim>\<open>_lock_fd\<close> is
  set.\<close>

definition acquire_lock :: "name \<Rightarrow> nat \<Rightarrow> (world, unit) eff" where
  "acquire_lock rid me =
     bindE (getE (\<lambda>w. lock_holder w rid)) (\<lambda>h.
     if h = Some me then ret ()
     else seqE (modE (upd_dir rid (\<lambda>d. d\<lparr>rd_lock := True\<rparr>)))
       (if h \<noteq> None then throw (StateLockedError [rid])
        else modE (\<lambda>w. w\<lparr>lock_holder := (lock_holder w)(rid := Some me)\<rparr>)))"

definition release_lock :: "name \<Rightarrow> nat \<Rightarrow> (world, unit) eff" where
  "release_lock rid me =
     modE (\<lambda>w. if lock_holder w rid = Some me then w\<lparr>lock_holder := (lock_holder w)(rid := None)\<rparr> else w)"

definition is_running :: "name \<Rightarrow> (world, bool) eff" where
  "is_running rid =
     seqE (modE (upd_dir rid (\<lambda>d. d\<lparr>rd_lock := True\<rparr>))) (getE (\<lambda>w. lock_holder w rid \<noteq> None))"

definition require_dead :: "name \<Rightarrow> (world, unit) eff" where
  "require_dead rid = bindE (is_running rid) (\<lambda>b. if b then throw (StateLockedError [rid]) else ret ())"

definition fresh_state :: "name \<Rightarrow> name \<Rightarrow> string \<Rightarrow> string \<Rightarrow> string \<Rightarrow> state" where
  "fresh_state rid plan cls uri t =
     \<lparr>schema_version = SCHEMA_VERSION, s_run_id = rid, s_plan_name = plan, driver_class = cls, driver_uri = uri,
      phase = ''preflight'', created_at = t, resources = [], nodes = []\<rparr>"

definition initialize :: "env \<Rightarrow> name \<Rightarrow> nat \<Rightarrow> name \<Rightarrow> string \<Rightarrow> string \<Rightarrow> (world, state) eff" where
  "initialize E rid me plan cls uri =
     seqE (modE (upd_dir rid (\<lambda>d. d\<lparr>rd_exists := True\<rparr>)))
     (bindE (exists_state rid) (\<lambda>ex.
      if ex then throw (StateError [rid])
      else bindE tock (\<lambda>t.
        let s = fresh_state rid plan cls uri (clock E t) in
        seqE (acquire_lock rid me) (seqE (write_pid_atomic E rid) (seqE (write_state_atomic E rid s) (ret s))))))"

definition reopen :: "env \<Rightarrow> name \<Rightarrow> nat \<Rightarrow> (world, state) eff" where
  "reopen E rid me =
     bindE (exists_state rid) (\<lambda>ex.
     if \<not> ex then throw (StateError [rid])
     else seqE (require_dead rid) (seqE (acquire_lock rid me) (seqE (write_pid_atomic E rid) (read_state E rid))))"

definition release :: "name \<Rightarrow> nat \<Rightarrow> (world, unit) eff" where
  "release rid me = seqE (release_lock rid me) (modE (upd_dir rid (\<lambda>d. d\<lparr>rd_pid := None\<rparr>)))"

definition remove :: "name \<Rightarrow> nat \<Rightarrow> (world, unit) eff" where
  "remove rid me =
     seqE (release_lock rid me)
     (modE (\<lambda>w. snapshot rid (upd_dir rid (\<lambda>d.
        d\<lparr>rd_state := None, rd_pid := None, rd_lock := False, rd_tmp := False, rd_exists := rd_foreign d\<rparr>) w)))"

subsection \<open>The ledger\<close>

text \<open>Each mutation reads the document, changes it and writes it back under one lock.\<close>

definition modify :: "env \<Rightarrow> name \<Rightarrow> (state \<Rightarrow> state result) \<Rightarrow> (world, unit) eff" where
  "modify E rid f = bindE (read_state E rid) (\<lambda>s. bindE (liftR (f s)) (write_state_atomic E rid))"

definition record_intent :: "env \<Rightarrow> name \<Rightarrow> string \<Rightarrow> name \<Rightarrow> name option \<Rightarrow> (string, json) dict \<Rightarrow> (world, resource) eff" where
  "record_intent E rid kind bn pn md =
     bindE tock (\<lambda>t.
     let r = \<lparr>r_kind = kind, r_backend_name = bn, r_plan_name = pn, intent_at = clock E t, outcome_at = None, metadata = md\<rparr> in
     seqE (modify E rid (\<lambda>s. Inr (with_resource r s))) (ret r))"

definition confirm :: "env \<Rightarrow> name \<Rightarrow> name \<Rightarrow> (string, json) dict \<Rightarrow> (world, unit) eff" where
  "confirm E rid bn md =
     bindE tock (\<lambda>t.
     modify E rid (\<lambda>s.
       case List.find (\<lambda>r. r_backend_name r = bn) (resources s) of
         None \<Rightarrow> Inl (StateError [bn])
       | Some r \<Rightarrow> replace_resource bn (with_outcome (clock E t) md r) s))"

definition forget :: "env \<Rightarrow> name \<Rightarrow> name \<Rightarrow> (world, unit) eff" where
  "forget E rid bn = modify E rid (\<lambda>s. Inr (remove_resource bn s))"

definition set_phase :: "env \<Rightarrow> name \<Rightarrow> string \<Rightarrow> (world, unit) eff" where
  "set_phase E rid ph = modify E rid (\<lambda>s. Inr (s\<lparr>phase := ph\<rparr>))"

definition prior_record :: "name \<Rightarrow> state \<Rightarrow> node_record" where
  "prior_record n s = (case find_node_record n s of
     None \<Rightarrow> \<lparr>nr_name = n, materialized_at = None, realized_at = None\<rparr> | Some r \<Rightarrow> r)"

definition mark_node_materialized :: "env \<Rightarrow> name \<Rightarrow> name \<Rightarrow> (world, unit) eff" where
  "mark_node_materialized E rid n =
     bindE tock (\<lambda>t. modify E rid (\<lambda>s. Inr (with_node_record ((prior_record n s)\<lparr>materialized_at := Some (clock E t)\<rparr>) s)))"

definition mark_node_realized :: "env \<Rightarrow> name \<Rightarrow> name \<Rightarrow> (world, unit) eff" where
  "mark_node_realized E rid n =
     bindE tock (\<lambda>t. modify E rid (\<lambda>s. Inr (with_node_record ((prior_record n s)\<lparr>realized_at := Some (clock E t)\<rparr>) s)))"

subsection \<open>Driver calls\<close>

text \<open>A call that returns has taken effect; a call that raises may have. Creating makes the
  resource exist under its backend name, destroying makes it cease to.\<close>

definition effect :: "call \<Rightarrow> name list \<Rightarrow> name list" where
  "effect c b =
     (case c of
        Create _ n \<Rightarrow> List.insert n b
      | Destroy _ n _ \<Rightarrow> filter (\<lambda>m. m \<noteq> n) b
      | _ \<Rightarrow> b)"

definition drive :: "env \<Rightarrow> name \<Rightarrow> call \<Rightarrow> (world, string option) eff" where
  "drive E rid c =
     bindE tock (\<lambda>t.
     seqE (modE (\<lambda>w. w\<lparr>calls := c # calls w\<rparr>)) (
     case reply E t c of
       (Inl e, took) \<Rightarrow> seqE (modE (\<lambda>w. snapshot rid (if took then w\<lparr>backend := effect c (backend w)\<rparr> else w))) (throw e)
     | (Inr v, _) \<Rightarrow> seqE (modE (\<lambda>w. snapshot rid (w\<lparr>backend := effect c (backend w)\<rparr>))) (ret v)))"

end
