(* ===== verification/Ledger_Contract.thy ===== *)
theory Ledger_Contract
  imports State_Store
begin

text \<open>
  The contract between the run ledger and the code that creates and destroys backend
  resources. \<open>names\<close> is what the ledger on disk records, \<open>live\<close> what exists on the backend,
  \<open>crash\<close> the pairs of both observed so far. From the laws of the five operations follow the two
  composition rules every client uses: record, then create, keeps the ledger complete; destroy,
  then forget, keeps it complete.
\<close>

definition complete :: "('w \<Rightarrow> name set) \<Rightarrow> ('w \<Rightarrow> name set) \<Rightarrow> ('w \<Rightarrow> (name set \<times> name set) set) \<Rightarrow> 'w \<Rightarrow> bool" where
  "complete names live crash w \<longleftrightarrow> live w \<subseteq> names w \<and> (\<forall>(l, n) \<in> crash w. l \<subseteq> n)"

locale ledger =
  fixes names :: "'w \<Rightarrow> name set"
    and live :: "'w \<Rightarrow> name set"
    and crash :: "'w \<Rightarrow> (name set \<times> name set) set"
    and note_intent :: "'i \<Rightarrow> ('w, 'r) eff"
    and intent_name :: "'i \<Rightarrow> name"
    and amend :: "'c \<Rightarrow> ('w, unit) eff"
    and drop_name :: "name \<Rightarrow> ('w, unit) eff"
    and make :: "'m \<Rightarrow> ('w, 'v) eff"
    and make_name :: "'m \<Rightarrow> name"
    and unmake :: "'d \<Rightarrow> ('w, 'u) eff"
    and unmake_name :: "'d \<Rightarrow> name"
  assumes intent: "note_intent i w = (r, w') \<Longrightarrow>
      live w' = live w \<and> names w \<subseteq> names w' \<and> crash w' \<subseteq> insert (live w', names w') (crash w)"
    and intent_ok: "note_intent i w = (Inr x, w') \<Longrightarrow> intent_name i \<in> names w'"
    and amend: "amend c w = (s, w') \<Longrightarrow>
      live w' = live w \<and> names w' = names w \<and> crash w' \<subseteq> insert (live w', names w') (crash w)"
    and drop: "drop_name n w = (s, w') \<Longrightarrow>
      live w' = live w \<and> names w - {n} \<subseteq> names w' \<and> crash w' \<subseteq> insert (live w', names w') (crash w)"
    and make: "make m w = (v, w') \<Longrightarrow>
      names w' = names w \<and> live w' \<subseteq> insert (make_name m) (live w) \<and> crash w' \<subseteq> insert (live w', names w') (crash w)"
    and unmake: "unmake d w = (u, w') \<Longrightarrow>
      names w' = names w \<and> live w' \<subseteq> live w \<and> crash w' \<subseteq> insert (live w', names w') (crash w)"
    and unmake_ok: "unmake d w = (Inr y, w') \<Longrightarrow> unmake_name d \<notin> live w'"
begin

lemma complete_step:
  assumes "complete names live crash w" and "live w' \<subseteq> names w'"
    and "crash w' \<subseteq> insert (live w', names w') (crash w)"
  shows "complete names live crash w'"
  using assms unfolding complete_def by blast

lemma keeps_intent: "keeps (complete names live crash) (note_intent i)"
proof (unfold keeps_def, intro allI impI)
  fix w
  assume c: "complete names live crash w"
  obtain r w' where n: "note_intent i w = (r, w')" by (cases "note_intent i w")
  from intent [OF n] c show "complete names live crash (snd (note_intent i w))"
    unfolding n snd_conv by (intro complete_step [OF c]) (auto simp: complete_def)
qed

lemma keeps_amend: "keeps (complete names live crash) (amend c)"
proof (unfold keeps_def, intro allI impI)
  fix w
  assume c: "complete names live crash w"
  obtain r w' where n: "amend c w = (r, w')" by (cases "amend c w")
  from amend [OF n] c show "complete names live crash (snd (amend c w))"
    unfolding n snd_conv by (intro complete_step [OF c]) (auto simp: complete_def)
qed

lemma keeps_unmake: "keeps (complete names live crash) (unmake d)"
proof (unfold keeps_def, intro allI impI)
  fix w
  assume c: "complete names live crash w"
  obtain r w' where n: "unmake d w = (r, w')" by (cases "unmake d w")
  from unmake [OF n] c show "complete names live crash (snd (unmake d w))"
    unfolding n snd_conv by (intro complete_step [OF c]) (auto simp: complete_def)
qed

text \<open>Record before create.\<close>

lemma keeps_create:
  assumes "intent_name i = make_name m" and "\<And>v. keeps (complete names live crash) (rest v)"
  shows "keeps (complete names live crash) (seqE (note_intent i) (bindE (make m) rest))"
proof (unfold keeps_def, intro allI impI)
  fix w
  assume c: "complete names live crash w"
  obtain r w1 where n: "note_intent i w = (r, w1)" by (cases "note_intent i w")
  have c1: "complete names live crash w1" using keepsD2 [OF keeps_intent c n] .
  show "complete names live crash (snd (seqE (note_intent i) (bindE (make m) rest) w))"
  proof (cases r)
    case (Inl e)
    then show ?thesis using c1 by (simp add: seqE_def bindE_def n)
  next
    case (Inr x)
    obtain v w2 where m: "make m w1 = (v, w2)" by (cases "make m w1")
    have "make_name m \<in> names w1" using intent_ok n Inr assms(1) by metis
    then have c2: "complete names live crash w2"
      using make [OF m] c1 by (intro complete_step [OF c1]) (auto simp: complete_def)
    then show ?thesis
      using assms(2) by (cases v) (simp_all add: seqE_def bindE_def n Inr m keeps_def)
  qed
qed

text \<open>Destroy before forget.\<close>

lemma keeps_destroy:
  assumes "unmake_name d = n"
  shows "keeps (complete names live crash) (seqE (unmake d) (drop_name n))"
proof (unfold keeps_def, intro allI impI)
  fix w
  assume c: "complete names live crash w"
  obtain u w1 where d: "unmake d w = (u, w1)" by (cases "unmake d w")
  have c1: "complete names live crash w1" using keepsD2 [OF keeps_unmake c d] .
  show "complete names live crash (snd (seqE (unmake d) (drop_name n) w))"
  proof (cases u)
    case (Inl e)
    then show ?thesis using c1 by (simp add: seqE_def bindE_def d)
  next
    case (Inr x)
    obtain s w2 where f: "drop_name n w1 = (s, w2)" by (cases "drop_name n w1")
    have "n \<notin> live w1" using unmake_ok d Inr assms by metis
    then have "complete names live crash w2"
      using drop [OF f] c1 by (intro complete_step [OF c1]) (auto simp: complete_def)
    then show ?thesis by (simp add: seqE_def bindE_def d Inr f)
  qed
qed

end

subsection \<open>The store meets the contract\<close>

lemma read_state_world: "read_state E rid w = (q, w') \<Longrightarrow> w' = w\<lparr>tick := Suc (tick w)\<rparr>"
  by (auto simp: read_state_def bindE_def getE_def tock_def throw_def liftR_def split: option.splits doc.splits)

lemma read_state_Inr:
  assumes "read_state E rid w = (Inr s, w')"
  shows "recorded rid w = backend_names s" "schema_version s = SCHEMA_VERSION"
  using assms
  by (auto simp: read_state_def bindE_def getE_def tock_def throw_def liftR_def recorded_def ledger_of_def
      state_from_json_def result_simps split: option.splits doc.splits)

lemma recorded_upd_dir:
  "(\<And>d. rd_state (f d) = rd_state d) \<Longrightarrow> recorded rid (upd_dir rid' f w) = recorded rid w"
  by (simp add: recorded_def upd_dir_def)

lemma world_upd_dir [simp]: "backend (upd_dir rid f w) = backend w" "history (upd_dir rid f w) = history w"
  "calls (upd_dir rid f w) = calls w" "tick (upd_dir rid f w) = tick w" "lock_holder (upd_dir rid f w) = lock_holder w"
  by (simp_all add: upd_dir_def)

lemma view_tick [simp]:
  "recorded rid (w\<lparr>tick := t\<rparr>) = recorded rid w" "backend (w\<lparr>tick := t\<rparr>) = backend w" "history (w\<lparr>tick := t\<rparr>) = history w"
  by (simp_all add: recorded_def)

lemma write_state_spec:
  assumes "write_state_atomic E rid s w = (r, w')" and "schema_version s = SCHEMA_VERSION"
  shows "backend w' = backend w \<and>
    (case r of
       Inl e \<Rightarrow> recorded rid w' = recorded rid w \<and> history w' = history w
     | Inr _ \<Rightarrow> recorded rid w' = backend_names s \<and> history w' = (backend w', recorded rid w') # history w)"
proof (cases "write_fault E (tick w)")
  case None
  have "recorded rid (snapshot rid (upd_dir rid (\<lambda>d. d\<lparr>rd_state := Some (Doc (state_to_json s)), rd_tmp := False\<rparr>)
      (w\<lparr>tick := Suc (tick w)\<rparr>))) = backend_names s"
    by (simp add: recorded_def snapshot_def upd_dir_def ledger_of_def state_roundtrip [OF assms(2)])
  with None assms(1) show ?thesis
    by (auto simp: write_state_atomic_def bindE_def tock_def modE_def snapshot_def recorded_def)
next
  case (Some e)
  with assms(1) show ?thesis
    by (auto simp: write_state_atomic_def bindE_def seqE_def tock_def modE_def throw_def recorded_def upd_dir_def)
qed

lemma modify_spec:
  assumes "modify E rid f w = (r, w')"
    and "\<And>s s'. f s = Inr s' \<Longrightarrow> schema_version s' = schema_version s"
  shows "backend w' = backend w \<and>
    (case r of
       Inl e \<Rightarrow> recorded rid w' = recorded rid w \<and> history w' = history w
     | Inr _ \<Rightarrow> \<exists>s s'. recorded rid w = backend_names s \<and> f s = Inr s' \<and> recorded rid w' = backend_names s' \<and>
         history w' = (backend w', recorded rid w') # history w)"
proof -
  obtain q w1 where q: "read_state E rid w = (q, w1)" by (cases "read_state E rid w")
  then have w1: "w1 = w\<lparr>tick := Suc (tick w)\<rparr>" by (rule read_state_world)
  show ?thesis
  proof (cases q)
    case (Inl e)
    then show ?thesis using assms(1) q w1 by (auto simp: modify_def bindE_def)
  next
    case (Inr s)
    note rs = read_state_Inr [OF q [unfolded Inr]]
    show ?thesis
    proof (cases "f s")
      case (Inl e)
      then show ?thesis using assms(1) q Inr w1 by (auto simp: modify_def bindE_def liftR_def)
    next
      case (Inr s')
      then have "write_state_atomic E rid s' w1 = (r, w')"
        using assms(1) q \<open>q = Inr s\<close> by (simp add: modify_def bindE_def liftR_def)
      from write_state_spec [OF this] show ?thesis
        using rs assms(2) [OF Inr] Inr by (cases r) (auto simp: w1)
    qed
  qed
qed

definition names_of :: "name \<Rightarrow> world \<Rightarrow> name set" where
  "names_of rid w = set (recorded rid w)"

definition live_of :: "world \<Rightarrow> name set" where
  "live_of w = set (backend w)"

definition crash_of :: "world \<Rightarrow> (name set \<times> name set) set" where
  "crash_of w = (\<lambda>(b, l). (set b, set l)) ` set (history w)"

lemmas view_defs = names_of_def live_of_def crash_of_def

lemma tock_world: "tock w = (r, w') \<Longrightarrow> r = Inr (tick w) \<and> w' = w\<lparr>tick := Suc (tick w)\<rparr>"
  by (auto simp: tock_def)

lemma drive_spec:
  assumes "drive E rid c w = (r, w')"
  shows "recorded rid w' = recorded rid w \<and> history w' = (backend w', recorded rid w') # history w \<and>
    (backend w' = effect c (backend w) \<or> backend w' = backend w) \<and> (\<forall>v. r = Inr v \<longrightarrow> backend w' = effect c (backend w))"
proof -
  have rec: "recorded rid (snapshot rid x) = recorded rid x" "recorded rid (x\<lparr>backend := b\<rparr>) = recorded rid x"
      "recorded rid (x\<lparr>calls := c'\<rparr>) = recorded rid x" for x b c'
    by (simp_all add: recorded_def snapshot_def)
  obtain q took where q: "reply E (tick w) c = (q, took)" by (cases "reply E (tick w) c")
  show ?thesis
  proof (cases q)
    case (Inl e)
    with assms q show ?thesis
      by (auto simp: drive_def bindE_def seqE_def tock_def modE_def throw_def rec) (auto simp: snapshot_def rec)
  next
    case (Inr v)
    with assms q show ?thesis
      by (auto simp: drive_def bindE_def seqE_def tock_def modE_def ret_def rec) (auto simp: snapshot_def rec)
  qed
qed

lemma record_intent_spec:
  assumes "record_intent E rid k n p md w = (r, w')"
  shows "backend w' = backend w \<and>
    (case r of
       Inl e \<Rightarrow> recorded rid w' = recorded rid w \<and> history w' = history w
     | Inr x \<Rightarrow> recorded rid w' = recorded rid w @ [n] \<and> history w' = (backend w', recorded rid w') # history w)"
proof -
  let ?r = "\<lparr>r_kind = k, r_backend_name = n, r_plan_name = p, intent_at = clock E (tick w), outcome_at = None, metadata = md\<rparr>"
  obtain q w1 where m: "modify E rid (\<lambda>s. Inr (with_resource ?r s)) (w\<lparr>tick := Suc (tick w)\<rparr>) = (q, w1)"
    by (cases "modify E rid (\<lambda>s. Inr (with_resource ?r s)) (w\<lparr>tick := Suc (tick w)\<rparr>)")
  have "case q of Inl e \<Rightarrow> r = Inl e \<and> w' = w1 | Inr _ \<Rightarrow> r = Inr ?r \<and> w' = w1"
    using assms m by (cases q) (auto simp: record_intent_def bindE_def seqE_def tock_def ret_def Let_def)
  with modify_spec [OF m] show ?thesis by (cases q) auto
qed

lemma confirm_spec:
  assumes "confirm E rid n md w = (r, w')"
  shows "backend w' = backend w \<and> recorded rid w' = recorded rid w \<and>
    (history w' = history w \<or> history w' = (backend w', recorded rid w') # history w)"
proof -
  let ?f = "\<lambda>s. case List.find (\<lambda>r. r_backend_name r = n) (resources s) of
         None \<Rightarrow> Inl (StateError [n])
       | Some r \<Rightarrow> replace_resource n (with_outcome (clock E (tick w)) md r) s"
  have m: "modify E rid ?f (w\<lparr>tick := Suc (tick w)\<rparr>) = (r, w')"
    using assms by (simp add: confirm_def bindE_def tock_def)
  have f: "backend_names s' = backend_names s \<and> schema_version s' = schema_version s" if h: "?f s = Inr s'" for s s'
  proof -
    obtain x where x: "List.find (\<lambda>r. r_backend_name r = n) (resources s) = Some x"
      "replace_resource n (with_outcome (clock E (tick w)) md x) s = Inr s'"
      using h by (auto split: option.splits)
    then have "r_backend_name x = n" by (auto simp: find_Some_iff)
    with x backend_names_replace [of n "with_outcome (clock E (tick w)) md x" s s'] show ?thesis
      by (auto simp: replace_resource_def split: if_splits)
  qed
  from modify_spec [OF m] f show ?thesis by (cases r) auto
qed

lemma forget_spec:
  assumes "forget E rid n w = (r, w')"
  shows "backend w' = backend w \<and>
    (case r of
       Inl e \<Rightarrow> recorded rid w' = recorded rid w \<and> history w' = history w
     | Inr _ \<Rightarrow> recorded rid w' = filter (\<lambda>m. m \<noteq> n) (recorded rid w) \<and> history w' = (backend w', recorded rid w') # history w)"
  using modify_spec [OF assms [unfolded forget_def]] by (cases r) auto

interpretation run_ledger: ledger "names_of rid" live_of crash_of
  "\<lambda>(k, n, p, md). record_intent E rid k n p md" "\<lambda>(k, n, p, md). n"
  "\<lambda>(n, md). confirm E rid n md" "forget E rid"
  "\<lambda>(k, n). drive E rid (Create k n)" "\<lambda>(k, n). n"
  "\<lambda>(k, n, md). drive E rid (Destroy k n md)" "\<lambda>(k, n, md). n"
  for E rid
proof (unfold_locales, goal_cases)
  case (1 i w r w')
  then show ?case using record_intent_spec by (cases i; cases r) (auto simp: view_defs dest!: record_intent_spec)
next
  case (2 i w x w')
  then show ?case by (cases i) (auto simp: view_defs dest!: record_intent_spec)
next
  case (3 c w s w')
  then show ?case by (cases c) (auto simp: view_defs dest!: confirm_spec)
next
  case (4 n w s w')
  then show ?case by (cases s) (auto simp: view_defs dest!: forget_spec)
next
  case (5 m w v w')
  then show ?case by (cases m) (auto simp: view_defs effect_def dest!: drive_spec)
next
  case (6 d w u w')
  then show ?case by (cases d) (auto simp: view_defs effect_def dest!: drive_spec)
next
  case (7 d w y w')
  obtain k n md where d: "d = (k, n, md)" by (cases d)
  with 7 have "backend w' = effect (Destroy k n md) (backend w)" using drive_spec by fastforce
  then show ?case by (simp add: d view_defs effect_def)
qed

end
