(* ===== verification/Teardown.thy ===== *)
theory Teardown
  imports Ledger_Contract
begin

text \<open>
  Teardown from inside a run (\<^verbatim>\<open>orchestrator/teardown.py\<close>) and from outside it
  (\<^verbatim>\<open>state/cleanup.py\<close>): both replay the ledger backwards, destroying each resource and
  forgetting it. Logging is left out.
\<close>

subsection \<open>In-process teardown\<close>

definition destroy_and_forget :: "env \<Rightarrow> name \<Rightarrow> resource \<Rightarrow> (world, unit) eff" where
  "destroy_and_forget E rid r =
     seqE (drive E rid (Destroy (r_kind r) (r_backend_name r) (metadata r))) (forget E rid (r_backend_name r))"

text \<open>The counters are \<^verbatim>\<open>ok\<close> and \<^verbatim>\<open>failed\<close>.\<close>

definition destroy_all :: "env \<Rightarrow> name \<Rightarrow> resource list \<Rightarrow> (world, nat \<times> nat) eff" where
  "destroy_all E rid rs =
     foldE (\<lambda>r (ok, failed). catchE (seqE (destroy_and_forget E rid r) (ret (Suc ok, failed))) (\<lambda>_. ret (ok, Suc failed)))
       rs (0, 0)"

definition finish_teardown :: "env \<Rightarrow> name \<Rightarrow> nat \<Rightarrow> (world, unit) eff" where
  "finish_teardown E rid me =
     bindE (catchE (bindE (read_state E rid) (\<lambda>s. ret (resources s))) (\<lambda>_. ret [])) (\<lambda>remaining.
     if remaining = [] then
       catchE (seqE (set_phase E rid ''done'') (seqE (release rid me) (remove rid me))) (\<lambda>_. ret ())
     else ret ())"

definition teardown :: "env \<Rightarrow> name \<Rightarrow> nat \<Rightarrow> (world, unit) eff" where
  "teardown E rid me =
     seqE (catchE (set_phase E rid ''cleanup'') (\<lambda>_. ret ()))
     (bindE (catchE (bindE (read_state E rid) (\<lambda>s. ret (Some s))) (\<lambda>_. ret None)) (\<lambda>st.
      case st of
        None \<Rightarrow> ret ()
      | Some s \<Rightarrow> seqE (destroy_all E rid (rev (resources s))) (finish_teardown E rid me)))"

subsection \<open>Cleanup of a run by another process\<close>

record cleanup_result =
  cr_run_id :: name
  destroyed :: "name list"
  skipped :: "name list"
  errors :: "(name \<times> exn) list"

text \<open>\<^verbatim>\<open>driver_for_name\<close> and \<^verbatim>\<open>connect\<close> are one call of the environment.\<close>

definition cleanup_destroy :: "env \<Rightarrow> name \<Rightarrow> resource list \<Rightarrow> (world, name list \<times> (name \<times> exn) list) eff" where
  "cleanup_destroy E rid rs =
     foldE (\<lambda>r (dest, errs).
         catchE (seqE (destroy_and_forget E rid r) (ret (dest @ [r_backend_name r], errs)))
           (\<lambda>e. ret (dest, errs @ [(r_backend_name r, e)])))
       rs ([], [])"

definition cleanup_run :: "env \<Rightarrow> name \<Rightarrow> nat \<Rightarrow> bool \<Rightarrow> (world, cleanup_result) eff" where
  "cleanup_run E rid me dry_run =
     bindE (exists_state rid) (\<lambda>ex.
     if \<not> ex then throw (StateError [rid])
     else seqE (require_dead rid) (bindE (read_state E rid) (\<lambda>s.
       if dry_run then
         ret \<lparr>cr_run_id = rid, destroyed = [], skipped = map r_backend_name (rev (resources s)), errors = []\<rparr>
       else if resources s = [] then
         seqE (set_phase E rid ''done'') (seqE (remove rid me)
           (ret \<lparr>cr_run_id = rid, destroyed = [], skipped = [], errors = []\<rparr>))
       else seqE (drive E rid (Connect (driver_class s) (driver_uri s)))
         (bindE (finallyE (seqE (set_phase E rid ''cleanup'') (cleanup_destroy E rid (rev (resources s))))
                  (seqE (drive E rid Disconnect) (ret ()))) (\<lambda>(dest, errs).
          bindE (read_state E rid) (\<lambda>final.
          seqE (if resources final = [] \<and> errs = [] then seqE (set_phase E rid ''done'') (remove rid me)
                else if resources final = [] then set_phase E rid ''done''
                else ret ())
            (ret \<lparr>cr_run_id = rid, destroyed = dest, skipped = [], errors = errs\<rparr>)))))))"

definition forget_run :: "env \<Rightarrow> name \<Rightarrow> nat \<Rightarrow> (world, name list) eff" where
  "forget_run E rid me =
     bindE (getE (\<lambda>w. rd_exists (runs w rid))) (\<lambda>dir.
     if \<not> dir then throw (StateError [rid])
     else seqE (require_dead rid) (bindE (exists_state rid) (\<lambda>ex.
       bindE (if ex then handle_if is_StateError (bindE (read_state E rid) (\<lambda>s. ret (map r_backend_name (resources s)))) (\<lambda>_. ret [])
              else ret []) (\<lambda>forgotten.
       seqE (remove rid me) (ret forgotten)))))"

definition failed_result :: "name \<Rightarrow> name \<Rightarrow> exn \<Rightarrow> cleanup_result" where
  "failed_result rid tag e = \<lparr>cr_run_id = rid, destroyed = [], skipped = [], errors = [(tag, e)]\<rparr>"

fun is_StateLockedError :: "exn \<Rightarrow> bool" where
  "is_StateLockedError (StateLockedError _) = True"
| "is_StateLockedError _ = False"

text \<open>The sweep over the run directories \<open>rids\<close>, consumed to the end.\<close>

definition cleanup_all :: "env \<Rightarrow> nat \<Rightarrow> bool \<Rightarrow> name list \<Rightarrow> (world, cleanup_result list) eff" where
  "cleanup_all E me dry_run rids =
     forE (\<lambda>rid. catchE (cleanup_run E rid me dry_run) (\<lambda>e.
       ret (failed_result rid (if is_StateLockedError e then ''(locked)'' else if is_StateError e then ''(state)'' else ''(driver)'') e)))
       rids"

record run_info =
  ri_run_id :: name
  running :: bool
  ri_phase :: string
  ri_plan_name :: name
  ri_created_at :: string
  resource_count :: nat
  ri_error :: "exn option"

text \<open>One row of \<^verbatim>\<open>list_runs\<close>; an unreadable state is a row with an error.\<close>

definition run_info_of :: "env \<Rightarrow> name \<Rightarrow> (world, run_info) eff" where
  "run_info_of E rid =
     bindE (is_running rid) (\<lambda>run. bindE (exists_state rid) (\<lambda>ex.
     if \<not> ex then ret \<lparr>ri_run_id = rid, running = run, ri_phase = [], ri_plan_name = [], ri_created_at = [],
         resource_count = 0, ri_error = Some (StateError [rid])\<rparr>
     else handle_if is_StateError
       (bindE (read_state E rid) (\<lambda>s. ret \<lparr>ri_run_id = rid, running = run, ri_phase = phase s, ri_plan_name = s_plan_name s,
          ri_created_at = created_at s, resource_count = length (resources s), ri_error = None\<rparr>))
       (\<lambda>e. ret \<lparr>ri_run_id = rid, running = run, ri_phase = [], ri_plan_name = [], ri_created_at = [],
          resource_count = 0, ri_error = Some e\<rparr>)))"

definition list_runs :: "env \<Rightarrow> name list \<Rightarrow> (world, run_info list) eff" where
  "list_runs E rids = forE (run_info_of E) rids"

subsection \<open>Invariants\<close>

abbreviation tracked :: "name \<Rightarrow> world \<Rightarrow> bool" where
  "tracked rid \<equiv> complete (names_of rid) live_of crash_of"

lemma tracked_iff:
  "tracked rid w \<longleftrightarrow> set (backend w) \<subseteq> set (recorded rid w) \<and> list_all (\<lambda>(b, l). set b \<subseteq> set l) (history w)"
  unfolding complete_def view_defs list_all_iff by (simp add: split_beta)

text \<open>Effects that leave the ledger, the backend and the observations of a run alone.\<close>

lemma keeps_tracked_view:
  assumes "\<And>w r w'. m w = (r, w') \<Longrightarrow> recorded rid w' = recorded rid w \<and> backend w' = backend w \<and>
      (history w' = history w \<or> history w' = (backend w', recorded rid w') # history w)"
  shows "keeps (tracked rid) m"
proof (unfold keeps_def, intro allI impI)
  fix w
  assume c: "tracked rid w"
  obtain r w' where m: "m w = (r, w')" by (cases "m w")
  from assms [OF m] c show "tracked rid (snd (m w))"
    unfolding m snd_conv tracked_iff by auto
qed

lemma keeps_read: "keeps (tracked rid) (read_state E rid)"
  by (rule keeps_tracked_view) (auto dest!: read_state_world)

lemma keeps_set_phase: "keeps (tracked rid) (set_phase E rid ph)"
proof (rule keeps_tracked_view)
  fix w r w'
  assume "set_phase E rid ph w = (r, w')"
  from modify_spec [OF this [unfolded set_phase_def]]
  show "recorded rid w' = recorded rid w \<and> backend w' = backend w \<and>
      (history w' = history w \<or> history w' = (backend w', recorded rid w') # history w)"
    by (cases r) (auto simp: backend_names_def)
qed

lemma keeps_destroy_and_forget: "keeps (tracked rid) (destroy_and_forget E rid r)"
  unfolding destroy_and_forget_def
  using run_ledger.keeps_destroy [of "(r_kind r, r_backend_name r, metadata r)" "r_backend_name r" rid E] by simp

lemma keeps_release: "keeps (tracked rid) (release rid me)"
  by (rule keeps_tracked_view)
    (auto simp: release_def release_lock_def seqE_def bindE_def modE_def recorded_def upd_dir_def)

lemmas keeps_tracked = keeps_read keeps_set_phase keeps_destroy_and_forget keeps_release

lemma keeps_destroy_all: "keeps (tracked rid) (destroy_all E rid rs)"
  unfolding destroy_all_def
  by (intro keeps_foldE) (auto split: prod.split intro!: eff_intros keeps_tracked)

text \<open>Removing the run directory is safe when nothing is recorded.\<close>

lemma remove_world:
  "remove rid me w = (r, w') \<Longrightarrow> r = Inr () \<and> recorded rid w' = [] \<and> backend w' = backend w \<and>
     history w' = (backend w', []) # history w \<and> rd_state (runs w' rid) = None \<and>
     rd_exists (runs w' rid) = rd_foreign (runs w rid) \<and> calls w' = calls w \<and>
     lock_holder w' rid = (if lock_holder w rid = Some me then None else lock_holder w rid)"
  by (auto simp: remove_def release_lock_def seqE_def bindE_def modE_def recorded_def snapshot_def upd_dir_def ledger_of_def)

lemma tracked_remove:
  assumes "tracked rid w" and "recorded rid w = []"
  shows "tracked rid (snd (remove rid me w))"
proof -
  obtain r w' where m: "remove rid me w = (r, w')" by (cases "remove rid me w")
  from remove_world [OF m] assms show ?thesis unfolding m snd_conv tracked_iff by auto
qed

lemma read_failure_empty:
  "read_state E rid w = (Inl e, w') \<Longrightarrow> \<forall>t. read_fault E t = None \<Longrightarrow> recorded rid w = []"
  by (auto simp: read_state_def bindE_def getE_def tock_def throw_def liftR_def recorded_def ledger_of_def
      split: option.splits doc.splits)

abbreviation drained :: "name \<Rightarrow> world \<Rightarrow> bool" where
  "drained rid w \<equiv> tracked rid w \<and> recorded rid w = []"

lemma keeps_drained:
  "keeps (drained rid) (set_phase E rid ph)" "keeps (drained rid) (release rid me)" "keeps (drained rid) (remove rid me)"
proof -
  have "recorded rid (snd (set_phase E rid ph w)) = recorded rid w" for w
  proof (cases "set_phase E rid ph w")
    case (Pair r w')
    from modify_spec [OF this [unfolded set_phase_def]] show ?thesis
      unfolding Pair snd_conv by (cases r) (auto simp: backend_names_def)
  qed
  then show "keeps (drained rid) (set_phase E rid ph)" using keeps_set_phase by (auto simp: keeps_def)
  have "recorded rid (snd (release rid me w)) = recorded rid w" for w
    by (simp add: release_def release_lock_def seqE_def bindE_def modE_def recorded_def upd_dir_def)
  then show "keeps (drained rid) (release rid me)" using keeps_release by (auto simp: keeps_def)
  show "keeps (drained rid) (remove rid me)"
  proof (unfold keeps_def, intro allI impI)
    fix w
    assume d: "drained rid w"
    obtain r w' where m: "remove rid me w = (r, w')" by (cases "remove rid me w")
    then have "recorded rid w' = []" using remove_world [OF m] by simp
    moreover have "tracked rid w'" using tracked_remove [of rid w me] d m by simp
    ultimately show "drained rid (snd (remove rid me w))" by (simp only: m snd_conv simp_thms)
  qed
qed

lemma keeps_finish_teardown:
  assumes "\<forall>t. read_fault E t = None"
  shows "keeps (tracked rid) (finish_teardown E rid me)"
proof (unfold keeps_def, intro allI impI)
  fix w
  assume c: "tracked rid w"
  obtain q w1 where q: "read_state E rid w = (q, w1)" by (cases "read_state E rid w")
  have c1: "tracked rid w1" using keepsD2 [OF keeps_read c q] .
  let ?close = "catchE (seqE (set_phase E rid ''done'') (seqE (release rid me) (remove rid me))) (\<lambda>_. ret ())"
  have close: "tracked rid (snd (?close w1))" if "recorded rid w = []"
  proof -
    have "keeps (drained rid) ?close" by (intro eff_intros keeps_drained)
    moreover have "drained rid w1" using c1 that read_state_world [OF q] by simp
    ultimately show ?thesis by (auto simp: keeps_def)
  qed
  show "tracked rid (snd (finish_teardown E rid me w))"
  proof (cases q)
    case (Inl e)
    then show ?thesis
      using c1 close read_failure_empty [OF q [unfolded Inl] assms]
      by (simp add: finish_teardown_def catchE_def [of "bindE (read_state E rid) (\<lambda>s. ret (resources s))"] handle_if_def bindE_def q ret_def)
  next
    case (Inr s)
    then show ?thesis
      using c1 close read_state_Inr [OF q [unfolded Inr]]
      by (simp add: finish_teardown_def catchE_def [of "bindE (read_state E rid) (\<lambda>s. ret (resources s))"] handle_if_def bindE_def q ret_def backend_names_def)
  qed
qed

lemma keeps_teardown:
  assumes "\<forall>t. read_fault E t = None"
  shows "keeps (tracked rid) (teardown E rid me)"
  unfolding teardown_def
  by (intro eff_intros keeps_tracked keeps_destroy_all keeps_finish_teardown [OF assms])

subsection \<open>Order of the destroys\<close>

definition destroy_call :: "resource \<Rightarrow> call" where
  "destroy_call r = Destroy (r_kind r) (r_backend_name r) (metadata r)"

text \<open>An environment whose faults are ordinary exceptions (no interrupt).\<close>

definition ordinary :: "env \<Rightarrow> bool" where
  "ordinary E \<longleftrightarrow> (\<forall>t e. write_fault E t = Some e \<or> read_fault E t = Some e \<longrightarrow> is_Exception e) \<and>
     (\<forall>t c e b. reply E t c = (Inl e, b) \<longrightarrow> is_Exception e)"

lemma calls_tock [simp]: "calls (w\<lparr>tick := n\<rparr>) = calls w"
  by simp

lemma calls_modify: "calls (snd (modify E rid f w)) = calls w"
proof -
  have wr: "calls (snd (write_state_atomic E rid s w)) = calls w" for s w
    by (simp add: write_state_atomic_def bindE_def seqE_def tock_def modE_def throw_def snapshot_def split: option.split)
  obtain q w1 where q: "read_state E rid w = (q, w1)" by (cases "read_state E rid w")
  show ?thesis
    using read_state_world [OF q] wr by (auto simp: modify_def bindE_def q liftR_def split: sum.split)
qed

lemma calls_drive: "drive E rid c w = (r, w') \<Longrightarrow> calls w' = c # calls w"
  by (auto simp: drive_def bindE_def seqE_def tock_def modE_def throw_def ret_def snapshot_def split: prod.splits sum.splits if_splits)

lemma from_json_ordinary: "state_from_json j = Inl e \<Longrightarrow> is_Exception e"
proof -
  have m: "map_result f xs = Inl e \<Longrightarrow> (\<And>x e. f x = Inl e \<Longrightarrow> is_Exception e) \<Longrightarrow> is_Exception e" for f :: "'a \<Rightarrow> 'b result" and xs e
    by (induction xs) (auto simp: result_simps)
  have a: "as_str j = Inl e \<Longrightarrow> is_Exception e" "as_opt_str j = Inl e \<Longrightarrow> is_Exception e" "as_obj j = Inl e \<Longrightarrow> is_Exception e"
    "as_list j = Inl e \<Longrightarrow> is_Exception e" "item kvs k = Inl e \<Longrightarrow> is_Exception e" "as_int j = Inl e \<Longrightarrow> is_Exception e"
    "metadata_of j = Inl e \<Longrightarrow> is_Exception e" for j e kvs k
    by (auto simp: as_str_def as_opt_str_def as_obj_def as_list_def item_def as_int_def metadata_of_def split: json.splits option.splits if_splits)
  have r: "resource_from_json j = Inl e \<Longrightarrow> is_Exception e" for j e
    by (auto simp: resource_from_json_def result_simps dest: a)
  have n: "node_record_from_json j = Inl e \<Longrightarrow> is_Exception e" for j e
    by (auto simp: node_record_from_json_def result_simps dest: a)
  assume "state_from_json j = Inl e"
  then show ?thesis
    by (auto simp: state_from_json_def result_simps dest: a m [OF _ r] m [OF _ n])
qed

lemma read_ordinary: "ordinary E \<Longrightarrow> read_state E rid w = (Inl e, w') \<Longrightarrow> is_Exception e"
  by (auto simp: read_state_def bindE_def getE_def tock_def throw_def liftR_def ordinary_def
      split: option.splits doc.splits dest: from_json_ordinary)

lemma write_ordinary: "ordinary E \<Longrightarrow> write_state_atomic E rid s w = (Inl e, w') \<Longrightarrow> is_Exception e"
  by (auto simp: write_state_atomic_def bindE_def seqE_def tock_def modE_def throw_def ordinary_def split: option.splits)

lemma modify_ordinary:
  assumes "ordinary E" and "modify E rid (\<lambda>s. Inr (f s)) w = (Inl e, w')"
  shows "is_Exception e"
proof -
  obtain q w1 where q: "read_state E rid w = (q, w1)" by (cases "read_state E rid w")
  show ?thesis
    using assms q read_ordinary [OF assms(1)] write_ordinary [OF assms(1)]
    by (cases q) (auto simp: modify_def bindE_def liftR_def)
qed

lemma drive_ordinary:
  assumes "ordinary E" and "drive E rid c w = (Inl e, w')"
  shows "is_Exception e"
proof -
  obtain q took where q: "reply E (tick w) c = (q, took)" by (cases "reply E (tick w) c")
  with assms(2) have "q = Inl e"
    by (cases q) (auto simp: drive_def bindE_def seqE_def tock_def modE_def throw_def ret_def)
  with q assms(1) show ?thesis unfolding ordinary_def by blast
qed

lemma destroy_and_forget_spec:
  assumes "ordinary E" and "destroy_and_forget E rid r w = (q, w')"
  shows "calls w' = destroy_call r # calls w \<and> (\<forall>e. q = Inl e \<longrightarrow> is_Exception e)"
proof -
  obtain d w1 where d: "drive E rid (destroy_call r) w = (d, w1)" by (cases "drive E rid (destroy_call r) w")
  note c1 = calls_drive [OF d]
  show ?thesis
  proof (cases d)
    case (Inl e)
    with assms d c1 drive_ordinary [OF assms(1) d [unfolded Inl]] show ?thesis
      by (auto simp: destroy_and_forget_def destroy_call_def seqE_def bindE_def)
  next
    case (Inr v)
    with assms(2) d have "forget E rid (r_backend_name r) w1 = (q, w')"
      by (simp add: destroy_and_forget_def destroy_call_def seqE_def bindE_def)
    then have "modify E rid (\<lambda>s. Inr (remove_resource (r_backend_name r) s)) w1 = (q, w')" by (simp add: forget_def)
    with c1 calls_modify [of E rid "\<lambda>s. Inr (remove_resource (r_backend_name r) s)" w1] modify_ordinary [OF assms(1)]
    show ?thesis by auto
  qed
qed

lemma destroy_all_spec:
  assumes "ordinary E"
  shows "\<exists>ok failed w'. foldE (\<lambda>r (ok, failed). catchE (seqE (destroy_and_forget E rid r) (ret (Suc ok, failed))) (\<lambda>_. ret (ok, Suc failed)))
       rs (a, b) w = (Inr (ok, failed), w') \<and> ok + failed = a + b + length rs \<and>
     calls w' = rev (map destroy_call rs) @ calls w"
proof (induction rs arbitrary: a b w)
  case (Cons r rs)
  obtain q w1 where q: "destroy_and_forget E rid r w = (q, w1)" by (cases "destroy_and_forget E rid r w")
  note s = destroy_and_forget_spec [OF assms q]
  show ?case
  proof (cases q)
    case (Inl e)
    with q s have "catchE (seqE (destroy_and_forget E rid r) (ret (Suc a, b))) (\<lambda>_. ret (a, Suc b)) w = (Inr (a, Suc b), w1)"
      by (simp add: catchE_def handle_if_def seqE_def bindE_def ret_def)
    with Cons [of a "Suc b" w1] s show ?thesis by (auto simp: bindE_def)
  next
    case (Inr u)
    with q have "catchE (seqE (destroy_and_forget E rid r) (ret (Suc a, b))) (\<lambda>_. ret (a, Suc b)) w = (Inr (Suc a, b), w1)"
      by (simp add: catchE_def handle_if_def seqE_def bindE_def ret_def)
    with Cons [of "Suc a" b w1] s show ?thesis by (auto simp: bindE_def)
  qed
qed (simp add: ret_def)

text \<open>A run directory that holds a well-formed document.\<close>

definition holds :: "name \<Rightarrow> state \<Rightarrow> world \<Rightarrow> bool" where
  "holds rid s w \<longleftrightarrow> rd_state (runs w rid) = Some (Doc (state_to_json s)) \<and> schema_version s = SCHEMA_VERSION"

lemma read_holds:
  "holds rid s w \<Longrightarrow> \<forall>t. read_fault E t = None \<Longrightarrow> read_state E rid w = (Inr s, w\<lparr>tick := Suc (tick w)\<rparr>)"
  by (simp add: holds_def read_state_def bindE_def getE_def tock_def liftR_def state_roundtrip)

lemma modify_holds:
  assumes "holds rid s w" and "\<forall>t. read_fault E t = None" and "schema_version (f s) = schema_version s"
    and "modify E rid (\<lambda>s. Inr (f s)) w = (r, w')"
  shows "case r of Inl _ \<Rightarrow> holds rid s w' | Inr _ \<Rightarrow> holds rid (f s) w'"
proof -
  let ?w = "w\<lparr>tick := Suc (tick w)\<rparr>"
  have "write_state_atomic E rid (f s) ?w = (r, w')"
    using assms(4) read_holds [OF assms(1,2)] by (simp add: modify_def bindE_def liftR_def)
  then show ?thesis
    using assms(1,3)
    by (auto simp: holds_def write_state_atomic_def bindE_def seqE_def tock_def modE_def throw_def snapshot_def upd_dir_def split: option.splits)
qed

lemma finish_calls:
  assumes "ordinary E"
  shows "fst (finish_teardown E rid me w) = Inr () \<and> calls (snd (finish_teardown E rid me w)) = calls w"
proof -
  obtain q w1 where q: "read_state E rid w = (q, w1)" by (cases "read_state E rid w")
  have w1: "calls w1 = calls w" using read_state_world [OF q] by simp
  let ?m = "seqE (set_phase E rid ''done'') (seqE (release rid me) (remove rid me))"
  obtain p w2 where p: "set_phase E rid ''done'' w1 = (p, w2)" by (cases "set_phase E rid ''done'' w1")
  have w2: "calls w2 = calls w1" using calls_modify [of E rid _ w1] p unfolding set_phase_def by (metis snd_conv)
  have rel: "calls (snd (seqE (release rid me) (remove rid me) w2)) = calls w2 \<and> fst (seqE (release rid me) (remove rid me) w2) = Inr ()"
    by (simp add: release_def release_lock_def remove_def seqE_def bindE_def modE_def snapshot_def upd_dir_def)
  have pe: "p = Inl e \<Longrightarrow> is_Exception e" for e
    using modify_ordinary [OF assms] p unfolding set_phase_def by blast
  have close: "fst (catchE ?m (\<lambda>_. ret ()) w1) = Inr () \<and> calls (snd (catchE ?m (\<lambda>_. ret ()) w1)) = calls w1"
    using p w2 rel pe by (cases p) (auto simp: catchE_def handle_if_def seqE_def bindE_def ret_def split: prod.splits sum.splits)
  have "catchE (bindE (read_state E rid) (\<lambda>s. ret (resources s))) (\<lambda>_. ret []) w =
      (Inr (case q of Inl _ \<Rightarrow> [] | Inr s \<Rightarrow> resources s), w1)"
    using q read_ordinary [OF assms] by (cases q) (auto simp: catchE_def handle_if_def bindE_def ret_def)
  then show ?thesis
    using close w1 by (simp add: finish_teardown_def bindE_def ret_def)
qed

subsection \<open>Properties of teardown\<close>


definition sample_resource :: "name \<Rightarrow> resource" where
  "sample_resource n = \<lparr>r_kind = ''pool'', r_backend_name = n, r_plan_name = None, intent_at = ''t'', outcome_at = None, metadata = []\<rparr>"

definition sample_state :: state where
  "sample_state = \<lparr>schema_version = 1, s_run_id = ''r'', s_plan_name = ''p'', driver_class = ''d'', driver_uri = ''u'',
     phase = ''run'', created_at = ''t'', resources = [sample_resource ''a'', sample_resource ''b''], nodes = []\<rparr>"

definition sample_world :: world where
  "sample_world = \<lparr>runs = (\<lambda>_. empty_dir)(''r'' := empty_dir\<lparr>rd_exists := True, rd_state := Some (Doc (state_to_json sample_state))\<rparr>),
     lock_holder = (\<lambda>_. None)(''r'' := Some 7), tick = 0, backend = [''a'', ''b''], calls = [], history = []\<rparr>"

definition failing_env :: env where
  "failing_env = \<lparr>write_fault = (\<lambda>_. None), read_fault = (\<lambda>_. None), clock = (\<lambda>_. ''t''),
     reply = (\<lambda>_ c. case c of Destroy _ n _ \<Rightarrow> if n = ''b'' then (Inl (DriverError []), False) else (Inr None, True) | _ \<Rightarrow> (Inr None, True)),
     getpid = 1\<rparr>"

definition quiet_env :: env where
  "quiet_env = \<lparr>write_fault = (\<lambda>_. None), read_fault = (\<lambda>_. None), clock = (\<lambda>_. ''t''),
     reply = (\<lambda>_ _. (Inr None, True)), getpid = 1\<rparr>"

lemma sample_holds: "holds ''r'' sample_state sample_world"
  by (simp add: holds_def sample_world_def sample_state_def SCHEMA_VERSION_def)


text \<open>Teardown is LIFO and does not stop at a failure. Starting from a well-formed ledger,
  whatever fails, teardown returns normally and has called destroy exactly once for each recorded
  resource, with its recorded kind and metadata, in reverse order of recording (the call list has
  the latest call first).\<close>

theorem teardown_is_lifo:
  assumes "ordinary E" and "\<forall>t. read_fault E t = None" and "holds rid s w"
  shows "fst (teardown E rid me w) = Inr () \<and>
    calls (snd (teardown E rid me w)) = map (\<lambda>r. Destroy (r_kind r) (r_backend_name r) (metadata r)) (resources s) @ calls w"
proof -
  obtain p w1 where p: "set_phase E rid ''cleanup'' w = (p, w1)" by (cases "set_phase E rid ''cleanup'' w")
  then have m: "modify E rid (\<lambda>s. Inr (s\<lparr>phase := ''cleanup''\<rparr>)) w = (p, w1)" by (simp add: set_phase_def)
  have c1: "calls w1 = calls w" using calls_modify [of E rid _ w] m by (metis snd_conv)
  obtain s' where s': "holds rid s' w1" "resources s' = resources s"
    using modify_holds [OF assms(3,2) _ m] by (cases p) fastforce+
  have first: "catchE (set_phase E rid ''cleanup'') (\<lambda>_. ret ()) w = (Inr (), w1)"
  proof (cases p)
    case (Inl e)
    with p modify_ordinary [OF assms(1) m [unfolded Inl]] show ?thesis by (simp add: catchE_def handle_if_def ret_def)
  next
    case (Inr u)
    with p show ?thesis by (simp add: catchE_def handle_if_def)
  qed
  let ?w = "w1\<lparr>tick := Suc (tick w1)\<rparr>"
  have second: "catchE (bindE (read_state E rid) (\<lambda>s. ret (Some s))) (\<lambda>_. ret None) w1 = (Inr (Some s'), ?w)"
    using read_holds [OF s'(1) assms(2)] by (simp add: catchE_def handle_if_def bindE_def ret_def)
  obtain ok failed w2 where d: "destroy_all E rid (rev (resources s')) ?w = (Inr (ok, failed), w2)"
    "calls w2 = rev (map destroy_call (rev (resources s'))) @ calls ?w"
    using destroy_all_spec [OF assms(1), of rid "rev (resources s')" 0 0 ?w] unfolding destroy_all_def by blast
  have "teardown E rid me w = finish_teardown E rid me w2"
    by (simp add: teardown_def seqE_def bindE_def first second d(1))
  with finish_calls [OF assms(1), of rid me w2] d(2) c1 s'(2) show ?thesis
    by (simp add: destroy_call_def rev_map)
qed

theorem teardown_is_lifo_witness:
  "calls (snd (teardown failing_env ''r'' 7 sample_world)) = [Destroy ''pool'' ''a'' [], Destroy ''pool'' ''b'' []]"
proof -
  have "ordinary failing_env" by (auto simp: ordinary_def failing_env_def split: call.splits if_splits)
  from teardown_is_lifo [OF this _ sample_holds, of 7] show ?thesis
    by (simp add: failing_env_def sample_state_def sample_resource_def sample_world_def)
qed

definition read_fault_env :: env where
  "read_fault_env = \<lparr>write_fault = (\<lambda>_. None), read_fault = (\<lambda>t. if t = 4 then Some (OSError []) else None), clock = (\<lambda>_. ''t''),
     reply = (\<lambda>_ c. case c of Destroy _ n _ \<Rightarrow> (Inl (DriverError []), False) | _ \<Rightarrow> (Inr None, True)), getpid = 1\<rparr>"

definition stuck_state :: state where
  "stuck_state = sample_state\<lparr>resources := [sample_resource ''b'']\<rparr>"

definition stuck_world :: world where
  "stuck_world = sample_world\<lparr>backend := [''b''],
     runs := (\<lambda>_. empty_dir\<lparr>rd_exists := True, rd_state := Some (Doc (state_to_json stuck_state))\<rparr>)\<rparr>"

lemmas run_effects = bindE_def seqE_def ret_def throw_def getE_def modE_def liftR_def catchE_def handle_if_def tock_def

text \<open>The assumption of the ledger property is needed. If destroys failed and the single
  read that follows them fails too, teardown takes the unreadable ledger for an empty one and removes it:
  the resources that could not be destroyed still exist and are recorded nowhere.\<close>

theorem teardown_loses_ledger_on_read_fault:
  "\<exists>E w. ordinary E \<and> set (backend w) \<subseteq> set (recorded ''r'' w) \<and>
     (case teardown E ''r'' 7 w of (r, w') \<Rightarrow>
        r = Inr () \<and> backend w' \<noteq> [] \<and> recorded ''r'' w' = [] \<and> rd_state (runs w' ''r'') = None)"
proof (intro exI conjI)
  show "ordinary read_fault_env" by (auto simp: ordinary_def read_fault_env_def split: call.splits if_splits)
  show "set (backend stuck_world) \<subseteq> set (recorded ''r'' stuck_world)" by code_simp
  show "case teardown read_fault_env ''r'' 7 stuck_world of (r, w') \<Rightarrow>
        r = Inr () \<and> backend w' \<noteq> [] \<and> recorded ''r'' w' = [] \<and> rd_state (runs w' ''r'') = None"
    by (simp add: teardown_def destroy_all_def destroy_and_forget_def drive_def finish_teardown_def set_phase_def
        modify_def read_state_def write_state_atomic_def release_def release_lock_def remove_def run_effects
        read_fault_env_def stuck_world_def stuck_state_def sample_world_def sample_state_def sample_resource_def
        state_roundtrip SCHEMA_VERSION_def snapshot_def upd_dir_def recorded_def ledger_of_def)
qed

end
