(* ===== verification/Sidecar_Config.thy ===== *)
theory Sidecar_Config
  imports Plan_Validation
begin

text \<open>
  The renderers of a switch's sidecar VM (\<^verbatim>\<open>networks/sidecar.py\<close>): its NICs, its
  \<^verbatim>\<open>interfaces\<close>, \<^verbatim>\<open>dnsmasq.conf\<close>, \<^verbatim>\<open>nftables\<close> and \<^verbatim>\<open>sysctl\<close> files, and the parser
  of the lease file it writes. The MAC of a NIC is the driver's and an argument \<open>mac_for\<close>.
  Text is UTF-8 encoded: the dash of the header comment is its three bytes.
\<close>

definition LEASEFILE :: string where "LEASEFILE = ''/var/lib/misc/dnsmasq.leases''"
definition SIDECAR_SWITCH_NIC :: string where "SIDECAR_SWITCH_NIC = ''eth0''"
definition SIDECAR_UPLINK_NIC :: string where "SIDECAR_UPLINK_NIC = ''eth1''"

definition sidecar_of :: "switch \<Rightarrow> sidecar result" where
  "sidecar_of sw = (case sw_sidecar sw of None \<Rightarrow> Inl (AssertionError [sw_name sw]) | Some s \<Rightarrow> Inr s)"

definition uplink_network_name :: "switch \<Rightarrow> name" where
  "uplink_network_name sw = ''__uplink__'' @ sw_name sw"

definition sidecar_nic_specs :: "switch \<Rightarrow> (name \<times> string option) list result" where
  "sidecar_nic_specs sw =
     bindR (sidecar_of sw) (\<lambda>sc.
     case networks sw of
       [] \<Rightarrow> Inl (ValueError [sw_name sw])
     | net # _ \<Rightarrow> Inr ((nw_name net, Some (sidecar_ip sw)) #
         (if nat_flag sc then [(uplink_network_name sw, map_option host (sc_addr sc))] else [])))"

definition netmask :: "nat \<Rightarrow> string" where
  "netmask p = string_from_ip_int (netmask_int p)"

text \<open>The uplink stanza. \<^verbatim>\<open>cidr(None)\<close> raises when the address carries no prefix.\<close>

definition uplink_stanza :: "sidecar \<Rightarrow> string list result" where
  "uplink_stanza sc =
     (case sc_addr sc of
        None \<Rightarrow> Inr [''auto '' @ SIDECAR_UPLINK_NIC, ''iface '' @ SIDECAR_UPLINK_NIC @ '' inet dhcp'', []]
      | Some a \<Rightarrow>
          bindR (static_cidr a None) (\<lambda>c.
          case IPv4Interface c of
            None \<Rightarrow> Inl (ValueError [c])
          | Some i \<Rightarrow> Inr ([''auto '' @ SIDECAR_UPLINK_NIC, ''iface '' @ SIDECAR_UPLINK_NIC @ '' inet static'',
                ''    address '' @ string_from_ip_int (if_ip i),
                ''    netmask '' @ netmask (if_prefixlen i)] @
              (case gw a of None \<Rightarrow> [] | Some g \<Rightarrow> [''    gateway '' @ g]) @ [[]])))"

definition interfaces_blocks :: "switch \<Rightarrow> string list result" where
  "interfaces_blocks sw =
     bindR (sidecar_of sw) (\<lambda>sc.
     bindR (if nat_flag sc then uplink_stanza sc else Inr []) (\<lambda>up.
     Inr ([''auto lo'', ''iface lo inet loopback'', [],
           ''auto '' @ SIDECAR_SWITCH_NIC, ''iface '' @ SIDECAR_SWITCH_NIC @ '' inet static'',
           ''    address '' @ sidecar_ip sw, ''    netmask '' @ netmask (prefixlen (sw_network sw)), []] @ up)))"

definition render_sidecar_interfaces :: "switch \<Rightarrow> string result" where
  "render_sidecar_interfaces sw = bindR (interfaces_blocks sw) (\<lambda>bs. Inr (join newline bs))"

subsection \<open>dnsmasq\<close>

definition conf_header :: string where
  "conf_header = ''# rendered by testrange '' @ [CHR 0xE2, CHR 0x80, CHR 0x94] @ '' sidecar dnsmasq config''"

definition dhcp_range_line :: "switch \<Rightarrow> string" where
  "dhcp_range_line sw =
     ''dhcp-range='' @ string_from_ip_int (at_offset sw DHCP_RANGE_LO) @ '','' @
       string_from_ip_int (at_offset sw DHCP_RANGE_HI) @ '','' @ netmask (prefixlen (sw_network sw)) @ '',12h''"

definition service_lines :: "switch \<Rightarrow> sidecar \<Rightarrow> string list" where
  "service_lines sw sc =
     conf_header #
     (if dhcp sc then [''dhcp-leasefile='' @ LEASEFILE, ''dhcp-authoritative'', ''interface='' @ SIDECAR_SWITCH_NIC, ''bind-interfaces'']
      else []) @
     (if \<not> sc_dns sc then [''port=0''] else []) @
     (case sc_addr sc of
        Some a \<Rightarrow> if sc_dns sc \<and> dns a \<noteq> [] then ''no-resolv'' # map (\<lambda>s. ''server='' @ s) (dns a) else []
      | None \<Rightarrow> []) @
     (if dhcp sc then
        [dhcp_range_line sw,
         if nat_flag sc then ''dhcp-option=option:router,'' @ sidecar_ip sw else ''dhcp-option=3'',
         if sc_dns sc then ''dhcp-option=option:dns-server,'' @ sidecar_ip sw else ''dhcp-option=6'']
      else []) @
     (if sc_dns sc \<and> networks sw \<noteq> [] then [''domain='' @ nw_name (last (networks sw)) @ '','' @ cidr sw] else [])"

definition nic_line :: "switch \<Rightarrow> sidecar \<Rightarrow> (name \<Rightarrow> nat \<Rightarrow> string) \<Rightarrow> name \<times> nat \<times> device \<Rightarrow> string option" where
  "nic_line sw sc mac_for = (\<lambda>(vm, idx, nic).
     let net = handle_str (nic_network nic) in
     if net \<notin> nw_name ` set (networks sw) then None
     else case nic_addr nic of
         Some (StaticAddr sa) \<Rightarrow> if sc_dns sc then Some (''host-record='' @ vm @ ''.'' @ net @ '','' @ host sa) else None
       | Some DHCPAddr \<Rightarrow> if dhcp sc then Some (''dhcp-host='' @ mac_for vm idx @ '','' @ vm) else None
       | None \<Rightarrow> None)"

definition dnsmasq_lines :: "switch \<Rightarrow> ('b, 'c) vm_recipe list \<Rightarrow> (name \<Rightarrow> nat \<Rightarrow> string) \<Rightarrow> string list result" where
  "dnsmasq_lines sw vms mac_for =
     bindR (sidecar_of sw) (\<lambda>sc.
     Inr (service_lines sw sc @ List.map_filter (nic_line sw sc mac_for) (nic_slots vms)))"

definition render_dnsmasq_conf :: "switch \<Rightarrow> ('b, 'c) vm_recipe list \<Rightarrow> (name \<Rightarrow> nat \<Rightarrow> string) \<Rightarrow> string result" where
  "render_dnsmasq_conf sw vms mac_for =
     bindR (dnsmasq_lines sw vms mac_for) (\<lambda>ls. Inr (join newline ls @ newline))"

definition render_nftables_ruleset :: "switch \<Rightarrow> string result" where
  "render_nftables_ruleset sw =
     bindR (sidecar_of sw) (\<lambda>sc.
     Inr (if \<not> nat_flag sc then ''flush ruleset'' @ newline
       else concat (map (\<lambda>l. l @ newline)
         [''flush ruleset'', ''table ip nat {'', ''    chain postrouting {'',
          ''        type nat hook postrouting priority srcnat;'',
          ''        oifname '' @ [CHR 0x22] @ SIDECAR_UPLINK_NIC @ [CHR 0x22] @ '' masquerade'', ''    }'', ''}''])))"

definition render_sysctl_conf :: "switch \<Rightarrow> string result" where
  "render_sysctl_conf sw =
     bindR (sidecar_of sw) (\<lambda>sc. Inr (if nat_flag sc then ''net.ipv4.ip_forward=1'' @ newline else []))"

subsection \<open>Leases\<close>

definition add_lease :: "string \<Rightarrow> (string, string) dict \<Rightarrow> (string, string) dict" where
  "add_lease line leases =
     (case split_ws line of
        expiry # mac # ip # rest \<Rightarrow>
          if CHR '':'' \<in> set mac \<and> CHR ''.'' \<in> set ip then AList.update (lower mac) ip leases else leases
      | _ \<Rightarrow> leases)"

definition parse_dnsmasq_leases :: "string \<Rightarrow> (string, string) dict" where
  "parse_dnsmasq_leases text = fold add_lease (splitlines text) []"

subsection \<open>Lemmas\<close>

text \<open>Text that neither ends a line nor splits a field.\<close>

definition inert :: "string \<Rightarrow> bool" where
  "inert s \<longleftrightarrow> CHR 0x0A \<notin> set s \<and> CHR '','' \<notin> set s"

lemma inert_append: "inert (s @ t) \<longleftrightarrow> inert s \<and> inert t"
  by (auto simp: inert_def)

lemma inert_name: "SAFE_NAME n \<Longrightarrow> inert n"
  using SAFE_NAME_chars [of n] name_rest_excludes by (auto simp: inert_def list_all_iff)

lemma inert_digits: "list_all is_digit s \<Longrightarrow> inert s"
  by (auto simp: inert_def list_all_iff is_digit_def less_eq_char_def)

lemma inert_ip [simp]: "inert (string_from_ip_int a)"
  using inert_digits [OF string_of_nat_digits] by (auto simp: string_from_ip_int_def octets_def inert_append) (simp_all add: inert_def)

lemma inert_ips [simp]: "inert (host sa)" "inert (netmask p)" "inert (sidecar_ip sw)" "inert (string_of_nat k)"
  using inert_digits [OF string_of_nat_digits] by (simp_all add: host_def netmask_def sidecar_ip_def)

lemma make_netmask_inert: "make_netmask m = Some p \<Longrightarrow> inert m"
  by (auto simp: make_netmask_def prefix_from_prefix_string_def prefix_from_ip_string_def
      split: option.splits if_splits dest!: ip_int_from_string_Some intro: inert_digits)

lemma split_addr_prefix_inert:
  assumes "split_addr_prefix s = Some q"
  shows "inert s"
proof -
  have "s = join ''/'' (split_on (CHR ''/'') s)" by (simp add: join_split_on)
  moreover have "inert (join ''/'' (split_on (CHR ''/'') s))"
    using assms by (auto simp: split_addr_prefix_def inert_append split: list.splits option.splits
        dest!: ip_int_from_string_Some make_netmask_inert) (simp_all add: inert_def)
  ultimately show ?thesis by simp
qed

lemma inert_cidr: "switch_ok sw \<Longrightarrow> inert (cidr sw)"
  by (auto simp: switch_ok_def IPv4Network_def split: option.splits dest: split_addr_prefix_inert)

lemma inert_dns: "mk_StaticAddr x g ds = Inr a \<Longrightarrow> d \<in> set (dns a) \<Longrightarrow> inert d"
  by (fastforce simp: mk_StaticAddr_def result_simps IPv4Address_iff)

lemma no_newline_literals:
  "CHR 0x0A \<notin> set conf_header" "CHR 0x0A \<notin> set LEASEFILE" "CHR 0x0A \<notin> set SIDECAR_SWITCH_NIC"
  by (simp_all add: conf_header_def LEASEFILE_def SIDECAR_SWITCH_NIC_def)

lemma no_newline: "inert s \<Longrightarrow> CHR 0x0A \<notin> set s"
  by (simp add: inert_def)

lemma service_lines_no_newline:
  assumes "switch_ok sw" and "\<forall>n \<in> set (networks sw). SAFE_NAME (nw_name n)"
    and "\<forall>a. sc_addr sc = Some a \<longrightarrow> (\<exists>x g ds. mk_StaticAddr x g ds = Inr a)" and "l \<in> set (service_lines sw sc)"
  shows "CHR 0x0A \<notin> set l"
proof -
  have dom: "inert (nw_name (last (networks sw)))" if "networks sw \<noteq> []" using that assms(2) inert_name by simp
  have srv: "CHR 0x0A \<notin> set d" if "Some a = sc_addr sc" "d \<in> set (dns a)" for a d
    using that assms(3) inert_dns no_newline by metis
  note nn = no_newline [OF inert_ip] no_newline [OF inert_ips(2)] no_newline [OF inert_ips(3)] no_newline [OF inert_cidr [OF assms(1)]]
  show ?thesis
    using assms(4) dom srv nn no_newline_literals
    by (auto simp: service_lines_def dhcp_range_line_def dest!: no_newline split: if_splits option.splits)
qed

lemma nic_line_fields:
  assumes "nic_line sw sc mac_for (vm, idx, nic) = Some l" and "SAFE_NAME vm" and "inert (mac_for vm idx)"
    and "\<forall>n \<in> set (networks sw). SAFE_NAME (nw_name n)"
  shows "CHR 0x0A \<notin> set l \<and> length (split_on (CHR '','') l) = 2"
proof -
  let ?net = "handle_str (nic_network nic)"
  have net: "inert ?net" using assms(1,4) inert_name by (auto simp: nic_line_def Let_def split: if_splits)
  have two: "CHR 0x0A \<notin> set (s @ '','' @ t) \<and> length (split_on (CHR '','') (s @ '','' @ t)) = 2" if "inert s" "inert t" for s t
    using that by (simp add: inert_def split_on_append_sep split_on_no_sep)
  consider sa where "l = (''host-record='' @ vm @ ''.'' @ ?net) @ '','' @ host sa"
    | "l = (''dhcp-host='' @ mac_for vm idx) @ '','' @ vm"
    using assms(1) by (auto simp: nic_line_def Let_def split: if_splits option.splits addr_mode.splits)
  then show ?thesis
  proof cases
    case 1
    have "inert (''host-record='' @ vm @ ''.'' @ ?net)"
      unfolding inert_append using net inert_name [OF assms(2)] by (simp add: inert_def)
    then show ?thesis unfolding 1 by (rule two) simp
  next
    case 2
    have "inert (''dhcp-host='' @ mac_for vm idx)"
      unfolding inert_append using assms(3) by (simp add: inert_def)
    then show ?thesis unfolding 2 by (rule two) (rule inert_name [OF assms(2)])
  qed
qed

lemma nic_slots_vm: "(vm, i, nic) \<in> set (nic_slots vms) \<Longrightarrow> vm \<in> vr_name ` set vms"
  by (auto simp: nic_slots_def)

text \<open>On a validated plan the network labels of a switch resolve to that switch.\<close>

lemma map_of_concat_distinct:
  assumes "distinct (concat (map (\<lambda>x. map k (f x)) xs))" and "x \<in> set xs" and "n \<in> set (f x)"
  shows "map_of (concat (map (\<lambda>x. map (\<lambda>n. (k n, x)) (f x)) xs)) (k n) = Some x"
proof (rule map_of_is_SomeI)
  show "distinct (map fst (concat (map (\<lambda>x. map (\<lambda>n. (k n, x)) (f x)) xs)))"
    using assms(1) by (simp add: map_concat comp_def)
qed (use assms(2,3) in auto)

lemma switch_for_own:
  "distinct (all_nets switches) \<Longrightarrow> sw \<in> set switches \<Longrightarrow> n \<in> nw_name ` set (networks sw) \<Longrightarrow>
     map_of (switch_for switches) n = Some sw"
  unfolding switch_for_def all_nets_def by (auto intro: map_of_concat_distinct)

lemma accepted_static_free:
  assumes "validate_hypervisor_plan switches pools vms = Inr ()" and "\<forall>sw \<in> set switches. switch_ok sw"
    and "sw \<in> set switches" and "(vm, i, nic) \<in> set (nic_slots vms)"
    and "handle_str (nic_network nic) \<in> nw_name ` set (networks sw)" and "nic_addr nic = Some (StaticAddr sa)"
  shows "address_free sw sa"
proof -
  have v: "distinct (all_nets switches)" "validate_addressing switches vms = Inr ()"
    using assms(1) by (simp_all add: validate_hypervisor_plan_Inr)
  then have "slot_good (switch_for switches) (vm, i, nic)" using assms(4) unfolding addressing_accepts by blast
  then show ?thesis
    using switch_for_own [OF v(1) assms(3,5)] assms(6) unfolding slot_good_iff [OF assms(2)] by auto
qed

subsection \<open>Properties\<close>

text \<open>C11: nothing in a validated plan can break a directive of the sidecar's \<^verbatim>\<open>dnsmasq.conf\<close>. The file
  the renderer produces is, line for line, the list of directives it means to produce (no interpolated name,
  address or MAC starts a line of its own), and every per-VM directive has exactly two comma-separated fields.\<close>

theorem dnsmasq_conf_has_no_injection:
  assumes "validate_hypervisor_plan switches pools vms = Inr ()" and "sw \<in> set switches" and "switch_ok sw"
    and "sw_sidecar sw = Some sc" and "\<forall>a. sc_addr sc = Some a \<longrightarrow> (\<exists>x g ds. mk_StaticAddr x g ds = Inr a)"
    and "\<forall>v i. inert (mac_for v i)"
  shows "\<exists>nic_lines text. render_dnsmasq_conf sw vms mac_for = Inr text \<and>
    split_on (CHR 0x0A) text = service_lines sw sc @ nic_lines @ [[]] \<and>
    nic_lines = List.map_filter (nic_line sw sc mac_for) (nic_slots vms) \<and>
    (\<forall>l \<in> set nic_lines. length (split_on (CHR '','') l) = 2)"
proof -
  let ?ls = "List.map_filter (nic_line sw sc mac_for) (nic_slots vms)"
  let ?all = "service_lines sw sc @ ?ls"
  have nets: "\<forall>n \<in> set (networks sw). SAFE_NAME (nw_name n)"
    using assms(1,2) by (auto simp: validate_hypervisor_plan_Inr user_name_def all_nets_def)
  have vms: "\<forall>r \<in> set vms. SAFE_NAME (vr_name r)"
    using assms(1) by (auto simp: validate_hypervisor_plan_Inr validate_vm_plan_Inr user_name_def)
  have nic: "CHR 0x0A \<notin> set l \<and> length (split_on (CHR '','') l) = 2" if l: "l \<in> set ?ls" for l
  proof -
    from l obtain vm i nic where n: "(vm, i, nic) \<in> set (nic_slots vms)" "nic_line sw sc mac_for (vm, i, nic) = Some l"
      by (auto simp: List.map_filter_def)
    from nic_slots_vm [OF n(1)] vms have "SAFE_NAME vm" by blast
    from nic_line_fields [OF n(2) this _ nets] assms(6) show ?thesis by blast
  qed
  have "\<forall>l \<in> set ?all. CHR 0x0A \<notin> set l"
    using service_lines_no_newline [OF assms(3) nets assms(5)] nic by (simp add: ball_Un)
  then have "split_on (CHR 0x0A) (join [CHR 0x0A] (?all @ [[]])) = ?all @ [[]]"
    by (intro split_on_join) (simp_all add: ball_Un)
  moreover have "?all \<noteq> []" by (simp add: service_lines_def)
  ultimately have "split_on (CHR 0x0A) (join newline ?all @ newline) = ?all @ [[]]"
    unfolding newline_def using join_snoc_Nil [of ?all "[CHR 0x0A]"] by (simp del: append_assoc)
  moreover have "render_dnsmasq_conf sw vms mac_for = Inr (join newline ?all @ newline)"
    by (simp add: render_dnsmasq_conf_def dnsmasq_lines_def sidecar_of_def assms(4))
  ultimately show ?thesis using nic by auto
qed

text \<open>C12: a lease can never collide with a static address. On a validated plan, when the sidecar serves
  DHCP the configuration holds the \<^verbatim>\<open>dhcp-range\<close> directive of the switch; the whole pool lies strictly inside the subnet, above
  the sidecar's and the management adapter's addresses, and no NIC on the switch has a static
  address in it.\<close>

theorem dhcp_pool_never_collides:
  assumes "validate_hypervisor_plan switches pools vms = Inr ()" and "\<forall>sw \<in> set switches. switch_ok sw"
    and "sw \<in> set switches" and "sw_sidecar sw = Some sc" and "dhcp sc"
    and "dnsmasq_lines sw vms mac_for = Inr ls"
  defines "lo \<equiv> at_offset sw DHCP_RANGE_LO" and "hi \<equiv> at_offset sw DHCP_RANGE_HI"
  shows "''dhcp-range='' @ string_from_ip_int lo @ '','' @ string_from_ip_int hi @ '','' @
      netmask (prefixlen (sw_network sw)) @ '',12h'' \<in> set ls \<and>
    at_offset sw SIDECAR_OFFSET < lo \<and> at_offset sw MGMT_OFFSET < lo \<and> lo \<le> hi \<and> hi < broadcast_address (sw_network sw) \<and>
    (\<forall>(vm, i, nic) \<in> set (nic_slots vms). \<forall>sa a.
       handle_str (nic_network nic) \<in> nw_name ` set (networks sw) \<and> nic_addr nic = Some (StaticAddr sa) \<and>
       IPv4Address (host sa) = Some a \<longrightarrow> \<not> (lo \<le> a \<and> a \<le> hi))"
proof -
  have ok: "switch_ok sw" using assms(2,3) by blast
  have "dhcp_range_line sw \<in> set ls"
    using assms(4,5,6) by (auto simp: dnsmasq_lines_def sidecar_of_def service_lines_def)
  moreover have "at_offset sw SIDECAR_OFFSET < lo" "at_offset sw MGMT_OFFSET < lo" "lo \<le> hi"
    by (simp_all add: lo_def hi_def at_offset_eq [OF ok] layout_defs)
  moreover have "hi < broadcast_address (sw_network sw)"
    using at_offset_in(3) [OF ok, of DHCP_RANGE_HI] by (simp add: hi_def layout_defs)
  moreover have "\<not> (lo \<le> a \<and> a \<le> hi)"
    if "(vm, i, nic) \<in> set (nic_slots vms)" "handle_str (nic_network nic) \<in> nw_name ` set (networks sw)"
      "nic_addr nic = Some (StaticAddr sa)" "IPv4Address (host sa) = Some a" for vm i nic sa a
    using accepted_static_free [OF assms(1,2,3) that(1,2,3)] that(4) assms(4,5)
    by (auto simp: address_free_def serves_dhcp_def lo_def hi_def)
  ultimately show ?thesis unfolding dhcp_range_line_def lo_def [symmetric] hi_def [symmetric] by blast
qed

theorem dnsmasq_conf_has_no_injection_witness:
  "\<exists>text. render_dnsmasq_conf sample_switch [sample_vm ''192.168.10.100''] (\<lambda>_ _. ''52:54:00:00:00:01'') = Inr text \<and>
     ''host-record=web.a,192.168.10.100'' \<in> set (split_on (CHR 0x0A) text)"
proof -
  have v: "validate_hypervisor_plan [sample_switch] [\<lparr>sp_name = ''p'', sp_size_gb = 8\<rparr>] [sample_vm ''192.168.10.100''] = Inr ()" by code_simp
  have sc: "sw_sidecar sample_switch = Some \<lparr>dhcp = True, sc_dns = True, nat_flag = False, sc_addr = None\<rparr>"
    by (simp add: sample_switch_def)
  have m: "\<forall>v i. inert ((\<lambda>_ _. ''52:54:00:00:00:01'') v i)" by (simp add: inert_def)
  obtain nic_lines out where t: "render_dnsmasq_conf sample_switch [sample_vm ''192.168.10.100''] (\<lambda>_ _. ''52:54:00:00:00:01'') = Inr out"
    "split_on (CHR 0x0A) out = service_lines sample_switch \<lparr>dhcp = True, sc_dns = True, nat_flag = False, sc_addr = None\<rparr> @ nic_lines @ [[]]"
    "nic_lines = List.map_filter (nic_line sample_switch \<lparr>dhcp = True, sc_dns = True, nat_flag = False, sc_addr = None\<rparr> (\<lambda>_ _. ''52:54:00:00:00:01''))
       (nic_slots [sample_vm ''192.168.10.100''])"
    using dnsmasq_conf_has_no_injection [OF v _ sample_switch_ok sc _ m] by auto
  have "nic_lines = [''host-record=web.a,192.168.10.100'']" unfolding t(3) by code_simp
  with t(1,2) show ?thesis by simp
qed

theorem dhcp_pool_never_collides_witness:
  "\<exists>ls. dnsmasq_lines sample_switch [sample_vm ''192.168.10.100''] (\<lambda>_ _. []) = Inr ls \<and>
     ''dhcp-range=192.168.10.10,192.168.10.99,255.255.255.0,12h'' \<in> set ls"
proof -
  have v: "validate_hypervisor_plan [sample_switch] [\<lparr>sp_name = ''p'', sp_size_gb = 8\<rparr>] [sample_vm ''192.168.10.100''] = Inr ()" by code_simp
  have sc: "sw_sidecar sample_switch = Some \<lparr>dhcp = True, sc_dns = True, nat_flag = False, sc_addr = None\<rparr>"
    by (simp add: sample_switch_def)
  obtain ls where ls: "dnsmasq_lines sample_switch [sample_vm ''192.168.10.100''] (\<lambda>_ _. []) = Inr ls"
    by (simp add: dnsmasq_lines_def sidecar_of_def sc)
  have e: "''dhcp-range='' @ string_from_ip_int (at_offset sample_switch DHCP_RANGE_LO) @ '','' @
      string_from_ip_int (at_offset sample_switch DHCP_RANGE_HI) @ '','' @ netmask (prefixlen (sw_network sample_switch)) @ '',12h'' =
      ''dhcp-range=192.168.10.10,192.168.10.99,255.255.255.0,12h''" by code_simp
  have "''dhcp-range='' @ string_from_ip_int (at_offset sample_switch DHCP_RANGE_LO) @ '','' @
      string_from_ip_int (at_offset sample_switch DHCP_RANGE_HI) @ '','' @ netmask (prefixlen (sw_network sample_switch)) @ '',12h'' \<in> set ls"
    using dhcp_pool_never_collides [OF v _ _ sc _ ls] sample_switch_ok by simp
  with ls show ?thesis unfolding e by blast
qed

definition lease_line :: "(string \<times> string \<times> string \<times> string \<times> string) option \<Rightarrow> string" where
  "lease_line l = (case l of None \<Rightarrow> [] | Some (e, m, ip, h, c) \<Rightarrow> e @ '' '' @ m @ '' '' @ ip @ '' '' @ h @ '' '' @ c)"

definition token :: "string \<Rightarrow> bool" where
  "token s \<longleftrightarrow> s \<noteq> [] \<and> list_all (\<lambda>c. \<not> is_space c) s"

definition lease_ok :: "(string \<times> string \<times> string \<times> string \<times> string) option \<Rightarrow> bool" where
  "lease_ok l = (case l of None \<Rightarrow> True
     | Some (e, m, ip, h, c) \<Rightarrow> token e \<and> token m \<and> token ip \<and> token h \<and> token c \<and> CHR '':'' \<in> set m \<and> CHR ''.'' \<in> set ip)"

definition lease_pair :: "(string \<times> string \<times> string \<times> string \<times> string) option \<Rightarrow> (string \<times> string) option" where
  "lease_pair l = map_option (\<lambda>(e, m, ip, h, c). (lower m, ip)) l"

lemma lease_line_one_line: "lease_ok l \<Longrightarrow> list_all (\<lambda>c. \<not> is_linebreak c) (lease_line l)"
  by (auto simp: lease_ok_def lease_line_def token_def list_all_iff is_linebreak_def is_space_def split: option.splits)

lemma add_lease_line:
  "lease_ok l \<Longrightarrow> map_of (add_lease (lease_line l) d) = (case lease_pair l of None \<Rightarrow> map_of d | Some (k, v) \<Rightarrow> (map_of d)(k \<mapsto> v))"
  by (auto simp: lease_ok_def lease_line_def lease_pair_def token_def add_lease_def split_ws_Cons split_ws_word update_conv'
      split: option.splits) (simp_all add: split_ws_def)

lemma splitlines_leases:
  "list_all lease_ok ls \<Longrightarrow> splitlines (concat (map (\<lambda>l. lease_line l @ newline) ls)) = map lease_line ls"
  by (induction ls) (simp_all add: splitlines_line lease_line_one_line, simp add: splitlines_def)

lemma fold_leases:
  "list_all lease_ok ls \<Longrightarrow> map_of (fold add_lease (map lease_line ls) d) = map_of (rev (List.map_filter lease_pair ls) @ d)"
  by (induction ls arbitrary: d) (auto simp: List.map_filter_simps add_lease_line fun_eq_iff map_add_def split: option.splits)


text \<open>The lease parser reads back what dnsmasq writes. For a lease file whose lines are leases (four blanks
  between five non-blank fields, the second a MAC with a colon, the third an address with a dot) and blank
  lines in any mix, the address found for a MAC is that of its last lease, whatever the case the
  MAC was written in.\<close>

theorem leases_roundtrip:
  assumes "list_all lease_ok ls"
  shows "map_of (parse_dnsmasq_leases (concat (map (\<lambda>l. lease_line l @ newline) ls))) m =
    map_of (rev (List.map_filter lease_pair ls)) m"
  unfolding parse_dnsmasq_leases_def splitlines_leases [OF assms] fold_leases [OF assms] by simp

theorem leases_roundtrip_witness:
  "map_of (parse_dnsmasq_leases (''1 AA:b 10.0.0.9 web *'' @ newline @ newline @ ''2 aa:B 10.0.0.7 web *'' @ newline)) ''aa:b'' = Some ''10.0.0.7''"
proof -
  let ?ls = "[Some (''1'', ''AA:b'', ''10.0.0.9'', ''web'', ''*''), None, Some (''2'', ''aa:B'', ''10.0.0.7'', ''web'', ''*'')]"
  have "list_all lease_ok ?ls" "map_of (rev (List.map_filter lease_pair ?ls)) ''aa:b'' = Some ''10.0.0.7''" by code_simp+
  from leases_roundtrip [OF this(1), of "''aa:b''"] this(2) show ?thesis by (simp add: lease_line_def newline_def)
qed

end
