(* ===== verification/Driver_Naming.thy ===== *)
theory Driver_Naming
  imports Names
begin

text \<open>
  The pure naming functions of the libvirt, Proxmox and ESXi drivers
  (\<^verbatim>\<open>drivers/libvirt/_naming.py\<close>, \<^verbatim>\<open>drivers/proxmox/_naming.py\<close>, \<^verbatim>\<open>drivers/esxi/_naming.py\<close>). The digests of
  \<^verbatim>\<open>hashlib\<close> are arguments: functions from the encoded text to a list of bytes.
\<close>

subsection \<open>Regular expression substitution\<close>

text \<open>\<^verbatim>\<open>re.compile("[^...]+").sub("-", s)\<close>: every maximal run of characters outside the class becomes one
  hyphen.\<close>

function sub_runs :: "(char \<Rightarrow> bool) \<Rightarrow> string \<Rightarrow> string" where
  "sub_runs ok [] = []"
| "sub_runs ok (c # cs) = (if ok c then c # sub_runs ok cs else CHR ''-'' # sub_runs ok (dropWhile (\<lambda>x. \<not> ok x) cs))"
  by pat_completeness auto

termination sub_runs
  by (relation "measure (length \<circ> snd)") (auto simp: le_imp_less_Suc length_dropWhile_le)

definition strip_dash :: "string \<Rightarrow> string" where
  "strip_dash s = rev (dropWhile (\<lambda>c. c = CHR ''-'') (rev (dropWhile (\<lambda>c. c = CHR ''-'') s)))"

text \<open>\<^verbatim>\<open>re.sub(r"-{2,}", "-", s)\<close>.\<close>

fun squeeze :: "string \<Rightarrow> string" where
  "squeeze (a # b # s) = (if a = CHR ''-'' \<and> b = CHR ''-'' then squeeze (b # s) else a # squeeze (b # s))"
| "squeeze s = s"

definition hex_digit :: "nat \<Rightarrow> char" where
  "hex_digit n = (if n < 10 then char_of (48 + n) else char_of (87 + n))"

definition hex2 :: "nat \<Rightarrow> string" where
  "hex2 b = [hex_digit (b div 16 mod 16), hex_digit (b mod 16)]"

definition hexdigest :: "(string \<Rightarrow> nat list) \<Rightarrow> string \<Rightarrow> string" where
  "hexdigest sha s = concat (map hex2 (sha s))"

definition or_x :: "string \<Rightarrow> string" where
  "or_x s = (if s = [] then ''x'' else s)"

definition HASH_SUFFIX_LEN :: nat where "HASH_SUFFIX_LEN = 6"

text \<open>The common tail of the three sanitisers: \<open>reference\<close> is what the cleaned text is
  compared with.\<close>

definition with_hash :: "(string \<Rightarrow> nat list) \<Rightarrow> nat \<Rightarrow> string \<Rightarrow> string \<Rightarrow> string \<Rightarrow> string" where
  "with_hash sha limit value reference cleaned =
     (if cleaned \<noteq> reference \<or> length cleaned > limit
      then let suffix = take HASH_SUFFIX_LEN (hexdigest sha value) in
           take (limit - length suffix - 1) cleaned @ ''-'' @ suffix
      else cleaned)"

subsection \<open>libvirt\<close>

definition lv_char :: "char \<Rightarrow> bool" where
  "lv_char c \<longleftrightarrow> is_alnum c \<or> c \<in> set ''_.-''"

definition LV_NAME_MAX :: nat where "LV_NAME_MAX = 60"

definition lv_name :: "(string \<Rightarrow> nat list) \<Rightarrow> string \<Rightarrow> string" where
  "lv_name sha value =
     with_hash sha LV_NAME_MAX value value (squeeze (or_x (strip_dash (sub_runs lv_char value))))"

definition raw_name :: "name \<Rightarrow> string \<Rightarrow> name \<Rightarrow> name" where
  "raw_name run_id kind n = ''tr-'' @ kind @ ''-'' @ take 8 run_id @ ''-'' @ n"

definition lv_compose_resource_name :: "(string \<Rightarrow> nat list) \<Rightarrow> name \<Rightarrow> string \<Rightarrow> name \<Rightarrow> name" where
  "lv_compose_resource_name sha run_id kind n = lv_name sha (raw_name run_id kind n)"

definition bridge_name :: "(string \<Rightarrow> nat list) \<Rightarrow> name \<Rightarrow> name" where
  "bridge_name sha n = ''trb-'' @ take 10 (hexdigest sha n)"

definition mac_seed :: "name \<Rightarrow> name \<Rightarrow> int \<Rightarrow> string" where
  "mac_seed plan_name vm_name nic_idx = plan_name @ ''/'' @ vm_name @ ''/'' @ string_of_int nic_idx"

definition mac_text :: "nat list \<Rightarrow> string" where
  "mac_text os = join '':'' (map hex2 os)"

definition lv_compose_mac :: "(string \<Rightarrow> nat list) \<Rightarrow> name \<Rightarrow> name \<Rightarrow> int \<Rightarrow> string" where
  "lv_compose_mac sha plan_name vm_name nic_idx = mac_text (2 # take 5 (sha (mac_seed plan_name vm_name nic_idx)))"

definition lv_compose_volume_ref :: "name \<Rightarrow> name \<Rightarrow> string" where
  "lv_compose_volume_ref pool vol = pool @ ''/'' @ vol"

definition SUFFIXES :: "(string, string) dict" where
  "SUFFIXES = [(''build_disk'', ''.qcow2''), (''run_disk'', ''.qcow2''), (''data_disk'', ''.qcow2''), (''base_image'', ''.qcow2''),
     (''build_seed'', ''.iso''), (''boot_iso'', ''.iso''), (''sidecar_disk'', ''.qcow2''), (''sidecar_config'', ''.iso'')]"

definition suffix_of :: "string \<Rightarrow> string result" where
  "suffix_of kind = (case map_of SUFFIXES kind of None \<Rightarrow> Inl (KeyError [kind]) | Some s \<Rightarrow> Inr s)"

subsection \<open>Proxmox\<close>

definition dns_char :: "char \<Rightarrow> bool" where
  "dns_char c \<longleftrightarrow> is_lower c \<or> is_digit c \<or> c = CHR ''-''"

definition filename_char :: "char \<Rightarrow> bool" where
  "filename_char c \<longleftrightarrow> is_alnum c \<or> c \<in> set ''._-''"

definition PVE_NAME_MAX :: nat where "PVE_NAME_MAX = 60"

definition pve_name :: "(string \<Rightarrow> nat list) \<Rightarrow> string \<Rightarrow> string" where
  "pve_name sha value =
     with_hash sha PVE_NAME_MAX value (lower value) (or_x (squeeze (strip_dash (sub_runs dns_char (lower value)))))"

definition pve_compose_resource_name :: "(string \<Rightarrow> nat list) \<Rightarrow> name \<Rightarrow> string \<Rightarrow> name \<Rightarrow> name" where
  "pve_compose_resource_name sha run_id kind n = pve_name sha (raw_name run_id kind n)"

definition pve_compose_mac :: "(string \<Rightarrow> nat list) \<Rightarrow> name \<Rightarrow> name \<Rightarrow> int \<Rightarrow> string" where
  "pve_compose_mac sha plan_name vm_name nic_idx = mac_text (2 # take 5 (sha (mac_seed plan_name vm_name nic_idx)))"

definition endswith :: "string \<Rightarrow> string \<Rightarrow> bool" where
  "endswith s t \<longleftrightarrow> startswith (rev s) (rev t)"

definition pve_compose_volume_ref :: "name \<Rightarrow> name \<Rightarrow> name \<Rightarrow> string" where
  "pve_compose_volume_ref storage pool vol =
     storage @ '':'' @ (if endswith vol ''.iso'' then ''iso'' else ''import'') @ ''/'' @
       sub_runs filename_char (pool @ ''__'' @ vol)"

definition vnet_id :: "(string \<Rightarrow> nat list) \<Rightarrow> name \<Rightarrow> name" where
  "vnet_id sha1 n = ''v'' @ take 7 (hexdigest sha1 n)"

text \<open>\<^verbatim>\<open>s.split(sep, 1)\<close> as an option: the parts before and after the first occurrence.\<close>

fun split_first :: "string \<Rightarrow> string \<Rightarrow> (string \<times> string) option" where
  "split_first sep [] = (if sep = [] then Some ([], []) else None)"
| "split_first sep (c # s) =
     (if startswith (c # s) sep then Some ([], drop (length sep) (c # s))
      else map_option (\<lambda>(a, b). (c # a, b)) (split_first sep s))"

definition parse_disk_ref :: "string \<Rightarrow> (name \<times> name) result" where
  "parse_disk_ref ref =
     (case split_first '':'' ref of
        None \<Rightarrow> Inl (IndexError [])
      | Some (_, rest) \<Rightarrow>
          (case split_first ''/'' rest of
             None \<Rightarrow> Inl (IndexError [])
           | Some (_, filename) \<Rightarrow>
               (case split_first ''__'' filename of
                  None \<Rightarrow> Inl (ValueError [])
                | Some pv \<Rightarrow> Inr pv)))"

definition volid_relpath :: "string \<Rightarrow> string result" where
  "volid_relpath volid =
     (case split_first '':'' volid of
        None \<Rightarrow> Inl (IndexError [])
      | Some (_, rest) \<Rightarrow>
          (let (head, filename) = (case split_first ''/'' rest of None \<Rightarrow> (rest, []) | Some p \<Rightarrow> p) in
           if head = ''iso'' then Inr (''template/iso/'' @ filename)
           else if head = ''import'' then Inr (''import/'' @ filename)
           else if head \<noteq> [] \<and> list_all is_digit head then Inr (''images/'' @ head @ ''/'' @ filename)
           else Inl (ValueError [volid])))"

text \<open>\<^verbatim>\<open>s.rsplit(".", 1)[0]\<close>.\<close>

definition stem :: "string \<Rightarrow> string" where
  "stem s = (if CHR ''.'' \<in> set s then rev (tl (dropWhile (\<lambda>c. c \<noteq> CHR ''.'') (rev s))) else s)"

definition disk_scsi_index :: "name \<Rightarrow> name \<Rightarrow> nat option" where
  "disk_scsi_index vol vm_backend =
     (let base = stem vol; marker = vm_backend @ ''-data'' in
      if base = vm_backend then Some 0
      else if startswith base marker then
        (let ds = drop (length marker) base in
         if ds \<noteq> [] \<and> list_all is_digit ds then Some (nat_of_digits ds + 1) else None)
      else None)"

subsection \<open>ESXi\<close>

definition ESXI_NAME_MAX :: nat where "ESXI_NAME_MAX = 78"

definition esxi_name :: "(string \<Rightarrow> nat list) \<Rightarrow> string \<Rightarrow> string" where
  "esxi_name sha value =
     with_hash sha ESXI_NAME_MAX value value (or_x (squeeze (strip_dash (sub_runs filename_char value))))"

definition esxi_compose_resource_name :: "(string \<Rightarrow> nat list) \<Rightarrow> name \<Rightarrow> string \<Rightarrow> name \<Rightarrow> name" where
  "esxi_compose_resource_name sha run_id kind n = esxi_name sha (raw_name run_id kind n)"

text \<open>\<^verbatim>\<open>digest[0] & 0x3f\<close> on a byte.\<close>

definition esxi_compose_mac :: "(string \<Rightarrow> nat list) \<Rightarrow> name \<Rightarrow> name \<Rightarrow> int \<Rightarrow> string" where
  "esxi_compose_mac sha plan_name vm_name nic_idx =
     (let d = sha (mac_seed plan_name vm_name nic_idx) in
      mac_text [0, 80, 86, d ! 0 mod 64, d ! 1, d ! 2])"

definition backend_filename :: "name \<Rightarrow> name" where
  "backend_filename vol = (if endswith vol ''.iso'' then vol else stem vol @ ''.vmdk'')"

definition esxi_compose_volume_ref :: "name \<Rightarrow> name \<Rightarrow> name \<Rightarrow> string" where
  "esxi_compose_volume_ref datastore pool vol = ''['' @ datastore @ ''] '' @ pool @ ''/'' @ backend_filename vol"

text \<open>\<^verbatim>\<open>^[(ds)] +(path)$\<close>: the bracketed part is the text up to the first closing bracket, then at least one
  white space, then a non-empty path of one line (a final line feed may follow it and is not part of it). When
  only white space follows, the match backtracks and the path is its last character.\<close>

definition parse_volume_ref :: "string \<Rightarrow> (name \<times> string) result" where
  "parse_volume_ref ref =
     (case ref of
        [] \<Rightarrow> Inl (ValueError [ref])
      | c # s \<Rightarrow>
          if c \<noteq> CHR ''['' then Inl (ValueError [ref])
          else case split_first '']'' s of
              None \<Rightarrow> Inl (ValueError [ref])
            | Some (ds, rest) \<Rightarrow>
                (let line = (if rest \<noteq> [] \<and> last rest = CHR 0x0A then butlast rest else rest);
                     path = dropWhile is_space line;
                     body = (if path = [] \<and> 2 \<le> length line then [last line] else path) in
                 if ds = [] \<or> line = path \<or> body = [] \<or> CHR 0x0A \<in> set body then Inl (ValueError [ref])
                 else Inr (ds, body)))"

definition ref_dir :: "string \<Rightarrow> string result" where
  "ref_dir ref =
     bindR (parse_volume_ref ref) (\<lambda>(_, path).
     Inr (if CHR ''/'' \<in> set path then rev (tl (dropWhile (\<lambda>c. c \<noteq> CHR ''/'') (rev path))) else []))"

definition short :: "(string \<Rightarrow> nat list) \<Rightarrow> string \<Rightarrow> string \<Rightarrow> string" where
  "short sha1 prefix value = prefix @ take 8 (hexdigest sha1 value)"

definition vswitch_name :: "(string \<Rightarrow> nat list) \<Rightarrow> name \<Rightarrow> name" where "vswitch_name sha1 = short sha1 ''trs-''"
definition portgroup_name :: "(string \<Rightarrow> nat list) \<Rightarrow> name \<Rightarrow> name" where "portgroup_name sha1 = short sha1 ''trp-''"
definition mgmt_portgroup_name :: "(string \<Rightarrow> nat list) \<Rightarrow> name \<Rightarrow> name" where "mgmt_portgroup_name sha1 = short sha1 ''trm-''"
definition uplink_vswitch_name :: "(string \<Rightarrow> nat list) \<Rightarrow> name \<Rightarrow> name" where "uplink_vswitch_name sha1 = short sha1 ''tru-''"
definition uplink_portgroup_name :: "(string \<Rightarrow> nat list) \<Rightarrow> name \<Rightarrow> name" where "uplink_portgroup_name sha1 = short sha1 ''trx-''"

subsection \<open>Lemmas\<close>

lemma sub_runs_class: "ok (CHR ''-'') \<Longrightarrow> list_all ok (sub_runs ok s)"
  by (induction ok s rule: sub_runs.induct) auto

lemma sub_runs_id: "list_all ok s \<Longrightarrow> sub_runs ok s = s"
  by (induction s) auto

lemma list_all_dropWhile: "list_all P s \<Longrightarrow> list_all P (dropWhile Q s)"
  by (auto simp: list_all_iff dest: set_dropWhileD)

lemma strip_dash_class: "list_all ok s \<Longrightarrow> list_all ok (strip_dash s)"
  by (simp add: strip_dash_def list_all_dropWhile)

lemma squeeze_class: "list_all ok s \<Longrightarrow> list_all ok (squeeze s)"
  by (induction s rule: squeeze.induct) auto

lemma squeeze_neq_Nil [simp]: "squeeze s = [] \<longleftrightarrow> s = []"
  by (induction s rule: squeeze.induct) auto

lemma or_x_class: "list_all ok s \<Longrightarrow> ok (CHR ''x'') \<Longrightarrow> list_all ok (or_x s)"
  by (simp add: or_x_def)

lemma hex_digit_class: "n < 16 \<Longrightarrow> is_lower (hex_digit n) \<or> is_digit (hex_digit n)"
proof -
  assume n: "n < 16"
  have "\<forall>n \<in> set [0..<16]. is_lower (hex_digit n) \<or> is_digit (hex_digit n)" by code_simp
  with n show ?thesis by simp
qed

lemma hexdigest_class: "(\<And>c. is_lower c \<or> is_digit c \<Longrightarrow> ok c) \<Longrightarrow> list_all ok (hexdigest sha s)"
  using hex_digit_class by (auto simp: hexdigest_def hex2_def list_all_iff)

lemma with_hash_fits:
  assumes "list_all ok c" and "\<And>c. is_lower c \<or> is_digit c \<or> c = CHR ''-'' \<Longrightarrow> ok c" and "c \<noteq> []" and "8 \<le> limit"
  shows "length (with_hash sha limit v r c) \<le> limit \<and> list_all ok (with_hash sha limit v r c) \<and> with_hash sha limit v r c \<noteq> []"
proof -
  have "list_all ok (take k (hexdigest sha v))" for k
    using hexdigest_class [of ok sha v] assms(2) by (auto simp: list_all_iff dest: in_set_takeD)
  moreover have "list_all ok (take k c)" for k using assms(1) by (auto simp: list_all_iff dest: in_set_takeD)
  ultimately show ?thesis
    using assms(1,2,3,4) by (auto simp: with_hash_def Let_def HASH_SUFFIX_LEN_def)
qed

lemma or_x_neq_Nil [simp]: "or_x s \<noteq> []"
  by (simp add: or_x_def)

lemma name_classes:
  "lv_char (CHR ''-'')" "lv_char (CHR ''x'')" "dns_char (CHR ''-'')" "dns_char (CHR ''x'')" "filename_char (CHR ''-'')" "filename_char (CHR ''x'')"
  by code_simp+

lemma lower_digit_classes:
  assumes "is_lower c \<or> is_digit c \<or> c = CHR ''-''"
  shows "lv_char c" "dns_char c" "filename_char c"
  using assms by (auto simp: lv_char_def dns_char_def filename_char_def is_alnum_def is_alpha_def)

lemma split_first_append:
  assumes "c \<notin> set a"
  shows "split_first (c # sep) (a @ (c # sep) @ b) = Some (a, b)"
  using assms by (induction a) (auto simp: startswith_def)

lemma startswith_filename: "list_all filename_char s \<Longrightarrow> CHR '':'' \<notin> set s \<and> CHR ''/'' \<notin> set s \<and> CHR 0x0A \<notin> set s \<and> CHR '' '' \<notin> set s"
proof -
  have "\<not> filename_char (CHR '':'')" "\<not> filename_char (CHR ''/'')" "\<not> filename_char (CHR 0x0A)" "\<not> filename_char (CHR '' '')" by code_simp+
  moreover assume "list_all filename_char s"
  ultimately show ?thesis by (auto simp: list_all_iff)
qed

lemma stem_append: "CHR ''.'' \<notin> set ext \<Longrightarrow> stem (base @ ''.'' @ ext) = base"
  by (simp add: stem_def dropWhile_append)

subsection \<open>Properties\<close>

text \<open>C13: a composed backend name always fits its backend. Whatever the run, kind and plan name (of any
  length and alphabet) and whatever the digest function, the libvirt, Proxmox and ESXi names are not empty, are within the length the
  driver reserves and use only characters the backend accepts.\<close>

theorem backend_names_fit:
  "(length (lv_compose_resource_name sha rid k n) \<le> 60 \<and> list_all lv_char (lv_compose_resource_name sha rid k n) \<and> lv_compose_resource_name sha rid k n \<noteq> []) \<and>
   (length (pve_compose_resource_name sha rid k n) \<le> 60 \<and> list_all dns_char (pve_compose_resource_name sha rid k n) \<and> pve_compose_resource_name sha rid k n \<noteq> []) \<and>
   (length (esxi_compose_resource_name sha rid k n) \<le> 78 \<and> list_all filename_char (esxi_compose_resource_name sha rid k n) \<and> esxi_compose_resource_name sha rid k n \<noteq> [])"
proof (intro conjI)
  note cls = or_x_class squeeze_class strip_dash_class sub_runs_class name_classes
  have "length (lv_name sha v) \<le> 60 \<and> list_all lv_char (lv_name sha v) \<and> lv_name sha v \<noteq> []" for v
    unfolding lv_name_def LV_NAME_MAX_def by (rule with_hash_fits) (simp_all add: cls lower_digit_classes)
  then show "length (lv_compose_resource_name sha rid k n) \<le> 60" "list_all lv_char (lv_compose_resource_name sha rid k n)"
    "lv_compose_resource_name sha rid k n \<noteq> []" by (simp_all add: lv_compose_resource_name_def)
  have "length (pve_name sha v) \<le> 60 \<and> list_all dns_char (pve_name sha v) \<and> pve_name sha v \<noteq> []" for v
    unfolding pve_name_def PVE_NAME_MAX_def by (rule with_hash_fits) (simp_all add: cls lower_digit_classes)
  then show "length (pve_compose_resource_name sha rid k n) \<le> 60" "list_all dns_char (pve_compose_resource_name sha rid k n)"
    "pve_compose_resource_name sha rid k n \<noteq> []" by (simp_all add: pve_compose_resource_name_def)
  have "length (esxi_name sha v) \<le> 78 \<and> list_all filename_char (esxi_name sha v) \<and> esxi_name sha v \<noteq> []" for v
    unfolding esxi_name_def ESXI_NAME_MAX_def by (rule with_hash_fits) (simp_all add: cls lower_digit_classes)
  then show "length (esxi_compose_resource_name sha rid k n) \<le> 78" "list_all filename_char (esxi_compose_resource_name sha rid k n)"
    "esxi_compose_resource_name sha rid k n \<noteq> []" by (simp_all add: esxi_compose_resource_name_def)
qed

text \<open>The Proxmox sanitiser does not keep distinct names distinct. Two VM names that differ in case only, both of them
  valid plan names, get the same backend name, whatever the digest function, because the
  lossy lower-casing is compared with the lower-cased text.\<close>

theorem pve_name_conflates_case:
  "SAFE_NAME ''Web'' \<and> SAFE_NAME ''web'' \<and>
   pve_compose_resource_name sha ''20250101-120000-abcdef'' ''vm'' ''Web'' =
   pve_compose_resource_name sha ''20250101-120000-abcdef'' ''vm'' ''web''"
proof (intro conjI)
  show "SAFE_NAME ''Web''" "SAFE_NAME ''web''" by code_simp+
  let ?clean = "\<lambda>n. or_x (squeeze (strip_dash (sub_runs dns_char (lower (raw_name ''20250101-120000-abcdef'' ''vm'' n)))))"
  have l: "lower (raw_name ''20250101-120000-abcdef'' ''vm'' ''Web'') = ''tr-vm-20250101-web''"
    "lower (raw_name ''20250101-120000-abcdef'' ''vm'' ''web'') = ''tr-vm-20250101-web''" by code_simp+
  have "?clean ''Web'' = ''tr-vm-20250101-web''" "?clean ''web'' = ''tr-vm-20250101-web''" by code_simp+
  with l have "pve_compose_resource_name sha ''20250101-120000-abcdef'' ''vm'' n = ''tr-vm-20250101-web''"
    if "n = ''Web'' \<or> n = ''web''" for n
    using that unfolding pve_compose_resource_name_def pve_name_def with_hash_def PVE_NAME_MAX_def by (elim disjE) (simp_all only:, simp_all)
  then show "pve_compose_resource_name sha ''20250101-120000-abcdef'' ''vm'' ''Web'' =
   pve_compose_resource_name sha ''20250101-120000-abcdef'' ''vm'' ''web''"
    by metis
qed

text \<open>The cleanup walker recovers what it needs from a volume reference alone. Parsing a composed Proxmox reference gives back the
  pool and the volume (for pool names without an underscore, which is what the sanitiser
  produces), parsing an ESXi reference gives back the datastore and the path under it, and the index of a disk is recovered
  from its file name: 0 for the OS disk, \<open>i + 1\<close> for data disk \<open>i\<close>.\<close>

theorem volume_refs_roundtrip:
  assumes "list_all filename_char pool" and "list_all filename_char vol" and "CHR ''_'' \<notin> set pool" and "pool \<noteq> []"
    and "CHR '':'' \<notin> set st" and "st \<noteq> []" and "CHR '']'' \<notin> set st"
  shows "parse_disk_ref (pve_compose_volume_ref st pool vol) = Inr (pool, vol) \<and>
    parse_volume_ref (esxi_compose_volume_ref st pool vol) = Inr (st, pool @ ''/'' @ backend_filename vol) \<and>
    disk_scsi_index (vmb @ ''.qcow2'') vmb = Some 0 \<and>
    disk_scsi_index (vmb @ ''-data'' @ string_of_nat i @ ''.qcow2'') vmb = Some (i + 1)"
proof (intro conjI)
  have f: "sub_runs filename_char (pool @ ''__'' @ vol) = pool @ ''__'' @ vol"
    by (rule sub_runs_id) (use assms in \<open>simp add: filename_char_def\<close>)
  have h: "split_first '':'' (st @ '':'' @ x) = Some (st, x)" for x using split_first_append [of "CHR '':''" st "[]" x] assms(5) by simp
  have c: "CHR ''/'' \<notin> set (if endswith vol ''.iso'' then ''iso'' else ''import'')" by simp
  have "split_first ''__'' (pool @ ''__'' @ vol) = Some (pool, vol)" using split_first_append [OF assms(3), of "''_''" vol] by simp
  with f h split_first_append [OF c, of "[]" "pool @ ''__'' @ vol"]
  show "parse_disk_ref (pve_compose_volume_ref st pool vol) = Inr (pool, vol)"
    unfolding parse_disk_ref_def pve_compose_volume_ref_def by simp
  let ?p = "pool @ ''/'' @ backend_filename vol"
  have bf: "list_all filename_char (backend_filename vol)"
  proof -
    have "list_all filename_char (stem vol)" using assms(2)
      by (auto simp: stem_def list_all_iff dest!: list.set_sel(2) [rotated] set_dropWhileD)
    moreover have "list_all filename_char ''.vmdk''" by code_simp
    ultimately show ?thesis using assms(2) by (simp add: backend_filename_def)
  qed
  have nl: "CHR 0x0A \<notin> set ?p" using startswith_filename [OF assms(1)] startswith_filename [OF bf] by auto
  have ns: "\<not> is_space (hd pool)"
  proof -
    have "filename_char (hd pool)" using assms(1,4) by (cases pool) auto
    moreover have "\<not> filename_char c" if "is_space c" for c
      using that by (auto simp: is_space_def filename_char_def is_alnum_def is_alpha_def is_upper_def is_lower_def is_digit_def less_eq_char_def)
    ultimately show ?thesis by blast
  qed
  have dw: "dropWhile is_space ('' '' @ ?p) = ?p" using ns assms(4) by (cases pool) (simp_all add: is_space_def)
  have l: "last ('' '' @ ?p) \<noteq> CHR 0x0A" using nl by (metis append_is_Nil_conv assms(4) last_appendR last_in_set)
  have sp: "split_first '']'' (st @ '']'' @ '' '' @ ?p) = Some (st, '' '' @ ?p)"
    using split_first_append [OF assms(7), of "[]" "'' '' @ ?p"] by simp
  have "esxi_compose_volume_ref st pool vol = CHR ''['' # st @ '']'' @ '' '' @ ?p" by (simp add: esxi_compose_volume_ref_def)
  then show "parse_volume_ref (esxi_compose_volume_ref st pool vol) = Inr (st, ?p)"
    using sp dw l nl assms(4,6) by (simp add: parse_volume_ref_def Let_def)
  have q: "CHR ''.'' \<notin> set ''qcow2''" by simp
  show "disk_scsi_index (vmb @ ''.qcow2'') vmb = Some 0"
    using stem_append [OF q, of vmb] by (simp add: disk_scsi_index_def)
  have "stem (vmb @ ''-data'' @ string_of_nat i @ ''.qcow2'') = vmb @ ''-data'' @ string_of_nat i"
    using stem_append [OF q, of "vmb @ ''-data'' @ string_of_nat i"] by simp
  then show "disk_scsi_index (vmb @ ''-data'' @ string_of_nat i @ ''.qcow2'') vmb = Some (i + 1)"
    using string_of_nat_digits [of i] by (simp add: disk_scsi_index_def startswith_def)
qed

theorem volume_refs_roundtrip_witness:
  "parse_disk_ref (pve_compose_volume_ref ''local'' ''tr-pool'' ''tr-vm-web.qcow2'') = Inr (''tr-pool'', ''tr-vm-web.qcow2'')"
proof -
  have "list_all filename_char ''tr-pool''" "list_all filename_char ''tr-vm-web.qcow2''" by code_simp+
  from volume_refs_roundtrip [OF this, of "''local''"] show ?thesis by simp
qed

end
