(* ===== verification/Build_Result.thy ===== *)
theory Build_Result
  imports Driver_Naming
begin

text \<open>
  What the orchestrator reads from a build VM's serial console: the framed build result with its
  base64 log (\<^verbatim>\<open>orchestrator/vm_build.py\<close>, from \<^verbatim>\<open>_RESULT_MARKER\<close> on) and the scrubbing of terminal
  control sequences (\<^verbatim>\<open>_ansi.py\<close>). Bytes are characters. Decoding is the identity on ASCII;
  a byte above 127 stands for the character it decodes to, which is neither a blank nor part of a token
  the parser looks for.
\<close>

subsection \<open>Searching\<close>

text \<open>\<^verbatim>\<open>data.find(pat, pos)\<close>, as an absolute offset.\<close>

fun find_from :: "string \<Rightarrow> string \<Rightarrow> nat \<Rightarrow> nat option" where
  "find_from pat [] i = (if pat = [] then Some i else None)"
| "find_from pat (c # s) i = (if startswith (c # s) pat then Some i else find_from pat s (Suc i))"

definition find_sub :: "string \<Rightarrow> string \<Rightarrow> nat \<Rightarrow> nat option" where
  "find_sub data pat pos = find_from pat (drop pos data) pos"

definition contains_sub :: "string \<Rightarrow> string \<Rightarrow> bool" where
  "contains_sub data pat \<longleftrightarrow> find_sub data pat 0 \<noteq> None"

definition ascii_space :: "char \<Rightarrow> bool" where
  "ascii_space c \<longleftrightarrow> is_space c \<and> of_char c < (128 :: nat)"

definition strip :: "string \<Rightarrow> string" where
  "strip s = rev (dropWhile ascii_space (rev (dropWhile ascii_space s)))"

definition RESULT_MARKER :: string where "RESULT_MARKER = ''TESTRANGE-RESULT:''"
definition LOG_BEGIN :: string where "LOG_BEGIN = ''TESTRANGE-LOG-BEGIN''"
definition LOG_END :: string where "LOG_END = ''TESTRANGE-LOG-END''"

subsection \<open>Base64\<close>

definition b64_val :: "char \<Rightarrow> nat option" where
  "b64_val c =
     (if is_upper c then Some (of_char c - 65)
      else if is_lower c then Some (of_char c - 71)
      else if is_digit c then Some (of_char c + 4)
      else if c = CHR ''+'' then Some 62
      else if c = CHR ''/'' then Some 63 else None)"

definition b64_alphabet :: "char \<Rightarrow> bool" where
  "b64_alphabet c \<longleftrightarrow> b64_val c \<noteq> None"

text \<open>\<^verbatim>\<open>base64.b64decode\<close> on alphabet characters without padding: each group of four gives three bytes,
  a final group of three two, of two one.\<close>

fun b64_bytes :: "nat list \<Rightarrow> nat list" where
  "b64_bytes (a # b # c # d # s) =
     (a * 4 + b div 16) # (b mod 16 * 16 + c div 4) # (c mod 4 * 64 + d) # b64_bytes s"
| "b64_bytes [a, b, c] = [a * 4 + b div 16, b mod 16 * 16 + c div 4]"
| "b64_bytes [a, b] = [a * 4 + b div 16]"
| "b64_bytes _ = []"

definition decode_b64_tolerant :: "string \<Rightarrow> string" where
  "decode_b64_tolerant raw =
     (let compact = filter b64_alphabet raw;
          whole = (if length compact mod 4 = 1 then butlast compact else compact)
      in map char_of (b64_bytes (map (the \<circ> b64_val) whole)))"

definition extract_log :: "string \<Rightarrow> string \<times> bool" where
  "extract_log segment =
     (case find_sub segment LOG_BEGIN 0 of
        None \<Rightarrow> ([], False)
      | Some begin' \<Rightarrow>
          (case find_sub segment newline begin' of
             None \<Rightarrow> ([], False)
           | Some start \<Rightarrow>
               (case find_sub segment LOG_END start of
                  None \<Rightarrow> ([], False)
                | Some end' \<Rightarrow> (decode_b64_tolerant (take (end' - Suc start) (drop (Suc start) segment)), True))))"

definition FALLBACK_TAIL_BYTES :: nat where "FALLBACK_TAIL_BYTES = 4096"

definition tail_bytes :: "string \<Rightarrow> string" where
  "tail_bytes s = drop (length s - FALLBACK_TAIL_BYTES) s"

definition fallback_log :: "string \<Rightarrow> string" where
  "fallback_log buffer =
     (case find_sub buffer LOG_BEGIN 0 of
        None \<Rightarrow> tail_bytes buffer
      | Some begin' \<Rightarrow>
          (case find_sub buffer newline begin' of
             None \<Rightarrow> tail_bytes buffer
           | Some start \<Rightarrow>
               (let stop = (case find_sub buffer LOG_END start of None \<Rightarrow> length buffer | Some e \<Rightarrow> e);
                    decoded = decode_b64_tolerant (take (stop - Suc start) (drop (Suc start) buffer)) in
                if decoded \<noteq> [] then decoded else tail_bytes buffer)))"

subsection \<open>The result record\<close>

record build_result =
  ok :: bool
  rc :: "nat option"
  cmd :: "string option"
  log :: string

definition word_char :: "char \<Rightarrow> bool" where
  "word_char c \<longleftrightarrow> is_alnum c \<or> c = CHR ''_'' \<or> (128 :: nat) \<le> of_char c"

text \<open>\<^verbatim>\<open>\brc=(\d+)\<close> and \<^verbatim>\<open>\bcmd="(.*)"\<close>; \<open>prev\<close> says whether a word character precedes.\<close>

fun search_rc :: "bool \<Rightarrow> string \<Rightarrow> nat option" where
  "search_rc prev [] = None"
| "search_rc prev (c # s) =
     (let ds = takeWhile is_digit (drop 3 (c # s)) in
      if \<not> prev \<and> startswith (c # s) ''rc='' \<and> ds \<noteq> [] then Some (nat_of_digits ds)
      else search_rc (word_char c) s)"

definition QUOTE :: char where "QUOTE = CHR 0x22"

text \<open>The greedy \<^verbatim>\<open>(.*)"\<close>: everything up to the last quote.\<close>

definition up_to_last_quote :: "string \<Rightarrow> string option" where
  "up_to_last_quote s =
     (if QUOTE \<in> set s then Some (rev (tl (dropWhile (\<lambda>c. c \<noteq> QUOTE) (rev s)))) else None)"

fun search_cmd :: "bool \<Rightarrow> string \<Rightarrow> string option" where
  "search_cmd prev [] = None"
| "search_cmd prev (c # s) =
     (case (if \<not> prev \<and> startswith (c # s) (''cmd='' @ [QUOTE]) then up_to_last_quote (drop 5 (c # s)) else None) of
        Some r \<Rightarrow> Some r
      | None \<Rightarrow> search_cmd (word_char c) s)"

text \<open>\<^verbatim>\<open>repr\<close> of a decoded line.\<close>

definition repr_char :: "char \<Rightarrow> char \<Rightarrow> string" where
  "repr_char q c =
     (if c = CHR 0x5C then [CHR 0x5C, CHR 0x5C]
      else if c = q then [CHR 0x5C, q]
      else if c = CHR 0x09 then CHR 0x5C # ''t''
      else if c = CHR 0x0A then CHR 0x5C # ''n''
      else if c = CHR 0x0D then CHR 0x5C # ''r''
      else if of_char c < (32 :: nat) \<or> c = CHR 0x7F then CHR 0x5C # ''x'' @ hex2 (of_char c)
      else [c])"

definition py_repr :: "string \<Rightarrow> string" where
  "py_repr s =
     (let q = (if CHR 0x27 \<in> set s \<and> QUOTE \<notin> set s then QUOTE else CHR 0x27) in
      [q] @ concat (map (repr_char q) s) @ [q])"

text \<open>The offsets of every occurrence of the marker.\<close>

function offsets :: "string \<Rightarrow> nat \<Rightarrow> nat list" where
  "offsets data pos =
     (case find_sub data RESULT_MARKER pos of
        None \<Rightarrow> []
      | Some idx \<Rightarrow> if idx < pos \<or> length data \<le> idx then [] else idx # offsets data (idx + length RESULT_MARKER))"
  by pat_completeness auto

termination offsets
  by (relation "measure (\<lambda>(data, pos). length data - pos)") (auto simp: RESULT_MARKER_def)

definition segments :: "string \<Rightarrow> string list" where
  "segments data =
     (let os = offsets data 0 in
      map (\<lambda>(a, b). take (b - a) (drop a data)) (zip os (tl os @ [length data])))"

definition result_line :: "string \<Rightarrow> string option" where
  "result_line rest = (case find_sub rest newline 0 of None \<Rightarrow> None | Some nl \<Rightarrow> Some (take nl rest))"

definition first_word :: "string \<Rightarrow> string" where
  "first_word text = takeWhile (\<lambda>c. \<not> ascii_space c) text"

text \<open>The verdict on one candidate record: a result, no verdict (\<^verbatim>\<open>continue\<close>), or, for a last
  record whose log is still arriving, an early end of the scan.\<close>

datatype verdict = Verdict build_result | Skip | Wait

definition judge :: "bool \<Rightarrow> bool \<Rightarrow> string \<Rightarrow> verdict" where
  "judge final is_last segment =
     (let rest = drop (length RESULT_MARKER) segment in
      case (case result_line rest of Some l \<Rightarrow> Some l | None \<Rightarrow> if final then Some rest else None) of
        None \<Rightarrow> Skip
      | Some line \<Rightarrow>
          (let text = strip line; tag = first_word text in
           if tag = ''ok'' then Verdict \<lparr>ok = True, rc = None, cmd = None, log = []\<rparr>
           else if tag = ''fail'' then
             (let (lg, complete) = extract_log segment in
              if complete \<or> final then Verdict \<lparr>ok = False, rc = search_rc False text, cmd = search_cmd False text, log = lg\<rparr>
              else if is_last then Wait else Skip)
           else if is_last then
             Verdict \<lparr>ok = False, rc = None, cmd = None, log = ''unrecognized build-result token; raw line: '' @ py_repr text\<rparr>
           else Skip))"

fun scan :: "bool \<Rightarrow> string list \<Rightarrow> build_result option" where
  "scan final [] = None"
| "scan final (seg # segs) =
     (case judge final (segs = []) seg of
        Verdict r \<Rightarrow> Some r
      | Wait \<Rightarrow> None
      | Skip \<Rightarrow> scan final segs)"

definition parse_build_result :: "bool \<Rightarrow> string \<Rightarrow> build_result option" where
  "parse_build_result final data = scan final (segments data)"

subsection \<open>Terminal control sequences\<close>

definition between :: "nat \<Rightarrow> nat \<Rightarrow> char \<Rightarrow> bool" where
  "between lo hi c \<longleftrightarrow> lo \<le> of_char c \<and> of_char c \<le> (hi :: nat)"

text \<open>A match at the head of the text, as what follows it.\<close>

definition match_osc :: "string \<Rightarrow> string option" where
  "match_osc s =
     (case s of
        e # b # t \<Rightarrow>
          if e = CHR 0x1B \<and> b = CHR '']'' then
            (case dropWhile (\<lambda>c. c \<noteq> CHR 0x07 \<and> c \<noteq> CHR 0x1B) t of
               [] \<Rightarrow> None
             | x # u \<Rightarrow> if x = CHR 0x07 then Some u
                 else (case u of [] \<Rightarrow> None | y # v \<Rightarrow> if y = CHR 0x5C then Some v else None))
          else None
      | _ \<Rightarrow> None)"

definition match_csi :: "string \<Rightarrow> string option" where
  "match_csi s =
     (case s of
        e # b # t \<Rightarrow>
          if e = CHR 0x1B \<and> b = CHR ''['' then
            (case dropWhile (between 32 47) (dropWhile (between 48 63) t) of
               [] \<Rightarrow> None
             | x # u \<Rightarrow> if between 64 126 x then Some u else None)
          else None
      | _ \<Rightarrow> None)"

definition match_esc :: "string \<Rightarrow> string option" where
  "match_esc s =
     (case s of
        e # b # t \<Rightarrow>
          if e = CHR 0x1B then
            (if between 64 90 b \<or> between 92 95 b then Some t
             else (case dropWhile (between 32 47) (b # t) of
                     [] \<Rightarrow> None
                   | x # u \<Rightarrow> if between 48 126 x then Some u else None))
          else None
      | _ \<Rightarrow> None)"

text \<open>\<^verbatim>\<open>pattern.sub("", text)\<close>.\<close>

function sub_all :: "(string \<Rightarrow> string option) \<Rightarrow> string \<Rightarrow> string" where
  "sub_all m [] = []"
| "sub_all m (c # s) =
     (case m (c # s) of
        Some rest \<Rightarrow> if length rest < length (c # s) then sub_all m rest else c # sub_all m s
      | None \<Rightarrow> c # sub_all m s)"
  by pat_completeness auto

termination sub_all
  by (relation "measure (length \<circ> snd)") auto

definition c0_char :: "char \<Rightarrow> bool" where
  "c0_char c \<longleftrightarrow> between 0 8 c \<or> between 11 31 c \<or> c = CHR 0x7F"

definition scrub_terminal_control :: "string \<Rightarrow> string" where
  "scrub_terminal_control text =
     filter (\<lambda>c. \<not> c0_char c) (sub_all match_esc (sub_all match_csi (sub_all match_osc text)))"

subsection \<open>The live console\<close>

text \<open>\<^verbatim>\<open>_ConsoleStreamer\<close>: how far the buffer is consumed, whether inside a log block, and the lines
  logged.\<close>

record streamer =
  st_pos :: nat
  in_log_block :: bool
  logged :: "string list"

definition console_line :: "string \<Rightarrow> streamer \<Rightarrow> streamer" where
  "console_line line st =
     (if contains_sub line LOG_BEGIN then st\<lparr>in_log_block := True\<rparr>
      else if contains_sub line LOG_END then st\<lparr>in_log_block := False\<rparr>
      else if in_log_block st \<or> contains_sub line RESULT_MARKER then st
      else let text = scrub_terminal_control line in
           if text = [] then st else st\<lparr>logged := logged st @ [text]\<rparr>)"

function feed :: "string \<Rightarrow> streamer \<Rightarrow> streamer" where
  "feed buffer st =
     (case find_sub buffer newline (st_pos st) of
        None \<Rightarrow> st
      | Some nl \<Rightarrow>
          if nl < st_pos st \<or> length buffer \<le> nl then st
          else feed buffer ((console_line (take (nl - st_pos st) (drop (st_pos st) buffer)) st)\<lparr>st_pos := Suc nl\<rparr>))"
  by pat_completeness auto

termination feed
  by (relation "measure (\<lambda>(buffer, st). length buffer - st_pos st)") auto

subsection \<open>Waiting for the result\<close>

definition raise_or_return :: "name \<Rightarrow> build_result \<Rightarrow> unit result" where
  "raise_or_return vm r = (if ok r then Inr () else Inl (BuildFailedError [vm]))"

text \<open>The chunks the driver's sink yields, each with whether the deadline has passed when the loop
  looks after it; the list ends when the console closes. The log mirror is carried along.\<close>

fun wait_loop :: "name \<Rightarrow> string \<Rightarrow> streamer \<Rightarrow> (string \<times> bool) list \<Rightarrow> unit result" where
  "wait_loop vm buffer st [] =
     (case parse_build_result True buffer of
        Some r \<Rightarrow> if ok r then Inr () else Inl (BuildFailedError [vm])
      | None \<Rightarrow> Inl (BuildFailedError [vm, fallback_log buffer]))"
| "wait_loop vm buffer st ((chunk, expired) # rest) =
     (let buffer' = buffer @ chunk; st' = (if chunk = [] then st else feed buffer' st) in
      case (if chunk = [] then None else parse_build_result False buffer') of
        Some r \<Rightarrow> raise_or_return vm r
      | None \<Rightarrow> if expired then Inl (BuildTimeoutError [vm]) else wait_loop vm buffer' st' rest)"

definition wait_for_build_result :: "name \<Rightarrow> (string \<times> bool) list \<Rightarrow> unit result" where
  "wait_for_build_result vm chunks = wait_loop vm [] \<lparr>st_pos = 0, in_log_block = False, logged = []\<rparr> chunks"

declare offsets.simps [simp del] feed.simps [simp del]

subsection \<open>Lemmas\<close>

lemma find_from_Some:
  "find_from pat s i = Some k \<Longrightarrow> i \<le> k \<and> k - i \<le> length s \<and> startswith (drop (k - i) s) pat"
proof (induction s arbitrary: i)
  case (Cons c s)
  show ?case
  proof (cases "startswith (c # s) pat")
    case False
    with Cons have h: "Suc i \<le> k \<and> k - Suc i \<le> length s \<and> startswith (drop (k - Suc i) s) pat" by simp
    then have "k - i = Suc (k - Suc i)" by linarith
    with h show ?thesis by simp
  qed (use Cons in simp)
qed (auto simp: startswith_def split: if_splits)

lemma find_sub_Some:
  "find_sub data pat pos = Some k \<Longrightarrow> pos \<le> length data \<Longrightarrow> pos \<le> k \<and> k \<le> length data \<and> startswith (drop k data) pat"
  unfolding find_sub_def by (drule find_from_Some) auto

lemma startswith_length: "startswith s p \<Longrightarrow> length p \<le> length s"
  by (auto simp: startswith_iff)

lemma find_newline:
  "find_from newline s i = (if CHR 0x0A \<in> set s then Some (i + length (takeWhile (\<lambda>c. c \<noteq> CHR 0x0A) s)) else None)"
  by (induction s arbitrary: i) (auto simp: newline_def startswith_def)

lemma take_takeWhile: "take (length (takeWhile P s)) s = takeWhile P s"
  by (metis takeWhile_dropWhile_id append_eq_conv_conj)

lemma result_line_Some:
  "result_line rest = Some l \<Longrightarrow> CHR 0x0A \<notin> set l \<and> (\<exists>t. rest = l @ CHR 0x0A # t)"
proof -
  let ?l = "takeWhile (\<lambda>c. c \<noteq> CHR 0x0A) rest"
  assume "result_line rest = Some l"
  then have l: "l = ?l" and nl: "CHR 0x0A \<in> set rest"
    by (auto simp: result_line_def find_sub_def find_newline take_takeWhile split: if_splits)
  have "CHR 0x0A \<notin> set ?l" by (auto dest: set_takeWhileD)
  moreover have "\<exists>t. rest = ?l @ CHR 0x0A # t"
  proof -
    have d: "dropWhile (\<lambda>c. c \<noteq> CHR 0x0A) rest \<noteq> []" using nl by simp
    then obtain x t where x: "dropWhile (\<lambda>c. c \<noteq> CHR 0x0A) rest = x # t" by (cases "dropWhile (\<lambda>c. c \<noteq> CHR 0x0A) rest") auto
    have "x = CHR 0x0A" using hd_dropWhile [OF d] x by simp
    with x have "rest = ?l @ CHR 0x0A # t" using takeWhile_dropWhile_id [of "\<lambda>c. c \<noteq> CHR 0x0A" rest] by simp
    then show ?thesis ..
  qed
  ultimately show ?thesis using l by simp
qed

lemma result_line_None: "result_line rest = None \<Longrightarrow> CHR 0x0A \<notin> set rest"
  by (auto simp: result_line_def find_sub_def find_newline split: if_splits)

lemma offsets_spec:
  assumes "pos \<le> length data"
  shows "(\<forall>x \<in> set (offsets data pos). pos \<le> x \<and> startswith (drop x data) RESULT_MARKER) \<and>
    sorted_wrt (\<lambda>a b. a + length RESULT_MARKER \<le> b) (offsets data pos @ [length data])"
  using assms
proof (induction data pos rule: offsets.induct)
  case (1 data pos)
  show ?case
  proof (cases "find_sub data RESULT_MARKER pos")
    case (Some idx)
    note f = find_sub_Some [OF Some "1.prems"]
    have len: "idx + length RESULT_MARKER \<le> length data" using startswith_length [of "drop idx data" RESULT_MARKER] f by auto
    then have i: "\<not> (idx < pos \<or> length data \<le> idx)" using f by (simp add: RESULT_MARKER_def)
    have ih: "(\<forall>x \<in> set (offsets data (idx + length RESULT_MARKER)). idx + length RESULT_MARKER \<le> x \<and> startswith (drop x data) RESULT_MARKER) \<and>
      sorted_wrt (\<lambda>a b. a + length RESULT_MARKER \<le> b) (offsets data (idx + length RESULT_MARKER) @ [length data])"
      by (rule "1.IH" [OF Some i len])
    have "offsets data pos = idx # offsets data (idx + length RESULT_MARKER)" using Some i by (subst offsets.simps) simp
    with ih f len show ?thesis by auto
  qed (simp add: offsets.simps [of data pos])
qed

lemma sorted_wrt_zip_tl:
  "sorted_wrt R (xs @ [z]) \<Longrightarrow> (a, b) \<in> set (zip xs (tl xs @ [z])) \<Longrightarrow> R a b \<and> a \<in> set xs \<and> (b \<in> set xs \<or> b = z)"
proof (induction xs)
  case (Cons x xs)
  then show ?case by (cases xs) auto
qed simp

lemma segments_spec:
  assumes "seg \<in> set (segments data)"
  shows "\<exists>before after. data = before @ seg @ after \<and> startswith seg RESULT_MARKER"
proof -
  let ?os = "offsets data 0"
  note o = offsets_spec [of 0 data, simplified]
  obtain a b where ab: "(a, b) \<in> set (zip ?os (tl ?os @ [length data]))" and seg: "seg = take (b - a) (drop a data)"
    using assms by (auto simp: segments_def Let_def)
  note r = sorted_wrt_zip_tl [OF conjunct2 [OF o] ab]
  have "startswith (drop a data) RESULT_MARKER" "length RESULT_MARKER \<le> b - a" using r o by auto
  then have "startswith seg RESULT_MARKER" by (simp add: seg startswith_def min_def)
  moreover have "data = take a data @ seg @ drop (b - a) (drop a data)" unfolding seg append_take_drop_id ..
  ultimately show ?thesis by blast
qed

lemma judge_ok:
  assumes "judge final is_last seg = Verdict r" and "ok r"
  obtains line after where "drop (length RESULT_MARKER) seg = line @ after" "CHR 0x0A \<notin> set line" "first_word (strip line) = ''ok''"
    "(\<exists>t. after = CHR 0x0A # t) \<or> final \<and> after = []"
proof -
  let ?rest = "drop (length RESULT_MARKER) seg"
  obtain line where l: "(case result_line ?rest of Some l \<Rightarrow> Some l | None \<Rightarrow> if final then Some ?rest else None) = Some line"
    and tag: "first_word (strip line) = ''ok''"
    using assms by (auto simp: judge_def Let_def split: option.splits if_splits prod.splits)
  show ?thesis
  proof (cases "result_line ?rest")
    case None
    with l have "final" "line = ?rest" by (auto split: if_splits)
    with None tag show ?thesis using result_line_None that [of line "[]"] by simp
  next
    case (Some l')
    with l result_line_Some [OF Some] tag show ?thesis using that by auto
  qed
qed

lemma scan_ok:
  "scan final segs = Some r \<Longrightarrow> ok r \<Longrightarrow> \<exists>seg \<in> set segs. \<exists>is_last. judge final is_last seg = Verdict r"
  by (induction segs) (auto split: verdict.splits)

lemma parse_ok:
  assumes "parse_build_result final data = Some r" and "ok r"
  obtains before line after where "data = before @ RESULT_MARKER @ line @ after" "CHR 0x0A \<notin> set line" "first_word (strip line) = ''ok''"
    "final \<or> (\<exists>t. after = CHR 0x0A # t)"
proof -
  obtain seg is_last where seg: "seg \<in> set (segments data)" "judge final is_last seg = Verdict r"
    using scan_ok [OF assms(1) [unfolded parse_build_result_def] assms(2)] by blast
  obtain b a where ba: "data = b @ seg @ a" "startswith seg RESULT_MARKER" using segments_spec [OF seg(1)] by blast
  obtain line after where l: "drop (length RESULT_MARKER) seg = line @ after" "CHR 0x0A \<notin> set line" "first_word (strip line) = ''ok''"
    "(\<exists>t. after = CHR 0x0A # t) \<or> final \<and> after = []"
    using judge_ok [OF seg(2) assms(2)] by metis
  have "seg = RESULT_MARKER @ line @ after" using ba(2) l(1) by (metis append_take_drop_id startswith_def)
  with ba l show ?thesis using that [of b line "after @ a"] by auto
qed

text \<open>The guest has written a line after the marker whose first word is \<^verbatim>\<open>ok\<close>.\<close>

lemma wait_loop_ok:
  "wait_loop vm buffer st chunks = Inr u \<Longrightarrow>
     \<exists>before line after. buffer @ concat (map fst chunks) = before @ RESULT_MARKER @ line @ after \<and>
       CHR 0x0A \<notin> set line \<and> first_word (strip line) = ''ok''"
proof (induction vm buffer st chunks rule: wait_loop.induct)
  case (1 vm buffer st)
  then obtain r where "parse_build_result True buffer = Some r" "ok r" by (auto split: option.splits if_splits)
  then obtain before line after where "buffer = before @ RESULT_MARKER @ line @ after" "CHR 0x0A \<notin> set line" "first_word (strip line) = ''ok''"
    by (rule parse_ok)
  then show ?case by auto
next
  case (2 vm buffer st chunk expired rest)
  let ?st = "if chunk = [] then st else feed (buffer @ chunk) st"
  show ?case
  proof (cases "if chunk = [] then None else parse_build_result False (buffer @ chunk)")
    case None
    then have "\<not> expired" "wait_loop vm (buffer @ chunk) ?st rest = Inr u"
      using "2.prems" by (auto simp: Let_def split: if_splits)
    from "2.IH" [OF refl refl None this] show ?thesis by simp
  next
    case (Some r)
    then have "parse_build_result False (buffer @ chunk) = Some r" "ok r"
      using "2.prems" by (auto simp: Let_def raise_or_return_def split: if_splits)
    then obtain before line after where "buffer @ chunk = before @ RESULT_MARKER @ line @ after"
      "CHR 0x0A \<notin> set line" "first_word (strip line) = ''ok''" by (auto elim: parse_ok)
    then show ?thesis by (intro exI [of _ before] exI [of _ line] exI [of _ "after @ concat (map fst rest)"]) simp
  qed
qed

subsection \<open>Base64 lemmas\<close>

text \<open>The reference encoder: RFC 4648 without padding.\<close>

fun b64_sextets :: "nat list \<Rightarrow> nat list" where
  "b64_sextets (x # y # z # s) =
     (x div 4) # (x mod 4 * 16 + y div 16) # (y mod 16 * 4 + z div 64) # (z mod 64) # b64_sextets s"
| "b64_sextets [x, y] = [x div 4, x mod 4 * 16 + y div 16, y mod 16 * 4]"
| "b64_sextets [x] = [x div 4, x mod 4 * 16]"
| "b64_sextets [] = []"

definition b64_char :: "nat \<Rightarrow> char" where
  "b64_char v =
     (if v < 26 then char_of (65 + v) else if v < 52 then char_of (71 + v) else if v < 62 then char_of (v - 4)
      else if v = 62 then CHR ''+'' else CHR ''/'')"

definition b64_encode :: "string \<Rightarrow> string" where
  "b64_encode s = map b64_char (b64_sextets (map of_char s))"

lemma b64_val_char: "v < 64 \<Longrightarrow> b64_val (b64_char v) = Some v"
  by (auto simp: b64_val_def b64_char_def is_upper_def is_lower_def is_digit_def less_eq_char_def of_char_of)

lemma b64_sextets_bound: "\<forall>x \<in> set bs. x < 256 \<Longrightarrow> \<forall>v \<in> set (b64_sextets bs). v < 64"
  by (induction bs rule: b64_sextets.induct) auto

lemma b64_bytes_sextets: "\<forall>x \<in> set bs. x < 256 \<Longrightarrow> b64_bytes (b64_sextets bs) = bs"
  by (induction bs rule: b64_sextets.induct) auto

lemma b64_sextets_length: "length (b64_sextets bs) mod 4 \<noteq> 1"
  by (induction bs rule: b64_sextets.induct) (auto simp: mod_Suc)

subsection \<open>Properties\<close>

text \<open>C14: a build is taken for successful only on the guest's word. If waiting for a build VM returns normally, then the
  bytes its console produced contain the result marker followed, on the same line, by the
  token \<^verbatim>\<open>ok\<close>; a console that closes silently, an announced failure and an expired deadline all raise.\<close>

theorem ok_is_the_only_success:
  assumes "wait_for_build_result vm chunks = Inr ()"
  shows "\<exists>before line after. concat (map fst chunks) = before @ ''TESTRANGE-RESULT:'' @ line @ after \<and>
    CHR 0x0A \<notin> set line \<and> first_word (strip line) = ''ok''"
  using wait_loop_ok [OF assms [unfolded wait_for_build_result_def]] unfolding RESULT_MARKER_def by simp

theorem ok_is_the_only_success_witness:
  "wait_for_build_result ''web'' [(''boot'' @ newline @ ''TESTRANGE-RES'', False), ([], False), (''ULT: ok'' @ newline, True)] = Inr () \<and>
   (\<exists>before line after. ''boot'' @ newline @ ''TESTRANGE-RESULT: ok'' @ newline = before @ ''TESTRANGE-RESULT:'' @ line @ after \<and>
    CHR 0x0A \<notin> set line \<and> first_word (strip line) = ''ok'')"
proof -
  have w: "wait_for_build_result ''web'' [(''boot'' @ newline @ ''TESTRANGE-RES'', False), ([], False), (''ULT: ok'' @ newline, True)] = Inr ()"
    by code_simp
  from ok_is_the_only_success [OF w] w show ?thesis by simp
qed

text \<open>A boot message that happens to contain the marker decides the build when it arrives alone. The
  same console bytes make the build fail or succeed depending on how the stream is cut
  into chunks: an unrecognised marker line that is the last one so far is final at once, although the real
  record that follows would have overridden it.\<close>

theorem verdict_depends_on_chunking:
  "\<exists>echoed real. wait_for_build_result ''web'' [(echoed @ real, False)] = Inr () \<and>
     wait_for_build_result ''web'' [(echoed, False), (real, False)] = Inl (BuildFailedError [''web''])"
proof (intro exI conjI)
  show "wait_for_build_result ''web'' [((''+ echo TESTRANGE-RESULT: $status'' @ newline) @ (''TESTRANGE-RESULT: ok'' @ newline), False)] = Inr ()"
    by code_simp
  show "wait_for_build_result ''web'' [(''+ echo TESTRANGE-RESULT: $status'' @ newline, False), (''TESTRANGE-RESULT: ok'' @ newline, False)] =
      Inl (BuildFailedError [''web''])"
    by code_simp
qed

text \<open>The failure log survives the serial console. Whatever line breaks, padding or blanks are spread over the base64
  block (any bytes outside the alphabet), the tolerant decoder returns exactly the log the
  guest encoded.\<close>

theorem log_block_roundtrip:
  assumes "filter b64_alphabet raw = b64_encode s"
  shows "decode_b64_tolerant raw = s"
proof -
  let ?bs = "map of_char s :: nat list"
  have b: "\<forall>x \<in> set ?bs. x < 256" by (auto simp: of_char_def)
  have "map (the \<circ> b64_val) (b64_encode s) = b64_sextets ?bs"
    unfolding b64_encode_def map_map
    by (rule map_idI) (use b64_sextets_bound [OF b] b64_val_char in simp)
  moreover have "length (b64_encode s) mod 4 \<noteq> 1" using b64_sextets_length by (simp add: b64_encode_def)
  ultimately have "decode_b64_tolerant raw = map char_of (b64_bytes (b64_sextets ?bs))"
    by (simp add: decode_b64_tolerant_def assms)
  then show ?thesis by (simp add: b64_bytes_sextets [OF b] comp_def)
qed

theorem log_block_roundtrip_witness:
  "decode_b64_tolerant (''RTogbm8'' @ newline @ ''gc3VjaA=='') = ''E: no such''"
proof -
  have "filter b64_alphabet (''RTogbm8'' @ newline @ ''gc3VjaA=='') = b64_encode ''E: no such''" by code_simp
  from log_block_roundtrip [OF this] show ?thesis .
qed

lemma sub_all_id: "(\<And>t u. t \<noteq> [] \<Longrightarrow> s = u @ t \<Longrightarrow> m t = None) \<Longrightarrow> sub_all m s = s"
proof (induction s)
  case (Cons c s)
  have "m (c # s) = None" using Cons.prems [of "c # s" "[]"] by simp
  moreover have "sub_all m s = s" by (rule Cons.IH) (use Cons.prems in fastforce)
  ultimately show ?case by simp
qed simp

lemma sub_all_no_escape: "CHR 0x1B \<notin> set s \<Longrightarrow> m \<in> {match_osc, match_csi, match_esc} \<Longrightarrow> sub_all m s = s"
  by (rule sub_all_id)
    (auto simp: match_osc_def match_csi_def match_esc_def neq_Nil_conv split: list.split)

lemma c0_escape: "c0_char (CHR 0x1B)"
  by code_simp

text \<open>Nothing a guest prints can steer the operator's terminal. Scrubbed text holds no escape and no other C0 control
  character but tab and line feed, and scrubbing it again changes nothing.\<close>

theorem scrubbed_text_is_harmless:
  "set (scrub_terminal_control t) \<inter> {c. of_char c < (32 :: nat)} \<subseteq> {CHR 0x09, CHR 0x0A} \<and>
   CHR 0x1B \<notin> set (scrub_terminal_control t) \<and>
   scrub_terminal_control (scrub_terminal_control t) = scrub_terminal_control t"
proof (intro conjI subsetI)
  fix c
  assume "c \<in> set (scrub_terminal_control t) \<inter> {c. of_char c < (32 :: nat)}"
  then have "c \<in> set (scrub_terminal_control t)" and l: "of_char c < (32 :: nat)" by simp_all
  then have "\<not> c0_char c" by (simp add: scrub_terminal_control_def)
  with l have "of_char c = (9 :: nat) \<or> of_char c = (10 :: nat)" by (auto simp: c0_char_def between_def)
  then have "c = char_of (9 :: nat) \<or> c = char_of (10 :: nat)" by (metis char_of_char)
  moreover have "char_of (9 :: nat) = CHR 0x09" "char_of (10 :: nat) = CHR 0x0A" by code_simp+
  ultimately show "c \<in> {CHR 0x09, CHR 0x0A}" by simp
next
  show e: "CHR 0x1B \<notin> set (scrub_terminal_control t)" using c0_escape by (simp add: scrub_terminal_control_def)
  have "filter (\<lambda>c. \<not> c0_char c) (scrub_terminal_control t) = scrub_terminal_control t" by (simp add: scrub_terminal_control_def)
  with e show "scrub_terminal_control (scrub_terminal_control t) = scrub_terminal_control t"
    by (subst scrub_terminal_control_def) (simp add: sub_all_no_escape)
qed

end
