(* ===== verification/Communicators.thy ===== *)
theory Communicators
  imports Effects Names
begin

text \<open>
  The transports test code and the orchestrator talk to guests through
  (\<^verbatim>\<open>communicators/base.py\<close>, \<^verbatim>\<open>communicators/native.py\<close>, \<^verbatim>\<open>communicators/ssh.py\<close>).
  A communicator is a small state machine: unbound, bound once, with a session that \<^verbatim>\<open>close\<close> drops and the
  next call re-establishes. Its state is a record; an operation is an effect on the pair of that record and the
  world behind the transport. The SSH library and the gateway are third-party code: the record
  \<open>transport\<close> holds the calls the source makes on them, and a failure of theirs is an \<open>OSError\<close> value. A loop
  bounded by a deadline takes the number of attempts that fit before the deadline as its argument.
\<close>

subsection \<open>Exceptions\<close>

fun is_GuestAgentError :: "exn \<Rightarrow> bool" where
  "is_GuestAgentError (GuestAgentError _) = True"
| "is_GuestAgentError _ = False"

fun is_CommunicatorError :: "exn \<Rightarrow> bool" where
  "is_CommunicatorError (CommunicatorError _) = True"
| "is_CommunicatorError (CommunicatorAlreadyBoundError _) = True"
| "is_CommunicatorError _ = False"

fun is_GatewayError :: "exn \<Rightarrow> bool" where
  "is_GatewayError (GatewayError _) = True"
| "is_GatewayError _ = False"

fun is_OSError :: "exn \<Rightarrow> bool" where
  "is_OSError (OSError _) = True"
| "is_OSError _ = False"

subsection \<open>Effects of a communicator\<close>

definition onT :: "('w, 'a) eff \<Rightarrow> ('s \<times> 'w, 'a) eff" where
  "onT m s = (case m (snd s) of (r, w') \<Rightarrow> (r, (fst s, w')))"

definition modC :: "('s \<Rightarrow> 's) \<Rightarrow> ('s \<times> 'w, unit) eff" where
  "modC f = modE (\<lambda>(c, w). (f c, w))"

definition getC :: "('s \<times> 'w, 's) eff" where
  "getC = getE fst"

record exec_result =
  exit_code :: int
  stdout :: string
  stderr :: string

definition exec_ok :: "exec_result \<Rightarrow> bool" where
  "exec_ok r \<longleftrightarrow> exit_code r = 0"

subsection \<open>The native agent\<close>

text \<open>\<open>nc_target\<close> is the VM the three bound callables reach.\<close>

record native_comm =
  nc_target :: "name option"
  nc_live :: bool

definition NativeCommunicator :: native_comm where
  "NativeCommunicator = \<lparr>nc_target = None, nc_live = False\<rparr>"

definition native_is_bound :: "native_comm \<Rightarrow> bool" where
  "native_is_bound c \<longleftrightarrow> nc_target c \<noteq> None"

definition native_bind :: "name \<Rightarrow> native_comm \<Rightarrow> native_comm result" where
  "native_bind target c =
     (if nc_target c \<noteq> None then Inl (CommunicatorAlreadyBoundError [])
      else Inr \<lparr>nc_target = Some target, nc_live = True\<rparr>)"

definition native_check_bound :: "(native_comm \<times> 'w, unit) eff" where
  "native_check_bound = bindE getC (\<lambda>c. if nc_target c = None then throw (CommunicatorError []) else ret ())"

text \<open>\<open>ping\<close> is the trivial command the agent is polled with.\<close>

fun poll_agent :: "('w, 'x) eff \<Rightarrow> nat \<Rightarrow> (native_comm \<times> 'w, unit) eff" where
  "poll_agent ping 0 = throw (CommunicatorError [])"
| "poll_agent ping (Suc n) =
     bindE (handle_if is_GuestAgentError (seqE (onT ping) (ret True)) (\<lambda>_. ret False)) (\<lambda>answered.
     if answered then modC (\<lambda>c. c\<lparr>nc_live := True\<rparr>) else poll_agent ping n)"

definition reconnect_if_needed :: "('w, 'x) eff \<Rightarrow> nat \<Rightarrow> (native_comm \<times> 'w, unit) eff" where
  "reconnect_if_needed ping polls = bindE getC (\<lambda>c. if nc_live c then ret () else poll_agent ping polls)"

text \<open>\<^verbatim>\<open>execute\<close>, \<^verbatim>\<open>read_file\<close> and \<^verbatim>\<open>write_file\<close> differ only in the bound
  callable they end with.\<close>

definition native_call :: "('w, 'x) eff \<Rightarrow> nat \<Rightarrow> ('w, 'a) eff \<Rightarrow> (native_comm \<times> 'w, 'a) eff" where
  "native_call ping polls call =
     seqE native_check_bound (seqE (reconnect_if_needed ping polls) (onT call))"

definition native_close :: "native_comm \<Rightarrow> native_comm" where
  "native_close c = c\<lparr>nc_live := False\<rparr>"

subsection \<open>SSH\<close>

record ssh_comm =
  ssh_username :: string
  nic_idx :: "int option"
  ssh_bound :: bool
  ssh_host :: "string option"
  ssh_port :: int
  ssh_credential :: "posix_cred option"
  ssh_gateway :: "string option"
  ssh_client :: bool

definition SSHCommunicator :: "string \<Rightarrow> int option \<Rightarrow> ssh_comm result" where
  "SSHCommunicator u idx =
     (if u = [] then Inl (ValueError [])
      else case idx of
        Some i \<Rightarrow> if i < 0 then Inl (ValueError [string_of_int i])
          else Inr \<lparr>ssh_username = u, nic_idx = idx, ssh_bound = False, ssh_host = None, ssh_port = 22, ssh_credential = None,
                 ssh_gateway = None, ssh_client = False\<rparr>
      | None \<Rightarrow> Inr \<lparr>ssh_username = u, nic_idx = idx, ssh_bound = False, ssh_host = None, ssh_port = 22, ssh_credential = None,
                 ssh_gateway = None, ssh_client = False\<rparr>)"

definition ssh_bind :: "string \<Rightarrow> posix_cred \<Rightarrow> int \<Rightarrow> string option \<Rightarrow> ssh_comm \<Rightarrow> ssh_comm result" where
  "ssh_bind host cred port gw c =
     (if ssh_bound c then Inl (CommunicatorAlreadyBoundError [ssh_username c])
      else if host = [] then Inl (ValueError [])
      else if username cred \<noteq> ssh_username c then Inl (ValueError [username cred, ssh_username c])
      else if \<not> (1 \<le> port \<and> port \<le> 65535) then Inl (ValueError [string_of_int port])
      else Inr (c\<lparr>ssh_host := Some host, ssh_port := port, ssh_credential := Some cred, ssh_gateway := gw, ssh_bound := True\<rparr>))"

text \<open>Each supported key class is a parser; a parse failure is an \<open>OSError\<close>, the rendering of
  \<^verbatim>\<open>SSHException\<close>.\<close>

fun load_private_key :: "(string \<Rightarrow> 'k result) list \<Rightarrow> string \<Rightarrow> 'k result" where
  "load_private_key [] t = Inl (CommunicatorError [])"
| "load_private_key (p # ps) t =
     (case p t of
        Inr k \<Rightarrow> Inr k
      | Inl e \<Rightarrow> if is_OSError e then load_private_key ps t else Inl e)"

datatype 'k auth = Pkey 'k | Password string

record ('k, 'w) transport =
  key_parsers :: "(string \<Rightarrow> 'k result) list"
  open_socket :: "string \<Rightarrow> string \<Rightarrow> int \<Rightarrow> ('w, string) eff"
  close_socket :: "string \<Rightarrow> ('w, unit) eff"
  ssh_connect :: "string \<Rightarrow> int \<Rightarrow> string \<Rightarrow> 'k auth \<Rightarrow> string option \<Rightarrow> ('w, unit) eff"

text \<open>The key if there is one, else a non-empty password.\<close>

definition auth_for :: "('k, 'w) transport \<Rightarrow> posix_cred \<Rightarrow> 'k auth result" where
  "auth_for T cred =
     (case pc_ssh_key cred of
        Some k \<Rightarrow> bindR (load_private_key (key_parsers T) (priv k)) (\<lambda>p. Inr (Pkey p))
      | None \<Rightarrow>
          (case password cred of
             Some pw \<Rightarrow> if pw = [] then Inl (CommunicatorError [username cred]) else Inr (Password pw)
           | None \<Rightarrow> Inl (CommunicatorError [username cred])))"

text \<open>One attempt: through the gateway, if one is bound, and then the handshake. A socket the
  handshake failed on is closed, errors of that close suppressed. \<open>True\<close> is a live session.\<close>

definition ssh_attempt :: "('k, 'w) transport \<Rightarrow> string \<Rightarrow> int \<Rightarrow> string \<Rightarrow> 'k auth \<Rightarrow> string option \<Rightarrow> ('w, bool) eff" where
  "ssh_attempt T h p u a gw =
     (let dial = (\<lambda>sock. handle_if is_OSError (seqE (ssh_connect T h p u a sock) (ret True))
            (\<lambda>_. seqE (case sock of None \<Rightarrow> ret () | Some s \<Rightarrow> catchE (close_socket T s) (\<lambda>_. ret ())) (ret False))) in
      case gw of
        None \<Rightarrow> dial None
      | Some g \<Rightarrow>
          bindE (handle_if is_OSError
              (bindE (handle_if is_GatewayError (open_socket T g h p) (\<lambda>_. throw (CommunicatorError [h, string_of_int p]))) (\<lambda>s. ret (Some s)))
              (\<lambda>_. ret None)) (\<lambda>sock.
          case sock of None \<Rightarrow> ret False | Some s \<Rightarrow> dial (Some s)))"

fun connect_loop :: "('k, 'w) transport \<Rightarrow> string \<Rightarrow> int \<Rightarrow> string \<Rightarrow> 'k auth \<Rightarrow> string option \<Rightarrow> nat \<Rightarrow> (ssh_comm \<times> 'w, unit) eff" where
  "connect_loop T h p u a gw 0 = throw (CommunicatorError [h, string_of_int p, u])"
| "connect_loop T h p u a gw (Suc n) =
     bindE (onT (ssh_attempt T h p u a gw)) (\<lambda>live.
     if live then modC (\<lambda>c. c\<lparr>ssh_client := True\<rparr>) else connect_loop T h p u a gw n)"

definition ensure_connected :: "('k, 'w) transport \<Rightarrow> nat \<Rightarrow> (ssh_comm \<times> 'w, unit) eff" where
  "ensure_connected T attempts =
     bindE getC (\<lambda>c.
     if ssh_client c then ret ()
     else case (ssh_bound c, ssh_host c, ssh_credential c) of
       (True, Some h, Some cred) \<Rightarrow>
         bindE (liftR (auth_for T cred)) (\<lambda>a. connect_loop T h (ssh_port c) (username cred) a (ssh_gateway c) attempts)
     | _ \<Rightarrow> throw (CommunicatorError [ssh_username c]))"

subsection \<open>Commands over SSH\<close>

text \<open>\<^verbatim>\<open>shlex.quote\<close> and \<^verbatim>\<open>shlex.join\<close>.\<close>

definition shell_safe :: "char \<Rightarrow> bool" where
  "shell_safe c \<longleftrightarrow> is_alnum c \<or> c \<in> set ''_@%+=:,./-''"

definition SQ :: char where "SQ = CHR 0x27"
definition DQ :: char where "DQ = CHR 0x22"

definition quote :: "string \<Rightarrow> string" where
  "quote s =
     (if s = [] then [SQ, SQ]
      else if list_all shell_safe s then s
      else [SQ] @ concat (map (\<lambda>c. if c = SQ then [SQ, DQ, SQ, DQ, SQ] else [c]) s) @ [SQ])"

definition shlex_join :: "string list \<Rightarrow> string" where
  "shlex_join argv = join '' '' (map quote argv)"

definition ssh_command :: "string list \<Rightarrow> string option \<Rightarrow> string" where
  "ssh_command argv cwd =
     (case cwd of
        Some d \<Rightarrow> if d = [] then shlex_join argv else ''cd -- '' @ quote d @ '' && exec '' @ shlex_join argv
      | None \<Rightarrow> shlex_join argv)"

text \<open>How a command on the channel ends: with its result, without an exit status, or with an error stream that never
  finishes.\<close>

datatype outcome = Finished exec_result | NoExitStatus | StderrStuck

definition ssh_execute :: "('k, 'w) transport \<Rightarrow> nat \<Rightarrow> (string \<Rightarrow> ('w, outcome) eff) \<Rightarrow> string list \<Rightarrow> string option \<Rightarrow>
    (ssh_comm \<times> 'w, exec_result) eff" where
  "ssh_execute T attempts exec_command argv cwd =
     (if argv = [] then throw (ValueError [])
      else seqE (ensure_connected T attempts)
        (let cmd = ssh_command argv cwd in
         handle_if is_OSError
           (bindE (onT (exec_command cmd)) (\<lambda>o'.
            case o' of
              Finished r \<Rightarrow> ret r
            | NoExitStatus \<Rightarrow> throw (CommunicatorError [cmd])
            | StderrStuck \<Rightarrow> throw (CommunicatorError [cmd])))
           (\<lambda>_. throw (CommunicatorError [cmd]))))"

definition ssh_file :: "('k, 'w) transport \<Rightarrow> nat \<Rightarrow> ('w, 'a) eff \<Rightarrow> string \<Rightarrow> (ssh_comm \<times> 'w, 'a) eff" where
  "ssh_file T attempts sftp path =
     seqE (ensure_connected T attempts)
       (handle_if is_OSError (onT sftp) (\<lambda>_. throw (CommunicatorError [path])))"

definition ssh_close :: "ssh_comm \<Rightarrow> ssh_comm" where
  "ssh_close c = c\<lparr>ssh_client := False\<rparr>"

subsection \<open>The contract of a communicator\<close>

text \<open>\<open>target\<close> is what an instance is bound to. A communicator is bound once: binding succeeds on an unbound instance only,
  a close or a call never changes the target, and a call on an unbound instance raises without touching the guest.\<close>

datatype 't comm_op = Bind 't | Close | Use

fun use_op :: "('t \<Rightarrow> 's \<Rightarrow> 's result) \<Rightarrow> ('s \<Rightarrow> 's) \<Rightarrow> ('s \<times> 'w, 'a) eff \<Rightarrow> 's \<times> 'w \<Rightarrow> 't comm_op \<Rightarrow> 's \<times> 'w" where
  "use_op bind close call (c, w) (Bind t) = (case bind t c of Inl _ \<Rightarrow> (c, w) | Inr c' \<Rightarrow> (c', w))"
| "use_op bind close call (c, w) Close = (close c, w)"
| "use_op bind close call s Use = snd (call s)"

locale communicator =
  fixes inv :: "'s \<Rightarrow> bool"
    and target :: "'s \<Rightarrow> 't option"
    and bind :: "'t \<Rightarrow> 's \<Rightarrow> 's result"
    and close :: "'s \<Rightarrow> 's"
    and call :: "('s \<times> 'w, 'a) eff"
  assumes bind_ok: "inv c \<Longrightarrow> bind t c = Inr c' \<Longrightarrow> target c = None \<and> target c' = Some t \<and> inv c'"
    and close_keeps: "inv c \<Longrightarrow> target (close c) = target c \<and> inv (close c)"
    and call_keeps: "inv c \<Longrightarrow> call (c, w) = (r, (c', w')) \<Longrightarrow> target c' = target c \<and> inv c'"
    and call_unbound: "inv c \<Longrightarrow> target c = None \<Longrightarrow> \<exists>m. call (c, w) = (Inl (CommunicatorError m), (c, w))"
begin

lemma op_keeps:
  assumes "inv c" and "target c = Some t" and "use_op bind close call (c, w) op = (c', w')"
  shows "inv c' \<and> target c' = Some t"
proof (cases op)
  case (Bind u)
  show ?thesis
  proof (cases "bind u c")
    case (Inr d)
    with bind_ok [OF assms(1) Inr] assms(2) show ?thesis by simp
  qed (use Bind assms in auto)
next
  case Close
  with assms close_keeps [OF assms(1)] show ?thesis by auto
next
  case Use
  obtain r where "call (c, w) = (r, (c', w'))" using Use assms(3) by (cases "call (c, w)") auto
  from call_keeps [OF assms(1) this] assms(2) show ?thesis by simp
qed

lemma bound_for_good:
  assumes "inv c" and "target c = Some t"
  shows "target (fst (foldl (use_op bind close call) (c, w) ops)) = Some t"
  using assms
proof (induction ops arbitrary: c w)
  case (Cons op ops)
  obtain c' w' where step: "use_op bind close call (c, w) op = (c', w')" by (cases "use_op bind close call (c, w) op")
  with op_keeps [OF Cons.prems step] Cons.IH show ?case by simp
qed simp

end

lemma onT_fst: "fst (snd (onT m s)) = fst s"
  by (simp add: onT_def split: prod.split)

lemma keeps_onT: "keeps (\<lambda>s. P (fst s)) (onT m)"
  by (simp add: keeps_def onT_fst)

lemma keeps_modC: "(\<And>c. P c \<Longrightarrow> P (f c)) \<Longrightarrow> keeps (\<lambda>s. P (fst s)) (modC f)"
  by (auto simp: keeps_def modC_def modE_def)

lemma keeps_getC: "keeps P getC"
  unfolding getC_def by (rule eff_intros)

lemmas comm_intros = keeps_onT keeps_modC keeps_getC

lemma keeps_poll_agent: "keeps (\<lambda>s. nc_target (fst s) = t) (poll_agent ping n)"
  by (induction n) (auto intro!: eff_intros comm_intros)

lemma keeps_native_call: "keeps (\<lambda>s. nc_target (fst s) = t) (native_call ping polls call)"
  unfolding native_call_def native_check_bound_def reconnect_if_needed_def
  by (intro eff_intros comm_intros keeps_poll_agent)

interpretation native: communicator "\<lambda>_. True" nc_target native_bind native_close "native_call ping polls call"
  for ping polls call
proof (unfold_locales, goal_cases)
  case (3 c w r c' w')
  with keepsD [OF keeps_native_call [where t = "nc_target c"], of "(c, w)" ping polls call] show ?case by simp
qed (auto simp: native_bind_def native_close_def native_call_def native_check_bound_def seqE_def bindE_def getC_def getE_def throw_def
    split: if_splits)

text \<open>An SSH communicator has a session only when bound.\<close>

definition ssh_inv :: "ssh_comm \<Rightarrow> bool" where
  "ssh_inv c \<longleftrightarrow> (ssh_client c \<longrightarrow> ssh_bound c) \<and> (ssh_bound c \<longrightarrow> ssh_host c \<noteq> None \<and> ssh_credential c \<noteq> None)"

definition ssh_target :: "ssh_comm \<Rightarrow> (string \<times> posix_cred \<times> int \<times> string option) option" where
  "ssh_target c =
     (case (ssh_bound c, ssh_host c, ssh_credential c) of
        (True, Some h, Some cred) \<Rightarrow> Some (h, cred, ssh_port c, ssh_gateway c)
      | _ \<Rightarrow> None)"

definition ssh_on :: "(string \<times> posix_cred \<times> int \<times> string option) option \<Rightarrow> ssh_comm \<Rightarrow> bool" where
  "ssh_on t c \<longleftrightarrow> ssh_bound c \<and> ssh_inv c \<and> ssh_target c = t"

lemma ssh_target_client [simp]: "ssh_target (c\<lparr>ssh_client := b\<rparr>) = ssh_target c"
  by (auto simp: ssh_target_def split: bool.split option.split)

lemma ssh_on_client: "ssh_on t c \<Longrightarrow> ssh_on t (c\<lparr>ssh_client := b\<rparr>)"
  by (simp add: ssh_on_def ssh_inv_def)

lemma keeps_connect_loop: "keeps (\<lambda>s. ssh_on t (fst s)) (connect_loop T h p u a gw n)"
  by (induction n) (simp_all, (intro eff_intros comm_intros ssh_on_client | assumption)+)

lemma keeps_ssh_execute: "keeps (\<lambda>s. ssh_on t (fst s)) (ssh_execute T n ex argv cwd)"
proof -
  have "keeps (\<lambda>s. ssh_on t (fst s)) (ensure_connected T n)"
    unfolding ensure_connected_def
    by (intro eff_intros comm_intros) (auto intro!: eff_intros keeps_connect_loop split: bool.split option.split)
  moreover have "keeps (\<lambda>s. ssh_on t (fst s)) (case o' of Finished r \<Rightarrow> ret r | NoExitStatus \<Rightarrow> throw e | StderrStuck \<Rightarrow> throw e)" for o' e
    by (cases o') (auto intro: eff_intros)
  ultimately show ?thesis
    unfolding ssh_execute_def Let_def by (intro eff_intros comm_intros)
qed

lemma ssh_unbound:
  assumes "ssh_inv c" and "ssh_target c = None"
  shows "ssh_execute T n ex (a # as) cwd (c, w) = (Inl (CommunicatorError [ssh_username c]), (c, w))"
proof -
  have b: "\<not> ssh_bound c" using assms by (auto simp: ssh_inv_def ssh_target_def split: bool.splits option.splits)
  then have "\<not> ssh_client c" using assms(1) by (simp add: ssh_inv_def)
  with b have "ensure_connected T n (c, w) = (Inl (CommunicatorError [ssh_username c]), (c, w))"
    by (simp add: ensure_connected_def bindE_def getC_def getE_def throw_def)
  then show ?thesis by (simp add: ssh_execute_def seqE_def bindE_Inl)
qed

interpretation ssh: communicator ssh_inv ssh_target "\<lambda>(h, cred, p, gw). ssh_bind h cred p gw" ssh_close "ssh_execute T n ex (a # as) cwd"
  for T n ex a as cwd
proof (unfold_locales, goal_cases)
  case (1 c t c')
  then show ?case by (cases t) (auto simp: ssh_bind_def ssh_inv_def ssh_target_def split: if_splits)
next
  case (2 c)
  then show ?case by (simp add: ssh_close_def ssh_inv_def)
next
  case (3 c w r c' w')
  show ?case
  proof (cases "ssh_bound c")
    case True
    then have "ssh_on (ssh_target c) (fst (c, w))" using 3 by (simp add: ssh_on_def)
    from keepsD2 [OF keeps_ssh_execute this 3(2)] show ?thesis by (simp add: ssh_on_def)
  next
    case False
    then have "ssh_target c = None" by (simp add: ssh_target_def)
    with ssh_unbound [OF 3(1), of T n ex a as cwd w] 3 show ?thesis by simp
  qed
next
  case (4 c w)
  then show ?case using ssh_unbound [of c T n ex a as cwd w] by simp
qed

text \<open>C20: a communicator is bound once and for good. After a successful bind, no sequence of further binds, closes and
  commands, however they fail, moves a native or an SSH communicator to another guest or unbinds it.\<close>

theorem communicators_bind_once:
  "(native_bind v c = Inr c' \<longrightarrow>
      nc_target (fst (foldl (use_op native_bind native_close (native_call ping polls run)) (c', w) ops)) = Some v) \<and>
   (ssh_inv d \<and> ssh_bind h cred p gw d = Inr d' \<longrightarrow>
      ssh_target (fst (foldl (use_op (\<lambda>(h, cred, p, gw). ssh_bind h cred p gw) ssh_close (ssh_execute T n ex (a # as) cwd)) (d', w') ops')) =
        Some (h, cred, p, gw))"
proof (intro conjI impI)
  assume "native_bind v c = Inr c'"
  then have "nc_target c' = Some v" using native.bind_ok by blast
  then show "nc_target (fst (foldl (use_op native_bind native_close (native_call ping polls run)) (c', w) ops)) = Some v"
    by (rule native.bound_for_good [OF TrueI])
next
  assume h: "ssh_inv d \<and> ssh_bind h cred p gw d = Inr d'"
  then have "ssh_inv d' \<and> ssh_target d' = Some (h, cred, p, gw)" using ssh.bind_ok [of d "(h, cred, p, gw)" d'] by simp
  then show "ssh_target (fst (foldl (use_op (\<lambda>(h, cred, p, gw). ssh_bind h cred p gw) ssh_close (ssh_execute T n ex (a # as) cwd)) (d', w') ops')) =
      Some (h, cred, p, gw)"
    by (intro ssh.bound_for_good) simp_all
qed

definition fresh_ssh :: ssh_comm where
  "fresh_ssh = \<lparr>ssh_username = ''u'', nic_idx = None, ssh_bound = False, ssh_host = None, ssh_port = 22, ssh_credential = None,
     ssh_gateway = None, ssh_client = False\<rparr>"

definition some_cred :: posix_cred where
  "some_cred = \<lparr>username = ''u'', admin = False, password = Some ''p'', pc_ssh_key = None, groups = []\<rparr>"

theorem communicators_bind_once_witness:
  "\<exists>d'. ssh_bind ''10.0.0.1'' some_cred 22 None fresh_ssh = Inr d' \<and>
     ssh_target (fst (foldl (use_op (\<lambda>(h, cred, p, gw). ssh_bind h cred p gw) ssh_close
       (ssh_execute \<lparr>key_parsers = [], open_socket = (\<lambda>_ _ _. throw (OSError [])), close_socket = (\<lambda>_. ret ()), ssh_connect = (\<lambda>_ _ _ _ _. ret ())\<rparr>
          1 (\<lambda>_. throw (OSError [])) [''true''] None)) (d', ()) [Close, Bind (''10.0.0.2'', some_cred, 22, None), Use])) =
       Some (''10.0.0.1'', some_cred, 22, None)"
proof -
  have i: "ssh_inv fresh_ssh" by (simp add: ssh_inv_def fresh_ssh_def)
  obtain d' where d: "ssh_bind ''10.0.0.1'' some_cred 22 None fresh_ssh = Inr d'" by (simp add: ssh_bind_def fresh_ssh_def some_cred_def)
  show ?thesis
    by (rule exI [of _ d'], rule conjI [OF d], rule communicators_bind_once [where d = fresh_ssh, THEN conjunct2, THEN mp]) (simp add: i d)
qed

subsection \<open>Quoting\<close>

text \<open>The words of a command line, as a POSIX shell reads them: blanks separate, single quotes take everything
  literally, double quotes take everything that is not special inside them, adjacent parts join. \<open>None\<close> is a line with an
  open quote or with an unquoted character that means something else to the shell.\<close>

datatype sh_mode = Blank | Word | Single | Double

fun sh_words :: "sh_mode \<Rightarrow> string \<Rightarrow> string \<Rightarrow> string list option" where
  "sh_words Blank acc [] = Some []"
| "sh_words Word acc [] = Some [rev acc]"
| "sh_words m acc [] = None"
| "sh_words Single acc (c # cs) = (if c = SQ then sh_words Word acc cs else sh_words Single (c # acc) cs)"
| "sh_words Double acc (c # cs) =
     (if c = DQ then sh_words Word acc cs else if c \<in> set ''$`!'' \<or> c = CHR 0x5C then None else sh_words Double (c # acc) cs)"
| "sh_words m acc (c # cs) =
     (if c = CHR '' '' then (if m = Blank then sh_words Blank [] cs else map_option ((#) (rev acc)) (sh_words Blank [] cs))
      else if c = SQ then sh_words Single (if m = Blank then [] else acc) cs
      else if c = DQ then sh_words Double (if m = Blank then [] else acc) cs
      else if shell_safe c then sh_words Word (c # (if m = Blank then [] else acc)) cs
      else None)"

lemma shell_safe_plain: "shell_safe c \<Longrightarrow> c \<noteq> CHR '' '' \<and> c \<noteq> SQ \<and> c \<noteq> DQ"
  by (auto simp: shell_safe_def SQ_def DQ_def is_alnum_def is_alpha_def is_digit_def is_upper_def is_lower_def less_eq_char_def)

lemma sh_words_safe: "list_all shell_safe s \<Longrightarrow> sh_words Word acc (s @ rest) = sh_words Word (rev s @ acc) rest"
  by (induction s arbitrary: acc) (auto dest: shell_safe_plain)

lemma sh_words_single:
  "sh_words Single acc (concat (map (\<lambda>c. if c = SQ then [SQ, DQ, SQ, DQ, SQ] else [c]) s) @ SQ # rest) =
     sh_words Word (rev s @ acc) rest"
  by (induction s arbitrary: acc) (auto simp: SQ_def DQ_def)

lemma sh_words_quote: "sh_words Blank acc (quote s @ rest) = sh_words Word (rev s) rest"
proof (cases "s \<noteq> [] \<and> list_all shell_safe s")
  case True
  then obtain c cs where "s = c # cs" "shell_safe c" "list_all shell_safe cs" by (cases s) auto
  then show ?thesis using shell_safe_plain [of c] by (simp add: quote_def sh_words_safe)
next
  case False
  then show ?thesis using sh_words_single [of "[]" s rest] by (auto simp: quote_def SQ_def)
qed

lemma sh_words_join: "sh_words Blank acc (join '' '' (map quote ws)) = Some ws"
proof (induction ws arbitrary: acc)
  case (Cons w ws)
  then show ?case by (cases "ws = []") (simp_all add: join_Cons sh_words_quote sh_words_quote [where rest = "[]", simplified])
qed simp

text \<open>The guest runs exactly the argument vector. Whatever the arguments contain, the shell that receives the joined
  command reads back the same list of words, with a working directory or without: nothing is split, expanded or
  started beside it.\<close>

theorem quoting_roundtrip:
  "sh_words Blank [] (shlex_join argv) = Some argv \<and>
   (\<exists>before after. ssh_command argv (Some (x # d)) = before @ '' && '' @ after \<and>
      sh_words Blank [] before = Some [''cd'', ''--'', x # d] \<and> sh_words Blank [] after = Some (''exec'' # argv))"
proof -
  have safe: "quote ''cd'' = ''cd''" "quote ''--'' = ''--''" "quote ''exec'' = ''exec''" by code_simp+
  have b: "sh_words Blank [] (''cd -- '' @ quote (x # d)) = Some [''cd'', ''--'', x # d]"
    using sh_words_join [of "[]" "[''cd'', ''--'', x # d]"] by (simp add: safe)
  have a: "sh_words Blank [] (''exec '' @ shlex_join argv) = Some (''exec'' # argv)" if "argv \<noteq> []"
    using sh_words_join [of "[]" "''exec'' # argv"] that by (simp add: safe shlex_join_def join_Cons)
  have e: "sh_words Blank [] (''exec '' @ shlex_join argv) = Some (''exec'' # argv)" if "argv = []"
  proof -
    have "sh_words Blank [] ''exec '' = Some [''exec'']" by code_simp
    with that show ?thesis by (simp add: shlex_join_def)
  qed
  have e': "sh_words Blank [] (''exec '' @ shlex_join argv) = Some (''exec'' # argv)" using a e by blast
  have "ssh_command argv (Some (x # d)) = (''cd -- '' @ quote (x # d)) @ '' && '' @ (''exec '' @ shlex_join argv)"
    by (simp add: ssh_command_def)
  with b e' have "\<exists>before after. ssh_command argv (Some (x # d)) = before @ '' && '' @ after \<and>
      sh_words Blank [] before = Some [''cd'', ''--'', x # d] \<and> sh_words Blank [] after = Some (''exec'' # argv)" by blast
  moreover have "sh_words Blank [] (shlex_join argv) = Some argv" unfolding shlex_join_def by (rule sh_words_join)
  ultimately show ?thesis by (rule conjI [rotated])
qed

end
