(* ===== verification/Parallel.thy ===== *)
theory Parallel
  imports Effects "HOL-Library.Multiset"
begin

text \<open>
  Bounded parallelism (\<^verbatim>\<open>orchestrator/_parallel.py\<close>). Workers take items in submission order, at
  most \<open>workers\<close> at a time. What the machine decides is the record \<open>sched\<close>: which of the items in flight completes
  next, how many waiting items still start between the first failure and the cancellation, and how many completions after
  the first failure the scan of the futures sees. A work item is one effect, taken at its completion: items that run at the
  same time are ordered by when they complete.
\<close>

definition DEFAULT_MAX_WORKERS :: int where "DEFAULT_MAX_WORKERS = 8"

definition resolve_workers :: "nat \<Rightarrow> int option \<Rightarrow> nat" where
  "resolve_workers n_items jobs =
     (if n_items \<le> 1 then 1
      else let cap = (case jobs of None \<Rightarrow> DEFAULT_MAX_WORKERS | Some j \<Rightarrow> j) in min (nat (max cap 1)) n_items)"

record sched =
  pick :: "nat \<Rightarrow> nat"
  late :: nat
  seen :: nat

definition raised :: "'r result \<Rightarrow> bool" where
  "raised r = (case r of Inl _ \<Rightarrow> True | Inr _ \<Rightarrow> False)"

text \<open>The pool: \<open>flight\<close> are the started items, \<open>queue\<close> the submitted ones that wait, \<open>k\<close> counts completions. The first
  failure cancels all waiting items but those that start before the cancellation reaches them. The outcome
  lists the completed items with their results in completion order.\<close>

definition drop_nth :: "nat \<Rightarrow> 'a list \<Rightarrow> 'a list" where
  "drop_nth j xs = take j xs @ drop (Suc j) xs"

function pool_loop :: "('a \<Rightarrow> ('w, 'r) eff) \<Rightarrow> sched \<Rightarrow> nat \<Rightarrow> bool \<Rightarrow> (nat \<times> 'a) list \<Rightarrow> (nat \<times> 'a) list \<Rightarrow> 'w \<Rightarrow>
    (nat \<times> 'r result) list \<times> 'w" where
  "pool_loop f S k failed flight queue w =
     (if flight = [] then ([], w)
      else
        let j = pick S k mod length flight; item = flight ! j; done' = f (snd item) w; now = raised (fst done');
            queue' = (if now \<and> \<not> failed then take (late S) queue else queue);
            more = pool_loop f S (Suc k) (failed \<or> now) (drop_nth j flight @ take 1 queue') (drop 1 queue') (snd done') in
        ((fst item, fst done') # fst more, snd more))"
  by pat_completeness auto
termination
proof (relation "measure (\<lambda>(f, S, k, failed, flight, queue, w). length flight + length queue)", goal_cases)
  case (2 f S k failed flight queue w)
  have "pick S k mod length flight < length flight" using 2(1) by simp
  then have "length (drop_nth (pick S k mod length flight) flight) < length flight" by (simp add: drop_nth_def)
  moreover have "length (take 1 q) + length (drop 1 q) = length q" for q :: "(nat \<times> 'a) list" by (cases q) auto
  ultimately show ?case using 2 by (auto simp: Let_def drop_nth_def min_def split: if_splits)
qed simp

declare pool_loop.simps [simp del]

text \<open>The failure that is reported: the earliest submitted one among the completions the scan sees.\<close>

definition reported :: "nat \<Rightarrow> (nat \<times> 'r result) list \<Rightarrow> exn option" where
  "reported seen_after outs =
     (let upto = Suc (length (takeWhile (\<lambda>(i, r). \<not> raised r) outs)) + seen_after in
      case sort_key fst (filter (\<lambda>(i, r). raised r) (take upto outs)) of
        (i, Inl e) # _ \<Rightarrow> Some e
      | _ \<Rightarrow> None)"

definition results_in_order :: "(nat \<times> 'r result) list \<Rightarrow> 'r list" where
  "results_in_order outs = List.map_filter (\<lambda>(i, r). case r of Inr x \<Rightarrow> Some x | Inl _ \<Rightarrow> None) (sort_key fst outs)"

definition parallel_map :: "('a \<Rightarrow> ('w, 'r) eff) \<Rightarrow> sched \<Rightarrow> int option \<Rightarrow> 'a list \<Rightarrow> ('w, 'r list) eff" where
  "parallel_map f S jobs items =
     (if items = [] then ret []
      else let workers = resolve_workers (length items) jobs in
        if workers = 1 then forE f items
        else (\<lambda>w. let work = enumerate 0 items in
          case pool_loop f S 0 False (take workers work) (drop workers work) w of (outs, w') \<Rightarrow>
            (case reported (seen S) outs of
               Some e \<Rightarrow> (Inl e, w')
             | None \<Rightarrow> (Inr (results_in_order outs), w'))))"

subsection \<open>A parallel run is a serial run\<close>

text \<open>\<open>run_all\<close> runs effects one after the other and does not stop at a failure.\<close>

fun run_all :: "('a \<Rightarrow> ('w, 'r) eff) \<Rightarrow> 'a list \<Rightarrow> 'w \<Rightarrow> 'r result list \<times> 'w" where
  "run_all f [] w = ([], w)"
| "run_all f (x # xs) w = (case f x w of (r, w') \<Rightarrow> case run_all f xs w' of (rs, w'') \<Rightarrow> (r # rs, w''))"

lemma run_all_forE: "run_all f xs w = (map Inr rs, w') \<Longrightarrow> forE f xs w = (Inr rs, w')"
proof (induction xs arbitrary: w rs)
  case (Cons x xs)
  then obtain r w1 rs' where "f x w = (Inr r, w1)" "run_all f xs w1 = (map Inr rs', w')" "rs = r # rs'"
    by (auto split: prod.splits simp: Cons_eq_map_conv)
  with Cons.IH show ?case by (simp add: bindE_def ret_def)
qed (simp add: ret_def)

lemma forE_run_all:
  "forE f xs w = (Inl e, w') \<Longrightarrow> \<exists>ys zs rs. xs = ys @ zs \<and> run_all f ys w = (rs, w') \<and> Inl e \<in> set rs"
proof (induction xs arbitrary: w)
  case (Cons x xs)
  show ?case
  proof (cases "f x w")
    case (Pair r w1)
    show ?thesis
    proof (cases r)
      case (Inl e')
      with Pair Cons.prems have "run_all f [x] w = ([Inl e], w')" by (simp add: bindE_def)
      then show ?thesis by (intro exI [of _ "[x]"] exI [of _ xs] exI [of _ "[Inl e]"]) simp
    next
      case (Inr y)
      with Pair Cons.prems have "forE f xs w1 = (Inl e, w')" by (auto simp: bindE_def ret_def split: prod.splits sum.splits)
      from Cons.IH [OF this] obtain ys zs rs where "xs = ys @ zs" "run_all f ys w1 = (rs, w')" "Inl e \<in> set rs" by blast
      with Pair show ?thesis by (intro exI [of _ "x # ys"] exI [of _ zs] exI [of _ "r # rs"]) simp
    qed
  qed
qed (simp add: ret_def)

lemma forE_Inr: "forE f xs w = (Inr rs, w') \<Longrightarrow> length rs = length xs"
  by (induction xs arbitrary: w rs) (auto simp: bindE_def ret_def split: prod.splits sum.splits)

lemma mset_drop_nth: "j < length xs \<Longrightarrow> add_mset (xs ! j) (mset (drop_nth j xs)) = mset xs"
  using arg_cong [OF id_take_nth_drop [of j xs], of mset] by (simp add: drop_nth_def)

lemma mset_take: "mset (take n xs) \<subseteq># mset xs"
  by (metis append_take_drop_id mset_append mset_subset_eq_add_left)

text \<open>The completed items, in completion order, are part of the submitted ones, all of them when none failed.\<close>

lemma pool_loop_serial:
  "flight = [] \<longrightarrow> queue = [] \<Longrightarrow>
   \<exists>ys. mset ys \<subseteq># mset (flight @ queue) \<and> map fst ys = map fst (fst (pool_loop f S k failed flight queue w)) \<and>
     run_all f (map snd ys) w = (map snd (fst (pool_loop f S k failed flight queue w)), snd (pool_loop f S k failed flight queue w)) \<and>
     (list_all (\<lambda>(i, r). \<not> raised r) (fst (pool_loop f S k failed flight queue w)) \<longrightarrow> mset ys = mset (flight @ queue))"
proof (induction f S k failed flight queue w rule: pool_loop.induct)
  case (1 f S k failed flight queue w)
  note prem = 1(2)
  show ?case
  proof (cases "flight = []")
    case False
    define j where "j = pick S k mod length flight"
    define item where "item = flight ! j"
    define r where "r = fst (f (snd item) w)"
    define w1 where "w1 = snd (f (snd item) w)"
    define queue' where "queue' = (if raised r \<and> \<not> failed then take (late S) queue else queue)"
    define more where "more = pool_loop f S (Suc k) (failed \<or> raised r) (drop_nth j flight @ take 1 queue') (drop 1 queue') w1"
    have step: "pool_loop f S k failed flight queue w = ((fst item, r) # fst more, snd more)"
      using False by (subst pool_loop.simps) (simp add: j_def item_def r_def w1_def queue'_def more_def Let_def)
    have refill: "drop_nth j flight @ take 1 queue' = [] \<longrightarrow> drop 1 queue' = []" by (cases queue') simp_all
    obtain ys where ys: "mset ys \<subseteq># mset ((drop_nth j flight @ take 1 queue') @ drop 1 queue')"
        "map fst ys = map fst (fst more)" "run_all f (map snd ys) w1 = (map snd (fst more), snd more)"
        "list_all (\<lambda>(i, r). \<not> raised r) (fst more) \<longrightarrow> mset ys = mset ((drop_nth j flight @ take 1 queue') @ drop 1 queue')"
      using 1(1) [OF False j_def item_def refl refl, of "queue'"] refill unfolding more_def r_def w1_def queue'_def by (auto simp: Let_def)
    have jl: "j < length flight" using False by (simp add: j_def)
    have q: "mset queue' \<subseteq># mset queue"
      unfolding queue'_def by (auto simp: mset_take)
    have all: "mset ((drop_nth j flight @ take 1 queue') @ drop 1 queue') = mset (drop_nth j flight) + mset queue'"
      by (metis append_assoc append_take_drop_id mset_append)
    have fl: "mset flight = add_mset item (mset (drop_nth j flight))" using mset_drop_nth [OF jl] by (simp add: item_def)
    have "mset (item # ys) \<subseteq># mset (flight @ queue)"
      using ys(1) q unfolding all fl mset_append mset.simps by (simp add: subset_mset.add_mono subset_mset.order_trans [OF ys(1) [unfolded all]])
    moreover have "run_all f (map snd (item # ys)) w = (r # map snd (fst more), snd more)"
      using ys(3) by (cases "f (snd item) w") (simp add: r_def w1_def)
    moreover have "mset (item # ys) = mset (flight @ queue)" if "\<not> raised r" "list_all (\<lambda>(i, r). \<not> raised r) (fst more)"
      using ys(4) that unfolding all fl by (simp add: queue'_def fl)
    ultimately show ?thesis unfolding step using ys(2) by (intro exI [of _ "item # ys"]) simp
  qed (use prem in \<open>simp add: pool_loop.simps\<close>)
qed

subsection \<open>Reporting\<close>

lemma reported_Some: "reported n outs = Some e \<Longrightarrow> Inl e \<in> set (map snd outs)"
proof -
  assume a: "reported n outs = Some e"
  let ?bad = "filter (\<lambda>(i, r). raised r) (take (Suc (length (takeWhile (\<lambda>(i, r). \<not> raised r) outs)) + n) outs)"
  from a obtain i rest where "sort_key fst ?bad = (i, Inl e) # rest"
    by (auto simp: reported_def Let_def split: list.splits sum.splits)
  then have "(i, Inl e) \<in> set ?bad" by (metis list.set_intros(1) set_sort)
  then have "(i, Inl e) \<in> set outs" by (auto dest: in_set_takeD)
  then show ?thesis by force
qed

lemma reported_None: "reported n outs = None \<Longrightarrow> list_all (\<lambda>(i, r). \<not> raised r) outs"
proof (rule ccontr)
  assume a: "reported n outs = None" and b: "\<not> list_all (\<lambda>(i, r). \<not> raised r) outs"
  let ?p = "length (takeWhile (\<lambda>(i, r). \<not> raised r) outs)"
  let ?bad = "filter (\<lambda>(i, r). raised r) (take (Suc ?p + n) outs)"
  from b have lt: "?p < length outs"
    by (metis length_takeWhile_le list_all_iff nat_less_le takeWhile_eq_all_conv takeWhile_eq_take take_all_iff order_refl)
  then have "raised (snd (outs ! ?p))" using nth_length_takeWhile [of "\<lambda>(i, r). \<not> raised r" outs] by (simp add: case_prod_beta)
  moreover have "outs ! ?p \<in> set (take (Suc ?p + n) outs)" using lt by (auto simp: in_set_conv_nth intro!: exI [of _ ?p])
  ultimately have "?bad \<noteq> []" by (auto simp: filter_empty_conv case_prod_beta)
  then have "sort_key fst ?bad \<noteq> []" by (metis length_0_conv length_sort)
  then obtain i r rest where s: "sort_key fst ?bad = (i, r) # rest" by (cases "sort_key fst ?bad") auto
  then have "(i, r) \<in> set ?bad" by (metis list.set_intros(1) set_sort)
  then have "raised r" by auto
  with s a show False by (auto simp: reported_def Let_def raised_def split: sum.splits)
qed

lemma sort_key_map: "sort_key f (map g xs) = map g (sort_key (f \<circ> g) xs)"
proof -
  have "insort_key f (g x) (map g ys) = map g (insort_key (f \<circ> g) x ys)" for x ys by (induction ys) auto
  then show ?thesis by (induction xs) auto
qed

lemma results_of_permutation:
  assumes "mset (map fst zs) = mset (enumerate 0 items)"
  shows "mset (map (\<lambda>((i, x), r). (x, r)) zs) = mset (zip items (results_in_order (map (\<lambda>((i, x), r). (i, Inr r)) zs))) \<and>
    length (results_in_order (map (\<lambda>((i, x), r). (i, Inr r)) zs)) = length items"
proof -
  let ?zs = "sort_key (fst \<circ> fst) zs"
  have "map fst ?zs = sort_key fst (map fst zs)" by (simp add: sort_key_map)
  also have "\<dots> = enumerate 0 items"
  proof (rule sort_key_inj_key_eq)
    have "set (map fst zs) = set (enumerate 0 items)" using assms by (metis set_mset_mset)
    moreover have "inj_on fst (set (enumerate 0 items))"
      by (metis distinct_enumerate distinct_map distinct_upt map_fst_enumerate)
    ultimately show "inj_on fst (set (map fst zs))" by simp
  qed (use assms in \<open>simp_all add: sorted_upt\<close>)
  finally have e: "map fst ?zs = enumerate 0 items" .
  have "results_in_order (map (\<lambda>((i, x), r). (i, Inr r)) zs) = map snd ?zs"
  proof -
    have "sort_key fst (map (\<lambda>((i, x), r). (i, Inr r :: 'b result)) zs) = map (\<lambda>((i, x), r). (i, Inr r)) ?zs"
      by (simp add: sort_key_map comp_def case_prod_beta)
    then show ?thesis by (simp add: results_in_order_def map_filter_def comp_def case_prod_beta)
  qed
  moreover have "items = map (snd \<circ> fst) ?zs" using arg_cong [OF e, of "map snd"] by simp
  moreover have "mset (map (\<lambda>((i, x), r). (x, r)) ?zs) = mset (map (\<lambda>((i, x), r). (x, r)) zs)" by simp
  ultimately show ?thesis by (simp add: zip_map_map zip_same_conv_map comp_def case_prod_beta split_def)
qed

lemma resolve_workers_bounds: "1 \<le> resolve_workers n jobs \<and> (1 \<le> n \<longrightarrow> resolve_workers n jobs \<le> n)"
  by (auto simp: resolve_workers_def Let_def)

lemma pool_serial:
  assumes "pool_loop f S 0 False (take n (enumerate 0 items)) (drop n (enumerate 0 items)) w = (outs, w')" and "1 \<le> n"
  obtains ys where "mset ys \<subseteq># mset (enumerate 0 items)" "map fst ys = map fst outs" "run_all f (map snd ys) w = (map snd outs, w')"
    "list_all (\<lambda>(i, r). \<not> raised r) outs \<Longrightarrow> mset ys = mset (enumerate 0 items)"
proof -
  have "take n (enumerate 0 items) = [] \<longrightarrow> drop n (enumerate 0 items) = []" using assms(2) by auto
  from pool_loop_serial [OF this, where f = f and S = S and k = 0 and failed = False and w = w] obtain ys
    where "mset ys \<subseteq># mset (enumerate 0 items)" "map fst ys = map fst outs" "run_all f (map snd ys) w = (map snd outs, w')"
      "list_all (\<lambda>(i, r). \<not> raised r) outs \<longrightarrow> mset ys = mset (enumerate 0 items)"
    unfolding assms(1) fst_conv snd_conv append_take_drop_id by (elim exE conjE)
  then show ?thesis by (intro that [of ys]) (simp_all only: simp_thms)
qed

lemma parallel_map_serial:
  "(parallel_map f S jobs items w = (Inr rs, w') \<longrightarrow> length rs = length items \<and>
      (\<exists>order. mset order = mset (zip items rs) \<and> forE f (map fst order) w = (Inr (map snd order), w'))) \<and>
   (parallel_map f S jobs items w = (Inl e, w') \<longrightarrow>
      (\<exists>order outs. mset order \<subseteq># mset items \<and> run_all f order w = (outs, w') \<and> Inl e \<in> set outs))"
proof -
  let ?n = "resolve_workers (length items) jobs"
  consider "items = []" | "items \<noteq> []" "?n = 1" | "items \<noteq> []" "?n \<noteq> 1" by blast
  then show ?thesis
  proof cases
    case 1
    then show ?thesis by (auto simp: parallel_map_def ret_def)
  next
    case 2
    then have eq: "parallel_map f S jobs items = forE f items" by (simp add: parallel_map_def)
    have "\<exists>order. mset order = mset (zip items rs) \<and> forE f (map fst order) w = (Inr (map snd order), w')" "length rs = length items"
      if "forE f items w = (Inr rs, w')" using that forE_Inr [OF that] by (auto intro!: exI [of _ "zip items rs"])
    moreover have "\<exists>order outs. mset order \<subseteq># mset items \<and> run_all f order w = (outs, w') \<and> Inl e \<in> set outs"
      if "forE f items w = (Inl e, w')" using forE_run_all [OF that] by (metis mset_append mset_subset_eq_add_left)
    ultimately show ?thesis unfolding eq by blast
  next
    case 3
    obtain outs v where pool: "pool_loop f S 0 False (take ?n (enumerate 0 items)) (drop ?n (enumerate 0 items)) w = (outs, v)"
      by (meson surj_pair)
    with 3 have eq: "parallel_map f S jobs items w =
        (case reported (seen S) outs of Some e \<Rightarrow> (Inl e, v) | None \<Rightarrow> (Inr (results_in_order outs), v))"
      by (simp add: parallel_map_def Let_def)
    obtain ys where ys: "mset ys \<subseteq># mset (enumerate 0 items)" "map fst ys = map fst outs" "run_all f (map snd ys) w = (map snd outs, v)"
        "list_all (\<lambda>(i, r). \<not> raised r) outs \<Longrightarrow> mset ys = mset (enumerate 0 items)"
      using pool_serial [OF pool] resolve_workers_bounds by blast
    show ?thesis
    proof (cases "reported (seen S) outs")
      case None
      then have ok: "list_all (\<lambda>(i, r). \<not> raised r) outs" by (rule reported_None)
      define xs where "xs = map (\<lambda>(i, r). case r of Inr x \<Rightarrow> x) outs"
      have snds: "map snd outs = map Inr xs"
        using ok by (auto simp: xs_def list_all_iff raised_def split: sum.splits)
      define zs where "zs = zip ys xs"
      have len: "length ys = length xs" using arg_cong [OF ys(2), of length] by (simp add: xs_def)
      have outs: "outs = map (\<lambda>((i, x), r). (i, Inr r)) zs"
      proof -
        have "outs = zip (map fst outs) (map snd outs)" by (simp add: zip_map_fst_snd)
        also have "\<dots> = zip (map fst ys) (map Inr xs)" by (simp only: ys(2) snds)
        finally show ?thesis by (simp add: zs_def zip_map_map case_prod_beta split_def)
      qed
      have "mset (map fst zs) = mset (enumerate 0 items)" using ys(4) [OF ok] len by (simp add: zs_def)
      from results_of_permutation [OF this]
      have perm: "mset (map (\<lambda>((i, x), r). (x, r)) zs) = mset (zip items (results_in_order outs))" "length (results_in_order outs) = length items"
        unfolding outs [symmetric] by simp_all
      have "forE f (map snd ys) w = (Inr xs, v)" by (rule run_all_forE) (simp add: ys(3) snds)
      moreover have "map fst (map (\<lambda>((i, x), r). (x, r)) zs) = map snd (map fst zs)" "map snd (map (\<lambda>((i, x), r). (x, r)) zs) = map snd zs"
        by (simp_all add: case_prod_beta comp_def)
      then have "map fst (map (\<lambda>((i, x), r). (x, r)) zs) = map snd ys" "map snd (map (\<lambda>((i, x), r). (x, r)) zs) = xs"
        using len by (simp_all only: zs_def map_fst_zip map_snd_zip)
      ultimately have "mset (map (\<lambda>((i, x), r). (x, r)) zs) = mset (zip items (results_in_order outs)) \<and>
          forE f (map fst (map (\<lambda>((i, x), r). (x, r)) zs)) w = (Inr (map snd (map (\<lambda>((i, x), r). (x, r)) zs)), v)"
        using perm(1) by (simp only:)
      with perm(2) have res: "length (results_in_order outs) = length items \<and>
          (\<exists>order. mset order = mset (zip items (results_in_order outs)) \<and> forE f (map fst order) w = (Inr (map snd order), v))" by blast
      show ?thesis
      proof (intro conjI impI)
        assume "parallel_map f S jobs items w = (Inr rs, w')"
        then have "rs = results_in_order outs" "w' = v" unfolding eq None by simp_all
        with res show "length rs = length items"
          "\<exists>order. mset order = mset (zip items rs) \<and> forE f (map fst order) w = (Inr (map snd order), w')" by simp_all
      qed (simp add: eq None)
    next
      case (Some e')
      then have "Inl e' \<in> set (map snd outs)" by (rule reported_Some)
      moreover have "mset (map snd ys) \<subseteq># mset items"
        using image_mset_subseteq_mono [OF ys(1), of snd] unfolding mset_map [symmetric] map_snd_enumerate .
      ultimately have "mset (map snd ys) \<subseteq># mset items \<and> run_all f (map snd ys) w = (map snd outs, v) \<and> Inl e' \<in> set (map snd outs)"
        using ys(3) by blast
      then have "\<exists>order outs. mset order \<subseteq># mset items \<and> run_all f order w = (outs, v) \<and> Inl e' \<in> set outs" by blast
      then show ?thesis unfolding eq Some option.case prod.inject sum.inject by blast
    qed
  qed
qed



subsection \<open>Invariants and congruence\<close>

lemma run_all_keeps: "(\<And>x. x \<in> set xs \<Longrightarrow> keeps P (f x)) \<Longrightarrow> P w \<Longrightarrow> P (snd (run_all f xs w))"
proof (induction xs arbitrary: w)
  case (Cons x xs)
  have "P (snd (f x w))" using Cons.prems keepsD by fastforce
  with Cons.IH Cons.prems(1) have "P (snd (run_all f xs (snd (f x w))))" by simp
  then show ?case by (simp split: prod.split) (metis snd_conv)
qed simp

lemma pool_loop_keeps:
  assumes "\<And>x. x \<in> snd ` set (flight @ queue) \<Longrightarrow> keeps P (f x)" and "P w" and "flight = [] \<longrightarrow> queue = []"
  shows "P (snd (pool_loop f S k failed flight queue w))"
proof -
  from pool_loop_serial [OF assms(3), where f = f and S = S and k = k and failed = failed and w = w] obtain ys
    where "mset ys \<subseteq># mset (flight @ queue)" and run: "snd (run_all f (map snd ys) w) = snd (pool_loop f S k failed flight queue w)"
    by (elim exE conjE) (simp only: snd_conv)
  then have "set ys \<subseteq> set (flight @ queue)" by (metis set_mset_mono set_mset_mset)
  then have "\<And>x. x \<in> set (map snd ys) \<Longrightarrow> keeps P (f x)" using assms(1) by auto
  then have "P (snd (run_all f (map snd ys) w))" using assms(2) by (rule run_all_keeps)
  then show ?thesis unfolding run .
qed

lemma keeps_parallel_map [eff_intros]:
  assumes "\<And>x. x \<in> set items \<Longrightarrow> keeps P (f x)"
  shows "keeps P (parallel_map f S jobs items)"
proof (cases "items = [] \<or> resolve_workers (length items) jobs = 1")
  case True
  with assms show ?thesis by (auto simp: parallel_map_def intro!: eff_intros)
next
  case False
  let ?n = "resolve_workers (length items) jobs"
  have "P (snd (pool_loop f S 0 False (take ?n (enumerate 0 items)) (drop ?n (enumerate 0 items)) w))" if "P w" for w
  proof (rule pool_loop_keeps [where P = P])
    fix x
    assume "x \<in> snd ` set (take ?n (enumerate 0 items) @ drop ?n (enumerate 0 items))"
    then have "x \<in> set items" by (metis append_take_drop_id image_set map_snd_enumerate)
    then show "keeps P (f x)" by (rule assms)
  next
    show "take ?n (enumerate 0 items) = [] \<longrightarrow> drop ?n (enumerate 0 items) = []"
      using resolve_workers_bounds [of "length items" jobs] by auto
  qed (rule that)
  with False show ?thesis by (auto simp: keeps_def parallel_map_def Let_def split: prod.split option.split) (metis snd_conv)+
qed

text \<open>Two effects that agree wherever an invariant of the items holds give the same parallel map.\<close>

lemma pool_loop_cong:
  assumes "\<And>x v. x \<in> snd ` set (flight @ queue) \<Longrightarrow> P v \<Longrightarrow> f x v = g x v" and "\<And>x. x \<in> snd ` set (flight @ queue) \<Longrightarrow> keeps P (f x)" and "P w"
  shows "pool_loop f S k failed flight queue w = pool_loop g S k failed flight queue w"
  using assms
proof (induction f S k failed flight queue w rule: pool_loop.induct)
  case (1 f S k failed flight queue w)
  note assm1 = 1(2) and assm2 = 1(3)
  show ?case
  proof (cases "flight = []")
    case False
    define j where "j = pick S k mod length flight"
    have jl: "j < length flight" using False by (simp add: j_def)
    define item where "item = flight ! j"
    define d where "d = f (snd item) w"
    define now where "now = raised (fst d)"
    define queue' where "queue' = (if now \<and> \<not> failed then take (late S) queue else queue)"
    have mem: "snd item \<in> snd ` set (flight @ queue)"
      unfolding item_def using jl by (intro imageI) simp
    have fg: "d = g (snd item) w" unfolding d_def by (rule assm1 [OF mem 1(4)])
    have w1: "P (snd d)" unfolding d_def using assm2 [OF mem] 1(4) by (rule keepsD)
    have sub: "snd ` set ((drop_nth j flight @ take 1 queue') @ drop 1 queue') \<subseteq> snd ` set (flight @ queue)"
      by (rule image_mono) (auto simp: drop_nth_def queue'_def dest!: in_set_takeD in_set_dropD split: if_splits)
    have "pool_loop f S (Suc k) (failed \<or> now) (drop_nth j flight @ take 1 queue') (drop 1 queue') (snd d) =
        pool_loop g S (Suc k) (failed \<or> now) (drop_nth j flight @ take 1 queue') (drop 1 queue') (snd d)"
      by (rule 1(1) [OF False j_def item_def d_def now_def queue'_def, OF assm1 [OF subsetD [OF sub]] assm2 [OF subsetD [OF sub]] w1])
    moreover have "pool_loop h S k failed flight queue w =
        ((fst item, fst d) # fst (pool_loop h S (Suc k) (failed \<or> now) (drop_nth j flight @ take 1 queue') (drop 1 queue') (snd d)),
          snd (pool_loop h S (Suc k) (failed \<or> now) (drop_nth j flight @ take 1 queue') (drop 1 queue') (snd d)))"
      if "d = h (snd item) w" for h
      using False by (subst pool_loop.simps) (simp only: if_False Let_def j_def [symmetric] item_def [symmetric] that [symmetric] now_def [symmetric]
          queue'_def [symmetric])
    ultimately show ?thesis using fg d_def by simp
  qed (simp add: pool_loop.simps)
qed

lemma parallel_map_cong:
  assumes "\<And>x v. x \<in> set items \<Longrightarrow> P v \<Longrightarrow> f x v = g x v" and "\<And>x. x \<in> set items \<Longrightarrow> keeps P (f x)" and "P w"
  shows "parallel_map f S jobs items w = parallel_map g S jobs items w"
proof -
  have serial: "forE f xs w = forE g xs w" if "set xs \<subseteq> set items" "P w" for xs w
    using that
  proof (induction xs arbitrary: w)
    case (Cons x xs)
    then have fg: "f x w = g x w" using assms(1) by simp
    have "P (snd (f x w))" using assms(2) [of x] Cons.prems keepsD by fastforce
    then have "forE f xs (snd (f x w)) = forE g xs (snd (f x w))" using Cons by simp
    then show ?case using fg by (cases "g x w") (auto simp: bindE_def split: sum.split)
  qed simp
  let ?n = "resolve_workers (length items) jobs"
  have set: "snd ` set (take ?n (enumerate 0 items) @ drop ?n (enumerate 0 items)) = set items"
    unfolding append_take_drop_id by (metis image_set map_snd_enumerate)
  have "pool_loop f S 0 False (take ?n (enumerate 0 items)) (drop ?n (enumerate 0 items)) w =
      pool_loop g S 0 False (take ?n (enumerate 0 items)) (drop ?n (enumerate 0 items)) w"
    by (rule pool_loop_cong [where P = P]) (use assms in \<open>simp_all only: set\<close>)
  with serial [OF order_refl assms(3)] show ?thesis by (simp add: parallel_map_def Let_def)
qed

lemma forE_establishes:
  assumes "\<And>x v r v'. x \<in> set xs \<Longrightarrow> f x v = (Inr r, v') \<Longrightarrow> Q x v'" and "\<And>x y. x \<in> set xs \<Longrightarrow> y \<in> set xs \<Longrightarrow> keeps (Q y) (f x)"
    and "forE f xs w = (Inr rs, w')"
  shows "\<forall>x \<in> set xs. Q x w'"
  using assms
proof (induction xs arbitrary: w rs)
  case (Cons x xs)
  from Cons.prems(3) obtain r w1 rs' where x: "f x w = (Inr r, w1)" and xs: "forE f xs w1 = (Inr rs', w')"
    by (auto simp: bindE_def ret_def split: prod.splits sum.splits)
  have "keeps (Q x) (forE f xs)" using Cons.prems(2) by (intro keeps_forE) simp
  with Cons.prems(1) [OF _ x] xs have "Q x w'" by (auto dest: keepsD2)
  with Cons.IH [OF Cons.prems(1,2) xs] show ?case by simp
qed simp

text \<open>What every item establishes and none destroys holds of all items when the map has returned.\<close>

lemma parallel_map_establishes:
  assumes "\<And>x v r v'. x \<in> set items \<Longrightarrow> f x v = (Inr r, v') \<Longrightarrow> Q x v'" and "\<And>x y. x \<in> set items \<Longrightarrow> y \<in> set items \<Longrightarrow> keeps (Q y) (f x)"
    and "parallel_map f S jobs items w = (Inr rs, w')"
  shows "\<forall>x \<in> set items. Q x w'"
proof -
  from parallel_map_serial [THEN conjunct1, THEN mp, OF assms(3)] obtain order
    where o: "mset order = mset (zip items rs)" "length rs = length items" "forE f (map fst order) w = (Inr (map snd order), w')" by blast
  then have "set (map fst order) = set items" by (metis mset_eq_setD mset_map map_fst_zip)
  with forE_establishes [OF _ _ o(3), of Q] assms(1,2) show ?thesis by metis
qed

end
