(* ===== verification/Provision.thy ===== *)
theory Provision
  imports Teardown Sidecar_Config Hypervisor Communicators Parallel
begin

text \<open>
  The bring-up code the build and run phases share: \<^verbatim>\<open>orchestrator/context.py\<close>,
  \<^verbatim>\<open>orchestrator/provision.py\<close>, \<^verbatim>\<open>orchestrator/build.py\<close>, the build infrastructure of
  \<^verbatim>\<open>orchestrator/vm_build.py\<close> and the pool creation of \<^verbatim>\<open>orchestrator/vm_run.py\<close>. The driver's pure naming functions
  are the record \<open>driver\<close>; its effects are the calls of the world. Resolving a cache entry finds what this run
  captured (\<open>cache_files\<close>) or answers as the environment says (\<open>rc_cache\<close>); how often a wait may poll before its deadline is
  \<open>rc_polls\<close>, what a build VM's console yields \<open>rc_console\<close>, the
  worker schedule of each wave \<open>rc_sched\<close>, the digest \<open>rc_sha\<close>. The ISO writer of the sidecar's configuration is third-party code
  whose output the model does not look at. Logging and the dashboard are left out.
\<close>

subsection \<open>Run state\<close>

record driver =
  compose_resource_name :: "name \<Rightarrow> string \<Rightarrow> name \<Rightarrow> name"
  volume_suffix :: "string \<Rightarrow> string"
  compose_volume_ref :: "name \<Rightarrow> name \<Rightarrow> string"
  compose_mac :: "name \<Rightarrow> name \<Rightarrow> int \<Rightarrow> string"

record file_info =
  fi_path :: string
  sha256 :: string

text \<open>The immutable part of \<^verbatim>\<open>GraphContext\<close>.\<close>

record ('b, 'c) run_cfg =
  rc_env :: env
  rc_run_id :: name
  rc_plan_name :: name
  rc_hypervisor :: "('b, 'c) hypervisor"
  rc_driver :: driver
  rc_uplink_addrs :: "(name, static_addr) dict"
  rc_cache :: "name \<Rightarrow> file_info result"
  rc_resume :: bool
  rc_probe_fetch :: bool
  rc_polls :: "string \<Rightarrow> nat"
  rc_console :: "name \<Rightarrow> (string \<times> bool) list"
  rc_jobs :: "int option"
  rc_sched :: "string \<Rightarrow> nat \<Rightarrow> sched"
  rc_sha :: "string \<Rightarrow> string"

text \<open>The communicator objects of the plan, by reference: two VMs may share one.\<close>

datatype comm_state = SSH ssh_comm | Native native_comm | Foreign

text \<open>\<^verbatim>\<open>BuildInfraState\<close> and the ledgers of \<^verbatim>\<open>GraphContext\<close>; \<open>'p\<close> is a VM's build probe.\<close>

record build_infra =
  active :: bool
  pool_backend :: "name option"
  net_backend :: "name option"
  bi_switch :: "switch option"

record 'p ledgers =
  pool_backends :: "(name, name) dict"
  network_backends :: "(name, name) dict"
  switch_backends :: "(name, name) dict"
  sidecar_backends :: "(name, name) dict"
  built_disk_paths :: "(name, (string, string) dict) dict"
  node_keys :: "(name, string) dict"
  vm_probes :: "(name, 'p) dict"
  materialized_nodes :: "name list"
  realized_nodes :: "name list"
  infra :: build_infra
  cache_files :: "(name, file_info) dict"
  comms :: "nat \<Rightarrow> comm_state"

type_synonym 'p run_state = "world \<times> 'p ledgers"

definition onW :: "(world, 'a) eff \<Rightarrow> ('p run_state, 'a) eff" where
  "onW m s = (case m (fst s) of (r, w') \<Rightarrow> (r, (w', snd s)))"

definition modL :: "('p ledgers \<Rightarrow> 'p ledgers) \<Rightarrow> ('p run_state, unit) eff" where
  "modL f s = (Inr (), (fst s, f (snd s)))"

definition getL :: "('p ledgers \<Rightarrow> 'a) \<Rightarrow> ('p run_state, 'a) eff" where
  "getL f = getE (\<lambda>s. f (snd s))"

text \<open>\<^verbatim>\<open>d[k]\<close> on a ledger dictionary.\<close>

definition lookupL :: "('p ledgers \<Rightarrow> (name, 'v) dict) \<Rightarrow> name \<Rightarrow> ('p run_state, 'v) eff" where
  "lookupL f k = bindE (getL f) (\<lambda>d. case map_of d k of None \<Rightarrow> throw (KeyError [k]) | Some v \<Rightarrow> ret v)"

definition cache_resolve :: "('b, 'c) run_cfg \<Rightarrow> name \<Rightarrow> ('p run_state, file_info) eff" where
  "cache_resolve C n =
     bindE (getL cache_files) (\<lambda>d. case map_of d n of Some i \<Rightarrow> ret i | None \<Rightarrow> liftR (rc_cache C n))"

lemma keeps_cache_resolve [eff_intros]: "keeps P (cache_resolve C n)"
  unfolding cache_resolve_def getL_def by (intro eff_intros)

subsection \<open>Record, create, confirm\<close>

text \<open>The three steps around every create call: the intent is on disk before the backend is asked,
  the outcome after it answered. \<open>call\<close> names the driver method.\<close>

definition create_recorded :: "('b, 'c) run_cfg \<Rightarrow> string \<Rightarrow> string \<Rightarrow> name \<Rightarrow> name option \<Rightarrow> (string, json) dict \<Rightarrow>
    ('p run_state, string option) eff" where
  "create_recorded C call kind n pn md =
     (let E = rc_env C; rid = rc_run_id C in
      seqE (onW (record_intent E rid kind n pn md))
      (bindE (onW (drive E rid (Create call n))) (\<lambda>v.
       seqE (onW (confirm E rid n md)) (ret v))))"

definition backend_name :: "('b, 'c) run_cfg \<Rightarrow> string \<Rightarrow> name \<Rightarrow> name" where
  "backend_name C kind n = compose_resource_name (rc_driver C) (rc_run_id C) kind n"

definition create_pool_backend :: "('b, 'c) run_cfg \<Rightarrow> storage_pool \<Rightarrow> ('p run_state, unit) eff" where
  "create_pool_backend C pool =
     (let backend = backend_name C ''pool'' (sp_name pool) in
      seqE (create_recorded C ''create_pool'' ''pool'' backend (Some (sp_name pool)) [])
        (modL (\<lambda>l. l\<lparr>pool_backends := AList.update (sp_name pool) backend (pool_backends l)\<rparr>)))"

subsection \<open>Switches\<close>

definition effective_switch :: "switch \<Rightarrow> (name, static_addr) dict \<Rightarrow> switch result" where
  "effective_switch sw uplink_addrs =
     (case (sw_sidecar sw, uplink sw) of
        (Some sc, Some up) \<Rightarrow>
          if \<not> nat_flag sc \<or> sc_addr sc \<noteq> None then Inr sw
          else (case map_of uplink_addrs up of
                  None \<Rightarrow> Inr sw
                | Some a \<Rightarrow>
                    bindR (Sidecar (dhcp sc) (sc_dns sc) (nat_flag sc) (Some a)) (\<lambda>sc'.
                    Switch (sw_name sw) (networks sw) (cidr sw) (uplink sw) (mgmt sw) (Some sc')))
      | _ \<Rightarrow> Inr sw)"

definition mac_for :: "('b, 'c) run_cfg \<Rightarrow> name \<Rightarrow> nat \<Rightarrow> string" where
  "mac_for C vm_name idx = compose_mac (rc_driver C) (rc_plan_name C) vm_name (int idx)"

definition provision_network :: "('b, 'c) run_cfg \<Rightarrow> string \<Rightarrow> network \<Rightarrow> ('p run_state, unit) eff" where
  "provision_network C kp net =
     (let backend = backend_name C (kp @ ''network'') (nw_name net) in
      seqE (create_recorded C ''create_network'' (kp @ ''network'') backend (Some (nw_name net)) [])
        (modL (\<lambda>l. l\<lparr>network_backends := AList.update (nw_name net) backend (network_backends l)\<rparr>)))"

definition provision_switch :: "('b, 'c) run_cfg \<Rightarrow> string \<Rightarrow> switch \<Rightarrow> ('p run_state, unit) eff" where
  "provision_switch C kp sw =
     (let sb = backend_name C (kp @ ''switch'') (sw_name sw) in
      bindE (create_recorded C ''create_switch'' (kp @ ''switch'') sb (Some (sw_name sw)) []) (\<lambda>uplink_net.
      seqE (modL (\<lambda>l. l\<lparr>switch_backends := AList.update (sw_name sw) sb (switch_backends l)\<rparr>))
      (seqE (forE (provision_network C kp) (networks sw))
      (case uplink_net of
         None \<Rightarrow> ret ()
       | Some u \<Rightarrow> modL (\<lambda>l. l\<lparr>network_backends := AList.update (uplink_network_name sw) u (network_backends l)\<rparr>)))))"

subsection \<open>The sidecar VM\<close>

definition sidecar_spec :: "switch \<Rightarrow> name \<Rightarrow> vm_spec result" where
  "sidecar_spec sw pool_name =
     bindR (sidecar_nic_specs sw) (\<lambda>specs.
     bindR (map_result (\<lambda>(n, ip).
         bindR (mk_NetworkHandle n (sw_name sw)) (\<lambda>h.
         bindR (case ip of None \<Rightarrow> Inr DHCPAddr | Some a \<Rightarrow> bindR (mk_StaticAddr a None []) (\<lambda>s. Inr (StaticAddr s))) (\<lambda>a.
         mk_NetworkIface h (Some a)))) specs) (\<lambda>nics.
     bindR (mk_PoolHandle pool_name) (\<lambda>p.
     bindR (mk_CPU 1 False) (\<lambda>c. bindR (mk_Memory 256) (\<lambda>m. bindR (mk_OSDrive p 2) (\<lambda>d.
     VMSpec (''__sidecar_'' @ sw_name sw) ([c, m, d] @ nics) ''bios''))))))"

definition SIDECAR_CACHE_NAME :: name where
  "SIDECAR_CACHE_NAME = ''testrange-sidecar''"

definition sidecar_files :: "('b, 'c) run_cfg \<Rightarrow> switch \<Rightarrow> (string \<times> string \<times> string \<times> string) result" where
  "sidecar_files C sw =
     bindR (render_dnsmasq_conf sw (declared_vms (rc_hypervisor C)) (mac_for C)) (\<lambda>conf.
     bindR (render_sidecar_interfaces sw) (\<lambda>ifs.
     bindR (render_nftables_ruleset sw) (\<lambda>nft.
     bindR (render_sysctl_conf sw) (\<lambda>sys. Inr (conf, ifs, nft, sys)))))"

definition pool_md :: "name \<Rightarrow> (string, json) dict" where
  "pool_md p = [(''pool_backend'', JStr p)]"

text \<open>\<open>pool\<close> is the explicit \<^verbatim>\<open>(pool_backend, pool_name)\<close> of the build phase.\<close>

definition sidecar_pool :: "('b, 'c) run_cfg \<Rightarrow> switch \<Rightarrow> (name \<times> name) option \<Rightarrow> ('p run_state, name \<times> name) eff" where
  "sidecar_pool C sw pool =
     (case pool of
        Some p \<Rightarrow> ret p
      | None \<Rightarrow>
          (case declared_pools (rc_hypervisor C) of
             [] \<Rightarrow> throw (OrchestratorError [sw_name sw])
           | p # _ \<Rightarrow> bindE (lookupL pool_backends (sp_name p)) (\<lambda>b. ret (b, sp_name p))))"

definition materialize_sidecar_for :: "('b, 'c) run_cfg \<Rightarrow> string \<Rightarrow> (name \<times> name) option \<Rightarrow> switch \<Rightarrow> ('p run_state, unit) eff" where
  "materialize_sidecar_for C kp pool sw0 =
     (if \<not> needs_sidecar sw0 then ret ()
      else
        bindE (liftR (effective_switch sw0 (rc_uplink_addrs C))) (\<lambda>sw.
        bindE (sidecar_pool C sw pool) (\<lambda>(pb, pname).
        bindE (liftR (sidecar_spec sw pname)) (\<lambda>spec.
        let vmb = backend_name C (kp @ ''sidecar_vm'') (sw_name sw);
            disk = vmb @ volume_suffix (rc_driver C) ''sidecar_disk'';
            cfg = vmb @ ''-cfg'' @ volume_suffix (rc_driver C) ''sidecar_config'' in
        bindE (cache_resolve C SIDECAR_CACHE_NAME) (\<lambda>base.
        seqE (create_recorded C ''upload_to_pool'' ''sidecar_disk'' disk (Some (sw_name sw)) (pool_md pb))
        (bindE (liftR (sidecar_files C sw)) (\<lambda>files.
        seqE (create_recorded C ''write_to_pool'' ''sidecar_config'' cfg (Some (sw_name sw)) (pool_md pb))
        (bindE (liftR (sidecar_nic_specs sw)) (\<lambda>specs.
        bindE (forE (\<lambda>(n, ip). lookupL network_backends n) specs) (\<lambda>refs.
        seqE (create_recorded C ''create_vm'' ''sidecar_vm'' vmb (Some (sw_name sw)) [])
        (seqE (onW (drive (rc_env C) (rc_run_id C) (StartVM vmb)))
        (modL (\<lambda>l. l\<lparr>sidecar_backends := AList.update (sw_name sw) vmb (sidecar_backends l)\<rparr>)))))))))))))"

subsection \<open>The build infrastructure\<close>

definition BUILD_CIDR :: string where "BUILD_CIDR = ''10.97.99.0/24''"
definition BUILD_NETWORK_NAME :: name where "BUILD_NETWORK_NAME = ''build''"
definition BUILD_SWITCH_NAME :: name where "BUILD_SWITCH_NAME = ''__build''"
definition BUILD_POOL_NAME :: name where "BUILD_POOL_NAME = ''__build''"

definition default_build_switch :: "switch result" where
  "default_build_switch =
     bindR (Network BUILD_NETWORK_NAME) (\<lambda>n.
     bindR (Sidecar True True False None) (\<lambda>sc.
     Switch BUILD_SWITCH_NAME [n] BUILD_CIDR None False (Some sc)))"

definition resolve_build_switch :: "switch option \<Rightarrow> switch result" where
  "resolve_build_switch declared = (case declared of None \<Rightarrow> default_build_switch | Some s \<Rightarrow> Inr s)"

text \<open>\<open>misses\<close> are the recipes of the VMs whose disk set is not cached.\<close>

definition disk_total :: "('b, 'c) vm_recipe \<Rightarrow> int" where
  "disk_total r = disk_size_gb (os_drive (vr_spec r)) + sum_list (map disk_size_gb (data_drives (vr_spec r)))"

definition create_build_pool :: "('b, 'c) run_cfg \<Rightarrow> ('b, 'c) vm_recipe list \<Rightarrow> ('p run_state, name) eff" where
  "create_build_pool C misses =
     (let backend = backend_name C ''build_pool'' ''build'' in
      case misses of
        [] \<Rightarrow> throw (ValueError [])
      | _ \<Rightarrow>
          seqE (onW (record_intent (rc_env C) (rc_run_id C) ''build_pool'' backend None []))
          (bindE (liftR (StoragePool BUILD_POOL_NAME (Max (set (map disk_total misses))))) (\<lambda>_.
           seqE (onW (drive (rc_env C) (rc_run_id C) (Create ''create_pool'' backend)))
           (seqE (onW (confirm (rc_env C) (rc_run_id C) backend [])) (ret backend)))))"

definition ensure_build_infra :: "('b, 'c) run_cfg \<Rightarrow> ('p \<Rightarrow> bool) \<Rightarrow> ('p \<Rightarrow> ('b, 'c) vm_recipe) \<Rightarrow> ('p run_state, name \<times> name) eff" where
  "ensure_build_infra C missed recipe =
     bindE (getL infra) (\<lambda>bi.
     if active bi then
       (case (pool_backend bi, net_backend bi) of
          (Some p, Some n) \<Rightarrow> ret (p, n)
        | _ \<Rightarrow> throw (AssertionError []))
     else
       bindE (getL (\<lambda>l. filter missed (map snd (vm_probes l)))) (\<lambda>misses.
       if misses = [] then throw (OrchestratorError [])
       else
         bindE (create_build_pool C (map recipe misses)) (\<lambda>pb.
         bindE (liftR (resolve_build_switch (build_switch (rc_hypervisor C)))) (\<lambda>sw.
         seqE (provision_switch C ''build_'' sw)
         (case networks sw of
            [] \<Rightarrow> throw (IndexError [])
          | net # _ \<Rightarrow>
              bindE (lookupL network_backends (nw_name net)) (\<lambda>nb.
              seqE (materialize_sidecar_for C ''build_'' (Some (pb, BUILD_POOL_NAME)) sw)
              (seqE (modL (\<lambda>l. l\<lparr>infra := \<lparr>active = True, pool_backend = Some pb, net_backend = Some nb, bi_switch = Some sw\<rparr>\<rparr>))
              (ret (pb, nb)))))))))"

text \<open>\<^verbatim>\<open>d.pop(k, None)\<close> followed by destroy and forget of what was there.\<close>

definition drop_backend :: "('b, 'c) run_cfg \<Rightarrow> string \<Rightarrow> name option \<Rightarrow> ('p run_state, unit) eff" where
  "drop_backend C call b =
     (case b of
        None \<Rightarrow> ret ()
      | Some n \<Rightarrow> seqE (onW (drive (rc_env C) (rc_run_id C) (Destroy call n []))) (onW (forget (rc_env C) (rc_run_id C) n)))"

definition drop_network :: "('b, 'c) run_cfg \<Rightarrow> network \<Rightarrow> ('p run_state, unit) eff" where
  "drop_network C net =
     bindE (getL (\<lambda>l. map_of (network_backends l) (nw_name net))) (\<lambda>b.
     seqE (modL (\<lambda>l. l\<lparr>network_backends := AList.delete (nw_name net) (network_backends l)\<rparr>))
     (drop_backend C ''destroy_network'' b))"

definition teardown_build_infra :: "('b, 'c) run_cfg \<Rightarrow> ('p run_state, unit) eff" where
  "teardown_build_infra C =
     bindE (getL infra) (\<lambda>bi.
     if \<not> active bi then ret ()
     else case (bi_switch bi, pool_backend bi) of
       (Some sw, Some pb) \<Rightarrow>
         bindE (getL (\<lambda>l. map_of (sidecar_backends l) (sw_name sw))) (\<lambda>sc.
         seqE (modL (\<lambda>l. l\<lparr>sidecar_backends := AList.delete (sw_name sw) (sidecar_backends l)\<rparr>))
         (seqE (drop_backend C ''destroy_vm'' sc)
         (seqE (forE (drop_network C) (networks sw))
         (seqE (modL (\<lambda>l. l\<lparr>network_backends := AList.delete (uplink_network_name sw) (network_backends l)\<rparr>))
         (bindE (getL (\<lambda>l. map_of (switch_backends l) (sw_name sw))) (\<lambda>sb.
         seqE (modL (\<lambda>l. l\<lparr>switch_backends := AList.delete (sw_name sw) (switch_backends l)\<rparr>))
         (seqE (drop_backend C ''destroy_switch'' sb)
         (seqE (drop_backend C ''destroy_pool'' (Some pb))
         (modL (\<lambda>l. l\<lparr>infra := \<lparr>active = False, pool_backend = None, net_backend = None, bi_switch = None\<rparr>\<rparr>))))))))))
     | _ \<Rightarrow> throw (AssertionError []))"

subsection \<open>The ledger contract on run states\<close>

lemma onW_iff: "onW m s = (r, s') \<longleftrightarrow> m (fst s) = (r, fst s') \<and> snd s' = snd s"
  by (cases "m (fst s)"; cases s') (auto simp: onW_def)

lemma keeps_onW: "keeps P m \<Longrightarrow> keeps (\<lambda>s. P (fst s)) (onW m)"
  by (simp add: keeps_def onW_def split: prod.split) (metis snd_conv)

lemma keeps_modL [eff_intros]: "keeps (\<lambda>s. P (fst s)) (modL f)"
  by (simp add: keeps_def modL_def)

lemma keeps_getL [eff_intros]: "keeps P (getL f)"
  unfolding getL_def by (rule eff_intros)

lemma keeps_lookupL [eff_intros]: "keeps P (lookupL f k)"
  unfolding lookupL_def by (intro eff_intros)

interpretation rt_ledger: ledger "\<lambda>s. names_of rid (fst s)" "\<lambda>s. live_of (fst s)" "\<lambda>s. crash_of (fst s)"
  "\<lambda>(k, n, p, md). onW (record_intent E rid k n p md)" "\<lambda>(k, n, p, md). n"
  "\<lambda>(n, md). onW (confirm E rid n md)" "\<lambda>n. onW (forget E rid n)"
  "\<lambda>(k, n). onW (drive E rid (Create k n))" "\<lambda>(k, n). n"
  "\<lambda>(k, n, md). onW (drive E rid (Destroy k n md))" "\<lambda>(k, n, md). n"
  for E rid
proof (unfold_locales, goal_cases)
  case (1 i w r w')
  then show ?case using run_ledger.intent [where E = E and rid = rid and i = i and w = "fst w" and w' = "fst w'"]
    by (cases i) (auto simp: onW_iff)
next
  case (2 i w x w')
  then show ?case using run_ledger.intent_ok [where E = E and rid = rid and i = i and w = "fst w" and w' = "fst w'"]
    by (cases i) (simp add: onW_iff)
next
  case (3 c w s w')
  then show ?case using run_ledger.amend [where E = E and rid = rid and c = c and w = "fst w" and w' = "fst w'"]
    by (cases c) (auto simp: onW_iff)
next
  case (4 n w s w')
  then show ?case using run_ledger.drop [where E = E and rid = rid and n = n and w = "fst w" and w' = "fst w'"]
    by (auto simp: onW_iff)
next
  case (5 m w v w')
  then show ?case using run_ledger.make [where E = E and rid = rid and m = m and w = "fst w" and w' = "fst w'"]
    by (cases m) (auto simp: onW_iff)
next
  case (6 d w u w')
  then show ?case using run_ledger.unmake [where E = E and rid = rid and d = d and w = "fst w" and w' = "fst w'"]
    by (cases d) (auto simp: onW_iff)
next
  case (7 d w y w')
  then show ?case using run_ledger.unmake_ok [where E = E and rid = rid and d = d and w = "fst w" and w' = "fst w'"]
    by (cases d) (auto simp: onW_iff)
qed

text \<open>The ledger document of the run can be read.\<close>

definition alive :: "name \<Rightarrow> world \<Rightarrow> bool" where
  "alive rid w \<longleftrightarrow> (\<exists>st. holds rid st w)"

lemma holds_tick [simp]: "holds rid st (w\<lparr>tick := t\<rparr>) = holds rid st w"
  by (simp add: holds_def)

lemma alive_tick [simp]: "alive rid (w\<lparr>tick := t\<rparr>) = alive rid w"
  by (simp add: alive_def)

lemma keeps_alive_modify:
  assumes "\<And>s s'. f s = Inr s' \<Longrightarrow> schema_version s' = schema_version s"
  shows "keeps (alive rid) (modify E rid f)"
proof (unfold keeps_def, intro allI impI)
  fix w
  assume "alive rid w"
  then obtain st where h: "holds rid st w" by (auto simp: alive_def)
  have wr: "alive rid (snd (write_state_atomic E rid s' v))" if "schema_version s' = SCHEMA_VERSION" "alive rid v" for s' v
    using that by (auto simp: alive_def holds_def write_state_atomic_def bindE_def tock_def modE_def seqE_def throw_def snapshot_def upd_dir_def split: option.split)
  obtain q w1 where q: "read_state E rid w = (q, w1)" by (cases "read_state E rid w")
  then have w1: "w1 = w\<lparr>tick := Suc (tick w)\<rparr>" by (rule read_state_world)
  have s: "q = Inr s \<Longrightarrow> s = st" for s
    using q h by (auto simp: read_state_def bindE_def getE_def tock_def holds_def throw_def liftR_def state_roundtrip split: option.splits)
  show "alive rid (snd (modify E rid f w))"
  proof (cases q)
    case (Inr s)
    then have "schema_version s = SCHEMA_VERSION" using s h by (simp add: holds_def)
    moreover have a: "alive rid w1" using h w1 by (auto simp: alive_def)
    ultimately have "alive rid (snd (write_state_atomic E rid s' w1))" if "f s = Inr s'" for s'
      using assms [OF that] by (intro wr) simp_all
    with a show ?thesis by (cases "f s") (simp_all add: modify_def bindE_def q Inr liftR_def)
  qed (use h w1 in \<open>auto simp: modify_def bindE_def q alive_def\<close>)
qed

lemma keeps_alive_drive: "keeps (alive rid) (drive E rid c)"
  by (auto simp: keeps_def drive_def bindE_def seqE_def tock_def modE_def throw_def ret_def snapshot_def alive_def holds_def split: prod.split sum.split)

lemma keeps_alive_tock: "(\<And>t. keeps (alive rid) (f t)) \<Longrightarrow> keeps (alive rid) (bindE tock f)"
  by (auto simp: keeps_def bindE_def tock_def)

lemma keeps_alive:
  "keeps (alive rid) (record_intent E rid k n p md)" "keeps (alive rid) (confirm E rid n md)" "keeps (alive rid) (forget E rid n)"
  "keeps (alive rid) (set_phase E rid ph)" "keeps (alive rid) (mark_node_materialized E rid n)" "keeps (alive rid) (mark_node_realized E rid n)"
proof -
  show "keeps (alive rid) (record_intent E rid k n p md)"
    unfolding record_intent_def Let_def by (intro keeps_alive_tock keeps_seqE keeps_alive_modify eff_intros) (auto simp: with_resource_def)
  show "keeps (alive rid) (confirm E rid n md)"
    unfolding confirm_def by (intro keeps_alive_tock keeps_alive_modify) (auto simp: replace_resource_def split: option.splits if_splits)
  show "keeps (alive rid) (forget E rid n)" "keeps (alive rid) (set_phase E rid ph)"
    unfolding forget_def set_phase_def by (intro keeps_alive_modify, auto simp: remove_resource_def)+
  show "keeps (alive rid) (mark_node_materialized E rid n)" "keeps (alive rid) (mark_node_realized E rid n)"
    unfolding mark_node_materialized_def mark_node_realized_def
    by (intro keeps_alive_tock keeps_alive_modify, auto simp: with_node_record_def)+
qed

text \<open>The invariant of a run in progress: the ledger names everything that exists, at every observed point, and can be read.\<close>

abbreviation tracked_run :: "name \<Rightarrow> 'p run_state \<Rightarrow> bool" where
  "tracked_run rid \<equiv> \<lambda>s. tracked rid (fst s) \<and> alive rid (fst s)"

lemma tracked_complete:
  "(\<lambda>s. tracked rid (fst s)) = complete (\<lambda>s. names_of rid (fst s)) (\<lambda>s. live_of (fst s)) (\<lambda>s. crash_of (fst s))"
  by (simp add: complete_def fun_eq_iff)

lemma keeps_both: "keeps (\<lambda>s. P (fst s)) m \<Longrightarrow> keeps (\<lambda>s. Q (fst s)) m \<Longrightarrow> keeps (\<lambda>s. P (fst s) \<and> Q (fst s)) m"
  by (simp add: keeps_def)

named_theorems keeps_run \<open>operations that keep the ledger of a run complete\<close>

lemma keeps_rt_intent: "keeps (tracked_run rid) (onW (record_intent E rid k n p md))"
  using rt_ledger.keeps_intent [where E = E and rid = rid and i = "(k, n, p, md)"] unfolding tracked_complete [symmetric] prod.case
  by (rule keeps_both) (rule keeps_onW [OF keeps_alive(1)])

lemma keeps_rt_create:
  assumes "\<And>v. keeps (tracked_run rid) (rest v)"
  shows "keeps (tracked_run rid) (seqE (onW (record_intent E rid k n p md)) (bindE (onW (drive E rid (Create c n))) rest))"
proof -
  let ?pair = "seqE (onW (record_intent E rid k n p md)) (bindE (onW (drive E rid (Create c n))) ret) :: ('a run_state, string option) eff"
  have "keeps (\<lambda>s. tracked rid (fst s)) ?pair"
    using rt_ledger.keeps_create [where i = "(k, n, p, md)" and m = "(c, n)" and E = E and rid = rid, OF _ keeps_ret]
    unfolding tracked_complete by simp
  moreover have "keeps (\<lambda>s. alive rid (fst s)) ?pair"
    by (intro eff_intros keeps_onW keeps_alive keeps_alive_drive)
  ultimately have "keeps (tracked_run rid) (bindE ?pair rest)" by (intro keeps_bindE keeps_both assms)
  moreover have "bindE ?pair rest = seqE (onW (record_intent E rid k n p md)) (bindE (onW (drive E rid (Create c n))) rest)"
    by (auto simp: fun_eq_iff seqE_def bindE_def ret_def split: prod.split sum.split)
  ultimately show ?thesis by simp
qed

lemma keeps_rt_destroy [keeps_run]:
  "keeps (tracked_run rid) (seqE (onW (drive E rid (Destroy c n md))) (onW (forget E rid n)))"
proof (rule keeps_both)
  show "keeps (\<lambda>s. tracked rid (fst s)) (seqE (onW (drive E rid (Destroy c n md))) (onW (forget E rid n)))"
    using rt_ledger.keeps_destroy [where d = "(c, n, md)" and n = n and E = E and rid = rid] unfolding tracked_complete by simp
qed (intro eff_intros keeps_onW keeps_alive keeps_alive_drive)

lemma keeps_rt_unmake [keeps_run]: "keeps (tracked_run rid) (onW (drive E rid (Destroy c n md)))"
  using rt_ledger.keeps_unmake [where d = "(c, n, md)" and E = E and rid = rid] unfolding tracked_complete [symmetric] prod.case
  by (rule keeps_both) (rule keeps_onW [OF keeps_alive_drive])

lemma keeps_rt_confirm [keeps_run]: "keeps (tracked_run rid) (onW (confirm E rid n md))"
  using rt_ledger.keeps_amend [where c = "(n, md)" and E = E and rid = rid] unfolding tracked_complete [symmetric] prod.case
  by (rule keeps_both) (rule keeps_onW [OF keeps_alive(2)])

lemma keeps_rt_set_phase [keeps_run]: "keeps (tracked_run rid) (onW (set_phase E rid ph))"
  by (rule keeps_both [OF keeps_onW [OF keeps_set_phase] keeps_onW [OF keeps_alive(4)]])

lemma keeps_tracked_quiet:
  assumes "\<And>b. effect c b = b"
  shows "keeps (tracked rid) (drive E rid c)"
proof (rule keeps_tracked_view)
  fix w r w'
  assume "drive E rid c w = (r, w')"
  from drive_spec [OF this] assms show "recorded rid w' = recorded rid w \<and> backend w' = backend w \<and>
      (history w' = history w \<or> history w' = (backend w', recorded rid w') # history w)" by auto
qed

lemma keeps_rt_quiet: "(\<And>b. effect c b = b) \<Longrightarrow> keeps (tracked_run rid) (onW (drive E rid c))"
  by (rule keeps_both [OF keeps_onW [OF keeps_tracked_quiet] keeps_onW [OF keeps_alive_drive]])

lemma keeps_rt_start [keeps_run]: "keeps (tracked_run rid) (onW (drive E rid (StartVM n)))"
  and keeps_rt_touch [keeps_run]: "keeps (tracked_run rid) (onW (drive E rid (Touch c n)))"
  by (rule keeps_rt_quiet, simp add: effect_def)+

lemma keeps_create_recorded [keeps_run]:
  "rc_run_id C = rid \<Longrightarrow> keeps (tracked_run rid) (create_recorded C c k n p md)"
  unfolding create_recorded_def Let_def
  by (auto intro!: keeps_rt_create eff_intros keeps_run)

lemma keeps_create_pool_backend [keeps_run]:
  "rc_run_id C = rid \<Longrightarrow> keeps (tracked_run rid) (create_pool_backend C pool)"
  unfolding create_pool_backend_def Let_def by (intro eff_intros keeps_run)

lemma keeps_provision_switch [keeps_run]:
  "rc_run_id C = rid \<Longrightarrow> keeps (tracked_run rid) (provision_switch C kp sw)"
  unfolding provision_switch_def provision_network_def Let_def
  by (intro eff_intros keeps_run) simp_all

lemma keeps_materialize_sidecar_for [keeps_run]:
  "rc_run_id C = rid \<Longrightarrow> keeps (tracked_run rid) (materialize_sidecar_for C kp pool sw)"
  unfolding materialize_sidecar_for_def sidecar_pool_def Let_def case_prod_beta
  by (intro eff_intros keeps_run) (auto split: list.split intro!: eff_intros keeps_run)

text \<open>A check between the intent and the call may still raise: the intent stays, nothing exists.\<close>

lemma keeps_rt_checked:
  assumes "\<And>v. keeps (tracked_run rid) (rest v)"
  shows "keeps (tracked_run rid) (seqE (onW (record_intent E rid k n p md)) (bindE (liftR r) (\<lambda>_. bindE (onW (drive E rid (Create c n))) rest)))"
proof (cases r)
  case (Inl x)
  then have "bindE (liftR r) (\<lambda>_. bindE (onW (drive E rid (Create c n))) rest) = throw x"
    by (simp only: fun_eq_iff) (simp add: bindE_def liftR_def throw_def)
  then show ?thesis by (simp only:) (intro eff_intros keeps_rt_intent)
next
  case (Inr x)
  then have "bindE (liftR r) (\<lambda>_. bindE (onW (drive E rid (Create c n))) rest) = bindE (onW (drive E rid (Create c n))) rest"
    by (simp only: fun_eq_iff) (simp add: bindE_def liftR_def)
  then show ?thesis using assms by (simp only:) (rule keeps_rt_create)
qed

lemma keeps_create_build_pool [keeps_run]:
  "rc_run_id C = rid \<Longrightarrow> keeps (tracked_run rid) (create_build_pool C misses)"
  unfolding create_build_pool_def Let_def seqE_def [of "onW (drive _ _ _)"]
  by (auto split: list.split intro!: keeps_rt_checked eff_intros keeps_run)

lemma keeps_ensure_build_infra [keeps_run]:
  "rc_run_id C = rid \<Longrightarrow> keeps (tracked_run rid) (ensure_build_infra C missed recipe)"
  unfolding ensure_build_infra_def
  by (auto split: list.split option.split intro!: eff_intros keeps_run)

lemma keeps_drop_backend [keeps_run]:
  "rc_run_id C = rid \<Longrightarrow> keeps (tracked_run rid) (drop_backend C c b)"
  unfolding drop_backend_def by (auto split: option.split intro!: eff_intros keeps_run)

lemma keeps_teardown_build_infra [keeps_run]:
  "rc_run_id C = rid \<Longrightarrow> keeps (tracked_run rid) (teardown_build_infra C)"
  unfolding teardown_build_infra_def drop_network_def
  by (auto split: option.split intro!: eff_intros keeps_run)

subsection \<open>Fault-free runs\<close>

text \<open>An environment in which no file operation fails and every driver call succeeds.\<close>

definition smooth :: "env \<Rightarrow> bool" where
  "smooth E \<longleftrightarrow> (\<forall>t. write_fault E t = None \<and> read_fault E t = None) \<and> (\<forall>t c. \<exists>v. reply E t c = (Inr v, True))"

lemma modify_smooth:
  assumes "smooth E" and "holds rid st w" and "f st = Inr st'" and "schema_version st' = schema_version st"
  shows "\<exists>w'. modify E rid f w = (Inr (), w') \<and> holds rid st' w'"
proof -
  have f: "\<forall>t. read_fault E t = None" "\<forall>t. write_fault E t = None" using assms(1) by (simp_all add: smooth_def)
  show ?thesis
    using read_holds [OF assms(2) f(1)] assms(2,3,4) f(2)
    by (simp add: modify_def bindE_def liftR_def write_state_atomic_def tock_def modE_def holds_def snapshot_def upd_dir_def)
qed

lemma record_intent_smooth:
  assumes "smooth E" and "holds rid st w"
  shows "\<exists>r w' st'. record_intent E rid k n p md w = (Inr r, w') \<and> holds rid st' w' \<and> backend_names st' = backend_names st @ [n]"
proof -
  let ?r = "\<lparr>r_kind = k, r_backend_name = n, r_plan_name = p, intent_at = clock E (tick w), outcome_at = None, metadata = md\<rparr>"
  obtain w' where w': "modify E rid (\<lambda>s. Inr (with_resource ?r s)) (w\<lparr>tick := Suc (tick w)\<rparr>) = (Inr (), w')"
    "holds rid (with_resource ?r st) w'"
    using modify_smooth [OF assms(1), of rid st "w\<lparr>tick := Suc (tick w)\<rparr>" "\<lambda>s. Inr (with_resource ?r s)"] assms(2)
    by (auto simp: with_resource_def)
  then show ?thesis
    by (auto simp: record_intent_def bindE_def seqE_def tock_def Let_def ret_def with_resource_def backend_names_def)
qed

lemma confirm_smooth:
  assumes "smooth E" and "holds rid st w" and "n \<in> set (backend_names st)"
  shows "\<exists>w' st'. confirm E rid n md w = (Inr (), w') \<and> holds rid st' w' \<and> backend_names st' = backend_names st"
proof -
  obtain x where x: "List.find (\<lambda>r. r_backend_name r = n) (resources st) = Some x"
    using assms(3) by (cases "List.find (\<lambda>r. r_backend_name r = n) (resources st)")
      (auto simp: backend_names_def find_None_iff)
  then have xn: "r_backend_name x = n" "x \<in> set (resources st)" by (auto simp: find_Some_iff)
  let ?f = "\<lambda>s. case List.find (\<lambda>r. r_backend_name r = n) (resources s) of
         None \<Rightarrow> Inl (StateError [n])
       | Some r \<Rightarrow> replace_resource n (with_outcome (clock E (tick w)) md r) s"
  have "list_ex (\<lambda>r. r_backend_name r = n) (resources st)" using xn by (auto simp: list_ex_iff)
  then obtain st' where st': "?f st = Inr st'" using x xn(1) by (simp add: replace_resource_def)
  then have "backend_names st' = backend_names st \<and> schema_version st' = schema_version st"
    using x xn(1) backend_names_replace [of n "with_outcome (clock E (tick w)) md x" st st']
    by (auto simp: replace_resource_def split: if_splits)
  with modify_smooth [OF assms(1), of rid st "w\<lparr>tick := Suc (tick w)\<rparr>" ?f st'] st' assms(2) show ?thesis
    by (auto simp: confirm_def bindE_def tock_def)
qed

lemma drive_smooth:
  assumes "smooth E" and "holds rid st w"
  shows "\<exists>v w'. drive E rid c w = (Inr v, w') \<and> holds rid st w'"
proof -
  obtain v where "reply E (tick w) c = (Inr v, True)" using assms(1) unfolding smooth_def by blast
  with assms(2) show ?thesis
    by (simp add: drive_def bindE_def seqE_def tock_def modE_def ret_def holds_def snapshot_def)
qed

text \<open>The run has a readable ledger and its in-memory ledgers satisfy \<open>Q\<close>.\<close>

definition fine :: "('b, 'c) run_cfg \<Rightarrow> ('p ledgers \<Rightarrow> bool) \<Rightarrow> 'p run_state \<Rightarrow> bool" where
  "fine C Q s \<longleftrightarrow> (\<exists>st. holds (rc_run_id C) st (fst s)) \<and> Q (snd s)"

lemma succeeds_create_recorded:
  assumes "smooth (rc_env C)"
  shows "succeeds (fine C Q) (create_recorded C c k n p md :: ('p run_state, string option) eff) (\<lambda>_. fine C Q)"
proof (unfold succeeds_def, intro allI impI)
  fix s :: "'p run_state"
  assume "fine C Q s"
  then obtain st where h: "holds (rc_run_id C) st (fst s)" and q: "Q (snd s)" by (auto simp: fine_def)
  let ?E = "rc_env C" and ?rid = "rc_run_id C"
  obtain r w1 st1 where 1: "record_intent ?E ?rid k n p md (fst s) = (Inr r, w1)" "holds ?rid st1 w1" "backend_names st1 = backend_names st @ [n]"
    using record_intent_smooth [OF assms h] by blast
  obtain v w2 where 2: "drive ?E ?rid (Create c n) w1 = (Inr v, w2)" "holds ?rid st1 w2"
    using drive_smooth [OF assms 1(2)] by blast
  obtain w3 st3 where 3: "confirm ?E ?rid n md w2 = (Inr (), w3)" "holds ?rid st3 w3"
    using confirm_smooth [OF assms 2(2), of n md] 1(3) by auto
  have "create_recorded C c k n p md s = (Inr v, (w3, snd s))"
    by (simp add: create_recorded_def Let_def seqE_def bindE_def onW_def 1(1) 2(1) 3(1) ret_def)
  moreover have "fine C Q (w3, snd s)" using 3(2) q by (auto simp: fine_def)
  ultimately show "\<exists>x s'. create_recorded C c k n p md s = (Inr x, s') \<and> fine C Q s'" by blast
qed

lemma succeeds_drive:
  assumes "smooth (rc_env C)"
  shows "succeeds (fine C Q) (onW (drive (rc_env C) (rc_run_id C) c) :: ('p run_state, string option) eff) (\<lambda>_. fine C Q)"
proof (unfold succeeds_def, intro allI impI)
  fix s :: "'p run_state"
  assume "fine C Q s"
  then obtain st where h: "holds (rc_run_id C) st (fst s)" and q: "Q (snd s)" by (auto simp: fine_def)
  from drive_smooth [OF assms h, of c] q
  show "\<exists>x s'. onW (drive (rc_env C) (rc_run_id C) c) s = (Inr x, s') \<and> fine C Q s'"
    by (auto simp: fine_def onW_def)
qed

lemma succeeds_modL: "(\<And>l. Q l \<Longrightarrow> R (f l)) \<Longrightarrow> succeeds (fine C Q) (modL f) (\<lambda>_. fine C R)"
  by (auto simp: succeeds_def fine_def modL_def)

lemma forget_smooth:
  assumes "smooth E" and "holds rid st w"
  shows "\<exists>w' st'. forget E rid n w = (Inr (), w') \<and> holds rid st' w'"
  using modify_smooth [OF assms, of "\<lambda>s. Inr (remove_resource n s)"] by (auto simp: forget_def remove_resource_def)

lemma succeeds_forget:
  assumes "smooth (rc_env C)"
  shows "succeeds (fine C Q) (onW (forget (rc_env C) (rc_run_id C) n) :: ('p run_state, unit) eff) (\<lambda>_. fine C Q)"
proof (unfold succeeds_def, intro allI impI)
  fix s :: "'p run_state"
  assume "fine C Q s"
  then obtain st where h: "holds (rc_run_id C) st (fst s)" and q: "Q (snd s)" by (auto simp: fine_def)
  from forget_smooth [OF assms h, of n] q
  show "\<exists>x s'. onW (forget (rc_env C) (rc_run_id C) n) s = (Inr x, s') \<and> fine C Q s'"
    by (auto simp: fine_def onW_def)
qed

subsection \<open>Properties\<close>

definition registered :: "('b, 'c) run_cfg \<Rightarrow> string \<Rightarrow> switch \<Rightarrow> network list \<Rightarrow> 'p ledgers \<Rightarrow> bool" where
  "registered C kp sw nets l \<longleftrightarrow>
     map_of (switch_backends l) (sw_name sw) = Some (backend_name C (kp @ ''switch'') (sw_name sw)) \<and>
     list_all (\<lambda>n. map_of (network_backends l) (nw_name n) = Some (backend_name C (kp @ ''network'') (nw_name n))) nets"

lemma succeeds_provision_network:
  assumes "smooth (rc_env C)"
  shows "succeeds (fine C (registered C kp sw ys)) (provision_network C kp n) (\<lambda>_. fine C (registered C kp sw (ys @ [n])))"
  unfolding provision_network_def Let_def
  by (rule succeeds_seqE [OF succeeds_create_recorded [OF assms] succeeds_modL])
    (auto simp: registered_def list_all_iff update_conv')

text \<open>On a fault-free backend provisioning a switch succeeds, and every later step finds what it needs: the switch
  and each of its networks are registered under the driver's deterministic backend names, whatever the
  driver returns for the uplink segment.\<close>

theorem provisioning_registers_networks:
  assumes "smooth (rc_env C)" and "holds (rc_run_id C) st w" and "uplink_network_name sw \<notin> nw_name ` set (networks sw)"
  shows "\<exists>w' l'. provision_switch C kp sw (w, l) = (Inr (), (w', l')) \<and>
    map_of (switch_backends l') (sw_name sw) = Some (backend_name C (kp @ ''switch'') (sw_name sw)) \<and>
    (\<forall>n \<in> set (networks sw). map_of (network_backends l') (nw_name n) = Some (backend_name C (kp @ ''network'') (nw_name n)))"
proof -
  let ?R = "\<lambda>ys. fine C (registered C kp sw ys)"
  have ne: "nw_name n \<noteq> uplink_network_name sw" if "n \<in> set (networks sw)" for n using that assms(3) by (metis image_eqI)
  have fin: "succeeds (?R (networks sw)) (case u of None \<Rightarrow> ret () | Some b \<Rightarrow>
      modL (\<lambda>l. l\<lparr>network_backends := AList.update (uplink_network_name sw) b (network_backends l)\<rparr>)) (\<lambda>_. ?R (networks sw))" for u
    using ne by (cases u) (auto intro!: succeeds_ret succeeds_modL simp: registered_def list_all_iff update_conv')
  have "succeeds (?R []) (forE (provision_network C kp) (networks sw)) (\<lambda>_. ?R ([] @ networks sw))"
    by (rule succeeds_forE) (rule succeeds_provision_network [OF assms(1)])
  then have nets: "succeeds (?R []) (forE (provision_network C kp) (networks sw)) (\<lambda>_. ?R (networks sw))" by simp
  have "succeeds (fine C (\<lambda>_. True)) (provision_switch C kp sw) (\<lambda>_. ?R (networks sw))"
    unfolding provision_switch_def Let_def
    by (rule succeeds_bindE [OF succeeds_create_recorded [OF assms(1)]], rule succeeds_seqE [OF succeeds_modL succeeds_seqE [OF nets fin]])
      (simp add: registered_def update_conv')
  from succeedsD [OF this, of "(w, l)"] assms(2) show ?thesis
    by (auto simp: fine_def registered_def list_all_iff)
qed

definition plain_driver :: driver where
  "plain_driver = \<lparr>compose_resource_name = (\<lambda>r k n. k @ ''-'' @ n), volume_suffix = (\<lambda>k. ''.qcow2''),
     compose_volume_ref = (\<lambda>p v. p @ ''/'' @ v), compose_mac = (\<lambda>p v i. ''m'')\<rparr>"

definition plain_cfg :: "(unit, unit) run_cfg" where
  "plain_cfg = \<lparr>rc_env = quiet_env\<lparr>reply := (\<lambda>_ c. (Inr (Some ''shutoff''), True))\<rparr>, rc_run_id = ''r'', rc_plan_name = ''p'',
     rc_hypervisor = new_hypervisor None, rc_driver = plain_driver, rc_uplink_addrs = [], rc_cache = (\<lambda>n. Inl (CacheMissError [n])),
     rc_resume = False, rc_probe_fetch = True, rc_polls = (\<lambda>_. 1), rc_console = (\<lambda>_. [(''TESTRANGE-RESULT: ok'' @ newline, False)]),
     rc_jobs = None, rc_sched = (\<lambda>_ _. \<lparr>pick = (\<lambda>_. 0), late = 0, seen = 0\<rparr>), rc_sha = id\<rparr>"

definition empty_ledgers :: "'p ledgers" where
  "empty_ledgers = \<lparr>pool_backends = [], network_backends = [], switch_backends = [], sidecar_backends = [], built_disk_paths = [],
     node_keys = [], vm_probes = [], materialized_nodes = [], realized_nodes = [],
     infra = \<lparr>active = False, pool_backend = None, net_backend = None, bi_switch = None\<rparr>, cache_files = [], comms = (\<lambda>_. Native NativeCommunicator)\<rparr>"

lemma plain_smooth: "smooth (rc_env plain_cfg)"
  by (simp add: smooth_def plain_cfg_def quiet_env_def)

lemma plain_run: "rc_run_id plain_cfg = ''r''"
  by (simp add: plain_cfg_def)

theorem provisioning_registers_networks_witness:
  "\<exists>w' l'. provision_switch plain_cfg [] sample_switch (sample_world, empty_ledgers) = (Inr (), (w', l' :: unit ledgers)) \<and>
     map_of (network_backends l') ''a'' = Some ''network-a''"
proof -
  have u: "uplink_network_name sample_switch \<notin> nw_name ` set (networks sample_switch)" by code_simp
  have n: "networks sample_switch = [\<lparr>nw_name = ''a''\<rparr>]" "backend_name plain_cfg ''network'' ''a'' = ''network-a''"
    by (simp_all add: sample_switch_def backend_name_def plain_cfg_def plain_driver_def)
  from provisioning_registers_networks [OF plain_smooth _ u, of sample_state sample_world "[]" empty_ledgers] sample_holds
  show ?thesis by (auto simp: n plain_run)
qed

end
