(* ===== verification/VM_Build.thy ===== *)
theory VM_Build
  imports Provision Build_Result
begin

text \<open>
  The build of one VM's disk set (\<^verbatim>\<open>orchestrator/vm_build.py\<close>, \<^verbatim>\<open>orchestrator/artifacts.py\<close>): the
  addresses of build NICs, the cache probe, provisioning, waiting, capture and the clean-up after it. A builder is the record of
  the operations the orchestrator calls on it; the bytes of seeds and media are not modelled.
\<close>

subsection \<open>Artifacts\<close>

definition built_artifact_name :: "string \<Rightarrow> string \<Rightarrow> name" where
  "built_artifact_name config_hash role = ''_built_'' @ config_hash @ ''__'' @ role"

definition data_disk_role :: "nat \<Rightarrow> string" where
  "data_disk_role i = ''data'' @ string_of_nat i"

definition built_artifact_roles :: "nat \<Rightarrow> string list" where
  "built_artifact_roles n = ''os'' # map data_disk_role [0..<n]"

subsection \<open>Build addresses\<close>

definition BUILD_IP_SLOTS :: "nat list" where
  "BUILD_IP_SLOTS = [BUILD_NIC_OFFSET..<DHCP_RANGE_LO] @ [USER_STATIC_LO..<USER_STATIC_HI + 1]"

definition build_ip_offset :: "nat \<Rightarrow> nat result" where
  "build_ip_offset vm_index =
     (if length BUILD_IP_SLOTS \<le> vm_index
      then Inl (OrchestratorError [string_of_nat vm_index, string_of_nat (length BUILD_IP_SLOTS)])
      else Inr (BUILD_IP_SLOTS ! vm_index))"

definition BUILD_NIC_NIC_IDX :: int where "BUILD_NIC_NIC_IDX = -1"

record build_nic =
  bn_mac :: string
  bn_network :: name
  bn_addr :: static_addr
  bn_addressing :: network_addressing

datatype credential = Posix posix_cred | Other name bool

text \<open>What the orchestrator asks of a builder and of a communicator reference.\<close>

record ('b, 'c) builder_ops =
  os_disk_base :: "'b \<Rightarrow> name option"
  boot_media :: "'b \<Rightarrow> name option"
  config_hash_of :: "'b \<Rightarrow> ('b, 'c) vm_recipe \<Rightarrow> (name, network_addressing) dict \<Rightarrow> string \<Rightarrow> string \<Rightarrow> string list \<Rightarrow> build_nic \<Rightarrow>
    string option \<Rightarrow> string result"
  render_seed :: "'b \<Rightarrow> ('b, 'c) vm_recipe \<Rightarrow> (name, network_addressing) dict \<Rightarrow> string list \<Rightarrow> build_nic \<Rightarrow> string option \<Rightarrow>
    string option result"
  prepare_boot_media :: "'b \<Rightarrow> string \<Rightarrow> string result"
  comm_ref :: "'c \<Rightarrow> nat"
  credentials :: "'b \<Rightarrow> credential list"
  is_cloudinit :: "'b \<Rightarrow> bool"
  native_agent_provision :: "string option"

definition build_nic_for :: "('b, 'c) builder_ops \<Rightarrow> ('b, 'c) run_cfg \<Rightarrow> switch \<Rightarrow> ('b, 'c) vm_recipe \<Rightarrow> nat \<Rightarrow> build_nic result" where
  "build_nic_for B C sw vr vm_index =
     (case networks sw of
        [] \<Rightarrow> Inl (IndexError [])
      | net # _ \<Rightarrow>
          bindR (build_ip_offset vm_index) (\<lambda>off.
          bindR (mk_StaticAddr (string_from_ip_int (at_offset sw off)) None []) (\<lambda>a.
          let installer_origin = (os_disk_base B (vr_builder vr) = None);
              mac_idx = (if installer_origin \<and> nics (vr_spec vr) \<noteq> [] then 0 else BUILD_NIC_NIC_IDX) in
          Inr \<lparr>bn_mac = compose_mac (rc_driver C) (rc_plan_name C) (vr_name vr) mac_idx, bn_network = nw_name net,
               bn_addr = a, bn_addressing = from_switch sw\<rparr>)))"

subsection \<open>The cache probe\<close>

record ('b, 'c) probe =
  pr_vm :: "('b, 'c) vm_recipe"
  config_hash :: string
  pr_macs :: "string list"
  pr_build_nic :: build_nic
  native_agent :: "string option"
  installer_origin :: bool
  base_path :: "string option"
  boot_media_path :: "string option"
  roles :: "string list"
  cached_paths :: "(string, string) dict option"
  paths_resolved :: bool

definition VMBuildProbe :: "('b, 'c) probe \<Rightarrow> ('b, 'c) probe result" where
  "VMBuildProbe p =
     bindR (guardR (\<not> (paths_resolved p \<and> installer_origin p \<and> boot_media_path p = None)) (OrchestratorError [vr_name (pr_vm p)])) (\<lambda>_.
     bindR (guardR (\<not> (paths_resolved p \<and> \<not> installer_origin p \<and> base_path p = None)) (OrchestratorError [vr_name (pr_vm p)])) (\<lambda>_.
     bindR (guardR (base_path p = None \<or> boot_media_path p = None) (OrchestratorError [vr_name (pr_vm p)])) (\<lambda>_.
     Inr p)))"

type_synonym ('b, 'c) build_state = "('b, 'c) probe run_state"

text \<open>The first miss, or a cache error taken for one, ends the loop. Without fetching, a full hit is the empty dictionary.\<close>

fun resolve_full_set :: "('b, 'c) run_cfg \<Rightarrow> string \<Rightarrow> string list \<Rightarrow> (string, string) dict \<Rightarrow> ('p run_state, (string, string) dict option) eff" where
  "resolve_full_set C h [] paths = ret (Some paths)"
| "resolve_full_set C h (role # rs) paths =
     bindE (handle_if is_CacheError (bindE (cache_resolve C (built_artifact_name h role)) (\<lambda>i. ret (Some i))) (\<lambda>_. ret None)) (\<lambda>r.
     case r of
       None \<Rightarrow> ret None
     | Some i \<Rightarrow> resolve_full_set C h rs (if rc_probe_fetch C then AList.update role (fi_path i) paths else paths))"

definition addressing_of :: "switch list \<Rightarrow> (name, network_addressing) dict" where
  "addressing_of switches =
     foldl (\<lambda>d (n, a). AList.update n a d) [] (concat (map (\<lambda>sw. map (\<lambda>n. (nw_name n, from_switch sw)) (networks sw)) switches))"

definition resolve_sidecar_sha :: "('b, 'c) run_cfg \<Rightarrow> ('p run_state, string) eff" where
  "resolve_sidecar_sha C = bindE (cache_resolve C SIDECAR_CACHE_NAME) (\<lambda>i. ret (sha256 i))"

text \<open>\<open>fetched\<close> is the local path of a resolved entry: only a fetching probe (\<^verbatim>\<open>probe_fetch\<close>) has one.\<close>

definition fetched :: "('b, 'c) run_cfg \<Rightarrow> file_info \<Rightarrow> string option" where
  "fetched C i = (if rc_probe_fetch C then Some (fi_path i) else None)"

definition probe_vm :: "('b, 'c) builder_ops \<Rightarrow> ('b, 'c) run_cfg \<Rightarrow> ('b, 'c) vm_recipe \<Rightarrow> nat \<Rightarrow> string \<Rightarrow> switch \<Rightarrow>
    (('b, 'c) build_state, ('b, 'c) probe) eff" where
  "probe_vm B C vr vm_index sidecar_sha sw =
     (let b = vr_builder vr; base = os_disk_base B b in
      bindE (case base of
          Some e \<Rightarrow> bindE (cache_resolve C e) (\<lambda>i. ret (sha256 i, fetched C i, None))
        | None \<Rightarrow>
            (case boot_media B b of
               None \<Rightarrow> throw (OrchestratorError [vr_name vr])
             | Some e \<Rightarrow> bindE (cache_resolve C e) (\<lambda>i. ret (sha256 i, None, fetched C i)))) (\<lambda>(origin_sha, bp, mp).
      bindE (getL (\<lambda>l. comms l (comm_ref B (vr_communicator vr)))) (\<lambda>comm.
      let macs = map (\<lambda>i. compose_mac (rc_driver C) (rc_plan_name C) (vr_name vr) (int i)) [0..<length (nics (vr_spec vr))];
          agent = (case comm of Native _ \<Rightarrow> native_agent_provision B | _ \<Rightarrow> None) in
      bindE (liftR (build_nic_for B C sw vr vm_index)) (\<lambda>bn.
      bindE (liftR (config_hash_of B b vr (addressing_of (declared_switches (rc_hypervisor C))) origin_sha sidecar_sha macs bn agent)) (\<lambda>h.
      let rs = built_artifact_roles (length (data_drives (vr_spec vr))) in
      bindE (resolve_full_set C h rs []) (\<lambda>cached.
      liftR (VMBuildProbe \<lparr>pr_vm = vr, config_hash = h, pr_macs = macs, pr_build_nic = bn, native_agent = agent,
        installer_origin = (base = None), base_path = bp, boot_media_path = mp, roles = rs, cached_paths = cached, paths_resolved = rc_probe_fetch C\<rparr>)))))))"

subsection \<open>Building\<close>

definition touch :: "('b, 'c) run_cfg \<Rightarrow> string \<Rightarrow> name \<Rightarrow> ('p run_state, string option) eff" where
  "touch C call n = onW (drive (rc_env C) (rc_run_id C) (Touch call n))"

fun wait_for_poweroff :: "('b, 'c) run_cfg \<Rightarrow> name \<Rightarrow> name \<Rightarrow> nat \<Rightarrow> ('p run_state, unit) eff" where
  "wait_for_poweroff C vmb vr 0 = throw (BuildTimeoutError [vr])"
| "wait_for_poweroff C vmb vr (Suc n) =
     bindE (touch C ''get_vm_power_state'' vmb) (\<lambda>st.
     if st = Some ''shutoff'' then ret () else wait_for_poweroff C vmb vr n)"

text \<open>The captured file is what the cache stores under the artifact's name.\<close>

definition capture_disk :: "('b, 'c) run_cfg \<Rightarrow> name \<Rightarrow> string \<Rightarrow> string \<Rightarrow> ('p run_state, string) eff" where
  "capture_disk C vol h role =
     (let n = built_artifact_name h role in
      bindE (touch C ''download_from_pool'' vol) (\<lambda>v.
      let i = \<lparr>fi_path = n, sha256 = (case v of None \<Rightarrow> [] | Some s \<Rightarrow> s)\<rparr> in
      seqE (modL (\<lambda>l. l\<lparr>cache_files := AList.update n i (cache_files l)\<rparr>)) (ret (fi_path i))))"

definition best_effort_delete :: "('b, 'c) run_cfg \<Rightarrow> string \<Rightarrow> name \<Rightarrow> ('p run_state, unit) eff" where
  "best_effort_delete C call n =
     bindE (catchE (seqE (onW (drive (rc_env C) (rc_run_id C) (Destroy call n []))) (ret True)) (\<lambda>_. ret False)) (\<lambda>gone.
     if gone then onW (forget (rc_env C) (rc_run_id C) n) else ret ())"

definition create_os_disk :: "('b, 'c) run_cfg \<Rightarrow> ('b, 'c) probe \<Rightarrow> name \<Rightarrow> name \<Rightarrow> ('p run_state, unit) eff" where
  "create_os_disk C bp pb disk =
     (let E = rc_env C; rid = rc_run_id C in
      seqE (onW (record_intent E rid ''build_disk'' disk (Some (vr_name (pr_vm bp))) (pool_md pb)))
      (bindE (if installer_origin bp then onW (drive E rid (Create ''create_blank_volume'' disk))
              else if base_path bp = None then throw (AssertionError [])
              else seqE (onW (drive E rid (Create ''upload_to_pool'' disk))) (touch C ''resize_volume'' disk)) (\<lambda>_.
       onW (confirm E rid disk (pool_md pb)))))"

definition stage_boot_media :: "('b, 'c) builder_ops \<Rightarrow> ('b, 'c) run_cfg \<Rightarrow> ('b, 'c) probe \<Rightarrow> name \<Rightarrow> name \<Rightarrow> ('p run_state, name option) eff" where
  "stage_boot_media B C bp pb vmb =
     (case boot_media_path bp of
        None \<Rightarrow> ret None
      | Some m \<Rightarrow>
          bindE (liftR (prepare_boot_media B (vr_builder (pr_vm bp)) m)) (\<lambda>_.
          let n = vmb @ ''-bootmedia'' @ volume_suffix (rc_driver C) ''boot_iso'' in
          seqE (create_recorded C ''upload_to_pool'' ''boot_iso'' n (Some (vr_name (pr_vm bp))) (pool_md pb)) (ret (Some n))))"

definition create_data_disks :: "('b, 'c) run_cfg \<Rightarrow> ('b, 'c) probe \<Rightarrow> name \<Rightarrow> name \<Rightarrow> ('p run_state, name list) eff" where
  "create_data_disks C bp pb vmb =
     forE (\<lambda>(i, d).
         let n = vmb @ ''-'' @ data_disk_role i @ volume_suffix (rc_driver C) ''data_disk'' in
         seqE (create_recorded C ''create_blank_volume'' ''data_disk'' n (Some (vr_name (pr_vm bp))) (pool_md pb)) (ret n))
       (enumerate 0 (data_drives (vr_spec (pr_vm bp))))"

definition write_seed :: "('b, 'c) builder_ops \<Rightarrow> ('b, 'c) run_cfg \<Rightarrow> ('b, 'c) probe \<Rightarrow> name \<Rightarrow> name \<Rightarrow> ('p run_state, name option) eff" where
  "write_seed B C bp pb vmb =
     bindE (liftR (render_seed B (vr_builder (pr_vm bp)) (pr_vm bp) (addressing_of (declared_switches (rc_hypervisor C)))
         (pr_macs bp) (pr_build_nic bp) (native_agent bp))) (\<lambda>b.
     if b = None then ret None
     else let n = vmb @ ''-seed'' @ volume_suffix (rc_driver C) ''build_seed'' in
       seqE (create_recorded C ''write_to_pool'' ''build_seed'' n (Some (vr_name (pr_vm bp))) (pool_md pb)) (ret (Some n)))"

definition delete_opt :: "('b, 'c) run_cfg \<Rightarrow> name option \<Rightarrow> ('p run_state, unit) eff" where
  "delete_opt C n = (case n of None \<Rightarrow> ret () | Some v \<Rightarrow> best_effort_delete C ''delete_volume'' v)"

definition capture_roles :: "('b, 'c) run_cfg \<Rightarrow> ('b, 'c) probe \<Rightarrow> name \<Rightarrow> name list \<Rightarrow> ('p run_state, (string, string) dict) eff" where
  "capture_roles C bp disk data_disks =
     (let refs = (''os'', disk) # map (\<lambda>(i, n). (data_disk_role i, n)) (enumerate 0 data_disks) in
      foldE (\<lambda>role captured.
         case map_of refs role of
           None \<Rightarrow> throw (KeyError [role])
         | Some vol \<Rightarrow> bindE (capture_disk C vol (config_hash bp) role) (\<lambda>path. ret (AList.update role path captured)))
       (roles bp) [])"

definition build_one_vm :: "('b, 'c) builder_ops \<Rightarrow> ('b, 'c) run_cfg \<Rightarrow> ('b, 'c) probe \<Rightarrow> name \<Rightarrow> name \<Rightarrow> ('p run_state, unit) eff" where
  "build_one_vm B C bp pb nb =
     (let vr = pr_vm bp; vmb = backend_name C ''build_vm'' (vr_name vr);
          disk = vmb @ volume_suffix (rc_driver C) ''build_disk'' in
      if \<not> paths_resolved bp then throw (OrchestratorError [vr_name vr])
      else seqE (create_os_disk C bp pb disk)
      (bindE (stage_boot_media B C bp pb vmb) (\<lambda>media.
       bindE (create_data_disks C bp pb vmb) (\<lambda>data_disks.
       bindE (write_seed B C bp pb vmb) (\<lambda>seed.
       seqE (create_recorded C ''create_vm'' ''build_vm'' vmb (Some (vr_name vr)) [])
       (seqE (onW (drive (rc_env C) (rc_run_id C) (StartVM vmb)))
       (seqE (liftR (wait_for_build_result (vr_name vr) (rc_console C (vr_name vr))))
       (seqE (wait_for_poweroff C vmb (vr_name vr) (rc_polls C ''poweroff''))
       (bindE (capture_roles C bp disk data_disks) (\<lambda>captured.
       seqE (modL (\<lambda>l. l\<lparr>built_disk_paths := AList.update (vr_name vr) captured (built_disk_paths l)\<rparr>))
       (seqE (best_effort_delete C ''destroy_vm'' vmb)
       (seqE (delete_opt C seed)
       (seqE (delete_opt C media)
       (seqE (forE (best_effort_delete C ''delete_volume'') data_disks)
       (best_effort_delete C ''delete_volume'' disk)))))))))))))))"

subsection \<open>The ledger stays complete\<close>

lemma keeps_touch [keeps_run]: "rc_run_id C = rid \<Longrightarrow> keeps (tracked_run rid) (touch C c n)"
  unfolding touch_def by (auto intro!: keeps_run)

lemma keeps_wait_for_poweroff [keeps_run]:
  "rc_run_id C = rid \<Longrightarrow> keeps (tracked_run rid) (wait_for_poweroff C vmb vr n)"
  by (induction n) (auto intro!: eff_intros keeps_run)

lemma keeps_resolve_full_set [eff_intros]: "keeps P (resolve_full_set C h rs paths)"
  by (induction rs arbitrary: paths) (auto intro!: eff_intros split: option.split)

lemma keeps_probe_vm [eff_intros]: "keeps P (probe_vm B C vr i s sw)"
  unfolding probe_vm_def Let_def case_prod_beta by (intro eff_intros)

lemma drive_destroy_gone:
  "onW (drive E rid (Destroy c n md)) s = (Inr v, s') \<Longrightarrow> n \<notin> live_of (fst s')"
  using drive_spec [of E rid "Destroy c n md" "fst s" "Inr v" "fst s'"] by (simp add: onW_iff effect_def live_of_def)

text \<open>The delete is caught before the forget, so the rule for destroy-then-forget applies only when it
  succeeded.\<close>

lemma keeps_best_effort_delete [keeps_run]:
  assumes "rc_run_id C = rid"
  shows "keeps (tracked_run rid) (best_effort_delete C c n)"
proof (unfold keeps_def, intro allI impI)
  fix s
  assume t: "tracked_run rid s"
  let ?d = "onW (drive (rc_env C) (rc_run_id C) (Destroy c n []))"
  let ?f = "onW (forget (rc_env C) (rc_run_id C) n)"
  have "keeps (tracked_run rid) (seqE ?d ?f)" "keeps (tracked_run rid) ?d" using assms by (auto intro: keeps_run)
  with t have both: "tracked_run rid (snd (seqE ?d ?f s))" and one: "tracked_run rid (snd (?d s))" unfolding keeps_def by blast+
  obtain q s1 where q: "?d s = (q, s1)" by (cases "?d s")
  show "tracked_run rid (snd (best_effort_delete C c n s))"
    using both one q
    by (cases q) (auto simp: best_effort_delete_def bindE_def seqE_def catchE_def handle_if_def ret_def)
qed

lemma keeps_create_os_disk [keeps_run]:
  assumes "rc_run_id C = rid"
  shows "keeps (tracked_run rid) (create_os_disk C bp pb disk :: ('p run_state, unit) eff)"
proof -
  let ?E = "rc_env C"
  let ?rec = "onW (record_intent ?E rid ''build_disk'' disk (Some (vr_name (pr_vm bp))) (pool_md pb)) :: ('p run_state, resource) eff"
  let ?conf = "onW (confirm ?E rid disk (pool_md pb)) :: ('p run_state, unit) eff"
  have rec: "keeps (tracked_run rid) ?rec" by (rule keeps_rt_intent)
  have assoc: "bindE (seqE a b) (\<lambda>_. c) = bindE a (\<lambda>_. bindE b (\<lambda>_. c))" for a :: "('p run_state, string option) eff" and b :: "('p run_state, string option) eff" and c :: "('p run_state, unit) eff"
    by (auto simp: fun_eq_iff seqE_def bindE_def split: prod.splits sum.splits)
  consider (i) "installer_origin bp" | (none) "\<not> installer_origin bp" "base_path bp = None" | (image) "\<not> installer_origin bp" "base_path bp \<noteq> None"
    by blast
  then show ?thesis
  proof cases
    case i
    then have "create_os_disk C bp pb disk = seqE ?rec (bindE (onW (drive ?E rid (Create ''create_blank_volume'' disk))) (\<lambda>_. ?conf))"
      using assms by (simp add: create_os_disk_def Let_def)
    then show ?thesis by (simp only:) (intro keeps_rt_create keeps_run)
  next
    case none
    then have "create_os_disk C bp pb disk = seqE ?rec (throw (AssertionError []))"
      using assms by (simp add: create_os_disk_def Let_def)
    then show ?thesis using rec by (simp only:) (intro eff_intros)
  next
    case image
    then have "create_os_disk C bp pb disk = seqE ?rec (bindE (onW (drive ?E rid (Create ''upload_to_pool'' disk))) (\<lambda>_. bindE (touch C ''resize_volume'' disk) (\<lambda>_. ?conf)))"
      using assms by (auto simp: create_os_disk_def Let_def assoc)
    then show ?thesis by (simp only:) (intro keeps_rt_create eff_intros keeps_run assms)
  qed
qed

lemma keeps_build_one_vm [keeps_run]:
  assumes "rc_run_id C = rid"
  shows "keeps (tracked_run rid) (build_one_vm B C bp pb nb)"
  unfolding build_one_vm_def stage_boot_media_def create_data_disks_def write_seed_def capture_roles_def
    capture_disk_def delete_opt_def Let_def case_prod_beta
  using assms by (auto intro!: eff_intros keeps_run)

subsection \<open>Properties\<close>

text \<open>C15: concurrent builds never share an address. For any two different VM positions the build switch
  offsets, when they exist, are different; each lies in the subnet, outside the DHCP pool, and is neither
  the sidecar's nor the management adapter's; and positions beyond the last slot are refused, so exactly 162 VMs can
  build in one run.\<close>

theorem build_addresses_are_disjoint:
  "(\<forall>i j a. build_ip_offset i = Inr a \<and> build_ip_offset j = Inr a \<longrightarrow> i = j) \<and>
   (\<forall>i a. build_ip_offset i = Inr a \<longrightarrow> 0 < a \<and> a \<le> 254 \<and> \<not> (DHCP_RANGE_LO \<le> a \<and> a \<le> DHCP_RANGE_HI) \<and>
      a \<noteq> SIDECAR_OFFSET \<and> a \<noteq> MGMT_OFFSET) \<and>
   (\<forall>i. (\<exists>a. build_ip_offset i = Inr a) \<longleftrightarrow> i < 162)"
proof -
  have d: "distinct BUILD_IP_SLOTS" "length BUILD_IP_SLOTS = 162"
    by (simp_all add: BUILD_IP_SLOTS_def layout_defs)
  have r: "a \<in> set BUILD_IP_SLOTS \<Longrightarrow> (3 \<le> a \<and> a < 10) \<or> (100 \<le> a \<and> a \<le> 254)" for a
    by (auto simp: BUILD_IP_SLOTS_def layout_defs)
  have o: "build_ip_offset i = Inr a \<longleftrightarrow> i < 162 \<and> a = BUILD_IP_SLOTS ! i" for i a
    by (auto simp: build_ip_offset_def d(2))
  have "i = j" if "build_ip_offset i = Inr a" "build_ip_offset j = Inr a" for i j a
    using that d by (auto simp: o nth_eq_iff_index_eq)
  moreover have "0 < a \<and> a \<le> 254 \<and> \<not> (DHCP_RANGE_LO \<le> a \<and> a \<le> DHCP_RANGE_HI) \<and> a \<noteq> SIDECAR_OFFSET \<and> a \<noteq> MGMT_OFFSET"
    if "build_ip_offset i = Inr a" for i a
  proof -
    have "a \<in> set BUILD_IP_SLOTS" using that d(2) unfolding o by (metis nth_mem)
    from r [OF this] show ?thesis by (auto simp: layout_defs)
  qed
  ultimately show ?thesis by (auto simp: o)
qed

theorem build_addresses_are_disjoint_witness:
  "build_ip_offset 6 = Inr 9 \<and> build_ip_offset 7 = Inr 100 \<and> (\<exists>a. build_ip_offset 161 = Inr a) \<and> \<not> (\<exists>a. build_ip_offset 162 = Inr a)"
proof -
  have "build_ip_offset 6 = Inr 9" "build_ip_offset 7 = Inr 100" by code_simp+
  moreover have "(\<exists>a. build_ip_offset 161 = Inr a) \<and> \<not> (\<exists>a. build_ip_offset 162 = Inr a)"
    using build_addresses_are_disjoint by simp
  ultimately show ?thesis by blast
qed

text \<open>Effects that leave the cache alone.\<close>

named_theorems keeps_cache \<open>effects that do not write the cache\<close>

abbreviation cache_is :: "(name, file_info) dict \<Rightarrow> 'p run_state \<Rightarrow> bool" where
  "cache_is c \<equiv> \<lambda>s. cache_files (snd s) = c"

lemma keeps_cache_onW [keeps_cache]: "keeps (cache_is c) (onW m)"
  by (simp add: keeps_def onW_def split: prod.split)

lemma keeps_cache_create [keeps_cache]: "keeps (cache_is c) (create_recorded C x k n p md)"
  unfolding create_recorded_def Let_def by (intro eff_intros keeps_cache)

lemma keeps_cache_os_disk [keeps_cache]: "keeps (cache_is c) (create_os_disk C bp pb disk)"
  unfolding create_os_disk_def touch_def Let_def by (intro eff_intros keeps_cache)

lemma seqE_failed: "seqE (liftR (Inl e)) m = throw e"
  by (simp add: fun_eq_iff seqE_def bindE_def liftR_def throw_def)

text \<open>C16: a disk enters the cache only from a build that reported success. Whatever fails on the way, if building a VM
  changes the cache at all, then the VM's console contained the result marker followed by \<^verbatim>\<open>ok\<close> on its line.\<close>

theorem only_successful_builds_are_cached:
  assumes "build_one_vm B C bp pb nb s = (r, s')" and "cache_files (snd s') \<noteq> cache_files (snd s)"
  shows "\<exists>before line after. concat (map fst (rc_console C (vr_name (pr_vm bp)))) = before @ ''TESTRANGE-RESULT:'' @ line @ after \<and>
    CHR 0x0A \<notin> set line \<and> first_word (strip line) = ''ok''"
proof (cases "wait_for_build_result (vr_name (pr_vm bp)) (rc_console C (vr_name (pr_vm bp)))")
  case (Inl e)
  have "keeps (cache_is (cache_files (snd s))) (build_one_vm B C bp pb nb)"
    unfolding build_one_vm_def Let_def Inl seqE_failed stage_boot_media_def create_data_disks_def write_seed_def case_prod_beta
    by (intro eff_intros keeps_cache)
  then have "cache_files (snd (snd (build_one_vm B C bp pb nb s))) = cache_files (snd s)" unfolding keeps_def by blast
  with assms show ?thesis by simp
next
  case (Inr u)
  then have "wait_loop (vr_name (pr_vm bp)) [] \<lparr>st_pos = 0, in_log_block = False, logged = []\<rparr> (rc_console C (vr_name (pr_vm bp))) = Inr ()"
    by (simp add: wait_for_build_result_def)
  from wait_loop_ok [OF this] show ?thesis unfolding RESULT_MARKER_def by simp
qed

subsection \<open>A fault-free build\<close>

text \<open>Every driver call succeeds, and a VM asked for its power state is off.\<close>

definition calm :: "env \<Rightarrow> bool" where
  "calm E \<longleftrightarrow> smooth E \<and> (\<forall>t n. reply E t (Touch ''get_vm_power_state'' n) = (Inr (Some ''shutoff''), True))"

named_theorems succ_run \<open>operations that succeed in a fault-free environment\<close>

lemma succeeds_touch [succ_run]: "smooth (rc_env C) \<Longrightarrow> succeeds (fine C Q) (touch C c n) (\<lambda>_. fine C Q)"
  unfolding touch_def by (rule succeeds_drive)

lemma succeeds_best_effort_delete [succ_run]:
  assumes "smooth (rc_env C)"
  shows "succeeds (fine C Q) (best_effort_delete C c n :: ('p run_state, unit) eff) (\<lambda>_. fine C Q)"
proof -
  have "succeeds (fine C Q) (catchE (seqE (onW (drive (rc_env C) (rc_run_id C) (Destroy c n []))) (ret True)) (\<lambda>_. ret False) :: ('p run_state, bool) eff)
      (\<lambda>b s. b \<and> fine C Q s)"
    using succeeds_drive [OF assms, of Q "Destroy c n []"]
    by (fastforce simp: succeeds_def catchE_def handle_if_def seqE_def bindE_def ret_def)
  moreover have "succeeds (\<lambda>s. b \<and> fine C Q s) (if b then onW (forget (rc_env C) (rc_run_id C) n) else ret () :: ('p run_state, unit) eff) (\<lambda>_. fine C Q)" for b
    using succeeds_forget [OF assms, of Q n] by (cases b) (simp_all add: succeeds_def)
  ultimately show ?thesis unfolding best_effort_delete_def by (rule succeeds_bindE)
qed

lemma succeeds_create [succ_run]: "smooth (rc_env C) \<Longrightarrow> succeeds (fine C Q) (seqE (create_recorded C c k n p md) (ret x)) (\<lambda>y s. y = x \<and> fine C Q s)"
  by (rule succeeds_seqE [OF succeeds_create_recorded]) (auto intro: succeeds_ret)

text \<open>As \<open>fine\<close>, with a name known to be in the ledger on disk.\<close>

definition fine_rec :: "('b, 'c) run_cfg \<Rightarrow> name \<Rightarrow> ('p ledgers \<Rightarrow> bool) \<Rightarrow> 'p run_state \<Rightarrow> bool" where
  "fine_rec C n Q s \<longleftrightarrow> (\<exists>st. holds (rc_run_id C) st (fst s) \<and> n \<in> set (backend_names st)) \<and> Q (snd s)"

lemma succeeds_record:
  "smooth (rc_env C) \<Longrightarrow> succeeds (fine C Q) (onW (record_intent (rc_env C) (rc_run_id C) k n p md)) (\<lambda>_. fine_rec C n Q)"
  unfolding succeeds_def fine_def fine_rec_def onW_def
  using record_intent_smooth [of "rc_env C" "rc_run_id C" _ _ k n p md] by fastforce

lemma succeeds_drive_rec:
  "smooth (rc_env C) \<Longrightarrow> succeeds (fine_rec C n Q) (onW (drive (rc_env C) (rc_run_id C) c)) (\<lambda>_. fine_rec C n Q)"
  unfolding succeeds_def fine_rec_def onW_def using drive_smooth [of "rc_env C" "rc_run_id C" _ _ c] by fastforce

lemma succeeds_confirm:
  "smooth (rc_env C) \<Longrightarrow> succeeds (fine_rec C n Q) (onW (confirm (rc_env C) (rc_run_id C) n md)) (\<lambda>_. fine C Q)"
  unfolding succeeds_def fine_def fine_rec_def onW_def
  using confirm_smooth [of "rc_env C" "rc_run_id C" _ _ n md] by fastforce

lemma succeeds_create_os_disk:
  assumes "smooth (rc_env C)" and "installer_origin bp \<or> base_path bp \<noteq> None"
  shows "succeeds (fine C Q) (create_os_disk C bp pb disk) (\<lambda>_. fine C Q)"
  unfolding create_os_disk_def Let_def touch_def
  using assms(2)
  by (intro succeeds_seqE [OF succeeds_record [OF assms(1)]] succeeds_bindE [OF _ succeeds_confirm [OF assms(1)]])
    (auto intro!: succeeds_seqE succeeds_drive_rec [OF assms(1)])

lemma succeeds_option:
  "(x = None \<Longrightarrow> succeeds P m Q) \<Longrightarrow> (\<And>y. x = Some y \<Longrightarrow> succeeds P (f y) Q) \<Longrightarrow> succeeds P (case x of None \<Rightarrow> m | Some y \<Rightarrow> f y) Q"
  by (cases x) simp_all

lemma succeeds_stage_boot_media:
  assumes "smooth (rc_env C)" and "\<And>m. boot_media_path bp = Some m \<Longrightarrow> \<exists>m'. prepare_boot_media B (vr_builder (pr_vm bp)) m = Inr m'"
  shows "succeeds (fine C Q) (stage_boot_media B C bp pb vmb) (\<lambda>_. fine C Q)"
  unfolding stage_boot_media_def
proof (rule succeeds_option)
  fix m
  assume "boot_media_path bp = Some m"
  then obtain m' where m': "prepare_boot_media B (vr_builder (pr_vm bp)) m = Inr m'" using assms(2) by blast
  show "succeeds (fine C Q) (bindE (liftR (prepare_boot_media B (vr_builder (pr_vm bp)) m)) (\<lambda>_.
          let n = vmb @ ''-bootmedia'' @ volume_suffix (rc_driver C) ''boot_iso'' in
          seqE (create_recorded C ''upload_to_pool'' ''boot_iso'' n (Some (vr_name (pr_vm bp))) (pool_md pb)) (ret (Some n)))) (\<lambda>_. fine C Q)"
    unfolding Let_def
    by (rule succeeds_bindE [OF succeeds_liftR [OF m'] succeeds_weaken [OF succeeds_create [OF assms(1)]]]) auto
qed (auto intro: succeeds_ret)

lemma succeeds_create_data_disks:
  assumes "smooth (rc_env C)"
  shows "succeeds (fine C Q) (create_data_disks C bp pb vmb) (\<lambda>ns s. length ns = length (data_drives (vr_spec (pr_vm bp))) \<and> fine C Q s)"
proof -
  let ?f = "\<lambda>(i, d). let n = vmb @ ''-'' @ data_disk_role i @ volume_suffix (rc_driver C) ''data_disk'' in
         seqE (create_recorded C ''create_blank_volume'' ''data_disk'' n (Some (vr_name (pr_vm bp))) (pool_md pb)) (ret n)"
  have "succeeds (fine C Q) (?f x) (\<lambda>_. fine C Q)" for x
    unfolding Let_def case_prod_beta by (rule succeeds_weaken [OF succeeds_create [OF assms]]) auto
  then have "succeeds (fine C Q) (forE ?f (enumerate 0 (data_drives (vr_spec (pr_vm bp)))))
      (\<lambda>ns s. length ns = length (enumerate 0 (data_drives (vr_spec (pr_vm bp)))) \<and> fine C Q s)"
    by (rule succeeds_forE_length)
  then show ?thesis unfolding create_data_disks_def length_enumerate .
qed

lemma succeeds_write_seed:
  assumes "smooth (rc_env C)" and "render_seed B (vr_builder (pr_vm bp)) (pr_vm bp) (addressing_of (declared_switches (rc_hypervisor C)))
      (pr_macs bp) (pr_build_nic bp) (native_agent bp) = Inr b"
  shows "succeeds (fine C Q) (write_seed B C bp pb vmb) (\<lambda>_. fine C Q)"
  unfolding write_seed_def Let_def
  by (rule succeeds_bindE [OF succeeds_liftR [OF assms(2)], where R = "\<lambda>_. fine C Q"])
    (auto intro!: succeeds_ret succeeds_weaken [OF succeeds_create [OF assms(1)]])

lemma succeeds_wait_for_poweroff:
  assumes "calm (rc_env C)"
  shows "succeeds (fine C Q) (wait_for_poweroff C vmb vr (Suc n)) (\<lambda>_. fine C Q)"
proof -
  have "smooth (rc_env C)" using assms by (simp add: calm_def)
  moreover have "succeeds (fine C Q) (touch C ''get_vm_power_state'' vmb) (\<lambda>v s. v = Some ''shutoff'' \<and> fine C Q s)"
  proof (unfold succeeds_def, intro allI impI)
    fix s
    assume f: "fine C Q s"
    obtain v s' where t: "touch C ''get_vm_power_state'' vmb s = (Inr v, s')" "fine C Q s'"
      using succeedsD [OF succeeds_touch [OF \<open>smooth (rc_env C)\<close>] f] by blast
    have "reply (rc_env C) (tick (fst s)) (Touch ''get_vm_power_state'' vmb) = (Inr (Some ''shutoff''), True)"
      using assms by (simp add: calm_def)
    then have "v = Some ''shutoff''"
      using t(1) by (simp add: touch_def onW_def drive_def bindE_def seqE_def tock_def modE_def ret_def)
    with t show "\<exists>v s'. touch C ''get_vm_power_state'' vmb s = (Inr v, s') \<and> v = Some ''shutoff'' \<and> fine C Q s'" by blast
  qed
  ultimately show ?thesis
    unfolding wait_for_poweroff.simps
    by (elim succeeds_bindE) (auto simp: succeeds_def ret_def)
qed

text \<open>What capturing has put into the cache and into \<^verbatim>\<open>captured\<close> so far.\<close>

definition in_cache :: "string \<Rightarrow> string list \<Rightarrow> 'p ledgers \<Rightarrow> bool" where
  "in_cache h rs l \<longleftrightarrow> list_all (\<lambda>role. built_artifact_name h role \<in> fst ` set (cache_files l)) rs"

lemma succeeds_capture_roles:
  assumes "smooth (rc_env C)" and "roles bp = built_artifact_roles (length ds)"
  shows "succeeds (fine C (\<lambda>_. True)) (capture_roles C bp disk ds)
    (\<lambda>captured s. fst ` set captured = set (roles bp) \<and> fine C (in_cache (config_hash bp) (roles bp)) s)"
proof -
  let ?refs = "(''os'', disk) # map (\<lambda>(i, n). (data_disk_role i, n)) (enumerate 0 ds)"
  let ?P = "\<lambda>rs (captured :: (string, string) dict) s. fst ` set captured = set rs \<and> fine C (in_cache (config_hash bp) rs) s"
  let ?f = "\<lambda>role captured. case map_of ?refs role of
           None \<Rightarrow> throw (KeyError [role])
         | Some vol \<Rightarrow> bindE (capture_disk C vol (config_hash bp) role) (\<lambda>path. ret (AList.update role path captured))"
  have "map fst ?refs = ''os'' # map data_disk_role (map fst (enumerate 0 ds))" unfolding map_map by (simp add: comp_def case_prod_beta)
  then have keys: "map fst ?refs = roles bp" unfolding map_fst_enumerate assms(2) built_artifact_roles_def by simp
  have ref: "\<exists>vol. map_of ?refs role = Some vol" if "role \<in> set (roles bp)" for role
    using that unfolding keys [symmetric] set_map by (metis map_of_eq_None_iff not_None_eq)
  have step: "succeeds (?P rs captured) (?f role captured) (?P (rs @ [role]))" if r: "role \<in> set (roles bp)" for role captured rs
  proof -
    obtain vol where vol: "map_of ?refs role = Some vol" using ref [OF r] by blast
    have cap: "succeeds (fine C (in_cache (config_hash bp) rs)) (capture_disk C vol (config_hash bp) role)
        (\<lambda>_. fine C (in_cache (config_hash bp) (rs @ [role])))"
      unfolding capture_disk_def Let_def
      by (rule succeeds_bindE [OF succeeds_touch [OF assms(1)]], rule succeeds_seqE [OF succeeds_modL succeeds_ret])
        (auto simp: in_cache_def list_all_iff dom_update)
    have "succeeds (\<lambda>s. fst ` set captured = set rs \<and> fine C (in_cache (config_hash bp) rs) s)
        (bindE (capture_disk C vol (config_hash bp) role) (\<lambda>path. ret (AList.update role path captured))) (?P (rs @ [role]))"
    proof (rule succeeds_assume)
      assume h: "fst ` set captured = set rs"
      have e: "fst ` set (AList.update role path captured) = set (rs @ [role])" for path using h by (simp add: dom_update)
      have "succeeds (fine C (in_cache (config_hash bp) rs))
          (bindE (capture_disk C vol (config_hash bp) role) (\<lambda>path. ret (AList.update role path captured))) (?P (rs @ [role]))"
        by (rule succeeds_bindE [OF cap succeeds_ret]) (simp only: e simp_thms)
      then show ?thesis by (rule succeeds_weaken) auto
    qed blast
    with vol show ?thesis by simp
  qed
  have "succeeds (?P [] []) (foldE ?f (roles bp) []) (?P ([] @ roles bp))"
    by (rule succeeds_foldE [where P = ?P and ds = "[]" and s = "[]"]) (rule step)
  then show ?thesis
    unfolding capture_roles_def Let_def by (rule succeeds_weaken) (auto simp: in_cache_def fine_def)
qed

lemma succeeds_delete_opt [succ_run]: "smooth (rc_env C) \<Longrightarrow> succeeds (fine C Q) (delete_opt C n) (\<lambda>_. fine C Q)"
  unfolding delete_opt_def by (intro succeeds_option succeeds_ret succ_run)

lemma succeeds_delete_all [succ_run]:
  "smooth (rc_env C) \<Longrightarrow> succeeds (fine C Q) (forE (best_effort_delete C c) ns) (\<lambda>_. fine C Q)"
  by (rule succeeds_weaken [OF succeeds_forE_length [where P = "fine C Q"]]) (auto intro: succ_run)

lemma build_captures:
  assumes "calm (rc_env C)" and "holds (rc_run_id C) st w" and "0 < rc_polls C ''poweroff''"
    and "wait_for_build_result (vr_name (pr_vm bp)) (rc_console C (vr_name (pr_vm bp))) = Inr ()"
    and "VMBuildProbe bp = Inr bp" and "paths_resolved bp" and "roles bp = built_artifact_roles (length (data_drives (vr_spec (pr_vm bp))))"
    and "render_seed B (vr_builder (pr_vm bp)) (pr_vm bp) (addressing_of (declared_switches (rc_hypervisor C)))
      (pr_macs bp) (pr_build_nic bp) (native_agent bp) = Inr b"
    and "\<And>m. boot_media_path bp = Some m \<Longrightarrow> \<exists>m'. prepare_boot_media B (vr_builder (pr_vm bp)) m = Inr m'"
  shows "\<exists>w' l'. build_one_vm B C bp pb nb (w, l) = (Inr (), (w', l')) \<and>
    (\<forall>role \<in> set (roles bp). built_artifact_name (config_hash bp) role \<in> fst ` set (cache_files l')) \<and>
    (\<exists>paths. map_of (built_disk_paths l') (vr_name (pr_vm bp)) = Some paths \<and> fst ` set paths = set (roles bp))"
proof -
  have sm: "smooth (rc_env C)" using assms(1) by (simp add: calm_def)
  have resolved: "\<not> \<not> paths_resolved bp" using assms(6) by simp
  have org: "installer_origin bp \<or> base_path bp \<noteq> None" using assms(5,6) by (auto simp: VMBuildProbe_def result_simps)
  obtain n where n: "rc_polls C ''poweroff'' = Suc n" using assms(3) by (cases "rc_polls C ''poweroff''") auto
  let ?T = "\<lambda>_ :: 'd ledgers. True"
  let ?v = "vr_name (pr_vm bp)"
  let ?D = "\<lambda>l :: 'd ledgers. in_cache (config_hash bp) (roles bp) l \<and>
      (\<exists>paths. map_of (built_disk_paths l) ?v = Some paths \<and> fst ` set paths = set (roles bp))"
  have wait: "succeeds (fine C ?T) (liftR (wait_for_build_result ?v (rc_console C ?v))) (\<lambda>_. fine C ?T)"
    by (rule succeeds_liftR [OF assms(4)])
  have noted: "succeeds (\<lambda>s. fst ` set captured = set (roles bp) \<and> fine C (in_cache (config_hash bp) (roles bp)) s)
      (modL (\<lambda>l. l\<lparr>built_disk_paths := AList.update ?v captured (built_disk_paths l)\<rparr>)) (\<lambda>_. fine C ?D)" for captured
    by (auto simp: succeeds_def fine_def modL_def in_cache_def update_conv')
  have rest: "succeeds (\<lambda>s. length ds = length (data_drives (vr_spec (pr_vm bp))) \<and> fine C ?T s)
    (bindE (write_seed B C bp pb vmb) (\<lambda>seed.
       seqE (create_recorded C ''create_vm'' ''build_vm'' vmb (Some ?v) [])
       (seqE (onW (drive (rc_env C) (rc_run_id C) (StartVM vmb)))
       (seqE (liftR (wait_for_build_result ?v (rc_console C ?v)))
       (seqE (wait_for_poweroff C vmb ?v (rc_polls C ''poweroff''))
       (bindE (capture_roles C bp disk ds) (\<lambda>captured.
       seqE (modL (\<lambda>l. l\<lparr>built_disk_paths := AList.update ?v captured (built_disk_paths l)\<rparr>))
       (seqE (best_effort_delete C ''destroy_vm'' vmb)
       (seqE (delete_opt C seed)
       (seqE (delete_opt C media)
       (seqE (forE (best_effort_delete C ''delete_volume'') ds)
       (best_effort_delete C ''delete_volume'' disk)))))))))))) (\<lambda>_. fine C ?D)" for ds vmb disk media
  proof (rule succeeds_assume)
    assume "length ds = length (data_drives (vr_spec (pr_vm bp)))"
    then have cap: "roles bp = built_artifact_roles (length ds)" using assms(7) by simp
    show ?thesis unfolding n
      by (rule succeeds_weaken [where P = "fine C ?T" and Q = "\<lambda>_. fine C ?D"], rule succeeds_bindE [OF succeeds_write_seed [OF sm assms(8)]],
          rule succeeds_seqE [OF succeeds_create_recorded [OF sm]], rule succeeds_seqE [OF succeeds_drive [OF sm]], rule succeeds_seqE [OF wait],
          rule succeeds_seqE [OF succeeds_wait_for_poweroff [OF assms(1)]], rule succeeds_bindE [OF succeeds_capture_roles [OF sm cap]],
          rule succeeds_seqE [OF noted], rule succeeds_seqE [OF succeeds_best_effort_delete [OF sm]], rule succeeds_seqE [OF succeeds_delete_opt [OF sm]],
          rule succeeds_seqE [OF succeeds_delete_opt [OF sm]], rule succeeds_seqE [OF succeeds_delete_all [OF sm]],
          rule succeeds_best_effort_delete [OF sm]) auto
  qed blast
  have "succeeds (fine C ?T) (build_one_vm B C bp pb nb) (\<lambda>_. fine C ?D)"
    unfolding build_one_vm_def Let_def if_not_P [OF resolved]
    by (rule succeeds_seqE [OF succeeds_create_os_disk [OF sm org]],
        rule succeeds_bindE [OF succeeds_stage_boot_media [OF sm assms(9)]], assumption,
        rule succeeds_bindE [OF succeeds_create_data_disks [OF sm] rest])
  moreover have "fine C ?T (w, l)" using assms(2) by (auto simp: fine_def)
  ultimately obtain s' where "build_one_vm B C bp pb nb (w, l) = (Inr (), s')" "fine C ?D s'" using succeedsD by fastforce
  then show ?thesis by (cases s') (auto simp: fine_def in_cache_def list_all_iff)
qed

text \<open>A one-disk VM built by a builder without a seed.\<close>

definition plain_builder :: "(unit, unit) builder_ops" where
  "plain_builder = \<lparr>os_disk_base = (\<lambda>_. Some ''base''), boot_media = (\<lambda>_. None), config_hash_of = (\<lambda>_ _ _ _ _ _ _ _. Inr ''h''),
     render_seed = (\<lambda>_ _ _ _ _ _. Inr None), prepare_boot_media = (\<lambda>_ m. Inr m), comm_ref = (\<lambda>_. 0), credentials = (\<lambda>_. []), is_cloudinit = (\<lambda>_. False),
     native_agent_provision = None\<rparr>"

definition plain_probe :: "(unit, unit) probe" where
  "plain_probe = \<lparr>pr_vm = sample_vm ''192.168.10.100'', config_hash = ''h'', pr_macs = [],
     pr_build_nic = \<lparr>bn_mac = ''m'', bn_network = ''build'', bn_addr = \<lparr>addr = ''10.97.99.3'', gw = None, dns = []\<rparr>, bn_addressing = from_switch sample_switch\<rparr>,
     native_agent = None, installer_origin = False, base_path = Some ''b'', boot_media_path = None, roles = [''os''], cached_paths = None, paths_resolved = True\<rparr>"

lemma plain_build_runs:
  "calm (rc_env plain_cfg)" "holds (rc_run_id plain_cfg) sample_state sample_world" "0 < rc_polls plain_cfg ''poweroff''"
  "wait_for_build_result (vr_name (pr_vm plain_probe)) (rc_console plain_cfg (vr_name (pr_vm plain_probe))) = Inr ()"
  "VMBuildProbe plain_probe = Inr plain_probe" "paths_resolved plain_probe"
  "roles plain_probe = built_artifact_roles (length (data_drives (vr_spec (pr_vm plain_probe))))"
  "render_seed plain_builder (vr_builder (pr_vm plain_probe)) (pr_vm plain_probe) (addressing_of (declared_switches (rc_hypervisor plain_cfg)))
    (pr_macs plain_probe) (pr_build_nic plain_probe) (native_agent plain_probe) = Inr None"
  "boot_media_path plain_probe = Some m \<Longrightarrow> \<exists>m'. prepare_boot_media plain_builder (vr_builder (pr_vm plain_probe)) m = Inr m'"
proof -
  have "wait_for_build_result ''web'' [(''TESTRANGE-RESULT: ok'' @ newline, False)] = Inr ()" by code_simp
  then show "wait_for_build_result (vr_name (pr_vm plain_probe)) (rc_console plain_cfg (vr_name (pr_vm plain_probe))) = Inr ()"
    by (simp add: plain_cfg_def plain_probe_def sample_vm_def vr_name_def)
  show "calm (rc_env plain_cfg)" by (simp add: calm_def plain_smooth) (simp add: plain_cfg_def quiet_env_def)
  show "holds (rc_run_id plain_cfg) sample_state sample_world" using sample_holds by (simp add: plain_run)
  show "roles plain_probe = built_artifact_roles (length (data_drives (vr_spec (pr_vm plain_probe))))"
    by (simp add: plain_probe_def sample_vm_def data_drives_def built_artifact_roles_def)
qed (simp_all add: plain_cfg_def plain_probe_def plain_builder_def VMBuildProbe_def guardR_def)

lemma plain_artifact: "built_artifact_name (config_hash plain_probe) ''os'' = ''_built_h__os''" "roles plain_probe = [''os'']"
  by (simp_all add: built_artifact_name_def plain_probe_def)

text \<open>C17: a build whose guest reports success is captured whole. On a fault-free backend with a VM that powers off, building
  returns, every role of the VM's disk set is in the cache under its artifact name, and the ledger of
  built disks has exactly these roles, so the run phase finds a complete set.\<close>

theorem successful_build_is_captured:
  assumes "calm (rc_env C)" and "holds (rc_run_id C) st w" and "0 < rc_polls C ''poweroff''"
    and "wait_for_build_result (vr_name (pr_vm bp)) (rc_console C (vr_name (pr_vm bp))) = Inr ()"
    and "VMBuildProbe bp = Inr bp" and "paths_resolved bp" and "roles bp = built_artifact_roles (length (data_drives (vr_spec (pr_vm bp))))"
    and "render_seed B (vr_builder (pr_vm bp)) (pr_vm bp) (addressing_of (declared_switches (rc_hypervisor C)))
      (pr_macs bp) (pr_build_nic bp) (native_agent bp) = Inr b"
    and "\<And>m. boot_media_path bp = Some m \<Longrightarrow> \<exists>m'. prepare_boot_media B (vr_builder (pr_vm bp)) m = Inr m'"
  shows "\<exists>w' l'. build_one_vm B C bp pb nb (w, l) = (Inr (), (w', l')) \<and>
    (\<forall>role \<in> set (roles bp). built_artifact_name (config_hash bp) role \<in> fst ` set (cache_files l')) \<and>
    (\<exists>paths. map_of (built_disk_paths l') (vr_name (pr_vm bp)) = Some paths \<and> fst ` set paths = set (roles bp))"
  using assms by (rule build_captures)

theorem successful_build_is_captured_witness:
  "\<exists>w' l'. build_one_vm plain_builder plain_cfg plain_probe ''pool'' ''net'' (sample_world, empty_ledgers) = (Inr (), (w', l' :: unit ledgers)) \<and>
     ''_built_h__os'' \<in> fst ` set (cache_files l')"
proof -
  obtain w' and l' :: "unit ledgers"
    where "build_one_vm plain_builder plain_cfg plain_probe ''pool'' ''net'' (sample_world, empty_ledgers) = (Inr (), (w', l'))"
      and "\<forall>role \<in> set (roles plain_probe). built_artifact_name (config_hash plain_probe) role \<in> fst ` set (cache_files l')"
    using successful_build_is_captured [OF plain_build_runs] by blast
  then show ?thesis unfolding plain_artifact by (simp add: plain_artifact)
qed

theorem only_successful_builds_are_cached_witness:
  "\<exists>before line after. ''TESTRANGE-RESULT: ok'' @ newline = before @ ''TESTRANGE-RESULT:'' @ line @ after \<and>
    CHR 0x0A \<notin> set line \<and> first_word (strip line) = ''ok''"
proof -
  obtain w' and l' :: "unit ledgers"
    where run: "build_one_vm plain_builder plain_cfg plain_probe ''pool'' ''net'' (sample_world, empty_ledgers) = (Inr (), (w', l'))"
      and "\<forall>role \<in> set (roles plain_probe). built_artifact_name (config_hash plain_probe) role \<in> fst ` set (cache_files l')"
    using build_captures [OF plain_build_runs] by blast
  then have "cache_files l' \<noteq> []" by (auto simp: plain_artifact)
  then have ch: "cache_files (snd (w', l')) \<noteq> cache_files (snd (sample_world, empty_ledgers :: unit ledgers))"
    by (simp add: empty_ledgers_def)
  have "concat (map fst (rc_console plain_cfg (vr_name (pr_vm plain_probe)))) = ''TESTRANGE-RESULT: ok'' @ newline"
    by (simp add: plain_cfg_def plain_probe_def sample_vm_def vr_name_def)
  with only_successful_builds_are_cached [OF run ch] show ?thesis by simp
qed

end
