(* ===== verification/VM_Run.thy ===== *)
theory VM_Run
  imports VM_Build
begin

text \<open>
  Bringing one VM up from its cached disks and the readiness gates of the run phase
  (\<^verbatim>\<open>orchestrator/vm_run.py\<close>, \<^verbatim>\<open>builders/base.py\<close>: \<^verbatim>\<open>find_credential\<close>). A call into a guest is a
  \<open>Touch\<close> of the world that may answer or raise; a wait takes the number of polls before its deadline from
  \<open>rc_polls\<close>. The builder's own readiness command is such a call.
\<close>

subsection \<open>Disks and the VM\<close>

definition dict_get :: "(string, 'v) dict \<Rightarrow> string \<Rightarrow> 'v result" where
  "dict_get d k = (case map_of d k of None \<Rightarrow> Inl (KeyError [k]) | Some v \<Rightarrow> Inr v)"

definition push_disk :: "('b, 'c) run_cfg \<Rightarrow> string \<Rightarrow> name \<Rightarrow> name \<Rightarrow> name \<Rightarrow> (string, string) dict \<Rightarrow> string \<Rightarrow> ('p run_state, unit) eff" where
  "push_disk C kind disk vm_name pb built role =
     (let E = rc_env C; rid = rc_run_id C in
      seqE (onW (record_intent E rid kind disk (Some vm_name) (pool_md pb)))
      (bindE (liftR (dict_get built role)) (\<lambda>_.
       bindE (onW (drive E rid (Create ''upload_to_pool'' disk))) (\<lambda>_.
       onW (confirm E rid disk (pool_md pb))))))"

definition bring_up_vm :: "('b, 'c) run_cfg \<Rightarrow> ('b, 'c) vm_recipe \<Rightarrow> ('p run_state, unit) eff" where
  "bring_up_vm C vr =
     bindE (lookupL built_disk_paths (vr_name vr)) (\<lambda>built.
     let vmb = backend_name C ''vm'' (vr_name vr) in
     bindE (lookupL pool_backends (handle_str (disk_pool (os_drive (vr_spec vr))))) (\<lambda>pb.
     seqE (push_disk C ''run_disk'' (vmb @ volume_suffix (rc_driver C) ''run_disk'') (vr_name vr) pb built ''os'')
     (seqE (forE (\<lambda>(i, d).
          bindE (lookupL pool_backends (handle_str (disk_pool d))) (\<lambda>dpb.
          push_disk C ''data_disk'' (vmb @ ''-'' @ data_disk_role i @ volume_suffix (rc_driver C) ''data_disk'') (vr_name vr) dpb built (data_disk_role i)))
        (enumerate 0 (data_drives (vr_spec vr))))
     (seqE (create_recorded C ''create_vm'' ''vm'' vmb (Some (vr_name vr)) [])
     (seqE (onW (drive (rc_env C) (rc_run_id C) (StartVM vmb))) (ret ()))))))"

subsection \<open>Credentials\<close>

fun cred_username :: "credential \<Rightarrow> name" where
  "cred_username (Posix c) = username c" | "cred_username (Other u _) = u"

fun cred_admin :: "credential \<Rightarrow> bool" where
  "cred_admin (Posix c) = admin c" | "cred_admin (Other _ a) = a"

definition find_credential :: "('b, 'c) builder_ops \<Rightarrow> 'b \<Rightarrow> name \<Rightarrow> credential option" where
  "find_credential B b u = List.find (\<lambda>c. cred_username c = u) (credentials B b)"

definition lookup_credential :: "('b, 'c) builder_ops \<Rightarrow> ('b, 'c) vm_recipe \<Rightarrow> comm_state \<Rightarrow> posix_cred result" where
  "lookup_credential B vr comm =
     (case comm of
        SSH c \<Rightarrow>
          (case find_credential B (vr_builder vr) (ssh_username c) of
             None \<Rightarrow> Inl (OrchestratorError ([vr_name vr, ssh_username c] @ map cred_username (credentials B (vr_builder vr))))
           | Some (Posix p) \<Rightarrow> Inr p
           | Some (Other _ _) \<Rightarrow> Inl (OrchestratorError [vr_name vr, ssh_username c]))
      | _ \<Rightarrow> Inl (OrchestratorError [vr_name vr]))"

definition native_guest_credential :: "('b, 'c) builder_ops \<Rightarrow> ('b, 'c) vm_recipe \<Rightarrow> credential option" where
  "native_guest_credential B vr =
     (let b = vr_builder vr; creds = credentials B b in
      if \<not> is_cloudinit B b then None
      else case filter cred_admin creds of
        a # _ \<Rightarrow> Some a
      | [] \<Rightarrow> if length creds = 1 then Some (hd creds) else None)"

subsection \<open>Addresses\<close>

definition switch_for_network :: "('b, 'c) run_cfg \<Rightarrow> name \<Rightarrow> switch result" where
  "switch_for_network C n =
     (case List.find (\<lambda>sw. n \<in> set (map nw_name (networks sw))) (declared_switches (rc_hypervisor C)) of
        None \<Rightarrow> Inl (OrchestratorError [n])
      | Some sw \<Rightarrow> Inr sw)"

definition guest_read :: "('b, 'c) run_cfg \<Rightarrow> name \<Rightarrow> string \<Rightarrow> ('p run_state, string) eff" where
  "guest_read C target path =
     bindE (touch C (''native_guest_read_file '' @ path) target) (\<lambda>v. ret (case v of None \<Rightarrow> [] | Some d \<Rightarrow> d))"

fun poll_lease :: "('b, 'c) run_cfg \<Rightarrow> name \<Rightarrow> string \<Rightarrow> name \<Rightarrow> name \<Rightarrow> nat \<Rightarrow> ('p run_state, string) eff" where
  "poll_lease C sidecar mac vm_name network 0 = throw (OrchestratorError [vm_name, network])"
| "poll_lease C sidecar mac vm_name network (Suc n) =
     bindE (handle_if is_GuestAgentError (guest_read C sidecar LEASEFILE) (\<lambda>_. ret [])) (\<lambda>raw.
     case map_of (parse_dnsmasq_leases raw) mac of
       Some ip \<Rightarrow> if ip \<noteq> [] then ret ip else poll_lease C sidecar mac vm_name network n
     | None \<Rightarrow> poll_lease C sidecar mac vm_name network n)"

definition wait_for_dhcp_lease :: "('b, 'c) run_cfg \<Rightarrow> name \<Rightarrow> name \<Rightarrow> nat \<Rightarrow> ('p run_state, string) eff" where
  "wait_for_dhcp_lease C vm_name network idx =
     bindE (liftR (switch_for_network C network)) (\<lambda>sw.
     bindE (getL (\<lambda>l. map_of (sidecar_backends l) (sw_name sw))) (\<lambda>sb.
     case sb of
       None \<Rightarrow> throw (OrchestratorError [vm_name, network, sw_name sw])
     | Some b \<Rightarrow> poll_lease C b (lower (compose_mac (rc_driver C) (rc_plan_name C) vm_name (int idx))) vm_name network (rc_polls C ''lease'')))"

definition chosen_nic :: "('b, 'c) vm_recipe \<Rightarrow> int option \<Rightarrow> (nat \<times> device) result" where
  "chosen_nic vr nidx =
     (let ns = nics (vr_spec vr) in
      case nidx of
        Some i \<Rightarrow>
          if \<not> (0 \<le> i \<and> i < int (length ns)) then Inl (OrchestratorError [vr_name vr, string_of_int i, string_of_nat (length ns)])
          else if nic_addr (ns ! nat i) = None then Inl (OrchestratorError [vr_name vr, string_of_int i])
          else Inr (nat i, ns ! nat i)
      | None \<Rightarrow>
          (case filter (\<lambda>(i, n). nic_addr n \<noteq> None) (enumerate 0 ns) of
             [] \<Rightarrow> Inl (OrchestratorError [vr_name vr])
           | p # _ \<Rightarrow> Inr p))"

definition discover_ip :: "('b, 'c) run_cfg \<Rightarrow> ('b, 'c) vm_recipe \<Rightarrow> int option \<Rightarrow> ('p run_state, string) eff" where
  "discover_ip C vr nidx =
     bindE (liftR (chosen_nic vr nidx)) (\<lambda>(idx, nic).
     case nic_addr nic of
       Some (StaticAddr sa) \<Rightarrow> ret (host sa)
     | _ \<Rightarrow> wait_for_dhcp_lease C (vr_name vr) (handle_str (nic_network nic)) idx)"

subsection \<open>Communicators\<close>

definition set_comm :: "nat \<Rightarrow> comm_state \<Rightarrow> ('p run_state, unit) eff" where
  "set_comm r c = modL (\<lambda>l. l\<lparr>comms := (comms l)(r := c)\<rparr>)"

definition bind_communicator_for :: "('b, 'c) builder_ops \<Rightarrow> ('b, 'c) run_cfg \<Rightarrow> ('b, 'c) vm_recipe \<Rightarrow> ('p run_state, unit) eff" where
  "bind_communicator_for B C vr =
     (let r = comm_ref B (vr_communicator vr) in
      bindE (getL (\<lambda>l. comms l r)) (\<lambda>comm.
      case comm of
        SSH c \<Rightarrow>
          bindE (discover_ip C vr (nic_idx c)) (\<lambda>ip.
          bindE (liftR (lookup_credential B vr comm)) (\<lambda>cred.
          bindE (touch C ''guest_gateway'' (vr_name vr)) (\<lambda>gateway.
          bindE (liftR (ssh_bind ip cred 22 gateway c)) (\<lambda>c'. set_comm r (SSH c')))))
      | Native c \<Rightarrow>
          bindE (liftR (native_bind (backend_name C ''vm'' (vr_name vr)) c)) (\<lambda>c'. set_comm r (Native c'))
      | Foreign \<Rightarrow> ret ()))"

text \<open>\<^verbatim>\<open>vm.communicator.execute\<close>: an unbound communicator raises without reaching the guest.\<close>

definition comm_execute :: "('b, 'c) builder_ops \<Rightarrow> ('b, 'c) run_cfg \<Rightarrow> ('b, 'c) vm_recipe \<Rightarrow> string \<Rightarrow> ('p run_state, string option) eff" where
  "comm_execute B C vr what =
     bindE (getL (\<lambda>l. comms l (comm_ref B (vr_communicator vr)))) (\<lambda>comm.
     case comm of
       SSH c \<Rightarrow> if ssh_bound c then touch C what (vr_name vr) else throw (CommunicatorError [ssh_username c])
     | Native c \<Rightarrow> if nc_target c \<noteq> None then touch C what (vr_name vr) else throw (CommunicatorError [])
     | Foreign \<Rightarrow> touch C what (vr_name vr))"

subsection \<open>Readiness gates\<close>

definition SIDECAR_DNSMASQ_CONF :: string where "SIDECAR_DNSMASQ_CONF = ''/etc/dnsmasq.conf''"

fun poll_sidecar :: "('b, 'c) run_cfg \<Rightarrow> name \<Rightarrow> name \<Rightarrow> nat \<Rightarrow> ('p run_state, unit) eff" where
  "poll_sidecar C sidecar sw 0 = throw (OrchestratorError [sw])"
| "poll_sidecar C sidecar sw (Suc n) =
     bindE (handle_if is_GuestAgentError (guest_read C sidecar SIDECAR_DNSMASQ_CONF) (\<lambda>_. ret [])) (\<lambda>conf.
     if conf \<noteq> [] then ret () else poll_sidecar C sidecar sw n)"

definition wait_sidecar_ready :: "('b, 'c) run_cfg \<Rightarrow> switch \<Rightarrow> ('p run_state, unit) eff" where
  "wait_sidecar_ready C sw =
     bindE (getL (\<lambda>l. map_of (sidecar_backends l) (sw_name sw))) (\<lambda>sb.
     case sb of None \<Rightarrow> ret () | Some b \<Rightarrow> poll_sidecar C b (sw_name sw) (rc_polls C ''sidecar''))"

fun poll_communicator :: "('b, 'c) builder_ops \<Rightarrow> ('b, 'c) run_cfg \<Rightarrow> ('b, 'c) vm_recipe \<Rightarrow> nat \<Rightarrow> ('p run_state, unit) eff" where
  "poll_communicator B C vr 0 = throw (OrchestratorError [vr_name vr])"
| "poll_communicator B C vr (Suc n) =
     bindE (handle_if (\<lambda>e. is_GuestAgentError e \<or> is_CommunicatorError e) (seqE (comm_execute B C vr ''true'') (ret True)) (\<lambda>_. ret False)) (\<lambda>answered.
     if answered then ret () else poll_communicator B C vr n)"

definition wait_communicator_ready :: "('b, 'c) builder_ops \<Rightarrow> ('b, 'c) run_cfg \<Rightarrow> ('b, 'c) vm_recipe \<Rightarrow> ('p run_state, unit) eff" where
  "wait_communicator_ready B C vr = poll_communicator B C vr (rc_polls C ''agent'')"

fun is_BuildNotReadyError :: "exn \<Rightarrow> bool" where
  "is_BuildNotReadyError (BuildNotReadyError _) = True"
| "is_BuildNotReadyError _ = False"

definition await_guest_ready :: "('b, 'c) builder_ops \<Rightarrow> ('b, 'c) run_cfg \<Rightarrow> ('b, 'c) vm_recipe \<Rightarrow> ('p run_state, unit) eff" where
  "await_guest_ready B C vr =
     handle_if is_BuildNotReadyError (seqE (comm_execute B C vr ''wait_ready'') (ret ())) (\<lambda>e. throw (BuildNotReadyError [vr_name vr]))"

definition wait_vm_dhcp_leases :: "('b, 'c) run_cfg \<Rightarrow> ('b, 'c) vm_recipe \<Rightarrow> ('p run_state, unit) eff" where
  "wait_vm_dhcp_leases C vr =
     seqE (forE (\<lambda>(i, n). if nic_addr n = Some DHCPAddr then seqE (wait_for_dhcp_lease C (vr_name vr) (handle_str (nic_network n)) i) (ret ()) else ret ())
       (enumerate 0 (nics (vr_spec vr)))) (ret ())"

subsection \<open>The ledger stays complete\<close>

lemma keeps_push_disk [keeps_run]: "rc_run_id C = rid \<Longrightarrow> keeps (tracked_run rid) (push_disk C k d v pb built role)"
  unfolding push_disk_def Let_def by (auto intro!: keeps_rt_checked keeps_run)

lemma keeps_bring_up_vm [keeps_run]: "rc_run_id C = rid \<Longrightarrow> keeps (tracked_run rid) (bring_up_vm C vr)"
  unfolding bring_up_vm_def Let_def case_prod_beta by (auto intro!: eff_intros keeps_run)

lemma keeps_guest_read [keeps_run]: "rc_run_id C = rid \<Longrightarrow> keeps (tracked_run rid) (guest_read C b p)"
  unfolding guest_read_def by (intro eff_intros keeps_run)

lemma keeps_poll_lease [keeps_run]: "rc_run_id C = rid \<Longrightarrow> keeps (tracked_run rid) (poll_lease C s m v nw n)"
  by (induction n) (auto intro!: eff_intros keeps_run)

lemma keeps_wait_for_dhcp_lease [keeps_run]: "rc_run_id C = rid \<Longrightarrow> keeps (tracked_run rid) (wait_for_dhcp_lease C v nw i)"
  unfolding wait_for_dhcp_lease_def by (intro eff_intros keeps_run)

lemma keeps_discover_ip [keeps_run]: "rc_run_id C = rid \<Longrightarrow> keeps (tracked_run rid) (discover_ip C vr i)"
  unfolding discover_ip_def case_prod_beta by (auto intro!: eff_intros keeps_run split: option.split addr_mode.split)

lemma keeps_bind_communicator_for [keeps_run]: "rc_run_id C = rid \<Longrightarrow> keeps (tracked_run rid) (bind_communicator_for B C vr)"
  unfolding bind_communicator_for_def Let_def set_comm_def by (auto intro!: eff_intros keeps_run split: comm_state.split)

lemma keeps_comm_execute [keeps_run]: "rc_run_id C = rid \<Longrightarrow> keeps (tracked_run rid) (comm_execute B C vr what)"
  unfolding comm_execute_def by (auto intro!: eff_intros keeps_run split: comm_state.split)

lemma keeps_poll_sidecar [keeps_run]: "rc_run_id C = rid \<Longrightarrow> keeps (tracked_run rid) (poll_sidecar C s sw n)"
  by (induction n) (auto intro!: eff_intros keeps_run)

lemma keeps_poll_communicator [keeps_run]: "rc_run_id C = rid \<Longrightarrow> keeps (tracked_run rid) (poll_communicator B C vr n)"
  by (induction n) (auto intro!: eff_intros keeps_run)

lemma keeps_gates [keeps_run]:
  assumes "rc_run_id C = rid"
  shows "keeps (tracked_run rid) (wait_sidecar_ready C sw)" "keeps (tracked_run rid) (wait_communicator_ready B C vr)"
    "keeps (tracked_run rid) (await_guest_ready B C vr)" "keeps (tracked_run rid) (wait_vm_dhcp_leases C vr)"
  unfolding wait_sidecar_ready_def wait_communicator_ready_def await_guest_ready_def wait_vm_dhcp_leases_def case_prod_beta
  using assms by (auto intro!: eff_intros keeps_run)

end
