(* ===== verification/Executor.thy ===== *)
theory Executor
  imports VM_Run Plan_Graph
begin

text \<open>
  The hooks of the node kinds (\<^verbatim>\<open>nodes.py\<close>) and the executor that walks the build graph with them
  (\<^verbatim>\<open>orchestrator/executor.py\<close>): the serial key walk, the build walk over the content waves and the run walk over the full
  waves. A wave is one parallel map over its nodes, and the next wave starts when it has returned.
\<close>

subsection \<open>Cache keys\<close>

text \<open>\<^verbatim>\<open>compute_cache_keys\<close> as an effect: the context is the run state, which keeps what the hooks before a failure
  recorded.\<close>

definition key_step :: "('n \<Rightarrow> name) \<Rightarrow> ('n \<Rightarrow> (name, string) dict \<Rightarrow> ('w, string) eff) \<Rightarrow> 'n build_graph \<Rightarrow> 'n \<Rightarrow> (name, string) dict \<Rightarrow>
    ('w, (name, string) dict) eff" where
  "key_step nm ck G n keys =
     bindE (liftR (lookup_keys keys (map nm (content_dependencies_of G (nm n))))) (\<lambda>dks.
     bindE (ck n dks) (\<lambda>k. ret (AList.update (nm n) k keys)))"

definition walk_cache_keys :: "('n \<Rightarrow> name) \<Rightarrow> ('n \<Rightarrow> (name, string) dict \<Rightarrow> ('w, string) eff) \<Rightarrow> 'n build_graph \<Rightarrow> ('w, (name, string) dict) eff" where
  "walk_cache_keys nm ck G = foldE (key_step nm ck G) (topological_order G) []"

fun vm_probe_of :: "('b, 'c) builder_ops \<Rightarrow> ('b, 'c) run_cfg \<Rightarrow> ('b, 'c) vm_recipe \<Rightarrow> nat \<Rightarrow> (('b, 'c) build_state, ('b, 'c) probe) eff" where
  "vm_probe_of B C r i =
     (let nm = pn_name (VMNode r i) in
      bindE (getL (\<lambda>l. map_of (vm_probes l) nm)) (\<lambda>known.
      case known of
        Some p \<Rightarrow> ret p
      | None \<Rightarrow>
          bindE (resolve_sidecar_sha C) (\<lambda>sidecar_sha.
          bindE (liftR (resolve_build_switch (build_switch (rc_hypervisor C)))) (\<lambda>sw.
          bindE (probe_vm B C r i sidecar_sha sw) (\<lambda>p.
          seqE (modL (\<lambda>l. l\<lparr>vm_probes := AList.update nm p (vm_probes l)\<rparr>)) (ret p))))))"

fun cache_key :: "('b, 'c) builder_ops \<Rightarrow> ('b, 'c) run_cfg \<Rightarrow> ('b, 'c) plan_node \<Rightarrow> (name, string) dict \<Rightarrow> (('b, 'c) build_state, string) eff" where
  "cache_key B C (VMNode r i) dks =
     bindE (vm_probe_of B C r i) (\<lambda>p. ret (fold_dependency_keys (rc_sha C) (config_hash p) dks))"
| "cache_key B C n dks = ret (fold_dependency_keys (rc_sha C) (hash_inputs (rc_sha C) (own_parts n)) dks)"

definition prepare_keys :: "('b, 'c) builder_ops \<Rightarrow> ('b, 'c) run_cfg \<Rightarrow> ('b, 'c) plan_node build_graph \<Rightarrow> (('b, 'c) build_state, unit) eff" where
  "prepare_keys B C G =
     bindE (getL node_keys) (\<lambda>ks.
     if ks \<noteq> [] then ret ()
     else bindE (walk_cache_keys pn_name (cache_key B C) G) (\<lambda>keys.
       modL (\<lambda>l. l\<lparr>node_keys := foldl (\<lambda>d (k, v). AList.update k v d) (node_keys l) keys\<rparr>)))"

definition probe_misses :: "('b, 'c) builder_ops \<Rightarrow> ('b, 'c) run_cfg \<Rightarrow> ('b, 'c) plan_node build_graph \<Rightarrow> (('b, 'c) build_state, name list) eff" where
  "probe_misses B C G =
     seqE (prepare_keys B C G)
       (getL (\<lambda>l. sort (map (\<lambda>p. vr_name (pr_vm p)) (filter (\<lambda>p. cached_paths p = None) (map snd (vm_probes l))))))"

subsection \<open>Hooks\<close>

definition reattached :: "('b, 'c) run_cfg \<Rightarrow> ('b, 'c) plan_node \<Rightarrow> (('b, 'c) build_state, bool) eff" where
  "reattached C n = bindE (getL realized_nodes) (\<lambda>done'. ret (rc_resume C \<and> pn_name n \<in> set done'))"

fun materialize_node :: "('b, 'c) builder_ops \<Rightarrow> ('b, 'c) run_cfg \<Rightarrow> ('b, 'c) plan_node \<Rightarrow> (('b, 'c) build_state, unit) eff" where
  "materialize_node B C (VMNode r i) =
     bindE (getL (\<lambda>l. map_of (vm_probes l) (pn_name (VMNode r i)))) (\<lambda>known.
     case known of
       None \<Rightarrow> throw (OrchestratorError [pn_name (VMNode r i)])
     | Some p \<Rightarrow>
         (case cached_paths p of
            Some paths \<Rightarrow> modL (\<lambda>l. l\<lparr>built_disk_paths := AList.update (vr_name r) paths (built_disk_paths l)\<rparr>)
          | None \<Rightarrow>
              bindE (ensure_build_infra C (\<lambda>q. cached_paths q = None) pr_vm) (\<lambda>(pb, nb).
              build_one_vm B C p pb nb)))"
| "materialize_node B C _ = ret ()"

definition pool_realize :: "('b, 'c) run_cfg \<Rightarrow> storage_pool \<Rightarrow> (('b, 'c) build_state, unit) eff" where
  [simp]: "pool_realize C pool =
     bindE (reattached C (PoolNode pool)) (\<lambda>again.
     if again then modL (\<lambda>l. l\<lparr>pool_backends := AList.update (sp_name pool) (backend_name C ''pool'' (sp_name pool)) (pool_backends l)\<rparr>)
     else create_pool_backend C pool)"

definition network_realize :: "('b, 'c) run_cfg \<Rightarrow> switch \<Rightarrow> (('b, 'c) build_state, unit) eff" where
  [simp]: "network_realize C sw =
     bindE (reattached C (NetworkNode sw)) (\<lambda>again.
     if again then
       modL (\<lambda>l. l\<lparr>switch_backends := AList.update (sw_name sw) (backend_name C ''switch'' (sw_name sw)) (switch_backends l),
           network_backends := foldl (\<lambda>d net. AList.update (nw_name net) (backend_name C ''network'' (nw_name net)) d) (network_backends l) (networks sw)\<rparr>)
     else provision_switch C [] sw)"

definition sidecar_realize :: "('b, 'c) run_cfg \<Rightarrow> switch \<Rightarrow> (('b, 'c) build_state, unit) eff" where
  [simp]: "sidecar_realize C sw =
     bindE (reattached C (SidecarNode sw)) (\<lambda>again.
     if again then
       seqE (modL (\<lambda>l. l\<lparr>sidecar_backends := AList.update (sw_name sw) (backend_name C ''sidecar_vm'' (sw_name sw)) (sidecar_backends l)\<rparr>))
         (wait_sidecar_ready C sw)
     else seqE (materialize_sidecar_for C [] None sw) (wait_sidecar_ready C sw))"

definition vm_realize :: "('b, 'c) builder_ops \<Rightarrow> ('b, 'c) run_cfg \<Rightarrow> ('b, 'c) vm_recipe \<Rightarrow> nat \<Rightarrow> (('b, 'c) build_state, unit) eff" where
  [simp]: "vm_realize B C r i =
     bindE (reattached C (VMNode r i)) (\<lambda>again.
     seqE (if \<not> again then bring_up_vm C r else ret ())
     (seqE (bind_communicator_for B C r)
     (seqE (wait_communicator_ready B C r)
     (seqE (wait_vm_dhcp_leases C r)
     (await_guest_ready B C r)))))"

fun realize_node :: "('b, 'c) builder_ops \<Rightarrow> ('b, 'c) run_cfg \<Rightarrow> ('b, 'c) plan_node \<Rightarrow> (('b, 'c) build_state, unit) eff" where
  "realize_node B C (PoolNode pool) = pool_realize C pool"
| "realize_node B C (NetworkNode sw) = network_realize C sw"
| "realize_node B C (SidecarNode sw) = sidecar_realize C sw"
| "realize_node B C (VMNode r i) = vm_realize B C r i"

subsection \<open>The walks\<close>

text \<open>\<^verbatim>\<open>_run_hook\<close>: the completion is stamped only after the hook has returned; a failing hook leaves none.\<close>

definition run_materialize :: "('b, 'c) run_cfg \<Rightarrow> (('b, 'c) plan_node \<Rightarrow> (('b, 'c) build_state, unit) eff) \<Rightarrow> ('b, 'c) plan_node \<Rightarrow>
    (('b, 'c) build_state, unit) eff" where
  "run_materialize C hook n =
     seqE (hook n)
     (seqE (onW (mark_node_materialized (rc_env C) (rc_run_id C) (pn_name n)))
     (modL (\<lambda>l. l\<lparr>materialized_nodes := List.insert (pn_name n) (materialized_nodes l)\<rparr>)))"

definition run_realize :: "('b, 'c) run_cfg \<Rightarrow> (('b, 'c) plan_node \<Rightarrow> (('b, 'c) build_state, unit) eff) \<Rightarrow> ('b, 'c) plan_node \<Rightarrow>
    (('b, 'c) build_state, unit) eff" where
  "run_realize C hook n =
     seqE (hook n)
     (seqE (onW (mark_node_realized (rc_env C) (rc_run_id C) (pn_name n)))
     (modL (\<lambda>l. l\<lparr>realized_nodes := List.insert (pn_name n) (realized_nodes l)\<rparr>)))"

fun walk :: "('b, 'c) run_cfg \<Rightarrow> string \<Rightarrow> ('n \<Rightarrow> ('w, unit) eff) \<Rightarrow> nat \<Rightarrow> 'n list list \<Rightarrow> ('w, unit) eff" where
  "walk C tag h i [] = ret ()"
| "walk C tag h i (wave # ws) =
     seqE (parallel_map h (rc_sched C tag i) (rc_jobs C) wave) (walk C tag h (Suc i) ws)"

definition materialize_graph :: "('b, 'c) builder_ops \<Rightarrow> ('b, 'c) run_cfg \<Rightarrow> ('b, 'c) plan_node build_graph \<Rightarrow> (('b, 'c) build_state, unit) eff" where
  "materialize_graph B C G =
     seqE (onW (set_phase (rc_env C) (rc_run_id C) ''build''))
     (seqE (prepare_keys B C G)
     (finallyE (walk C ''materialize'' (run_materialize C (materialize_node B C)) 0 (content_waves G)) (teardown_build_infra C)))"

definition realize_graph :: "('b, 'c) builder_ops \<Rightarrow> ('b, 'c) run_cfg \<Rightarrow> ('b, 'c) plan_node build_graph \<Rightarrow> (('b, 'c) build_state, unit) eff" where
  "realize_graph B C G =
     seqE (onW (set_phase (rc_env C) (rc_run_id C) ''run''))
       (walk C ''realize'' (run_realize C (realize_node B C)) 0 (waves G))"

subsection \<open>The ledger stays complete\<close>

lemma keeps_rt_marks [keeps_run]:
  "keeps (tracked_run rid) (onW (mark_node_materialized E rid n))" "keeps (tracked_run rid) (onW (mark_node_realized E rid n))"
proof -
  have mark: "keeps (tracked rid) (bindE tock (\<lambda>t. modify E rid (\<lambda>s. Inr (with_node_record (f t s) s))))" for f
  proof (rule keeps_tracked_view)
    fix w r w'
    assume "bindE tock (\<lambda>t. modify E rid (\<lambda>s. Inr (with_node_record (f t s) s))) w = (r, w')"
    then have "modify E rid (\<lambda>s. Inr (with_node_record (f (tick w) s) s)) (w\<lparr>tick := Suc (tick w)\<rparr>) = (r, w')"
      by (simp add: bindE_def tock_def)
    from modify_spec [OF this] show "recorded rid w' = recorded rid w \<and> backend w' = backend w \<and>
        (history w' = history w \<or> history w' = (backend w', recorded rid w') # history w)"
      by (cases r) (auto simp: backend_names_def with_node_record_def recorded_def)
  qed
  show "keeps (tracked_run rid) (onW (mark_node_materialized E rid n))" "keeps (tracked_run rid) (onW (mark_node_realized E rid n))"
    by (rule keeps_both [OF keeps_onW keeps_onW [OF keeps_alive(5)]], unfold mark_node_materialized_def, rule mark)
      (rule keeps_both [OF keeps_onW keeps_onW [OF keeps_alive(6)]], unfold mark_node_realized_def, rule mark)
qed

lemma keeps_probe [eff_intros]: "keeps P (resolve_sidecar_sha C)"
  unfolding resolve_sidecar_sha_def by (intro eff_intros)

lemma keeps_cache_key [keeps_run]: "keeps (tracked_run rid) (cache_key B C n dks)"
  by (cases n) (auto simp: Let_def intro!: eff_intros)

lemma keeps_prepare_keys [keeps_run]: "keeps (tracked_run rid) (prepare_keys B C G)"
  unfolding prepare_keys_def walk_cache_keys_def key_step_def by (intro eff_intros keeps_run)

lemma keeps_walk [eff_intros]: "(\<And>n. keeps P (h n)) \<Longrightarrow> keeps P (walk C tag h i ws)"
  by (induction ws arbitrary: i) (auto intro!: eff_intros)

lemma keeps_reattached [eff_intros]: "keeps P (reattached C n)"
  unfolding reattached_def by (intro eff_intros)

lemma keeps_materialize [keeps_run]: "rc_run_id C = rid \<Longrightarrow> keeps (tracked_run rid) (materialize_node B C n)"
  by (cases n) (auto simp: case_prod_beta intro!: eff_intros keeps_run)

lemma keeps_realize [keeps_run]: "rc_run_id C = rid \<Longrightarrow> keeps (tracked_run rid) (realize_node B C n)"
  by (cases n) (auto intro!: eff_intros keeps_run)

lemma keeps_materialize_graph [keeps_run]: "rc_run_id C = rid \<Longrightarrow> keeps (tracked_run rid) (materialize_graph B C G)"
  unfolding materialize_graph_def run_materialize_def by (auto intro!: eff_intros keeps_run)

lemma keeps_realize_graph [keeps_run]: "rc_run_id C = rid \<Longrightarrow> keeps (tracked_run rid) (realize_graph B C G)"
  unfolding realize_graph_def run_realize_def by (auto intro!: eff_intros keeps_run)

subsection \<open>Completion marks\<close>

text \<open>No operation of a hook touches the set of realized nodes: only the stamp after it does.\<close>

named_theorems keeps_marks \<open>operations that leave the completion marks alone\<close>

lemma keeps_marks_onW [keeps_marks]: "keeps (\<lambda>s. R (realized_nodes (snd s))) (onW m)"
  by (simp add: keeps_def onW_def split: prod.split)

lemma keeps_marks_modL: "(\<And>l. realized_nodes (f l) = realized_nodes l) \<Longrightarrow> keeps (\<lambda>s. R (realized_nodes (snd s))) (modL f)"
  by (simp add: keeps_def modL_def)

lemma keeps_marks_touch [keeps_marks]: "keeps (\<lambda>s. R (realized_nodes (snd s))) (touch C c n)"
  unfolding touch_def by (rule keeps_marks)

lemma keeps_marks_create [keeps_marks]: "keeps (\<lambda>s. R (realized_nodes (snd s))) (create_recorded C c k n p md)"
  unfolding create_recorded_def Let_def by (intro eff_intros keeps_marks)

lemma keeps_marks_provision [keeps_marks]:
  "keeps (\<lambda>s. R (realized_nodes (snd s))) (create_pool_backend C pool)" "keeps (\<lambda>s. R (realized_nodes (snd s))) (provision_switch C kp sw)"
  unfolding create_pool_backend_def provision_switch_def provision_network_def Let_def
  by (intro eff_intros keeps_marks keeps_marks_modL, simp_all)+

lemma keeps_marks_sidecar [keeps_marks]: "keeps (\<lambda>s. R (realized_nodes (snd s))) (materialize_sidecar_for C kp pool sw)"
  unfolding materialize_sidecar_for_def sidecar_pool_def Let_def case_prod_beta
  by (intro eff_intros keeps_marks keeps_marks_modL) (auto split: list.split intro!: eff_intros)

lemma keeps_marks_bring_up [keeps_marks]: "keeps (\<lambda>s. R (realized_nodes (snd s))) (bring_up_vm C vr)"
  unfolding bring_up_vm_def push_disk_def Let_def case_prod_beta by (intro eff_intros keeps_marks)

lemma keeps_marks_read [keeps_marks]: "keeps (\<lambda>s. R (realized_nodes (snd s))) (guest_read C b p)"
  unfolding guest_read_def by (intro eff_intros keeps_marks)

lemma keeps_marks_lease [keeps_marks]: "keeps (\<lambda>s. R (realized_nodes (snd s))) (wait_for_dhcp_lease C v nw i)"
proof -
  have "keeps (\<lambda>s. R (realized_nodes (snd s))) (poll_lease C sc m v nw n)" for sc m n
    by (induction n) (auto intro!: eff_intros keeps_marks)
  then show ?thesis unfolding wait_for_dhcp_lease_def by (intro eff_intros)
qed

lemma keeps_marks_bind [keeps_marks]: "keeps (\<lambda>s. R (realized_nodes (snd s))) (bind_communicator_for B C vr)"
  unfolding bind_communicator_for_def discover_ip_def set_comm_def Let_def case_prod_beta
  by (auto intro!: eff_intros keeps_marks keeps_marks_modL split: comm_state.split option.split addr_mode.split)

lemma keeps_marks_execute [keeps_marks]: "keeps (\<lambda>s. R (realized_nodes (snd s))) (comm_execute B C vr what)"
  unfolding comm_execute_def by (auto intro!: eff_intros keeps_marks split: comm_state.split)

lemma keeps_marks_gates [keeps_marks]:
  "keeps (\<lambda>s. R (realized_nodes (snd s))) (wait_sidecar_ready C sw)" "keeps (\<lambda>s. R (realized_nodes (snd s))) (wait_communicator_ready B C vr)"
  "keeps (\<lambda>s. R (realized_nodes (snd s))) (await_guest_ready B C vr)" "keeps (\<lambda>s. R (realized_nodes (snd s))) (wait_vm_dhcp_leases C vr)"
proof -
  have s: "keeps (\<lambda>s. R (realized_nodes (snd s))) (poll_sidecar C sc v n)" for sc v n
    by (induction n) (auto intro!: eff_intros keeps_marks)
  have c: "keeps (\<lambda>s. R (realized_nodes (snd s))) (poll_communicator B C vr n)" for n
    by (induction n) (auto intro!: eff_intros keeps_marks)
  show "keeps (\<lambda>s. R (realized_nodes (snd s))) (wait_sidecar_ready C sw)" "keeps (\<lambda>s. R (realized_nodes (snd s))) (wait_communicator_ready B C vr)"
    "keeps (\<lambda>s. R (realized_nodes (snd s))) (await_guest_ready B C vr)" "keeps (\<lambda>s. R (realized_nodes (snd s))) (wait_vm_dhcp_leases C vr)"
    unfolding wait_sidecar_ready_def wait_communicator_ready_def await_guest_ready_def wait_vm_dhcp_leases_def case_prod_beta
    by (auto intro!: eff_intros keeps_marks s c)
qed

lemma keeps_marks_realize [keeps_marks]: "keeps (\<lambda>s. R (realized_nodes (snd s))) (realize_node B C n)"
  by (cases n) (auto intro!: eff_intros keeps_marks keeps_marks_modL)

lemma keeps_marks_run:
  "(\<And>n. keeps (\<lambda>s. R (realized_nodes (snd s))) (h n)) \<Longrightarrow> (\<And>x xs. R xs \<Longrightarrow> R (List.insert x xs)) \<Longrightarrow>
   keeps (\<lambda>s. R (realized_nodes (snd s))) (run_realize C h n)"
  unfolding run_realize_def by (intro eff_intros keeps_marks) (auto simp: keeps_def modL_def)

lemma run_realize_marks: "run_realize C h n s = (Inr r, s') \<Longrightarrow> pn_name n \<in> set (realized_nodes (snd s'))"
  by (auto simp: run_realize_def seqE_def bindE_def modL_def split: prod.splits sum.splits)

text \<open>The hook, with a check that every dependency the graph has for the node is complete.\<close>

definition gated :: "('b, 'c) plan_node build_graph \<Rightarrow> (('b, 'c) plan_node \<Rightarrow> (('b, 'c) build_state, unit) eff) \<Rightarrow> ('b, 'c) plan_node \<Rightarrow>
    (('b, 'c) build_state, unit) eff" where
  "gated G hook n =
     bindE (getL realized_nodes) (\<lambda>done'.
     if list_all (\<lambda>e. dependent e = pn_name n \<longrightarrow> dependency e \<in> set done') (g_edges G) then hook n
     else throw (AssertionError [pn_name n]))"

lemma walk_gated:
  assumes "BuildGraph pn_name g nds es = Inr G" and "waves G = before @ ws"
    and "pn_name ` set (concat before) \<subseteq> set (realized_nodes (snd s))"
  shows "walk C tag (run_realize C (realize_node B C)) i ws s = walk C tag (run_realize C (gated G (realize_node B C))) i ws s"
  using assms(2,3)
proof (induction ws arbitrary: before s i)
  case (Cons w ws)
  let ?h = "run_realize C (realize_node B C)" and ?g = "run_realize C (gated G (realize_node B C))"
  let ?P = "\<lambda>s. pn_name ` set (concat before) \<subseteq> set (realized_nodes (snd s))"
  note b = BuildGraph_built [OF assms(1)]
  have P: "keeps ?P (?h n)" for n
    by (rule keeps_marks_run [OF keeps_marks_realize]) auto
  have open': "gated G (realize_node B C) n v = realize_node B C n v" if "n \<in> set w" "?P v" for n v
  proof -
    have "dependency e \<in> pn_name ` set (concat before)" if "e \<in> set (g_edges G)" "dependent e = pn_name n" for e
    proof -
      have "e \<in> set es" using that b(4) by simp
      then obtain m where m: "m \<in> set nds" "pn_name m = dependency e" using b(5) by (auto simp: well_formed_edges)
      moreover have "(pn_name n, pn_name m) \<in> pairs (g_edges G)" unfolding pairs_def m(2) using that by (intro image_eqI [of _ _ e]) simp_all
      ultimately have "needs_edge (\<lambda>_. True) pn_name G n m" using b(3) m by (simp add: needs_edge_def)
      from full.earlier_waves_done [OF b(1) Cons.prems(1) \<open>n \<in> set w\<close> this] m(2) show ?thesis by force
    qed
    with that(2) have "list_all (\<lambda>e. dependent e = pn_name n \<longrightarrow> dependency e \<in> set (realized_nodes (snd v))) (g_edges G)"
      unfolding list_all_iff by blast
    then show ?thesis by (simp add: gated_def bindE_def getL_def getE_def)
  qed
  have same: "parallel_map ?h (rc_sched C tag i) (rc_jobs C) w s = parallel_map ?g (rc_sched C tag i) (rc_jobs C) w s"
    by (rule parallel_map_cong [where P = ?P]) (use open' P Cons.prems(2) in \<open>simp_all add: run_realize_def seqE_def bindE_def\<close>)
  have rest: "walk C tag ?h (Suc i) ws s' = walk C tag ?g (Suc i) ws s'" if r: "parallel_map ?h (rc_sched C tag i) (rc_jobs C) w s = (Inr rs, s')" for rs s'
  proof (rule Cons.IH [of "before @ [w]"])
    show "waves G = (before @ [w]) @ ws" using Cons.prems(1) by simp
    have "\<forall>n \<in> set w. pn_name n \<in> set (realized_nodes (snd s'))"
      by (rule parallel_map_establishes [OF _ _ r]) (auto dest: run_realize_marks intro!: keeps_marks_run keeps_marks_realize)
    moreover have "?P s'" using keepsD2 [OF keeps_parallel_map [OF P] Cons.prems(2) r] .
    ultimately show "pn_name ` set (concat (before @ [w])) \<subseteq> set (realized_nodes (snd s'))" by auto
  qed
  obtain r s' where h: "parallel_map ?h (rc_sched C tag i) (rc_jobs C) w s = (r, s')" by (meson surj_pair)
  then have g: "parallel_map ?g (rc_sched C tag i) (rc_jobs C) w s = (r, s')" unfolding same .
  show ?case using rest h by (cases r) (simp_all add: seqE_def bindE_def h g)
qed simp

lemma plan_graph_built:
  assumes "fst (Plan n h) = Inr p"
  obtains nds es where "BuildGraph pn_name n nds es = Inr (p_graph p)"
  using assms that by (auto simp: Plan_def assemble_graph_def Let_def result_simps case_prod_beta split: if_splits sum.splits)

text \<open>C18: a node is brought up only after everything it needs is up. Running the realize walk of an accepted plan is the same, in every state, under every
  schedule of the workers and whatever fails, as running it with hooks that first check that each dependency of their node has completed: the check never fires.\<close>

theorem realize_waits_for_dependencies:
  assumes "fst (Plan n h) = Inr p"
  shows "realize_graph B C (p_graph p) s =
    seqE (onW (set_phase (rc_env C) (rc_run_id C) ''run''))
      (walk C ''realize'' (run_realize C (gated (p_graph p) (realize_node B C))) 0 (waves (p_graph p))) s"
proof -
  obtain nds es where "BuildGraph pn_name n nds es = Inr (p_graph p)" using plan_graph_built [OF assms] .
  from walk_gated [OF this, of "[]" "waves (p_graph p)"] show ?thesis
    by (auto simp: realize_graph_def seqE_def bindE_def split: prod.split sum.split)
qed

theorem realize_waits_for_dependencies_witness:
  "realize_graph plain_builder plain_cfg (p_graph sample_plan) (sample_world, empty_ledgers) =
    seqE (onW (set_phase (rc_env plain_cfg) (rc_run_id plain_cfg) ''run''))
      (walk plain_cfg ''realize'' (run_realize plain_cfg (gated (p_graph sample_plan) (realize_node plain_builder plain_cfg))) 0
        (waves (p_graph sample_plan))) (sample_world, empty_ledgers)"
  by (rule realize_waits_for_dependencies [OF sample_plan])

subsection \<open>Resuming\<close>

lemma lookup_missing: "map_of (network_backends (snd s)) n = None \<Longrightarrow> lookupL network_backends n s = (Inl (KeyError [n]), s)"
  by (simp add: lookupL_def bindE_def getL_def getE_def throw_def)

text \<open>An effect that cannot return while \<open>P\<close> holds.\<close>

definition blocked :: "('w \<Rightarrow> bool) \<Rightarrow> ('w, 'a) eff \<Rightarrow> bool" where
  "blocked P m \<longleftrightarrow> (\<forall>w. P w \<longrightarrow> raised (fst (m w)))"

lemma blockedD: "blocked P m \<Longrightarrow> P w \<Longrightarrow> raised (fst (m w))"
  by (simp add: blocked_def)

lemma blocked_bindE:
  assumes "keeps P m" and "\<And>x. blocked P (f x)"
  shows "blocked P (bindE m f)"
proof (unfold blocked_def, intro allI impI)
  fix w
  assume p: "P w"
  obtain r w' where m: "m w = (r, w')" by (cases "m w")
  with keepsD2 [OF assms(1) p] have "P w'" .
  then show "raised (fst (bindE m f w))" using assms(2) m by (cases r) (simp_all add: bindE_def raised_def blocked_def)
qed

lemma blocked_first: "blocked P m \<Longrightarrow> blocked P (bindE m f)"
proof (unfold blocked_def, intro allI impI)
  fix w
  assume a: "\<forall>w. P w \<longrightarrow> raised (fst (m w))" and p: "P w"
  obtain r w' where m: "m w = (r, w')" by (cases "m w")
  with a p have "raised r" by (metis fst_conv)
  with m show "raised (fst (bindE m f w))" by (cases r) (simp_all add: bindE_def raised_def)
qed

lemma blocked_liftR: "(\<And>x. r = Inr x \<Longrightarrow> blocked P (f x)) \<Longrightarrow> blocked P (bindE (liftR r) f)"
  by (cases r) (auto simp: blocked_def bindE_def liftR_def raised_def)

lemma blocked_forE: "x \<in> set xs \<Longrightarrow> (\<And>y. keeps P (f y)) \<Longrightarrow> blocked P (f x) \<Longrightarrow> blocked P (forE f xs)"
proof (induction xs)
  case (Cons y ys)
  show ?case
  proof (cases "x = y")
    case True
    with Cons.prems(3) show ?thesis by (auto intro: blocked_first)
  next
    case False
    with Cons have "blocked P (forE f ys)" by simp
    then show ?thesis using Cons.prems(2) by (simp add: blocked_bindE blocked_first)
  qed
qed simp

lemma effective_switch_keeps:
  assumes "effective_switch sw addrs = Inr sw'" and "sw_sidecar sw = Some sc"
  shows "sw_name sw' = sw_name sw \<and> networks sw' = networks sw \<and> (\<exists>sc'. sw_sidecar sw' = Some sc' \<and> nat_flag sc' = nat_flag sc)"
  using assms by (auto simp: effective_switch_def Switch_def Sidecar_def result_simps split: option.splits if_splits)

definition no_uplink :: "switch \<Rightarrow> 'p run_state \<Rightarrow> bool" where
  "no_uplink sw s \<longleftrightarrow> map_of (network_backends (snd s)) (uplink_network_name sw) = None"

lemma keeps_no_uplink: "keeps (no_uplink sw) (onW m)" "keeps (no_uplink sw) (create_recorded C c k n p md)"
proof -
  have w: "keeps (no_uplink sw) (onW m)" for m
    by (simp add: keeps_def onW_def no_uplink_def split: prod.split)
  then show "keeps (no_uplink sw) (onW m)" "keeps (no_uplink sw) (create_recorded C c k n p md)"
    unfolding create_recorded_def Let_def by (intro eff_intros w)+
qed

lemma blocked_sidecar:
  assumes "sw_sidecar sw = Some sc" and "nat_flag sc"
  shows "blocked (no_uplink sw) (materialize_sidecar_for C kp pool sw :: ('p run_state, unit) eff)"
proof -
  have n: "\<not> \<not> needs_sidecar sw" using assms by (simp add: needs_sidecar_def)
  have pool: "keeps (no_uplink sw) (sidecar_pool C v pool)" for v
    unfolding sidecar_pool_def by (auto intro!: eff_intros split: list.split option.split)
  have refs: "blocked (no_uplink sw) (bindE (forE (\<lambda>p. lookupL network_backends (fst p)) specs) rest)"
    if e: "effective_switch sw (rc_uplink_addrs C) = Inr v" and sp: "sidecar_nic_specs v = Inr specs" for v specs and rest :: "name list \<Rightarrow> ('p run_state, unit) eff"
  proof -
    from effective_switch_keeps [OF e assms(1)] assms(2) obtain sc'
      where v: "sw_name v = sw_name sw" "sw_sidecar v = Some sc'" "nat_flag sc'" by blast
    then have "uplink_network_name sw \<in> fst ` set specs"
      using sp by (cases "networks v") (auto simp: sidecar_nic_specs_def sidecar_of_def uplink_network_name_def)
    then obtain ip where m: "(uplink_network_name sw, ip) \<in> set specs" by auto
    have "blocked (no_uplink sw) (lookupL network_backends (uplink_network_name sw))"
      by (simp add: blocked_def no_uplink_def lookup_missing raised_def)
    then have "blocked (no_uplink sw) (forE (\<lambda>p. lookupL network_backends (fst p)) specs :: ('p run_state, name list) eff)"
      by (intro blocked_forE [OF m]) (auto intro: eff_intros)
    then show ?thesis by (rule blocked_first)
  qed
  show ?thesis
    unfolding materialize_sidecar_for_def if_not_P [OF n] Let_def case_prod_beta seqE_def
    by (intro refs blocked_liftR blocked_bindE pool keeps_cache_resolve keeps_no_uplink)
qed

text \<open>An interrupted NAT switch cannot be resumed. A resumed run re-attaches a realized network node by recomputing the backend names of the
  switch and its networks, but not of the uplink segment the driver created with the switch; when the sidecar node of such a switch still has to be
  realized, its hook raises on every backend, whatever the backend answers.\<close>

theorem resume_loses_uplink:
  assumes "rc_resume C" and "sw_sidecar sw = Some sc" and "nat_flag sc"
    and "''network:'' @ sw_name sw \<in> set (realized_nodes l)" and "''sidecar:'' @ sw_name sw \<notin> set (realized_nodes l)"
    and "network_backends l = []" and "uplink_network_name sw \<notin> nw_name ` set (networks sw)"
  shows "raised (fst (seqE (realize_node B C (NetworkNode sw)) (realize_node B C (SidecarNode sw)) (w, l)))"
proof -
  let ?l = "l\<lparr>switch_backends := AList.update (sw_name sw) (backend_name C ''switch'' (sw_name sw)) (switch_backends l),
      network_backends := foldl (\<lambda>d net. AList.update (nw_name net) (backend_name C ''network'' (nw_name net)) d) (network_backends l) (networks sw)\<rparr>"
  have net: "realize_node B C (NetworkNode sw) (w, l) = (Inr (), (w, ?l))"
    using assms(1,4) by (simp add: reattached_def bindE_def getL_def getE_def ret_def modL_def)
  have "map_of (foldl (\<lambda>d net. AList.update (nw_name net) (backend_name C ''network'' (nw_name net)) d) d ns) k = map_of d k"
    if "k \<notin> nw_name ` set ns" for d k and ns :: "network list"
    using that by (induction ns arbitrary: d) (auto simp: update_conv')
  then have u: "no_uplink sw (w, ?l)" using assms(6,7) by (simp add: no_uplink_def)
  have b: "blocked (no_uplink sw) (seqE (materialize_sidecar_for C [] None sw) (wait_sidecar_ready C sw) :: (('a, 'b) build_state, unit) eff)"
    unfolding seqE_def by (rule blocked_first [OF blocked_sidecar [OF assms(2,3)]])
  have "realize_node B C (SidecarNode sw) (w, ?l) = seqE (materialize_sidecar_for C [] None sw) (wait_sidecar_ready C sw) (w, ?l)"
    using assms(5) by (simp add: reattached_def bindE_def getL_def getE_def ret_def)
  then have "raised (fst (realize_node B C (SidecarNode sw) (w, ?l)))" using blockedD [OF b, OF u] by (simp only:)
  then show ?thesis by (simp only: seqE_def bindE_def net prod.case sum.case)
qed

definition nat_switch :: switch where
  "nat_switch = \<lparr>sw_name = ''lan'', networks = [\<lparr>nw_name = ''a''\<rparr>], cidr = ''192.168.10.0/24'', uplink = Some ''wan'', mgmt = False,
     sw_sidecar = Some \<lparr>dhcp = True, sc_dns = True, nat_flag = True, sc_addr = None\<rparr>\<rparr>"

theorem resume_loses_uplink_witness:
  "raised (fst (seqE (realize_node plain_builder (plain_cfg\<lparr>rc_resume := True\<rparr>) (NetworkNode nat_switch))
     (realize_node plain_builder (plain_cfg\<lparr>rc_resume := True\<rparr>) (SidecarNode nat_switch))
     (sample_world, empty_ledgers\<lparr>realized_nodes := [''network:lan'']\<rparr>)))"
  by (rule resume_loses_uplink [where sc = "\<lparr>dhcp = True, sc_dns = True, nat_flag = True, sc_addr = None\<rparr>"]) (simp_all add: nat_switch_def empty_ledgers_def uplink_network_name_def)

end
