(* ===== verification/Runtime.thy ===== *)
theory Runtime
  imports Executor
begin

text \<open>
  The lifecycle of a run (\<^verbatim>\<open>orchestrator/runtime.py\<close>) and the test runner on top of it
  (\<^verbatim>\<open>orchestrator/runner.py\<close>). The state of an \<^verbatim>\<open>Orchestrator\<close> object beside its context
  is the record \<open>session\<close>: the process-wide signal handler, the one it replaced, and the leak flag. Connecting, the
  driver's own preflight and every call below are calls of the world, so each of them may raise, an
  interrupt included. A preflight answers with the rendering of its blockers, if it has any. Test functions
  are effects. Durations, output capture and the dashboard are left out.
\<close>

subsection \<open>Sessions\<close>

record session =
  sig_handler :: string
  prior_handler :: "string option"
  leaking :: bool

type_synonym 'p session_state = "'p run_state \<times> session"

definition onR :: "('p run_state, 'a) eff \<Rightarrow> ('p session_state, 'a) eff" where
  "onR m s = (case m (fst s) of (r, s') \<Rightarrow> (r, (s', snd s)))"

definition modS :: "(session \<Rightarrow> session) \<Rightarrow> ('p session_state, unit) eff" where
  "modS f s = (Inr (), (fst s, f (snd s)))"

text \<open>\<^verbatim>\<open>try: m except P: h; raise\<close>.\<close>

definition on_error :: "(exn \<Rightarrow> bool) \<Rightarrow> ('w, 'a) eff \<Rightarrow> ('w, unit) eff \<Rightarrow> ('w, 'a) eff" where
  "on_error P m h = handle_if P m (\<lambda>e. seqE h (throw e))"

definition OWN_HANDLER :: string where "OWN_HANDLER = ''testrange''"

definition install_signal_handlers :: "('p session_state, unit) eff" where
  "install_signal_handlers = modS (\<lambda>o'. o'\<lparr>prior_handler := Some (sig_handler o'), sig_handler := OWN_HANDLER\<rparr>)"

definition restore_signal_handlers :: "('p session_state, unit) eff" where
  "restore_signal_handlers = modS (\<lambda>o'. case prior_handler o' of None \<Rightarrow> o' | Some h \<Rightarrow> o'\<lparr>sig_handler := h\<rparr>)"

definition leak :: "('p session_state, unit) eff" where
  "leak = modS (\<lambda>o'. o'\<lparr>leaking := True\<rparr>)"

subsection \<open>The context manager\<close>

record run_opts =
  require_cache :: bool
  store_id :: nat
  driver_name :: string
  resolved_uri :: string

definition connect_driver :: "('b, 'c) run_cfg \<Rightarrow> run_opts \<Rightarrow> ('p run_state, unit) eff" where
  "connect_driver C O' = seqE (onW (drive (rc_env C) (rc_run_id C) (Connect (driver_name O') (resolved_uri O')))) (ret ())"

definition disconnect_driver :: "('b, 'c) run_cfg \<Rightarrow> ('p run_state, unit) eff" where
  "disconnect_driver C = seqE (onW (drive (rc_env C) (rc_run_id C) Disconnect)) (ret ())"

definition stamped :: "(node_record \<Rightarrow> string option) \<Rightarrow> node_record list \<Rightarrow> name list \<Rightarrow> name list" where
  "stamped at rs known = foldl (\<lambda>d r. if at r \<noteq> None then List.insert (nr_name r) d else d) known rs"

definition preflight_and_initialize :: "('b, 'c) run_cfg \<Rightarrow> run_opts \<Rightarrow> ('p run_state, unit) eff" where
  "preflight_and_initialize C O' =
     (let E = rc_env C; rid = rc_run_id C in
      bindE (if require_cache O' then ret None
             else bindE (liftR (resolve_build_switch (build_switch (rc_hypervisor C)))) (\<lambda>sw. ret (Some sw))) (\<lambda>build_sw.
      bindE (touch C ''preflight'' (rc_plan_name C)) (\<lambda>report.
      case report of
        Some blockers \<Rightarrow> throw (PreflightError [blockers])
      | None \<Rightarrow>
          if rc_resume C then
            bindE (onW (reopen E rid (store_id O'))) (\<lambda>st.
            if s_plan_name st \<noteq> rc_plan_name C then throw (StateError [rid, s_plan_name st, rc_plan_name C])
            else modL (\<lambda>l. l\<lparr>materialized_nodes := stamped materialized_at (nodes st) (materialized_nodes l),
                   realized_nodes := stamped realized_at (nodes st) (realized_nodes l)\<rparr>))
          else seqE (onW (initialize E rid (store_id O') (rc_plan_name C) (driver_name O') (resolved_uri O'))) (ret ()))))"

definition bring_up :: "('b, 'c) builder_ops \<Rightarrow> ('b, 'c) run_cfg \<Rightarrow> run_opts \<Rightarrow> ('b, 'c) plan_node build_graph \<Rightarrow> (('b, 'c) build_state, unit) eff" where
  "bring_up B C O' G =
     seqE (if require_cache O' then
             bindE (probe_misses B C G) (\<lambda>misses.
             if misses \<noteq> [] then throw (BuildRequiredError (string_of_nat (length misses) # misses))
             else materialize_graph B C G)
           else materialize_graph B C G)
       (realize_graph B C G)"

text \<open>\<^verbatim>\<open>_build_handle\<close>: the backend name of every declared VM.\<close>

definition build_handle :: "('b, 'c) run_cfg \<Rightarrow> (name, name) dict" where
  "build_handle C = foldl (\<lambda>d v. AList.update (vr_name v) (backend_name C ''vm'' (vr_name v)) d) [] (declared_vms (rc_hypervisor C))"

definition teardown_run :: "('b, 'c) run_cfg \<Rightarrow> run_opts \<Rightarrow> ('p run_state, unit) eff" where
  "teardown_run C O' = onW (teardown (rc_env C) (rc_run_id C) (store_id O'))"

definition hang_up :: "('b, 'c) run_cfg \<Rightarrow> ('p session_state, unit) eff" where
  "hang_up C = seqE restore_signal_handlers (onR (disconnect_driver C))"

definition enter :: "('b, 'c) builder_ops \<Rightarrow> ('b, 'c) run_cfg \<Rightarrow> run_opts \<Rightarrow> ('b, 'c) plan_node build_graph \<Rightarrow>
    (('b, 'c) probe session_state, (name, name) dict) eff" where
  "enter B C O' G =
     seqE install_signal_handlers
     (seqE (onR (connect_driver C O'))
     (on_error (\<lambda>_. True)
       (seqE (onR (preflight_and_initialize C O'))
         (on_error (\<lambda>_. True) (seqE (onR (bring_up B C O' G)) (ret (build_handle C))) (onR (teardown_run C O'))))
       (hang_up C)))"

definition exit_run :: "('b, 'c) run_cfg \<Rightarrow> run_opts \<Rightarrow> ('p session_state, unit) eff" where
  "exit_run C O' =
     finallyE
       (bindE (getE (\<lambda>s. leaking (snd s))) (\<lambda>l.
        if l then onR (seqE (onW (set_phase (rc_env C) (rc_run_id C) ''leaked'')) (onW (release (rc_run_id C) (store_id O'))))
        else onR (teardown_run C O')))
       (hang_up C)"

definition build_run :: "('b, 'c) builder_ops \<Rightarrow> ('b, 'c) run_cfg \<Rightarrow> run_opts \<Rightarrow> ('b, 'c) plan_node build_graph \<Rightarrow>
    (('b, 'c) probe session_state, unit) eff" where
  "build_run B C O' G =
     seqE install_signal_handlers
     (seqE (onR (connect_driver C O'))
     (finallyE
       (seqE (onR (preflight_and_initialize C O'))
         (seqE (on_error is_Exception (onR (materialize_graph B C G)) (onR (teardown_run C O')))
           (onR (teardown_run C O'))))
       (hang_up C)))"

subsection \<open>The test runner\<close>

record test_result =
  test_name :: name
  passed :: bool
  test_error :: "exn option"

type_synonym 'w test = "name \<times> ('w, unit) eff"

fun execute_tests :: "bool \<Rightarrow> 'w test list \<Rightarrow> test_result list \<Rightarrow> ('w, test_result list) eff" where
  "execute_tests fail_fast [] results = ret results"
| "execute_tests fail_fast ((n, t) # ts) results =
     bindE (catchE (seqE t (ret None)) (\<lambda>e. ret (Some e))) (\<lambda>failure.
     case failure of
       None \<Rightarrow> execute_tests fail_fast ts (results @ [\<lparr>test_name = n, passed = True, test_error = None\<rparr>])
     | Some e \<Rightarrow>
         (let results' = results @ [\<lparr>test_name = n, passed = False, test_error = Some e\<rparr>] in
          if fail_fast then ret results' else execute_tests fail_fast ts results'))"

text \<open>\<^verbatim>\<open>with o as orch: ...\<close>: the body runs only when the entry returned, the exit after it in
  any case.\<close>

definition run_tests :: "('b, 'c) builder_ops \<Rightarrow> ('b, 'c) run_cfg \<Rightarrow> run_opts \<Rightarrow> ('b, 'c) plan_node build_graph \<Rightarrow>
    ((name, name) dict \<Rightarrow> ('b, 'c) probe session_state test list) \<Rightarrow> bool \<Rightarrow> bool \<Rightarrow> (('b, 'c) probe session_state, test_result list) eff" where
  "run_tests B C O' G tests fail_fast leak_on_failure =
     bindE (enter B C O' G) (\<lambda>orch.
     finallyE
       (bindE (execute_tests fail_fast (tests orch) []) (\<lambda>results.
        seqE (if leak_on_failure \<and> \<not> list_all passed results then leak else ret ()) (ret results)))
       (exit_run C O'))"

definition build_range :: "('b, 'c) builder_ops \<Rightarrow> ('b, 'c) run_cfg \<Rightarrow> run_opts \<Rightarrow> ('b, 'c) plan_node build_graph \<Rightarrow>
    (('b, 'c) probe session_state, name) eff" where
  "build_range B C O' G = seqE (build_run B C O' G) (ret (rc_run_id C))"


subsection \<open>Triples\<close>

text \<open>\<open>triple P m Q X\<close>: from a state with \<open>P\<close>, \<open>m\<close> either returns with \<open>Q\<close> or raises with \<open>X\<close>.\<close>

definition triple :: "('w \<Rightarrow> bool) \<Rightarrow> ('w, 'a) eff \<Rightarrow> ('w \<Rightarrow> bool) \<Rightarrow> ('w \<Rightarrow> bool) \<Rightarrow> bool" where
  "triple P m Q X \<longleftrightarrow> (\<forall>w r w'. P w \<longrightarrow> m w = (r, w') \<longrightarrow> (if raised r then X w' else Q w'))"

lemma tripleD: "triple P m Q X \<Longrightarrow> P w \<Longrightarrow> m w = (r, w') \<Longrightarrow> if raised r then X w' else Q w'"
  by (simp add: triple_def)

lemma triple_keeps: "keeps P m \<Longrightarrow> (\<And>w. P w \<Longrightarrow> X w) \<Longrightarrow> triple P m P X"
  unfolding triple_def using keepsD2 by (metis (full_types))

lemma triple_conseq: "triple P m Q X \<Longrightarrow> (\<And>w. P' w \<Longrightarrow> P w) \<Longrightarrow> (\<And>w. Q w \<Longrightarrow> Q' w) \<Longrightarrow> (\<And>w. X w \<Longrightarrow> X' w) \<Longrightarrow> triple P' m Q' X'"
  unfolding triple_def by (metis (full_types))

lemma triple_ret: "triple P (ret x) P X"
  by (simp add: triple_def ret_def raised_def)

lemma triple_throw: "(\<And>w. P w \<Longrightarrow> X w) \<Longrightarrow> triple P (throw e) Q X"
  by (simp add: triple_def throw_def raised_def)

lemma triple_bindE:
  assumes "triple P m Q X" and "\<And>x. triple Q (f x) R X"
  shows "triple P (bindE m f) R X"
proof (unfold triple_def, intro allI impI)
  fix w r w'
  assume p: "P w" and b: "bindE m f w = (r, w')"
  obtain q v where m: "m w = (q, v)" by (cases "m w")
  note q = tripleD [OF assms(1) p m]
  show "if raised r then X w' else R w'"
  proof (cases q)
    case (Inl e)
    with q b m show ?thesis by (auto simp: bindE_def raised_def)
  next
    case (Inr x)
    with q have "Q v" by (simp add: raised_def)
    moreover have "f x v = (r, w')" using b m Inr by (simp add: bindE_def)
    ultimately show ?thesis by (rule tripleD [OF assms(2)])
  qed
qed

lemma triple_seqE: "triple P m Q X \<Longrightarrow> triple Q n R X \<Longrightarrow> triple P (seqE m n) R X"
  unfolding seqE_def by (rule triple_bindE)

text \<open>A handler that always re-raises: from the exceptional state of the body it reaches the final one.\<close>

lemma triple_on_error:
  assumes "triple P m Q X" and "triple X h Y Y"
  shows "triple P (on_error (\<lambda>_. True) m h) Q Y"
proof (unfold triple_def, intro allI impI)
  fix w r w'
  assume p: "P w" and b: "on_error (\<lambda>_. True) m h w = (r, w')"
  obtain q v where m: "m w = (q, v)" by (cases "m w")
  note q = tripleD [OF assms(1) p m]
  show "if raised r then Y w' else Q w'"
  proof (cases q)
    case (Inl e)
    obtain u v' where h: "h v = (u, v')" by (cases "h v")
    have "X v" using q Inl by (simp add: raised_def)
    from tripleD [OF assms(2) this h] have "Y v'" by (simp split: if_splits)
    then show ?thesis using b m Inl h by (cases u) (auto simp: on_error_def handle_if_def seqE_def bindE_def throw_def raised_def)
  next
    case (Inr x)
    with q b m show ?thesis by (auto simp: on_error_def handle_if_def raised_def)
  qed
qed

lemma triple_finallyE:
  assumes "triple P m Q X" and "triple Q f Y Y" and "triple X f Y Y"
  shows "triple P (finallyE m f) Y Y"
proof (unfold triple_def, intro allI impI)
  fix w r w'
  assume p: "P w" and b: "finallyE m f w = (r, w')"
  obtain q v where m: "m w = (q, v)" by (cases "m w")
  obtain u v' where f: "f v = (u, v')" by (cases "f v")
  note q = tripleD [OF assms(1) p m]
  have "if raised q then X v else Q v" using q .
  then have "Y v'" using tripleD [OF assms(2) _ f] tripleD [OF assms(3) _ f] by (auto split: if_splits)
  then show "if raised r then Y w' else Y w'" using b m f by (cases u) (auto simp: finallyE_def)
qed

lemma triple_if: "(b \<Longrightarrow> triple P m Q X) \<Longrightarrow> (\<not> b \<Longrightarrow> triple P n Q X) \<Longrightarrow> triple P (if b then m else n) Q X"
  by simp

lemma triple_onW: "triple P m Q X \<Longrightarrow> triple (\<lambda>s. P (fst s)) (onW m) (\<lambda>s. Q (fst s)) (\<lambda>s. X (fst s))"
  unfolding triple_def onW_def by (auto split: prod.splits)

lemma triple_onR: "triple P m Q X \<Longrightarrow> triple (\<lambda>s. P (fst s)) (onR m) (\<lambda>s. Q (fst s)) (\<lambda>s. X (fst s))"
  unfolding triple_def onR_def by (auto split: prod.splits)

lemma keeps_onR: "keeps P m \<Longrightarrow> keeps (\<lambda>s. P (fst s)) (onR m)"
  unfolding keeps_def onR_def by (auto split: prod.split) (metis snd_conv)

lemma keeps_modS [eff_intros]: "keeps (\<lambda>s. P (fst s)) (modS f)"
  by (simp add: keeps_def modS_def)

subsection \<open>The run stays tracked\<close>

text \<open>What the ownership operations of the store leave alone.\<close>

definition view_is :: "name \<Rightarrow> doc option \<Rightarrow> name list \<Rightarrow> (name list \<times> name list) list \<Rightarrow> world \<Rightarrow> bool" where
  "view_is rid d b h w \<longleftrightarrow> rd_state (runs w rid) = d \<and> backend w = b \<and> history w = h"

lemma view_upd_dir:
  "(\<And>d. rd_state (f d) = rd_state d) \<Longrightarrow> view_is rid d b h (upd_dir rid f w) = view_is rid d b h w"
  by (simp add: view_is_def upd_dir_def)

lemma view_lock: "view_is rid d b h (w\<lparr>lock_holder := f\<rparr>) = view_is rid d b h w" "view_is rid d b h (w\<lparr>tick := t\<rparr>) = view_is rid d b h w"
  by (simp_all add: view_is_def)

lemma keeps_view:
  "keeps (view_is rid d b h) (acquire_lock rid me)" "keeps (view_is rid d b h) (write_pid_atomic E rid)"
  "keeps (view_is rid d b h) (require_dead rid)" "keeps (view_is rid d b h) (read_state E rid)" "keeps (view_is rid d b h) tock"
  "keeps (view_is rid d b h) (exists_state rid)" "keeps (view_is rid d b h) (modE (upd_dir rid (\<lambda>d. d\<lparr>rd_exists := True\<rparr>)))"
proof -
  have m: "keeps (view_is rid d b h) (modE f)" if "\<And>w. view_is rid d b h (f w) = view_is rid d b h w" for f
    using that by (simp add: keeps_def modE_def)
  have t: "keeps (view_is rid d b h) tock" by (simp add: keeps_def tock_def view_is_def)
  then show "keeps (view_is rid d b h) tock" .
  show "keeps (view_is rid d b h) (read_state E rid)"
  proof (unfold keeps_def, intro allI impI)
    fix w
    assume v: "view_is rid d b h w"
    obtain q w' where r: "read_state E rid w = (q, w')" by (cases "read_state E rid w")
    then show "view_is rid d b h (snd (read_state E rid w))" using v read_state_world [OF r] by (simp add: view_lock)
  qed
  show "keeps (view_is rid d b h) (acquire_lock rid me)"
    unfolding acquire_lock_def by (intro eff_intros m) (auto simp: view_upd_dir view_lock)
  show "keeps (view_is rid d b h) (write_pid_atomic E rid)"
    unfolding write_pid_atomic_def by (intro eff_intros m t) (auto simp: view_upd_dir)
  show "keeps (view_is rid d b h) (require_dead rid)"
    unfolding require_dead_def is_running_def by (intro eff_intros m) (auto simp: view_upd_dir)
  show "keeps (view_is rid d b h) (exists_state rid)" unfolding exists_state_def by (rule eff_intros)
  show "keeps (view_is rid d b h) (modE (upd_dir rid (\<lambda>d. d\<lparr>rd_exists := True\<rparr>)))" by (rule m) (simp add: view_upd_dir)
qed

lemma keeps_view_reopen: "keeps (view_is rid d b h) (reopen E rid me)"
  unfolding reopen_def by (intro eff_intros keeps_view)

lemma view_tracked: "view_is rid d b h w \<Longrightarrow> view_is rid d b h w' \<Longrightarrow> tracked rid w' = tracked rid w \<and> alive rid w' = alive rid w"
  by (auto simp: view_is_def tracked_iff recorded_def alive_def holds_def)

lemma keeps_by_view:
  assumes "\<And>d b h. keeps (view_is rid d b h) m"
  shows "keeps (tracked rid) m" "keeps (alive rid) m" "keeps (\<lambda>w. backend w = []) m"
proof -
  have v: "view_is rid (rd_state (runs w rid)) (backend w) (history w) w" for w by (simp add: view_is_def)
  have v': "view_is rid (rd_state (runs w rid)) (backend w) (history w) (snd (m w))" for w using keepsD [OF assms v] .
  from view_tracked [OF v v'] show "keeps (tracked rid) m" "keeps (alive rid) m" by (simp_all add: keeps_def)
  show "keeps (\<lambda>w. backend w = []) m" using v' by (simp add: keeps_def view_is_def)
qed

lemma initialize_triple:
  "triple (tracked rid) (initialize E rid me p c u) (\<lambda>w. tracked rid w \<and> alive rid w) (tracked rid)"
proof -
  let ?P = "\<lambda>w. tracked rid w \<and> recorded rid w = []"
  have w: "triple ?P (write_state_atomic E rid (fresh_state rid p c u t)) (\<lambda>w. tracked rid w \<and> alive rid w) (tracked rid)" for t
  proof (unfold triple_def, intro allI impI)
    fix w r w'
    assume q: "?P w" and m: "write_state_atomic E rid (fresh_state rid p c u t) w = (r, w')"
    have s: "schema_version (fresh_state rid p c u t) = SCHEMA_VERSION" by (simp add: fresh_state_def)
    have e: "backend_names (fresh_state rid p c u t) = []" by (simp add: fresh_state_def backend_names_def)
    have tr: "tracked rid w'" using write_state_spec [OF m s] q e by (cases r) (auto simp: tracked_iff)
    have "alive rid w'" if "\<not> raised r"
      using m s that by (auto simp: write_state_atomic_def bindE_def seqE_def tock_def modE_def throw_def raised_def alive_def holds_def
          snapshot_def upd_dir_def split: option.splits)
    with tr show "if raised r then tracked rid w' else tracked rid w' \<and> alive rid w'" by simp
  qed
  have k: "triple ?P m ?P (tracked rid)" if "\<And>d b h. keeps (view_is rid d b h) m" for m :: "(world, 'x) eff"
  proof (rule triple_keeps)
    show "keeps ?P m" unfolding keeps_def
    proof (intro allI impI)
      fix w
      assume p: "?P w"
      have "view_is rid (rd_state (runs w rid)) (backend w) (history w) (snd (m w))"
        by (rule keepsD [OF that]) (simp add: view_is_def)
      then have "recorded rid (snd (m w)) = recorded rid w" by (simp add: view_is_def recorded_def)
      with keepsD [OF keeps_by_view(1) [OF that]] p show "?P (snd (m w))" by simp
    qed
  qed simp
  have ex: "triple (tracked rid) (bindE (exists_state rid) (\<lambda>ex. if ex then throw e else f)) Q (tracked rid)"
    if "triple ?P f Q (tracked rid)" for f :: "(world, 'x) eff" and Q e
  proof (unfold triple_def, intro allI impI)
    fix w r w'
    assume t: "tracked rid w" and m: "bindE (exists_state rid) (\<lambda>ex. if ex then throw e else f) w = (r, w')"
    show "if raised r then tracked rid w' else Q w'"
    proof (cases "rd_state (runs w rid)")
      case None
      then have "?P w" "f w = (r, w')" using t m by (simp_all add: recorded_def ledger_of_def bindE_def exists_state_def getE_def)
      then show ?thesis by (rule tripleD [OF that])
    next
      case (Some d)
      then show ?thesis using t m by (auto simp: bindE_def exists_state_def getE_def throw_def raised_def)
    qed
  qed
  show ?thesis
    unfolding initialize_def Let_def
    by (rule triple_seqE [OF triple_keeps [OF keeps_by_view(1) [OF keeps_view(7)]]], assumption, rule ex, rule triple_bindE [OF k [OF keeps_view(5)]],
      rule triple_seqE [OF k [OF keeps_view(1)]], rule triple_seqE [OF k [OF keeps_view(2)]], rule triple_seqE [OF w triple_ret])
qed

lemma reopen_triple: "triple (\<lambda>w. tracked rid w \<and> alive rid w) (reopen E rid me) (\<lambda>w. tracked rid w \<and> alive rid w) (tracked rid)"
  using keeps_by_view [OF keeps_view_reopen] by (intro triple_keeps) (simp_all add: keeps_def)

text \<open>Opening the run leaves a tracked ledger that can be read, or raises with a tracked one.\<close>

lemma preflight_triple:
  assumes "rc_run_id C = rid"
  shows "triple (\<lambda>s. tracked rid (fst s) \<and> (rc_resume C \<longrightarrow> alive rid (fst s))) (preflight_and_initialize C O' :: ('p run_state, unit) eff)
    (tracked_run rid) (\<lambda>s. tracked rid (fst s))"
proof -
  let ?P = "\<lambda>s :: 'p run_state. tracked rid (fst s) \<and> (rc_resume C \<longrightarrow> alive rid (fst s))"
  have k: "triple ?P m ?P (\<lambda>s. tracked rid (fst s))" if "keeps (\<lambda>s. tracked rid (fst s)) m" "keeps (\<lambda>s. alive rid (fst s)) m" for m :: "('p run_state, 'x) eff"
    by (rule triple_keeps) (use that in \<open>simp_all add: keeps_def\<close>)
  have touch: "triple ?P (touch C c n) ?P (\<lambda>s. tracked rid (fst s))" for c n
    unfolding touch_def assms by (rule k, rule keeps_onW [OF keeps_tracked_quiet], simp add: effect_def, rule keeps_onW [OF keeps_alive_drive])
  have re: "triple ?P (onW (reopen E rid me)) (tracked_run rid) (\<lambda>s. tracked rid (fst s))" if "rc_resume C" for E me
    by (rule triple_conseq [OF triple_onW [OF reopen_triple]]) (use that in auto)
  have ini: "triple ?P (onW (initialize E rid me p c u)) (tracked_run rid) (\<lambda>s. tracked rid (fst s))" for E me p c u
    by (rule triple_conseq [OF triple_onW [OF initialize_triple]]) auto
  have up: "triple (tracked_run rid) m (tracked_run rid) (\<lambda>s. tracked rid (fst s))" if "keeps (tracked_run rid) m" for m :: "('p run_state, 'x) eff"
    by (rule triple_keeps [OF that]) simp
  have report: "triple ?P (case report of Some blockers \<Rightarrow> throw (PreflightError [blockers]) | None \<Rightarrow> f) (tracked_run rid) (\<lambda>s. tracked rid (fst s))"
    if "triple ?P f (tracked_run rid) (\<lambda>s. tracked rid (fst s))" for report and f :: "('p run_state, unit) eff"
    using that by (cases report) (auto intro!: triple_throw)
  show ?thesis
    unfolding preflight_and_initialize_def Let_def assms
    by (rule triple_bindE [OF k], (intro eff_intros)+, rule triple_bindE [OF touch], rule report, rule triple_if,
      rule triple_bindE [OF re], assumption, rule up, (intro eff_intros)+, rule triple_seqE [OF ini triple_ret])
qed

lemma keeps_bring_up: "rc_run_id C = rid \<Longrightarrow> keeps (tracked_run rid) (bring_up B C O' G)"
  unfolding bring_up_def probe_misses_def by (auto intro!: eff_intros keeps_run keeps_materialize_graph keeps_realize_graph)

lemma keeps_tracked_teardown_run:
  "\<forall>t. read_fault (rc_env C) t = None \<Longrightarrow> rc_run_id C = rid \<Longrightarrow> keeps (\<lambda>s. tracked rid (fst s)) (teardown_run C O')"
  unfolding teardown_run_def by (auto intro: keeps_onW keeps_teardown)

lemma keeps_hang_up:
  assumes "rc_run_id C = rid" and "\<And>c. (\<And>b. effect c b = b) \<Longrightarrow> keeps P (drive (rc_env C) rid c)"
  shows "keeps (\<lambda>s. P (fst (fst s))) (hang_up C)"
  unfolding hang_up_def restore_signal_handlers_def disconnect_driver_def assms(1)
  by (intro eff_intros keeps_onR keeps_onW keeps_modS [where P = "\<lambda>s. P (fst s)"] assms(2)) (simp add: effect_def)

abbreviation tracked_now :: "name \<Rightarrow> 'p session_state \<Rightarrow> bool" where
  "tracked_now rid \<equiv> \<lambda>s. tracked rid (fst (fst s))"

lemma triple_weak: "keeps P m \<Longrightarrow> triple P m P P"
  by (rule triple_keeps)

lemma enter_triple:
  assumes "\<forall>t. read_fault (rc_env C) t = None" and "rc_run_id C = rid"
  shows "triple (\<lambda>s. tracked_now rid s \<and> (rc_resume C \<longrightarrow> alive rid (fst (fst s)))) (enter B C O' G)
    (\<lambda>s. tracked_run rid (fst s)) (tracked_now rid)"
proof -
  let ?P = "\<lambda>s. tracked_now rid s \<and> (rc_resume C \<longrightarrow> alive rid (fst (fst s)))"
  have ins: "triple ?P install_signal_handlers ?P (tracked_now rid)"
    unfolding install_signal_handlers_def
    by (rule triple_keeps) (rule keeps_modS [where P = "\<lambda>s. tracked rid (fst s) \<and> (rc_resume C \<longrightarrow> alive rid (fst s))"], simp)
  have con: "triple ?P (onR (connect_driver C O')) ?P (tracked_now rid)"
  proof (rule triple_keeps)
    have "keeps (\<lambda>s. tracked rid (fst s) \<and> (rc_resume C \<longrightarrow> alive rid (fst s))) (connect_driver C O')"
      unfolding connect_driver_def assms(2)
      using keeps_onW [OF keeps_tracked_quiet [of "Connect (driver_name O') (resolved_uri O')" rid "rc_env C"]]
        keeps_onW [OF keeps_alive_drive [of rid "rc_env C" "Connect (driver_name O') (resolved_uri O')"]]
      by (intro eff_intros) (auto simp: keeps_def effect_def)
    then show "keeps ?P (onR (connect_driver C O'))" by (rule keeps_onR)
  qed simp
  have up: "triple (\<lambda>s. tracked_run rid (fst s)) (seqE (onR (bring_up B C O' G)) (ret (build_handle C))) (\<lambda>s. tracked_run rid (fst s)) (tracked_now rid)"
    by (rule triple_seqE [OF triple_keeps [OF keeps_onR [OF keeps_bring_up [OF assms(2)]]] triple_ret]) simp
  have down: "triple (tracked_now rid) (onR (teardown_run C O')) (tracked_now rid) (tracked_now rid)"
    by (rule triple_weak [OF keeps_onR [OF keeps_tracked_teardown_run [OF assms]]])
  have hang: "triple (tracked_now rid) (hang_up C) (tracked_now rid) (tracked_now rid)"
    by (rule triple_weak [OF keeps_hang_up [OF assms(2) keeps_tracked_quiet]])
  show ?thesis
    unfolding enter_def
    by (rule triple_seqE [OF ins triple_seqE [OF con triple_on_error [OF triple_seqE [OF triple_onR [OF preflight_triple [OF assms(2)]]
      triple_on_error [OF up down]] hang]]])
qed

lemma exit_triple:
  assumes "\<forall>t. read_fault (rc_env C) t = None" and "rc_run_id C = rid"
  shows "keeps (tracked_now rid) (exit_run C O')"
  unfolding exit_run_def
  by (intro keeps_finallyE eff_intros keeps_onR keeps_onW keeps_set_phase keeps_release keeps_tracked_teardown_run [OF assms]
    keeps_hang_up [OF assms(2) keeps_tracked_quiet], unfold assms(2), auto intro: keeps_set_phase keeps_release)

lemma keeps_execute_tests: "(\<And>n t. (n, t) \<in> set ts \<Longrightarrow> keeps P t) \<Longrightarrow> keeps P (execute_tests ff ts rs)"
proof (induction ts arbitrary: rs)
  case (Cons x ts)
  obtain n t where x: "x = (n, t)" by (cases x)
  have "keeps P (execute_tests ff ts rs')" for rs' by (rule Cons.IH) (use Cons.prems in auto)
  moreover have "keeps P t" by (rule Cons.prems [of n]) (simp add: x)
  ultimately show ?case unfolding x execute_tests.simps Let_def by (intro eff_intros)
qed (simp add: eff_intros)


definition idle_session :: session where
  "idle_session = \<lparr>sig_handler = ''default'', prior_handler = None, leaking = False\<rparr>"

definition plain_opts :: run_opts where
  "plain_opts = \<lparr>require_cache = False, store_id = 7, driver_name = ''MockDriver'', resolved_uri = ''mock://''\<rparr>"

definition one_test :: "(name, name) dict \<Rightarrow> 'w test list" where
  "one_test orch = [(''t'', throw (AssertionError []))]"


subsection \<open>Nothing is left behind\<close>

text \<open>A backend on which destroys succeed and a store whose write faults are ordinary errors; other calls may raise anything.\<close>

definition destroys :: "env \<Rightarrow> bool" where
  "destroys E \<longleftrightarrow> (\<forall>t e. write_fault E t = Some e \<longrightarrow> is_Exception e) \<and> (\<forall>t. read_fault E t = None) \<and>
     (\<forall>t k n md. \<exists>v b. reply E t (Destroy k n md) = (Inr v, b))"

lemma modify_reply: "modify (E\<lparr>reply := f\<rparr>) rid g = modify E rid g"
  unfolding modify_def read_state_def write_state_atomic_def by (simp cong: option.case_cong)

lemma destroys_modify:
  assumes "destroys E" and "modify E rid (\<lambda>s. Inr (f s)) w = (Inl e, w')"
  shows "is_Exception e"
proof -
  have "ordinary (E\<lparr>reply := \<lambda>_ _. (Inr None, True)\<rparr>)" using assms(1) by (simp add: ordinary_def destroys_def)
  with assms(2) modify_ordinary show ?thesis unfolding modify_reply [of "\<lambda>_ _. (Inr None, True)" E, symmetric] by blast
qed

lemma destroys_one:
  assumes "destroys E" and "destroy_and_forget E rid r w = (q, w')"
  shows "set (backend w') = set (backend w) - {r_backend_name r}" "q = Inl e \<Longrightarrow> is_Exception e"
proof -
  let ?c = "Destroy (r_kind r) (r_backend_name r) (metadata r)"
  obtain v b where "reply E (tick w) ?c = (Inr v, b)" using assms(1) unfolding destroys_def by blast
  then have "\<not> raised (fst (drive E rid ?c w))"
    by (simp add: drive_def bindE_def seqE_def tock_def modE_def ret_def raised_def)
  then obtain v w1 where d: "drive E rid ?c w = (Inr v, w1)"
    by (cases "drive E rid ?c w"; cases "fst (drive E rid ?c w)") (auto simp: raised_def)
  then have f: "forget E rid (r_backend_name r) w1 = (q, w')"
    using assms(2) by (simp add: destroy_and_forget_def seqE_def bindE_def)
  have "backend w1 = effect ?c (backend w)" using drive_spec [OF d] by simp
  moreover have "backend w' = backend w1" using forget_spec [OF f] by simp
  ultimately show "set (backend w') = set (backend w) - {r_backend_name r}" by (auto simp: effect_def)
  show "is_Exception e" if "q = Inl e"
    using destroys_modify [OF assms(1)] f that unfolding forget_def by blast
qed

lemma destroys_all:
  assumes "destroys E"
  shows "set (backend (snd (foldE (\<lambda>r (ok, failed). catchE (seqE (destroy_and_forget E rid r) (ret (Suc ok, failed))) (\<lambda>_. ret (ok, Suc failed))) rs (a, b) w))) =
    set (backend w) - r_backend_name ` set rs \<and>
    \<not> raised (fst (foldE (\<lambda>r (ok, failed). catchE (seqE (destroy_and_forget E rid r) (ret (Suc ok, failed))) (\<lambda>_. ret (ok, Suc failed))) rs (a, b) w))"
proof (induction rs arbitrary: a b w)
  case (Cons r rs)
  obtain q w1 where q: "destroy_and_forget E rid r w = (q, w1)" by (cases "destroy_and_forget E rid r w")
  note s = destroys_one [OF assms q]
  obtain p where c: "catchE (seqE (destroy_and_forget E rid r) (ret (Suc a, b))) (\<lambda>_. ret (a, Suc b)) w = (Inr p, w1)"
    using q s(2) by (cases q) (auto simp: catchE_def handle_if_def seqE_def bindE_def ret_def)
  obtain x y where "p = (x, y)" by (cases p)
  with Cons [of x y w1] s(1) c show ?case by (auto simp: bindE_def)
qed (simp add: ret_def raised_def)

lemma keeps_empty:
  "keeps (\<lambda>w. backend w = []) (set_phase E rid ph)" "keeps (\<lambda>w. backend w = []) (read_state E rid)"
  "keeps (\<lambda>w. backend w = []) (release rid me)" "keeps (\<lambda>w. backend w = []) (remove rid me)"
proof -
  show "keeps (\<lambda>w. backend w = []) (set_phase E rid ph)"
  proof (unfold keeps_def, intro allI impI)
    fix w :: world
    assume b: "backend w = []"
    obtain r w' where m: "set_phase E rid ph w = (r, w')" by (cases "set_phase E rid ph w")
    from modify_spec [OF m [unfolded set_phase_def]] b show "backend (snd (set_phase E rid ph w)) = []" by (simp add: m)
  qed
  show "keeps (\<lambda>w. backend w = []) (read_state E rid)" by (rule keeps_by_view(3) [OF keeps_view(4)])
qed (simp_all add: keeps_def release_def release_lock_def remove_def seqE_def bindE_def modE_def snapshot_def)

lemma teardown_clears:
  assumes "destroys E" and "alive rid w" and "set (backend w) \<subseteq> set (recorded rid w)"
  shows "backend (snd (teardown E rid me w)) = []"
proof -
  have nf: "\<forall>t. read_fault E t = None" using assms(1) by (simp add: destroys_def)
  obtain st where h: "holds rid st w" using assms(2) by (auto simp: alive_def)
  obtain p w1 where p: "set_phase E rid ''cleanup'' w = (p, w1)" by (cases "set_phase E rid ''cleanup'' w")
  then have m: "modify E rid (\<lambda>s. Inr (s\<lparr>phase := ''cleanup''\<rparr>)) w = (p, w1)" by (simp add: set_phase_def)
  obtain s' where s': "holds rid s' w1" "resources s' = resources st"
    using modify_holds [OF h nf _ m] by (cases p) fastforce+
  have first: "catchE (set_phase E rid ''cleanup'') (\<lambda>_. ret ()) w = (Inr (), w1)"
    using p destroys_modify [OF assms(1)] m by (cases p) (auto simp: catchE_def handle_if_def ret_def)
  let ?w = "w1\<lparr>tick := Suc (tick w1)\<rparr>"
  have second: "catchE (bindE (read_state E rid) (\<lambda>s. ret (Some s))) (\<lambda>_. ret None) w1 = (Inr (Some s'), ?w)"
    using read_holds [OF s'(1) nf] by (simp add: catchE_def handle_if_def bindE_def ret_def)
  obtain c w2 where d: "destroy_all E rid (rev (resources s')) ?w = (c, w2)" by (cases "destroy_all E rid (rev (resources s')) ?w")
  have "backend w1 = backend w" using modify_spec [OF m] by simp
  moreover have "recorded rid w = map r_backend_name (resources st)"
    using h by (simp add: holds_def recorded_def ledger_of_def state_roundtrip backend_names_def)
  ultimately have "set (backend w2) = {}" and c: "\<not> raised c"
    using destroys_all [OF assms(1), of rid "rev (resources s')" 0 0 ?w] d assms(3) s'(2) unfolding destroy_all_def by auto
  then have e: "backend w2 = []" by simp
  obtain x where "c = Inr x" using c by (cases c) (auto simp: raised_def)
  then have "teardown E rid me w = finish_teardown E rid me w2"
    by (simp add: teardown_def seqE_def bindE_def first second d split: prod.split)
  moreover have "keeps (\<lambda>w. backend w = []) (finish_teardown E rid me)"
    unfolding finish_teardown_def by (intro eff_intros keeps_empty)
  ultimately show ?thesis using e by (simp add: keeps_def)
qed

text \<open>What calls without an effect on resources, the phase writes and the opening of a run leave empty.\<close>

lemma keeps_backend_quiet: "(\<And>b. effect c b = b) \<Longrightarrow> keeps (\<lambda>w. backend w = b) (drive E rid c)"
proof (unfold keeps_def, intro allI impI)
  fix w :: world
  assume q: "\<And>b. effect c b = b" and b: "backend w = b"
  obtain r w' where m: "drive E rid c w = (r, w')" by (cases "drive E rid c w")
  from drive_spec [OF m] q b show "backend (snd (drive E rid c w)) = b" by (auto simp: m)
qed

lemma snd_finallyE: "snd (finallyE m f w) = snd (f (snd (m w)))"
  by (simp add: finallyE_def split: prod.split sum.split)

lemma keeps_empty_initialize: "keeps (\<lambda>w. backend w = []) (initialize E rid me p c u)"
proof -
  have w: "keeps (\<lambda>w. backend w = []) (write_state_atomic E rid s)" for s
    by (auto simp: keeps_def write_state_atomic_def bindE_def seqE_def tock_def modE_def throw_def snapshot_def split: option.split)
  show ?thesis
    unfolding initialize_def Let_def by (intro eff_intros w keeps_by_view(3) [OF keeps_view(1)] keeps_by_view(3) [OF keeps_view(2)]
      keeps_by_view(3) [OF keeps_view(5)] keeps_by_view(3) [OF keeps_view(6)] keeps_by_view(3) [OF keeps_view(7)])
qed

lemma keeps_empty_preflight:
  "keeps (\<lambda>s. backend (fst s) = []) (preflight_and_initialize C O' :: ('p run_state, unit) eff)"
proof -
  have t: "keeps (\<lambda>s. backend (fst s) = []) (touch C c n :: ('p run_state, string option) eff)" for c n
    unfolding touch_def by (rule keeps_onW [OF keeps_backend_quiet]) (simp add: effect_def)
  show ?thesis
    unfolding preflight_and_initialize_def Let_def
    by (intro eff_intros t keeps_onW [OF keeps_empty_initialize] keeps_onW [OF keeps_by_view(3) [OF keeps_view_reopen]]
      keeps_modL [where P = "\<lambda>w. backend w = []"])
qed

lemma triple_also: "triple P m Q X \<Longrightarrow> keeps R m \<Longrightarrow> triple (\<lambda>w. P w \<and> R w) m (\<lambda>w. Q w \<and> R w) (\<lambda>w. X w \<and> R w)"
proof (unfold triple_def, intro allI impI)
  fix w r w'
  assume a: "\<forall>w r w'. P w \<longrightarrow> m w = (r, w') \<longrightarrow> (if raised r then X w' else Q w')" and k: "keeps R m" and p: "P w \<and> R w" and m: "m w = (r, w')"
  from a p m have "if raised r then X w' else Q w'" by blast
  moreover have "R w'" using keepsD2 [OF k _ m] p by blast
  ultimately show "if raised r then X w' \<and> R w' else Q w' \<and> R w'" by simp
qed

lemma teardown_run_clears:
  assumes "destroys (rc_env C)" and "rc_run_id C = rid"
  shows "triple (tracked_run rid) (teardown_run C O') (\<lambda>s. backend (fst s) = []) (\<lambda>s. backend (fst s) = [])"
proof (unfold triple_def, intro allI impI)
  fix s r s'
  assume t: "tracked_run rid s" and m: "teardown_run C O' s = (r, s')"
  have "fst s' = snd (teardown (rc_env C) rid (store_id O') (fst s))"
    using m assms(2) by (auto simp: teardown_run_def onW_def split: prod.splits)
  with teardown_clears [OF assms(1), of rid "fst s"] t
  show "if raised r then backend (fst s') = [] else backend (fst s') = []" by (simp add: tracked_iff)
qed


text \<open>\<^verbatim>\<open>build\<close> tears down after an error but not after an interrupt. When the build walk raises an ordinary exception, or returns,
  nothing of the run is left on the backend; when it raises an interrupt, whatever the walk had created and not yet destroyed stays, although
  the class promises that every exception path goes through cleanup.\<close>

theorem build_cleans_up_unless_interrupted:
  assumes "destroys (rc_env C)" and "tracked (rc_run_id C) (fst s)" and "rc_resume C \<longrightarrow> alive (rc_run_id C) (fst s)"
    and "connect_driver C O' s = (Inr (), s1)" and "preflight_and_initialize C O' s1 = (Inr (), s2)" and "materialize_graph B C G s2 = (r, s3)"
  shows "backend (fst (fst (snd (build_run B C O' G (s, o'))))) = (if \<exists>e. r = Inl e \<and> \<not> is_Exception e then backend (fst s3) else [])"
proof -
  let ?rid = "rc_run_id C" and ?o = "o'\<lparr>prior_handler := Some (sig_handler o'), sig_handler := OWN_HANDLER\<rparr>"
  have q: "effect (Connect x y) b = b" for x y b by (simp add: effect_def)
  have c: "keeps (\<lambda>s. tracked ?rid (fst s)) (connect_driver C O')" "keeps (\<lambda>s. alive ?rid (fst s)) (connect_driver C O')"
    unfolding connect_driver_def by (intro eff_intros keeps_onW keeps_tracked_quiet keeps_alive_drive q)+
  have "tracked ?rid (fst s1)" "rc_resume C \<longrightarrow> alive ?rid (fst s1)"
    using keepsD2 [OF c(1) assms(2,4)] keepsD2 [OF c(2) _ assms(4)] assms(3) by blast+
  then have t2: "tracked_run ?rid s2" using tripleD [OF preflight_triple [OF refl] _ assms(5)] by (simp add: raised_def)
  then have t3: "tracked_run ?rid s3" using keepsD2 [OF keeps_materialize_graph [OF refl] _ assms(6)] by blast
  obtain u s4 where d: "teardown_run C O' s3 = (u, s4)" by (cases "teardown_run C O' s3")
  have e4: "backend (fst s4) = []" using tripleD [OF teardown_run_clears [OF assms(1) refl] t3 d] by (simp split: if_splits)
  let ?fin = "if \<exists>e. r = Inl e \<and> \<not> is_Exception e then s3 else s4"
  let ?body = "seqE (onR (preflight_and_initialize C O')) (seqE (on_error is_Exception (onR (materialize_graph B C G)) (onR (teardown_run C O'))) (onR (teardown_run C O')))"
  have b: "snd (?body (s1, ?o)) = (?fin, ?o)"
    using assms(5,6) d by (cases r; cases u) (auto simp: seqE_def bindE_def onR_def on_error_def handle_if_def throw_def)
  have "build_run B C O' G (s, o') = finallyE ?body (hang_up C) (s1, ?o)"
    by (simp add: build_run_def install_signal_handlers_def seqE_def [of "modS _"] seqE_def [of "onR (connect_driver C O')"] bindE_def modS_def onR_def assms(4))
  then have f: "snd (build_run B C O' G (s, o')) = snd (hang_up C (?fin, ?o))" using b by (simp add: snd_finallyE)
  have "backend (fst (fst (snd (hang_up C (?fin, ?o))))) = backend (fst ?fin)"
    by (rule keepsD [OF keeps_hang_up [OF refl keeps_backend_quiet], where w = "(?fin, ?o)"]) simp_all
  then show ?thesis unfolding f using e4 by (auto split: if_splits)
qed


definition blank_world :: world where
  "blank_world = \<lparr>runs = (\<lambda>_. empty_dir), lock_holder = (\<lambda>_. None), tick = 0, backend = [], calls = [], history = []\<rparr>"

text \<open>The create call of the build pool takes effect and raises an interrupt.\<close>

definition interrupted_env :: env where
  "interrupted_env = quiet_env\<lparr>reply := \<lambda>_ c. case c of Create _ _ \<Rightarrow> (Inl (KeyboardInterrupt []), True) | _ \<Rightarrow> (Inr None, True)\<rparr>"

definition interrupted_cfg :: "(unit, unit) run_cfg" where
  "interrupted_cfg = plain_cfg\<lparr>rc_env := interrupted_env, rc_hypervisor := sample_hypervisor\<rparr>"

lemma interrupted_destroys: "destroys (rc_env interrupted_cfg)"
  by (auto simp: destroys_def interrupted_cfg_def interrupted_env_def quiet_env_def)

definition vm_graph :: "(unit, unit) plan_node build_graph" where
  "vm_graph = (case BuildGraph pn_name ''t'' [VMNode (sample_vm ''192.168.10.100'') 0] [] of Inr G \<Rightarrow> G | Inl _ \<Rightarrow> undefined)"

lemma vm_waves: "content_waves vm_graph = [[VMNode (sample_vm ''192.168.10.100'') 0]]"
  by code_simp

text \<open>A context whose keys have been prepared.\<close>

definition keyed_ledgers :: "(unit, unit) probe ledgers" where
  "keyed_ledgers = empty_ledgers\<lparr>node_keys := [(''vm:web'', ''h'')], vm_probes := [(''vm:web'', plain_probe)]\<rparr>"

lemma keyed:
  "vm_probes keyed_ledgers = [(''vm:web'', plain_probe)]" "node_keys keyed_ledgers = [(''vm:web'', ''h'')]" "active (infra keyed_ledgers) = False"
  "pr_vm plain_probe = sample_vm ''192.168.10.100''" "cached_paths plain_probe = None"
  by (simp_all add: keyed_ledgers_def empty_ledgers_def plain_probe_def)

lemma store_ops_reply:
  "record_intent (E\<lparr>reply := f\<rparr>) = record_intent E" "set_phase (E\<lparr>reply := f\<rparr>) = set_phase E"
  by (simp_all add: fun_eq_iff record_intent_def set_phase_def modify_reply Let_def)

lemma quiet_smooth: "smooth quiet_env"
  by (simp add: smooth_def quiet_env_def)

lemma pool_fits: "\<exists>p. StoragePool BUILD_POOL_NAME (Max (set (map disk_total [sample_vm ''192.168.10.100'']))) = Inr p"
proof (rule is_Inr_ex)
  show "is_Inr (StoragePool BUILD_POOL_NAME (Max (set (map disk_total [sample_vm ''192.168.10.100'']))))" by code_simp
qed

lemma interrupted_pool:
  assumes "holds ''r'' st w" and "backend w = []"
  shows "\<exists>w'. create_build_pool interrupted_cfg [sample_vm ''192.168.10.100''] (w, l) = (Inl (KeyboardInterrupt []), (w', l)) \<and>
    backend w' = [''build_pool-build'']"
proof -
  let ?E = "rc_env interrupted_cfg" and ?n = "''build_pool-build''"
  have c: "rc_run_id interrupted_cfg = ''r''" "backend_name interrupted_cfg ''build_pool'' ''build'' = ?n" "reply ?E t (Create x y) = (Inl (KeyboardInterrupt []), True)" for t x y
    by (simp_all add: interrupted_cfg_def plain_cfg_def plain_driver_def backend_name_def interrupted_env_def)
  obtain r w1 where r: "record_intent ?E ''r'' ''build_pool'' ?n None [] w = (Inr r, w1)"
    using record_intent_smooth [OF quiet_smooth assms(1), of "''build_pool''" ?n None "[]"] by (auto simp: interrupted_cfg_def interrupted_env_def store_ops_reply)
  then have b: "backend w1 = []" using record_intent_spec [OF r] assms(2) by simp
  obtain p where p: "StoragePool BUILD_POOL_NAME (Max (set (map disk_total [sample_vm ''192.168.10.100'']))) = Inr p"
    using pool_fits by auto
  obtain w2 where d: "drive ?E ''r'' (Create ''create_pool'' ?n) w1 = (Inl (KeyboardInterrupt []), w2)" "backend w2 = [?n]"
    using b by (simp add: drive_def bindE_def seqE_def tock_def modE_def throw_def c snapshot_def effect_def)
  show ?thesis
    by (simp add: create_build_pool_def Let_def c seqE_def bindE_def onW_def r liftR_def p [simplified] d)
qed

lemma build_switch_fits: "\<exists>sw. resolve_build_switch (build_switch (rc_hypervisor interrupted_cfg)) = Inr sw"
proof (rule is_Inr_ex)
  show "is_Inr (resolve_build_switch (build_switch (rc_hypervisor interrupted_cfg)))" by code_simp
qed

lemma interrupted_prelude:
  "\<exists>s1 s2 s3. connect_driver interrupted_cfg plain_opts (blank_world, keyed_ledgers) = (Inr (), s1) \<and>
     preflight_and_initialize interrupted_cfg plain_opts s1 = (Inr (), s2) \<and>
     materialize_graph plain_builder interrupted_cfg vm_graph s2 = (Inl (KeyboardInterrupt []), s3) \<and> backend (fst s3) = [''build_pool-build'']"
  proof -
  let ?C = interrupted_cfg and ?E = "rc_env interrupted_cfg" and ?l = keyed_ledgers
  have c: "rc_run_id ?C = ''r''" "rc_resume ?C = False" "require_cache plain_opts = False" "rc_plan_name ?C = ''p''"
    "reply ?E t (Connect x y) = (Inr None, True)" "reply ?E t (Touch x y) = (Inr None, True)" "write_fault ?E t = None" for t x y
    by (simp_all add: interrupted_cfg_def plain_cfg_def interrupted_env_def quiet_env_def plain_opts_def)
  let ?w1 = "blank_world\<lparr>tick := 1, calls := [Connect ''MockDriver'' ''mock://''], history := [([], [])]\<rparr>"
  have s1: "connect_driver ?C plain_opts (blank_world, ?l) = (Inr (), (?w1, ?l))"
    by (simp add: connect_driver_def drive_def run_effects onW_def c plain_opts_def blank_world_def snapshot_def recorded_def ledger_of_def empty_dir_def effect_def)
  obtain sw where sw: "resolve_build_switch (build_switch (rc_hypervisor ?C)) = Inr sw" using build_switch_fits by auto
  obtain w2 where s2: "preflight_and_initialize ?C plain_opts (?w1, ?l) = (Inr (), (w2, ?l))" "backend w2 = []"
    by (simp add: preflight_and_initialize_def c Let_def touch_def sw drive_def run_effects onW_def initialize_def exists_state_def acquire_lock_def
      write_pid_atomic_def write_state_atomic_def blank_world_def snapshot_def upd_dir_def empty_dir_def effect_def)
  have "tracked_run ''r'' (w2, ?l)"
    using tripleD [OF preflight_triple [OF c(1)] _ s2(1)] by (simp add: c tracked_iff blank_world_def raised_def)
  then obtain st where h: "holds ''r'' st w2" by (auto simp: alive_def)
  obtain w3 where p: "set_phase ?E ''r'' ''build'' w2 = (Inr (), w3)" "holds ''r'' (st\<lparr>phase := ''build''\<rparr>) w3"
    using modify_smooth [OF quiet_smooth h, of "\<lambda>s. Inr (s\<lparr>phase := ''build''\<rparr>)"] by (auto simp: interrupted_cfg_def interrupted_env_def set_phase_def modify_reply)
  have "backend w3 = []" using modify_spec [OF p(1) [unfolded set_phase_def]] s2(2) by simp
  from interrupted_pool [OF p(2) this, of ?l] obtain w4 where
    w4: "create_build_pool ?C [sample_vm ''192.168.10.100''] (w3, ?l) = (Inl (KeyboardInterrupt []), (w4, ?l))" "backend w4 = [''build_pool-build'']" by blast
  have n: "vr_name (sample_vm ''192.168.10.100'') = ''web''" by (simp add: sample_vm_def vr_name_def)
  have m: "materialize_node plain_builder ?C (VMNode (sample_vm ''192.168.10.100'') 0) (w3, ?l) = (Inl (KeyboardInterrupt []), (w4, ?l))"
    using w4(1) by (simp add: n bindE_def getL_def getE_def keyed ensure_build_infra_def)
  have "materialize_graph plain_builder ?C vm_graph (w2, ?l) = (Inl (KeyboardInterrupt []), (w4, ?l))"
    by (simp add: materialize_graph_def vm_waves seqE_def bindE_def onW_def c p(1) prepare_keys_def getL_def getE_def keyed ret_def finallyE_def
      parallel_map_def resolve_workers_def run_materialize_def m teardown_build_infra_def del: materialize_node.simps)
  with s1 s2(1) w4(2) show ?thesis by auto
qed


theorem build_cleans_up_unless_interrupted_witness:
  "backend (fst (fst (snd (build_run plain_builder interrupted_cfg plain_opts vm_graph ((blank_world, keyed_ledgers), idle_session))))) = [''build_pool-build'']"
proof -
  obtain s1 s2 s3 where s: "connect_driver interrupted_cfg plain_opts (blank_world, keyed_ledgers) = (Inr (), s1)"
     "preflight_and_initialize interrupted_cfg plain_opts s1 = (Inr (), s2)"
     "materialize_graph plain_builder interrupted_cfg vm_graph s2 = (Inl (KeyboardInterrupt []), s3)" "backend (fst s3) = [''build_pool-build'']"
    using interrupted_prelude by blast
  have "tracked (rc_run_id interrupted_cfg) (fst (blank_world, keyed_ledgers))" by (simp add: tracked_iff blank_world_def)
  moreover have "\<not> rc_resume interrupted_cfg" by (simp add: interrupted_cfg_def plain_cfg_def)
  ultimately show ?thesis
    using build_cleans_up_unless_interrupted [OF interrupted_destroys _ _ s(1-3), of idle_session] s(4) by simp
qed

lemma on_error_raised: "raised (fst (m w)) \<Longrightarrow> raised (fst (on_error P m h w))"
  by (auto simp: on_error_def handle_if_def seqE_def bindE_def throw_def raised_def split: prod.splits sum.splits)


subsection \<open>Signal handlers\<close>

definition handler_is :: "string \<Rightarrow> 'p session_state \<Rightarrow> bool" where
  "handler_is h s \<longleftrightarrow> prior_handler (snd s) = Some h"

lemma keeps_handler_onR: "keeps (handler_is h) (onR m)" "keeps (\<lambda>s. sig_handler (snd s) = h) (onR m)"
  by (auto simp: keeps_def handler_is_def onR_def split: prod.split)

lemma hang_up_restores: "triple (handler_is h) (hang_up C) (\<lambda>s. sig_handler (snd s) = h) (\<lambda>s. sig_handler (snd s) = h)"
  unfolding hang_up_def
proof (rule triple_seqE)
  show "triple (handler_is h) restore_signal_handlers (\<lambda>s. sig_handler (snd s) = h) (\<lambda>s. sig_handler (snd s) = h)"
    by (auto simp: triple_def handler_is_def restore_signal_handlers_def modS_def raised_def)
qed (rule triple_weak [OF keeps_handler_onR(2)])

text \<open>Entering the context restores the signal handlers on every failure but one. If the entry raises after the connection was made,
  the handler that was installed before is back in place; if the connection itself fails, the process is left with the handler of the run, since the
  handlers are installed before the guarded block begins.\<close>

theorem failed_entry_restores_handlers:
  assumes "enter B C O' G (s, o') = (Inl e, (s', o''))"
  shows "sig_handler o'' = (if raised (fst (connect_driver C O' s)) then OWN_HANDLER else sig_handler o')"
proof -
  let ?o = "o'\<lparr>prior_handler := Some (sig_handler o'), sig_handler := OWN_HANDLER\<rparr>"
  let ?inner = "on_error (\<lambda>_. True) (seqE (onR (bring_up B C O' G)) (ret (build_handle C))) (onR (teardown_run C O'))"
  let ?outer = "on_error (\<lambda>_. True) (seqE (onR (preflight_and_initialize C O')) ?inner) (hang_up C)"
  have e: "seqE (onR (connect_driver C O')) ?outer (s, ?o) = (Inl e, (s', o''))"
    using assms by (simp add: enter_def install_signal_handlers_def seqE_def [of "modS _"] bindE_def modS_def)
  obtain r s1 where c: "connect_driver C O' s = (r, s1)" by (cases "connect_driver C O' s")
  show ?thesis
  proof (cases r)
    case (Inl x)
    then show ?thesis using e c by (auto simp: seqE_def [of "onR (connect_driver C O')"] bindE_def onR_def raised_def)
  next
    case (Inr u)
    let ?h = "sig_handler o'"
    have w: "triple (handler_is ?h) (onR m) (handler_is ?h) (handler_is ?h)" for m :: "(('a, 'b) build_state, 'x) eff"
      by (rule triple_weak [OF keeps_handler_onR(1)])
    have "triple (handler_is ?h) ?inner (handler_is ?h) (handler_is ?h)"
      by (rule triple_on_error [OF triple_seqE [OF w triple_ret] w])
    then have "triple (handler_is ?h) ?outer (handler_is ?h) (\<lambda>s. sig_handler (snd s) = ?h)"
      by (rule triple_on_error [OF triple_seqE [OF w] hang_up_restores])
    moreover have "?outer (s1, ?o) = (Inl e, (s', o''))" using e c Inr by (simp add: seqE_def [of "onR (connect_driver C O')"] bindE_def onR_def)
    ultimately show ?thesis using tripleD [of "handler_is ?h" ?outer "handler_is ?h" "\<lambda>s. sig_handler (snd s) = ?h" "(s1, ?o)"] c Inr
      by (auto simp: handler_is_def raised_def)
  qed
qed

definition refused_cfg :: "(unit, unit) run_cfg" where
  "refused_cfg = plain_cfg\<lparr>rc_env := quiet_env\<lparr>reply := \<lambda>_ _. (Inl (DriverError []), False)\<rparr>\<rparr>"

theorem failed_entry_restores_handlers_witness:
  "sig_handler (snd (snd (enter plain_builder refused_cfg plain_opts vm_graph ((blank_world, keyed_ledgers), idle_session)))) = OWN_HANDLER"
proof -
  have c: "\<exists>s. connect_driver refused_cfg plain_opts (blank_world, keyed_ledgers) = (Inl (DriverError []), s)"
    by (simp add: connect_driver_def drive_def run_effects onW_def refused_cfg_def plain_cfg_def)
  then obtain s' where e: "enter plain_builder refused_cfg plain_opts vm_graph ((blank_world, keyed_ledgers), idle_session) =
      (Inl (DriverError []), (s', idle_session\<lparr>prior_handler := Some (sig_handler idle_session), sig_handler := OWN_HANDLER\<rparr>))"
    by (auto simp: enter_def install_signal_handlers_def seqE_def [of "modS _"] seqE_def [of "onR (connect_driver _ _)"] bindE_def modS_def onR_def)
  from failed_entry_restores_handlers [OF e] c show ?thesis by (auto simp: e raised_def)
qed

subsection \<open>Test results\<close>

definition result_of :: "name \<Rightarrow> unit result \<Rightarrow> test_result" where
  "result_of n r = \<lparr>test_name = n, passed = \<not> raised r, test_error = (case r of Inl e \<Rightarrow> Some e | Inr _ \<Rightarrow> None)\<rparr>"

text \<open>The first results up to and including the first failure.\<close>

fun up_to_failure :: "test_result list \<Rightarrow> test_result list" where
  "up_to_failure [] = []"
| "up_to_failure (r # rs) = (if passed r then r # up_to_failure rs else [r])"

lemma execute_tests_run:
  assumes "run_all snd ts w = (rs, w')" and "list_all (\<lambda>r. case r of Inl e \<Rightarrow> is_Exception e | Inr _ \<Rightarrow> True) rs"
  shows "execute_tests False ts done' w = (Inr (done' @ map2 result_of (map fst ts) rs), w') \<and>
    fst (execute_tests True ts done' w) = Inr (done' @ up_to_failure (map2 result_of (map fst ts) rs))"
  using assms
proof (induction ts arbitrary: done' w rs)
  case (Cons t ts)
  obtain n m where t: "t = (n, m)" by (cases t)
  obtain r w1 where m: "m w = (r, w1)" by (cases "m w")
  obtain rs' where rs: "run_all snd ts w1 = (rs', w')" "rs = r # rs'" using Cons.prems(1) m t by (auto split: prod.splits)
  have l: "list_all (\<lambda>r. case r of Inl e \<Rightarrow> is_Exception e | Inr _ \<Rightarrow> True) rs'" using Cons.prems(2) rs(2) by simp
  note ih = Cons.IH [OF rs(1) l]
  show ?case
    using Cons.prems(2) ih by (cases r) (auto simp: t rs(2) bindE_def seqE_def catchE_def handle_if_def m ret_def Let_def result_of_def raised_def)
qed (simp add: ret_def)

text \<open>The results of a run say what the tests did. If no test is interrupted, then without fail-fast there is one result per test, in the given order,
  passed exactly for the tests that returned and with the exception of those that raised, and every test ran, in the world the tests before it left; with
  fail-fast the results are the same up to and including the first failure.\<close>

theorem every_test_is_reported:
  assumes "run_all snd ts w = (rs, w')" and "list_all (\<lambda>r. case r of Inl e \<Rightarrow> is_Exception e | Inr _ \<Rightarrow> True) rs"
  shows "execute_tests False ts [] w = (Inr (map2 result_of (map fst ts) rs), w') \<and>
    fst (execute_tests True ts [] w) = Inr (up_to_failure (map2 result_of (map fst ts) rs))"
  using execute_tests_run [OF assms, of "[]"] by simp

theorem every_test_is_reported_witness:
  "execute_tests False [(''a'', ret ()), (''b'', throw (AssertionError [])), (''c'', ret ())] [] (0 :: nat) =
    (Inr [\<lparr>test_name = ''a'', passed = True, test_error = None\<rparr>, \<lparr>test_name = ''b'', passed = False, test_error = Some (AssertionError [])\<rparr>,
      \<lparr>test_name = ''c'', passed = True, test_error = None\<rparr>], 0)"
  using every_test_is_reported [of "[(''a'', ret ()), (''b'', throw (AssertionError [])), (''c'', ret ())]" "0 :: nat" "[Inr (), Inl (AssertionError []), Inr ()]" 0]
  by (simp add: ret_def throw_def result_of_def raised_def)

end
