(* ===== verification/Local_Cache.thy ===== *)
theory Local_Cache
  imports Names Effects State_Schema
begin

text \<open>
  The local tier of the artifact cache (\<^verbatim>\<open>cache/_names.py\<close>, \<^verbatim>\<open>cache/entry.py\<close>,
  \<^verbatim>\<open>cache/local.py\<close>): content under \<^verbatim>\<open>isos/<sha>.bin\<close>, metadata under
  \<^verbatim>\<open>isos/<sha>.json\<close>. The directory is a value with one dictionary per suffix, keyed by the stem; a
  sidecar is its JSON value, or \<open>None\<close> when the file cannot be read or decoded. A write is the atomic rename at
  its end: it takes effect or not, and may raise in both cases (the directory \<^verbatim>\<open>fsync\<close> comes after the
  rename); the temporaries, which no reader looks at, are not modelled. SHA-256, the files outside the cache,
  downloads, the clock and the faults are the environment. A sidecar member of the wrong JSON type
  is a \<^verbatim>\<open>TypeError\<close>, as in the state schema.

  The byte copy of \<^verbatim>\<open>add\<close> runs outside the write lock and its sidecar update inside it, so an
  operation is composed of the sections that run without interruption by another thread.
\<close>

type_synonym bytes = string

subsection \<open>Names and references\<close>

definition cache_char :: "char \<Rightarrow> bool" where
  "cache_char c \<longleftrightarrow> is_alnum c \<or> c = CHR ''.'' \<or> c = CHR ''_'' \<or> c = CHR ''-''"

definition NAME_RE :: "string \<Rightarrow> bool" where
  "NAME_RE n = dollar (\<lambda>u. 1 \<le> length u \<and> length u \<le> 255 \<and> list_all cache_char u) n"

definition cache_validate_name :: "name \<Rightarrow> unit result" where
  "cache_validate_name n =
     bindR (guardR (NAME_RE n) (CacheError [n])) (\<lambda>_.
     guardR (\<not> list_all (\<lambda>c. c = CHR ''.'') n) (CacheError [n]))"

definition hex_char :: "char \<Rightarrow> bool" where
  "hex_char c \<longleftrightarrow> is_digit c \<or> c \<in> set ''abcdef''"

definition CacheEntry :: "string \<Rightarrow> string result" where
  "CacheEntry ident = (if ident = [] then Inl (ValueError []) else Inr ident)"

definition looks_like_sha :: "string \<Rightarrow> bool" where
  "looks_like_sha ident = dollar (\<lambda>u. 16 \<le> length u \<and> length u \<le> 64 \<and> list_all hex_char u) ident"

subsection \<open>Entries and their sidecars\<close>

record cache_info =
  ci_sha :: string
  ci_size :: int
  ci_names :: "name list"
  ci_origin :: "string option"
  ci_added_at :: string
  ci_description :: "string option"
  ci_path :: "string option"

definition short_sha :: "cache_info \<Rightarrow> string" where
  "short_sha i = take 16 (ci_sha i)"

text \<open>\<^verbatim>\<open>json.dumps(body, sort_keys=True)\<close>; the path is not stored.\<close>

definition sidecar_body :: "cache_info \<Rightarrow> json" where
  "sidecar_body i = JObj
     [(''added_at'', JStr (ci_added_at i)), (''description'', opt_str (ci_description i)),
      (''names'', JList (map JStr (ci_names i))), (''origin'', opt_str (ci_origin i)),
      (''sha256'', JStr (ci_sha i)), (''size'', JInt (ci_size i))]"

definition as_int :: "json \<Rightarrow> int result" where
  "as_int j = (case j of JInt n \<Rightarrow> Inr n | JBool b \<Rightarrow> Inr (if b then 1 else 0) | _ \<Rightarrow> Inl (TypeError []))"

definition as_names :: "json \<Rightarrow> name list result" where
  "as_names j = (case j of JNull \<Rightarrow> Inr [] | _ \<Rightarrow> bindR (as_list j) (map_result as_str))"

text \<open>The reader both tiers share; \<open>p\<close> gives the path of an entry from its digest.\<close>

definition parse_info :: "(string \<Rightarrow> string option) \<Rightarrow> json option \<Rightarrow> cache_info result" where
  "parse_info p doc =
     (case doc of None \<Rightarrow> Inl (JSONDecodeError []) | Some j \<Rightarrow>
      bindR (as_obj j) (\<lambda>m.
      bindR (bindR (item m ''sha256'') as_str) (\<lambda>sha.
      bindR (as_int (get m ''size'' (JInt 0))) (\<lambda>n.
      bindR (as_names (get m ''names'' JNull)) (\<lambda>ns.
      bindR (as_opt_str (get m ''origin'' JNull)) (\<lambda>og.
      bindR (as_str (get m ''added_at'' (JStr []))) (\<lambda>at.
      bindR (as_opt_str (get m ''description'' JNull)) (\<lambda>d.
      Inr \<lparr>ci_sha = sha, ci_size = n, ci_names = ns, ci_origin = og, ci_added_at = at, ci_description = d, ci_path = p sha\<rparr>))))))))"

abbreviation read_sidecar :: "json option \<Rightarrow> cache_info result" where
  "read_sidecar \<equiv> parse_info Some"

subsection \<open>The directory and its environment\<close>

record store =
  bins :: "(string, bytes) dict"
  sidecars :: "(string, json option) dict"
  st_tick :: nat

definition empty_store :: store where
  "empty_store = \<lparr>bins = [], sidecars = [], st_tick = 0\<rparr>"

text \<open>Where a source lies: a downloaded temporary, a \<^verbatim>\<open>.bin\<close> of the cache itself, or any other path.\<close>

datatype location = Temp | Cached string | Host string

datatype fault = Before exn | After exn

record cache_env =
  ce_sha256 :: "bytes \<Rightarrow> string"
  ce_isos :: string
  ce_locate :: "string \<Rightarrow> location"
  ce_host_file :: "string \<Rightarrow> bytes option"
  ce_download :: "string \<Rightarrow> bytes result"
  ce_clock :: "nat \<Rightarrow> string"
  ce_fault :: "nat \<Rightarrow> fault option"

definition fsop :: "cache_env \<Rightarrow> (store \<Rightarrow> store) \<Rightarrow> (store, unit) eff" where
  "fsop E f s =
     (let t = s\<lparr>st_tick := Suc (st_tick s)\<rparr> in
      case ce_fault E (st_tick s) of
        None \<Rightarrow> (Inr (), f t)
      | Some (Before e) \<Rightarrow> (Inl e, t)
      | Some (After e) \<Rightarrow> (Inl e, f t))"

definition put_bin :: "cache_env \<Rightarrow> string \<Rightarrow> bytes \<Rightarrow> (store, unit) eff" where
  "put_bin E k b = fsop E (\<lambda>s. s\<lparr>bins := AList.update k b (bins s)\<rparr>)"

definition write_sidecar :: "cache_env \<Rightarrow> string \<Rightarrow> cache_info \<Rightarrow> (store, unit) eff" where
  "write_sidecar E k i = fsop E (\<lambda>s. s\<lparr>sidecars := AList.update k (Some (sidecar_body i)) (sidecars s)\<rparr>)"

definition unlink_bin :: "cache_env \<Rightarrow> string \<Rightarrow> (store, unit) eff" where
  "unlink_bin E k = fsop E (\<lambda>s. s\<lparr>bins := AList.delete k (bins s)\<rparr>)"

definition unlink_sidecar :: "cache_env \<Rightarrow> string \<Rightarrow> (store, unit) eff" where
  "unlink_sidecar E k = fsop E (\<lambda>s. s\<lparr>sidecars := AList.delete k (sidecars s)\<rparr>)"

subsection \<open>Reading\<close>

text \<open>\<^verbatim>\<open>iter_entries\<close> is a generator: the sidecars in path order, those that cannot be decoded skipped;
  any other error ends the consumer that reaches it.\<close>

fun skipped :: "cache_info result \<Rightarrow> bool" where
  "skipped (Inl (JSONDecodeError _)) = True"
| "skipped (Inl (OSError _)) = True"
| "skipped (Inl (KeyError _)) = True"
| "skipped _ = False"

definition iter_entries :: "store \<Rightarrow> cache_info result list" where
  "iter_entries s =
     filter (\<lambda>r. \<not> skipped r) (map (\<lambda>(k, j). read_sidecar j) (sort_key (\<lambda>(k, j). k @ ''.json'') (sidecars s)))"

definition list_entries :: "store \<Rightarrow> cache_info list result" where
  "list_entries s = map_result id (iter_entries s)"

fun first_named :: "name \<Rightarrow> cache_info result list \<Rightarrow> cache_info option result" where
  "first_named n [] = Inr None"
| "first_named n (Inl e # rs) = Inl e"
| "first_named n (Inr i # rs) = (if n \<in> set (ci_names i) then Inr (Some i) else first_named n rs)"

definition find_by_name :: "name \<Rightarrow> store \<Rightarrow> cache_info option result" where
  "find_by_name n s = first_named n (iter_entries s)"

definition lc_resolve :: "string \<Rightarrow> store \<Rightarrow> cache_info result" where
  "lc_resolve ident s =
     bindR (CacheEntry ident) (\<lambda>_.
     if looks_like_sha ident then
       bindR (list_entries s) (\<lambda>is.
       case filter (\<lambda>i. startswith (ci_sha i) ident) is of
         [] \<Rightarrow> Inl (CacheMissError [ident])
       | [i] \<Rightarrow> Inr i
       | ms \<Rightarrow> Inl (CacheError (ident # map short_sha ms)))
     else bindR (first_named ident (iter_entries s)) (\<lambda>r.
       case r of None \<Rightarrow> Inl (CacheMissError [ident]) | Some i \<Rightarrow> Inr i))"

subsection \<open>Writing\<close>

definition append_alias :: "cache_env \<Rightarrow> string \<Rightarrow> cache_info \<Rightarrow> name \<Rightarrow> string option \<Rightarrow> (store, cache_info) eff" where
  "append_alias E k i n d =
     (let j = i\<lparr>ci_names := ci_names i @ [n], ci_description := (if d \<noteq> None then d else ci_description i)\<rparr>
      in seqE (write_sidecar E k j) (ret j))"

definition is_url :: "string \<Rightarrow> bool" where
  "is_url src \<longleftrightarrow> startswith src ''http://'' \<or> startswith src ''https://''"

fun path_of :: "cache_env \<Rightarrow> location \<Rightarrow> string" where
  "path_of E (Cached k) = ce_isos E @ ''/'' @ k @ ''.bin''"
| "path_of E (Host p) = p"
| "path_of E Temp = []"

fun file_at :: "cache_env \<Rightarrow> location \<Rightarrow> store \<Rightarrow> bytes option" where
  "file_at E (Cached k) s = map_of (bins s) k"
| "file_at E (Host p) s = ce_host_file E p"
| "file_at E Temp s = None"

definition lc_source :: "cache_env \<Rightarrow> string \<Rightarrow> (store, location \<times> string \<times> bytes) eff" where
  "lc_source E src =
     (if is_url src then bindE (liftR (ce_download E src)) (\<lambda>b. ret (Temp, src, b))
      else let l = ce_locate E src in
        bindE (getE (file_at E l)) (\<lambda>c.
        case c of None \<Rightarrow> throw (CacheError [path_of E l]) | Some b \<Rightarrow> ret (l, path_of E l, b)))"

text \<open>The copy of the content, outside the lock.\<close>

definition lc_copy :: "cache_env \<Rightarrow> location \<Rightarrow> bytes \<Rightarrow> (store, unit) eff" where
  "lc_copy E l b =
     (let sha = ce_sha256 E b in
      bindE (getE (\<lambda>s. map_of (bins s) sha)) (\<lambda>old.
      if old = None \<and> l \<noteq> Cached sha then put_bin E sha b else ret ()))"

text \<open>The read-modify-write of the sidecar, under the lock; \<^verbatim>\<open>stat\<close> raises when the content is gone.\<close>

definition lc_record :: "cache_env \<Rightarrow> string \<Rightarrow> string \<Rightarrow> name option \<Rightarrow> string option \<Rightarrow> (store, cache_info) eff" where
  "lc_record E origin sha n d =
     bindE (getE (\<lambda>s. map_of (sidecars s) sha)) (\<lambda>old.
     case old of
       Some j \<Rightarrow> bindE (liftR (read_sidecar j)) (\<lambda>i.
         case n of Some a \<Rightarrow> if a \<noteq> [] \<and> a \<notin> set (ci_names i) then append_alias E sha i a d else ret i
         | None \<Rightarrow> ret i)
     | None \<Rightarrow> bindE (getE (\<lambda>s. (map_of (bins s) sha, st_tick s))) (\<lambda>(c, t).
         case c of None \<Rightarrow> throw (OSError [sha]) | Some b \<Rightarrow>
         let i = \<lparr>ci_sha = sha, ci_size = int (length b), ci_names = (case n of Some a \<Rightarrow> if a \<noteq> [] then [a] else [] | None \<Rightarrow> []),
                  ci_origin = Some origin, ci_added_at = ce_clock E t, ci_description = d, ci_path = Some sha\<rparr>
         in seqE (write_sidecar E sha i) (ret i)))"

definition lc_add :: "cache_env \<Rightarrow> string \<Rightarrow> name option \<Rightarrow> string option \<Rightarrow> (store, cache_info) eff" where
  "lc_add E src n d =
     seqE (case n of None \<Rightarrow> ret () | Some a \<Rightarrow> liftR (cache_validate_name a))
     (bindE (lc_source E src) (\<lambda>(l, origin, b).
     seqE (lc_copy E l b) (lc_record E origin (ce_sha256 E b) n d)))"

text \<open>\<^verbatim>\<open>tuple(dict.fromkeys(...))\<close>: first occurrences, in order.\<close>

definition uniq :: "'a list \<Rightarrow> 'a list" where
  "uniq xs = rev (remdups (rev xs))"

definition write_materialized_sidecar :: "cache_env \<Rightarrow> cache_info \<Rightarrow> (store, cache_info) eff" where
  "write_materialized_sidecar E i =
     bindE (getE (\<lambda>s. map_of (sidecars s) (ci_sha i))) (\<lambda>old.
     case old of
       Some j \<Rightarrow> bindE (liftR (read_sidecar j)) (\<lambda>x.
         let merged = uniq (ci_names x @ ci_names i) in
         if merged = ci_names x then ret x
         else seqE (write_sidecar E (ci_sha i) (x\<lparr>ci_names := merged\<rparr>)) (ret (x\<lparr>ci_names := merged\<rparr>)))
     | None \<Rightarrow> seqE (write_sidecar E (ci_sha i) i) (ret i))"

definition drop_files :: "cache_env \<Rightarrow> cache_info \<Rightarrow> (store, unit) eff" where
  "drop_files E i = seqE (unlink_sidecar E (ci_sha i)) (unlink_bin E (ci_sha i))"

definition lc_delete :: "cache_env \<Rightarrow> string \<Rightarrow> (store, cache_info) eff" where
  "lc_delete E ident =
     bindE (bindE (getE (lc_resolve ident)) liftR) (\<lambda>i. seqE (drop_files E i) (ret i))"

definition lc_purge :: "cache_env \<Rightarrow> (store, cache_info list) eff" where
  "lc_purge E = bindE (bindE (getE list_entries) liftR) (\<lambda>is. seqE (forE (drop_files E) is) (ret is))"

text \<open>What \<^verbatim>\<open>add_name\<close> reads before it writes, without the lock: the entry to write, and whether its names
  already hold the new one.\<close>

definition add_name_read :: "string \<Rightarrow> name \<Rightarrow> store \<Rightarrow> (cache_info \<times> bool) result" where
  "add_name_read ident n s =
     bindR (cache_validate_name n) (\<lambda>_.
     bindR (lc_resolve ident s) (\<lambda>i.
     if n \<in> set (ci_names i) then Inr (i, True)
     else bindR (find_by_name n s) (\<lambda>clash.
       case clash of
         Some c \<Rightarrow> if ci_sha c \<noteq> ci_sha i then Inl (CacheError [n, short_sha c, n]) else Inr (i, False)
       | None \<Rightarrow> Inr (i, False))))"

definition lc_add_name :: "cache_env \<Rightarrow> string \<Rightarrow> name \<Rightarrow> (store, cache_info) eff" where
  "lc_add_name E ident n =
     bindE (bindE (getE (add_name_read ident n)) liftR) (\<lambda>(i, known).
     if known then ret i else append_alias E (ci_sha i) i n None)"

definition lc_forget_name :: "cache_env \<Rightarrow> name \<Rightarrow> (store, cache_info) eff" where
  "lc_forget_name E n =
     bindE (bindE (getE (find_by_name n)) liftR) (\<lambda>r.
     case r of None \<Rightarrow> throw (CacheMissError [n])
     | Some i \<Rightarrow> let j = i\<lparr>ci_names := filter (\<lambda>a. a \<noteq> n) (ci_names i)\<rparr>
                 in seqE (write_sidecar E (ci_sha i) j) (ret j))"

subsection \<open>The invariant\<close>

text \<open>Every content file hashes to its name; every sidecar was written by the cache, for the entry it is named after,
  and the content of that entry is there.\<close>

definition certified :: "cache_env \<Rightarrow> store \<Rightarrow> bool" where
  "certified E s \<longleftrightarrow> (\<forall>k b. map_of (bins s) k = Some b \<longrightarrow> ce_sha256 E b = k)"

definition backed :: "store \<Rightarrow> bool" where
  "backed s \<longleftrightarrow> distinct (dkeys (sidecars s)) \<and>
     (\<forall>k d. map_of (sidecars s) k = Some d \<longrightarrow> map_of (bins s) k \<noteq> None \<and> (\<exists>i. d = Some (sidecar_body i) \<and> ci_sha i = k))"

definition cache_inv :: "cache_env \<Rightarrow> store \<Rightarrow> bool" where
  "cache_inv E s \<longleftrightarrow> certified E s \<and> backed s"

text \<open>The catalogue an observer reads: digest to entry.\<close>

definition entry :: "store \<Rightarrow> string \<Rightarrow> cache_info option" where
  "entry s k = (case map_of (sidecars s) k of None \<Rightarrow> None | Some d \<Rightarrow>
     (case read_sidecar d of Inl _ \<Rightarrow> None | Inr i \<Rightarrow> Some i))"

lemma bindE_getE [simp]: "bindE (getE f) g s = g (f s) s"
  by (simp add: bindE_def getE_def)

lemma bindE_liftR [simp]: "bindE (liftR r) g s = (case r of Inl e \<Rightarrow> (Inl e, s) | Inr x \<Rightarrow> g x s)"
  by (simp add: bindE_def liftR_def split: sum.split)

lemma map_result_JStr [simp]: "map_result as_str (map JStr ns) = Inr ns"
  by (induction ns) (simp_all add: as_str_def)

lemma map_result_id [simp]: "map_result id (map Inr xs) = Inr xs"
  by (induction xs) simp_all

lemma parse_body [simp]: "parse_info p (Some (sidecar_body i)) = Inr (i\<lparr>ci_path := p (ci_sha i)\<rparr>)"
  by (simp add: parse_info_def sidecar_body_def as_obj_def item_def get_def as_str_def as_int_def as_names_def as_list_def)

lemma sidecar_body_path [simp]: "sidecar_body (i\<lparr>ci_path := x\<rparr>) = sidecar_body i"
  by (simp add: sidecar_body_def)

lemma sidecar_body_inj: "sidecar_body i = sidecar_body j \<longleftrightarrow> i\<lparr>ci_path := None\<rparr> = j\<lparr>ci_path := None\<rparr>"
  by (metis parse_body [of "\<lambda>_. None"] sidecar_body_path sum.inject(2))

lemma backedD: "backed s \<Longrightarrow> map_of (sidecars s) k = Some d \<Longrightarrow> \<exists>i. d = Some (sidecar_body i) \<and> ci_sha i = k"
  by (simp add: backed_def)

lemma entry_sha: "backed s \<Longrightarrow> entry s k = Some i \<Longrightarrow> ci_sha i = k \<and> ci_path i = Some k"
  using backedD by (fastforce simp: entry_def split: option.splits)

lemma entry_sidecar: "backed s \<Longrightarrow> map_of (sidecars s) k = Some d \<Longrightarrow> \<exists>i. read_sidecar d = Inr i \<and> entry s k = Some i"
  using backedD by (fastforce simp: entry_def)

text \<open>A well-formed cache is iterated without an error, each entry once.\<close>

lemma iter_entries_backed:
  assumes "backed s"
  shows "\<exists>is. iter_entries s = map Inr is \<and> distinct (map ci_sha is) \<and> (\<forall>i. i \<in> set is \<longleftrightarrow> entry s (ci_sha i) = Some i) \<and>
    sorted (map (\<lambda>i. ci_sha i @ ''.json'') is)"
proof -
  let ?ps = "sort_key (\<lambda>(k, j). k @ ''.json'') (sidecars s)" and ?f = "\<lambda>(k, d). case read_sidecar d of Inr i \<Rightarrow> i | Inl e \<Rightarrow> undefined"
  have d: "distinct (dkeys (sidecars s))" using assms by (simp add: backed_def)
  have ok: "\<exists>i. v = Some (sidecar_body i) \<and> ci_sha i = k" if "(k, v) \<in> set ?ps" for k v
    using that backedD [OF assms] by (simp add: map_of_eq_Some_iff [OF d])
  have r: "(case p of (k, v) \<Rightarrow> read_sidecar v) = Inr (?f p) \<and> ci_sha (?f p) = fst p" if "p \<in> set ?ps" for p
    using ok [of "fst p" "snd p"] that by (cases p) auto
  have "iter_entries s = map Inr (map ?f ?ps)"
    unfolding iter_entries_def using r by (simp add: filter_id_conv comp_def cong: map_cong)
  moreover have "map ci_sha (map ?f ?ps) = map fst ?ps" using r by simp
  moreover have "map (\<lambda>i. ci_sha i @ ''.json'') (map ?f ?ps) = map (\<lambda>(k, j). k @ ''.json'') ?ps"
    using r by (simp add: case_prod_beta)
  then have "sorted (map (\<lambda>i. ci_sha i @ ''.json'') (map ?f ?ps))" by (simp only: sorted_sort_key)
  moreover have "distinct (map fst ?ps)" using d by (simp add: distinct_map)
  moreover have "i \<in> set (map ?f ?ps) \<longleftrightarrow> entry s (ci_sha i) = Some i" for i
  proof
    assume "i \<in> set (map ?f ?ps)"
    then obtain k v where p: "(k, v) \<in> set ?ps" and i: "i = ?f (k, v)" by auto
    then have "map_of (sidecars s) k = Some v" by (simp add: map_of_eq_Some_iff [OF d])
    with r [OF p] i show "entry s (ci_sha i) = Some i" by (auto simp: entry_def split: sum.splits)
  next
    assume e: "entry s (ci_sha i) = Some i"
    then obtain v where v: "map_of (sidecars s) (ci_sha i) = Some v" "read_sidecar v = Inr i"
      by (auto simp: entry_def split: option.splits sum.splits)
    then have "(ci_sha i, v) \<in> set ?ps" by (simp add: map_of_eq_Some_iff [OF d])
    then show "i \<in> set (map ?f ?ps)" using v(2) by (force intro: image_eqI [of _ _ "(ci_sha i, v)"])
  qed
  ultimately show ?thesis by metis
qed

subsection \<open>What the operations read\<close>

lemma first_named_map:
  "first_named n (map Inr is) = Inr (find (\<lambda>i. n \<in> set (ci_names i)) is)"
  by (induction "is") auto

lemma find_Some_set: "find P xs = Some x \<Longrightarrow> x \<in> set xs \<and> P x"
  by (induction xs) (auto split: if_splits)

lemma find_least:
  assumes "sorted (map f xs)" and "find P xs = Some x" and "y \<in> set xs" and "P y"
  shows "f x \<le> (f y :: 'b :: linorder)"
  using assms by (induction xs) (auto split: if_splits dest: find_Some_set)

lemma find_by_name_backed:
  assumes "backed s"
  shows "\<exists>r. find_by_name n s = Inr r \<and> (case r of None \<Rightarrow> \<forall>k i. entry s k = Some i \<longrightarrow> n \<notin> set (ci_names i)
     | Some i \<Rightarrow> entry s (ci_sha i) = Some i \<and> n \<in> set (ci_names i))"
proof -
  obtain xs where xs: "iter_entries s = map Inr xs" "\<And>i. i \<in> set xs \<longleftrightarrow> entry s (ci_sha i) = Some i"
    using iter_entries_backed [OF assms] by blast
  have "entry s k = Some i \<Longrightarrow> i \<in> set xs" for k i using entry_sha [OF assms] xs(2) by blast
  moreover have "find_by_name n s = Inr (find (\<lambda>i. n \<in> set (ci_names i)) xs)" by (simp add: find_by_name_def xs(1) first_named_map)
  ultimately show ?thesis
    using xs(2) by (cases "find (\<lambda>i. n \<in> set (ci_names i)) xs") (auto simp: find_None_iff dest: find_Some_set)
qed

lemma lc_resolve_by_name:
  "id' \<noteq> [] \<Longrightarrow> \<not> looks_like_sha id' \<Longrightarrow> lc_resolve id' s =
     bindR (find_by_name id' s) (\<lambda>r. case r of None \<Rightarrow> Inl (CacheMissError [id']) | Some i \<Rightarrow> Inr i)"
  by (simp add: lc_resolve_def CacheEntry_def find_by_name_def)

lemma filter_sha_unique:
  assumes "distinct (map ci_sha xs)" and "filter P xs = [i]" and "j \<in> set xs" and "P j"
  shows "j = i"
proof -
  have "set (filter P xs) = set [i]" by (simp only: assms(2))
  then show ?thesis using assms(3,4) by auto
qed

lemma singleton_list: "distinct xs \<Longrightarrow> set xs = {x} \<Longrightarrow> xs = [x]"
  by (cases xs rule: remdups_adj.cases) auto

lemma case_singleton: "(case ms of [] \<Rightarrow> Inl a | [j] \<Rightarrow> Inr j | x # y # zs \<Rightarrow> Inl (b x y zs)) = Inr i \<longleftrightarrow> ms = [i]"
  by (cases ms rule: remdups_adj.cases) simp_all

text \<open>A reference to a digest is a prefix of exactly one entry.\<close>

lemma lc_resolve_by_sha:
  assumes "backed s" and "looks_like_sha id'"
  shows "lc_resolve id' s = Inr i \<longleftrightarrow>
    entry s (ci_sha i) = Some i \<and> startswith (ci_sha i) id' \<and> (\<forall>k. entry s k \<noteq> None \<and> startswith k id' \<longrightarrow> k = ci_sha i)"
    (is "?l \<longleftrightarrow> ?r")
proof -
  have ne: "id' \<noteq> []" using assms(2) by (auto simp: looks_like_sha_def dollar_def)
  obtain xs where xs: "iter_entries s = map Inr xs" "distinct (map ci_sha xs)" "\<And>i. i \<in> set xs \<longleftrightarrow> entry s (ci_sha i) = Some i"
    using iter_entries_backed [OF assms(1)] by blast
  let ?ms = "filter (\<lambda>i. startswith (ci_sha i) id') xs"
  have k: "entry s k \<noteq> None \<longleftrightarrow> (\<exists>j \<in> set xs. ci_sha j = k)" for k
    by (metis entry_sha [OF assms(1)] not_None_eq xs(3))
  have "lc_resolve id' s = (case ?ms of [] \<Rightarrow> Inl (CacheMissError [id']) | [i] \<Rightarrow> Inr i | ms \<Rightarrow> Inl (CacheError (id' # map short_sha ms)))"
    using assms(2) ne by (simp add: lc_resolve_def CacheEntry_def list_entries_def xs(1))
  then have l: "?l \<longleftrightarrow> ?ms = [i]" by (simp only: case_singleton)
  show ?thesis unfolding l
  proof
    assume m: "?ms = [i]"
    then have "i \<in> set ?ms" by simp
    then show ?r using filter_sha_unique [OF xs(2) m] xs(3) k by auto
  next
    assume r: ?r
    have "x = i" if "x \<in> set ?ms" for x
    proof -
      have x: "x \<in> set xs" "startswith (ci_sha x) id'" using that by simp_all
      then have "ci_sha x = ci_sha i" using r k by blast
      moreover have "entry s (ci_sha x) = Some x" using x(1) xs(3) by blast
      ultimately show ?thesis using r by (metis option.inject)
    qed
    moreover have "i \<in> set ?ms" using r xs(3) by simp
    ultimately have "set ?ms = {i}" by blast
    moreover have "distinct ?ms" using xs(2) by (simp add: distinct_map)
    ultimately show "?ms = [i]" by (intro singleton_list)
  qed
qed

lemma lc_resolve_entry:
  assumes "backed s" and "lc_resolve id' s = Inr i"
  shows "entry s (ci_sha i) = Some i"
proof -
  have ne: "id' \<noteq> []" using assms(2) by (auto simp: lc_resolve_def CacheEntry_def)
  show ?thesis
  proof (cases "looks_like_sha id'")
    case True
    then show ?thesis using lc_resolve_by_sha assms by blast
  next
    case False
    then show ?thesis using assms(2) find_by_name_backed [OF assms(1), of id']
      by (auto simp: lc_resolve_by_name [OF ne] split: option.splits)
  qed
qed

lemma list_entries_backed: "backed s \<Longrightarrow> \<exists>is. list_entries s = Inr is \<and> (\<forall>i. i \<in> set is \<longleftrightarrow> entry s (ci_sha i) = Some i)"
  using iter_entries_backed [of s] by (auto simp: list_entries_def)

subsection \<open>Preservation\<close>

lemma inv_tick [simp]: "cache_inv E (s\<lparr>st_tick := n\<rparr>) = cache_inv E s" "backed (s\<lparr>st_tick := n\<rparr>) = backed s"
  by (simp_all add: cache_inv_def certified_def backed_def)

lemma inv_backed: "cache_inv E s \<Longrightarrow> backed s"
  by (simp add: cache_inv_def)

lemma entry_bin: "backed s \<Longrightarrow> entry s k = Some i \<Longrightarrow> map_of (bins s) k \<noteq> None"
  by (auto simp: backed_def entry_def split: option.splits)

lemma snd_fsop: "P (s\<lparr>st_tick := Suc (st_tick s)\<rparr>) \<Longrightarrow> P (f (s\<lparr>st_tick := Suc (st_tick s)\<rparr>)) \<Longrightarrow> P (snd (fsop E f s))"
  by (simp add: fsop_def Let_def split: option.split fault.split)

lemma fsop_Inr: "fsop E f s = (Inr u, s') \<Longrightarrow> s' = f (s\<lparr>st_tick := Suc (st_tick s)\<rparr>)"
  by (auto simp: fsop_def Let_def split: option.splits fault.splits)

lemma inv_put_bin: "cache_inv E s \<Longrightarrow> ce_sha256 E b = k \<Longrightarrow> cache_inv E (snd (put_bin E k b s))"
  unfolding put_bin_def by (rule snd_fsop) (auto simp: cache_inv_def certified_def backed_def update_conv')

lemma inv_write_sidecar:
  "cache_inv E s \<Longrightarrow> ci_sha i = k \<Longrightarrow> map_of (bins s) k \<noteq> None \<Longrightarrow> cache_inv E (snd (write_sidecar E k i s))"
  unfolding write_sidecar_def
  by (rule snd_fsop) (auto simp: cache_inv_def certified_def backed_def update_conv' distinct_update)

lemma inv_unlink_sidecar: "cache_inv E s \<Longrightarrow> cache_inv E (snd (unlink_sidecar E k s))"
  unfolding unlink_sidecar_def
  by (rule snd_fsop) (auto simp: cache_inv_def certified_def backed_def delete_conv' distinct_delete)

lemma inv_unlink_bin: "cache_inv E s \<Longrightarrow> map_of (sidecars s) k = None \<Longrightarrow> cache_inv E (snd (unlink_bin E k s))"
  unfolding unlink_bin_def
  by (rule snd_fsop) (auto simp: cache_inv_def certified_def backed_def delete_conv')

lemma snd_seqE: "P (snd (m s)) \<Longrightarrow> (\<And>u s'. m s = (Inr u, s') \<Longrightarrow> P (snd (n s'))) \<Longrightarrow> P (snd (seqE m n s))"
  unfolding seqE_def bindE_def by (auto split: prod.split sum.split)

lemma snd_bindE: "P (snd (m s)) \<Longrightarrow> (\<And>u s'. m s = (Inr u, s') \<Longrightarrow> P (snd (f u s'))) \<Longrightarrow> P (snd (bindE m f s))"
  unfolding bindE_def by (auto split: prod.split sum.split)

lemma snd_seq_ret [simp]: "snd (seqE m (ret x) s) = snd (m s)" "snd (ret x s) = s" "snd (throw e s) = s"
  by (auto simp: seqE_def bindE_def ret_def throw_def split: prod.split sum.split)

lemma inv_drop_files: "cache_inv E s \<Longrightarrow> cache_inv E (snd (drop_files E i s))"
  unfolding drop_files_def
  by (rule snd_seqE) (auto simp: unlink_sidecar_def delete_conv' dest!: fsop_Inr intro!: inv_unlink_sidecar [unfolded unlink_sidecar_def] inv_unlink_bin,
      auto simp: cache_inv_def certified_def backed_def delete_conv' distinct_delete)

lemma inv_lc_copy: "cache_inv E s \<Longrightarrow> cache_inv E (snd (lc_copy E l b s))"
  by (simp add: lc_copy_def Let_def inv_put_bin)

lemma inv_append_alias:
  "cache_inv E s \<Longrightarrow> ci_sha i = k \<Longrightarrow> map_of (bins s) k \<noteq> None \<Longrightarrow> cache_inv E (snd (append_alias E k i n d s))"
  by (simp add: append_alias_def Let_def inv_write_sidecar)

lemma inv_sidecar: "cache_inv E s \<Longrightarrow> map_of (sidecars s) k = Some j \<Longrightarrow>
  \<exists>i. read_sidecar j = Inr i \<and> ci_sha i = k \<and> map_of (bins s) k \<noteq> None"
  by (fastforce simp: cache_inv_def backed_def)

lemma inv_lc_record: "cache_inv E s \<Longrightarrow> cache_inv E (snd (lc_record E og sha n d s))"
  using inv_sidecar [of E s sha]
  by (auto simp: lc_record_def Let_def inv_append_alias inv_write_sidecar split: option.split)

lemma snd_lc_source [simp]: "snd (lc_source E src s) = s"
  by (auto simp: lc_source_def Let_def liftR_def split: option.split sum.split)

lemma keeps_prod [eff_intros]: "(\<And>a b. p = (a, b) \<Longrightarrow> keeps P (f a b)) \<Longrightarrow> keeps P (case p of (a, b) \<Rightarrow> f a b)"
  by (cases p) simp

lemma lc_source_same: "lc_source E src s = (r, t) \<Longrightarrow> t = s"
  using snd_lc_source [of E src s] by simp

lemma inv_lc_add: "cache_inv E s \<Longrightarrow> cache_inv E (snd (lc_add E src n d s))"
proof (rule keepsD)
  have k: "keeps (cache_inv E) (lc_copy E l b)" "keeps (cache_inv E) (lc_record E og sha n d)" "keeps (cache_inv E) (lc_source E src)" for l b og sha
    by (simp_all add: keeps_def inv_lc_copy inv_lc_record)
  show "keeps (cache_inv E) (lc_add E src n d)" unfolding lc_add_def by (intro eff_intros k)
qed

text \<open>An operation that starts by reading the directory.\<close>

lemma bindE_read [simp]: "bindE (bindE (getE f) liftR) g s = (case f s of Inl e \<Rightarrow> (Inl e, s) | Inr x \<Rightarrow> g x s)"
  by (simp add: bindE_def getE_def liftR_def split: sum.split)

lemma inv_write_materialized:
  "cache_inv E s \<Longrightarrow> map_of (bins s) (ci_sha i) \<noteq> None \<Longrightarrow> cache_inv E (snd (write_materialized_sidecar E i s))"
  using inv_sidecar [of E s "ci_sha i"]
  by (auto simp: write_materialized_sidecar_def Let_def inv_write_sidecar split: option.split)

lemma inv_lc_delete: "cache_inv E s \<Longrightarrow> cache_inv E (snd (lc_delete E id' s))"
  by (simp add: lc_delete_def inv_drop_files split: sum.split)

lemma inv_forE_drop: "cache_inv E s \<Longrightarrow> cache_inv E (snd (forE (drop_files E) is s))"
  by (rule keepsD [OF keeps_forE]) (auto simp: keeps_def inv_drop_files)

lemma inv_lc_purge: "cache_inv E s \<Longrightarrow> cache_inv E (snd (lc_purge E s))"
  by (simp add: lc_purge_def inv_forE_drop split: sum.split)

lemma add_name_read_entry: "backed s \<Longrightarrow> add_name_read id' n s = Inr (i, known) \<Longrightarrow> entry s (ci_sha i) = Some i"
  by (auto simp: add_name_read_def result_simps lc_resolve_entry split: if_splits option.splits)

lemma inv_rewrite:
  "cache_inv E s \<Longrightarrow> entry s k = Some i \<Longrightarrow> ci_sha j = k \<Longrightarrow> cache_inv E (snd (write_sidecar E k j s))"
  using inv_backed entry_bin inv_write_sidecar by blast

lemma inv_lc_add_name: "cache_inv E s \<Longrightarrow> cache_inv E (snd (lc_add_name E id' n s))"
  using add_name_read_entry [OF inv_backed, of E s id' n]
  by (auto simp: lc_add_name_def append_alias_def Let_def split: sum.split intro!: inv_rewrite)

lemma inv_lc_forget_name: "cache_inv E s \<Longrightarrow> cache_inv E (snd (lc_forget_name E n s))"
  using find_by_name_backed [OF inv_backed, of E s n]
  by (auto simp: lc_forget_name_def Let_def split: option.split intro!: inv_rewrite)

subsection \<open>What the operations write\<close>

lemma entry_simps [simp]:
  "entry (s\<lparr>st_tick := t\<rparr>) = entry s" "entry (s\<lparr>bins := b\<rparr>) = entry s"
  "entry (s\<lparr>sidecars := AList.update k (Some (sidecar_body i)) (sidecars s)\<rparr>) = (entry s)(k \<mapsto> i\<lparr>ci_path := Some (ci_sha i)\<rparr>)"
  "entry (s\<lparr>sidecars := AList.delete k (sidecars s)\<rparr>) = (entry s)(k := None)"
  by (auto simp: entry_def fun_eq_iff update_conv' delete_conv')

lemma seqE_Inr: "seqE m n s = (Inr x, s') \<longleftrightarrow> (\<exists>u t. m s = (Inr u, t) \<and> n t = (Inr x, s'))"
  by (auto simp: seqE_def bindE_def split: prod.splits sum.splits)

lemma bindE_Inr_iff: "bindE m f s = (Inr x, s') \<longleftrightarrow> (\<exists>u t. m s = (Inr u, t) \<and> f u t = (Inr x, s'))"
  by (auto simp: bindE_def split: prod.splits sum.splits)

lemma ret_Inr [simp]: "ret x s = (Inr y, s') \<longleftrightarrow> y = x \<and> s' = s" "throw e s = (Inr y, s') \<longleftrightarrow> False"
  by (auto simp: ret_def throw_def)

lemma write_sidecar_Inr:
  assumes "write_sidecar E k i s = (Inr u, s')"
  shows "entry s' = (entry s)(k \<mapsto> i\<lparr>ci_path := Some (ci_sha i)\<rparr>) \<and> bins s' = bins s"
  using fsop_Inr [OF assms [unfolded write_sidecar_def]] by (auto simp: entry_def update_conv')

lemma self_path: "ci_path i = Some k \<Longrightarrow> i\<lparr>ci_path := Some k\<rparr> = i"
  by simp

lemma append_alias_Inr:
  assumes "append_alias E k i n d s = (Inr j, s')" and "ci_sha i = k" and "ci_path i = Some k"
  shows "entry s' = (entry s)(k \<mapsto> j)" "bins s' = bins s" "ci_sha j = k" "ci_path j = Some k" "ci_names j = ci_names i @ [n]"
  using assms by (auto simp: append_alias_def Let_def seqE_Inr dest!: write_sidecar_Inr)

text \<open>Recording an entry: the names it had are kept, the new one is added.\<close>

lemma lc_record_Inr:
  assumes "cache_inv E s" and "lc_record E og k n d s = (Inr i, s')"
  shows "entry s' = (entry s)(k \<mapsto> i)" "bins s' = bins s" "ci_sha i = k"
    "set (ci_names i) = (case entry s k of None \<Rightarrow> {} | Some j \<Rightarrow> set (ci_names j)) \<union> (case n of None \<Rightarrow> {} | Some a \<Rightarrow> if a = [] then {} else {a})"
proof -
  have "entry s' = (entry s)(k \<mapsto> i) \<and> bins s' = bins s \<and> ci_sha i = k \<and>
    set (ci_names i) = (case entry s k of None \<Rightarrow> {} | Some j \<Rightarrow> set (ci_names j)) \<union> (case n of None \<Rightarrow> {} | Some a \<Rightarrow> if a = [] then {} else {a})"
  proof (cases "map_of (sidecars s) k")
    case None
    then have "entry s k = None" by (simp add: entry_def)
    then show ?thesis using assms(2) None
      by (auto simp: lc_record_def Let_def seqE_Inr split: option.splits dest!: write_sidecar_Inr)
  next
    case (Some v)
    then obtain j where j: "read_sidecar v = Inr j" "entry s k = Some j" using entry_sidecar inv_backed assms(1) by blast
    then have jk: "ci_sha j = k" "ci_path j = Some k" using entry_sha inv_backed assms(1) by blast+
    have r: "(case n of None \<Rightarrow> ret j | Some a \<Rightarrow> if a \<noteq> [] \<and> a \<notin> set (ci_names j) then append_alias E k j a d else ret j) s = (Inr i, s')"
      using assms(2) j by (simp add: lc_record_def Some)
    show ?thesis
    proof (cases "\<exists>a. n = Some a \<and> a \<noteq> [] \<and> a \<notin> set (ci_names j)")
      case True
      then obtain a where a: "n = Some a" "a \<noteq> []" "a \<notin> set (ci_names j)" by blast
      then show ?thesis using r append_alias_Inr [OF _ jk, of E a d s i s'] j(2) by auto
    next
      case False
      then have "i = j" "s' = s" using r by (auto split: option.splits if_splits)
      then show ?thesis using False j(2) jk by (auto split: option.splits)
    qed
  qed
  then show "entry s' = (entry s)(k \<mapsto> i)" "bins s' = bins s" "ci_sha i = k"
    "set (ci_names i) = (case entry s k of None \<Rightarrow> {} | Some j \<Rightarrow> set (ci_names j)) \<union> (case n of None \<Rightarrow> {} | Some a \<Rightarrow> if a = [] then {} else {a})"
    by blast+
qed

lemma entry_lc_copy [simp]: "entry (snd (lc_copy E l b s)) = entry s"
  by (simp add: lc_copy_def Let_def put_bin_def fsop_def split: option.split fault.split)

lemma lc_add_Inr:
  assumes "cache_inv E s" and "lc_add E src n d s = (Inr i, s')"
  shows "entry s' = (entry s)(ci_sha i \<mapsto> i) \<and> (\<forall>a. n = Some a \<longrightarrow> a \<noteq> [] \<and> a \<in> set (ci_names i))"
proof -
  obtain l og b t where t: "lc_copy E l b s = (Inr (), t)" and r: "lc_record E og (ce_sha256 E b) n d t = (Inr i, s')"
    and v: "\<forall>a. n = Some a \<longrightarrow> cache_validate_name a = Inr ()"
    using assms(2)
    by (auto simp: lc_add_def seqE_Inr bindE_Inr_iff liftR_def split: option.splits dest!: lc_source_same)
  have "a \<noteq> []" if "n = Some a" for a using v that by (auto simp: cache_validate_name_def result_simps)
  moreover have "entry t = entry s" using entry_lc_copy [of E l b s] t by simp
  moreover have "cache_inv E t" using inv_lc_copy [OF assms(1), of l b] t by simp
  ultimately show ?thesis using lc_record_Inr [OF _ r] by (cases n) auto
qed

subsection \<open>The contract of a cache\<close>

text \<open>What a client of a cache relies on, for either tier arrangement: an operation that returns an entry has entered it
  under its digest with the name asked for, entries have content that hashes to the digest, and a name that is no digest
  finds an entry that carries it when there is one.\<close>

locale catalogue =
  fixes inv :: "'w \<Rightarrow> bool"
    and view :: "'w \<Rightarrow> store"
    and add :: "string \<Rightarrow> name option \<Rightarrow> string option \<Rightarrow> ('w, cache_info) eff"
    and lookup :: "string \<Rightarrow> ('w, cache_info) eff"
    and digest :: "bytes \<Rightarrow> string"
  assumes add_inv: "inv w \<Longrightarrow> inv (snd (add src n d w))"
    and add_entry: "inv w \<Longrightarrow> add src n d w = (Inr i, w') \<Longrightarrow>
      entry (view w') = (entry (view w))(ci_sha i \<mapsto> i) \<and> (\<forall>a. n = Some a \<longrightarrow> a \<noteq> [] \<and> a \<in> set (ci_names i))"
    and content: "inv w \<Longrightarrow> entry (view w) k = Some i \<Longrightarrow> ci_sha i = k \<and> (\<exists>b. map_of (bins (view w)) k = Some b \<and> digest b = k)"
    and lookup_hit: "inv w \<Longrightarrow> m \<noteq> [] \<Longrightarrow> \<not> looks_like_sha m \<Longrightarrow> entry (view w) k = Some i \<Longrightarrow> m \<in> set (ci_names i) \<Longrightarrow>
      \<exists>j. lookup m w = (Inr j, w) \<and> entry (view w) (ci_sha j) = Some j \<and> m \<in> set (ci_names j)"
begin

lemma add_then_lookup:
  assumes "inv w" and "add src (Some n) d w = (Inr i, w')" and "\<not> looks_like_sha n"
    and fresh: "\<And>k j. entry (view w) k = Some j \<Longrightarrow> n \<in> set (ci_names j) \<Longrightarrow> k = ci_sha i"
  shows "lookup n w' = (Inr i, w') \<and> (\<exists>b. map_of (bins (view w')) (ci_sha i) = Some b \<and> digest b = ci_sha i)"
proof -
  have i: "inv w'" using add_inv [OF assms(1), of src "Some n" d] assms(2) by simp
  have e: "entry (view w') = (entry (view w))(ci_sha i \<mapsto> i)" "n \<noteq> []" "n \<in> set (ci_names i)"
    using add_entry [OF assms(1,2)] by auto
  have hit: "entry (view w') (ci_sha i) = Some i" by (simp add: e(1))
  obtain j where j: "lookup n w' = (Inr j, w')" "entry (view w') (ci_sha j) = Some j" "n \<in> set (ci_names j)"
    using lookup_hit [OF i e(2) assms(3) hit e(3)] by blast
  have "j = i"
  proof (cases "ci_sha j = ci_sha i")
    case True
    then show ?thesis using j(2) hit by (metis option.inject)
  next
    case False
    then have "entry (view w) (ci_sha j) = Some j" using j(2) by (simp add: e(1))
    then show ?thesis using fresh j(3) False by blast
  qed
  then show ?thesis using j(1) content [OF i hit] by simp
qed

end

interpretation lc: catalogue "cache_inv E" id "lc_add E" "\<lambda>ident s. (lc_resolve ident s, s)" "ce_sha256 E"
proof (unfold_locales, goal_cases)
  case (1 w src n d)
  then show ?case by (rule inv_lc_add)
next
  case (2 w src n d i w')
  then show ?case using lc_add_Inr by simp
next
  case (3 w k i)
  then show ?case using entry_sha [OF inv_backed, of E w k i] entry_bin [OF inv_backed, of E w k i]
    by (auto simp: cache_inv_def certified_def)
next
  case (4 w n k i)
  then show ?case using find_by_name_backed [OF inv_backed [OF 4(1)], of n]
    by (auto simp: lc_resolve_by_name split: option.splits)
qed

subsection \<open>Interleavings\<close>

text \<open>The sections of \<^verbatim>\<open>add\<close> that other threads do not interrupt.\<close>

datatype add_section = Copy location bytes | Record string string "name option" "string option"

fun run_section :: "cache_env \<Rightarrow> add_section \<Rightarrow> store \<Rightarrow> store" where
  "run_section E (Copy l b) s = snd (lc_copy E l b s)"
| "run_section E (Record og k n d) s = snd (lc_record E og k n d s)"

definition run_sections :: "cache_env \<Rightarrow> add_section list \<Rightarrow> store \<Rightarrow> store" where
  "run_sections E xs s = fold (run_section E) xs s"

definition has_alias :: "string \<Rightarrow> name \<Rightarrow> store \<Rightarrow> bool" where
  "has_alias k n s \<longleftrightarrow> (case entry s k of None \<Rightarrow> False | Some i \<Rightarrow> n \<in> set (ci_names i))"

lemma has_alias_simps [simp]:
  "has_alias k n (s\<lparr>st_tick := t\<rparr>) = has_alias k n s" "has_alias k n (s\<lparr>bins := b\<rparr>) = has_alias k n s"
  by (simp_all add: has_alias_def)

lemma write_keeps_alias:
  "has_alias k n s \<Longrightarrow> (k' = k \<longrightarrow> n \<in> set (ci_names i)) \<Longrightarrow> has_alias k n (snd (write_sidecar E k' i s))"
  unfolding write_sidecar_def by (rule snd_fsop) (auto simp: has_alias_def entry_def update_conv')

lemma section_keeps:
  "cache_inv E s \<and> has_alias k n s \<Longrightarrow> cache_inv E (run_section E x s) \<and> has_alias k n (run_section E x s)"
proof (cases x)
  case (Copy l b)
  then show "cache_inv E s \<and> has_alias k n s \<Longrightarrow> ?thesis" by (simp add: inv_lc_copy has_alias_def)
next
  case (Record og k' m d)
  assume a: "cache_inv E s \<and> has_alias k n s"
  have "has_alias k n (snd (lc_record E og k' m d s))"
  proof (cases "map_of (sidecars s) k'")
    case None
    then have "k' \<noteq> k" using a by (auto simp: has_alias_def entry_def)
    then show ?thesis using a None by (auto simp: lc_record_def Let_def write_keeps_alias split: option.split)
  next
    case (Some v)
    then obtain j where j: "read_sidecar v = Inr j" "entry s k' = Some j" using entry_sidecar inv_backed a by blast
    then have "k' = k \<longrightarrow> n \<in> set (ci_names j)" using a by (auto simp: has_alias_def)
    then show ?thesis using a j Some by (auto simp: lc_record_def append_alias_def Let_def write_keeps_alias split: option.split)
  qed
  then show ?thesis using a Record by (simp add: inv_lc_record)
qed

lemma sections_keep: "cache_inv E s \<Longrightarrow> has_alias k n s \<Longrightarrow> has_alias k n (run_sections E xs s)"
  unfolding run_sections_def
proof (induction xs arbitrary: s)
  case (Cons x xs)
  then show ?case using section_keeps [of E s k n x] by simp
qed simp

subsection \<open>Properties\<close>

lemma inv_empty_store: "cache_inv E empty_store"
  by (simp add: cache_inv_def certified_def backed_def empty_store_def)

definition sample_cache_env :: cache_env where
  "sample_cache_env = \<lparr>ce_sha256 = id, ce_isos = ''/c/isos'', ce_locate = Host,
     ce_host_file = (\<lambda>p. if p = ''/a.iso'' then Some ''aa'' else if p = ''/b.iso'' then Some ''bb'' else None),
     ce_download = (\<lambda>_. Inl (OSError [])), ce_clock = (\<lambda>_. ''t''), ce_fault = (\<lambda>_. None)\<rparr>"

definition sample_info :: "string \<Rightarrow> name list \<Rightarrow> cache_info" where
  "sample_info k ns = \<lparr>ci_sha = k, ci_size = 2, ci_names = ns, ci_origin = Some (if k = ''aa'' then ''/a.iso'' else ''/b.iso''),
     ci_added_at = ''t'', ci_description = None, ci_path = Some k\<rparr>"

definition sample_store :: store where
  "sample_store = \<lparr>bins = [(''aa'', ''aa'')], sidecars = [(''aa'', Some (sidecar_body (sample_info ''aa'' [''deb''])))], st_tick = 2\<rparr>"

lemma sample_add: "lc_add sample_cache_env ''/a.iso'' (Some ''deb'') None empty_store = (Inr (sample_info ''aa'' [''deb'']), sample_store)"
  by code_simp

lemma sample_store_inv: "cache_inv sample_cache_env sample_store"
  using inv_lc_add [OF inv_empty_store, of sample_cache_env "''/a.iso''" "Some ''deb''" None] by (simp add: sample_add)

text \<open>C25: concurrent adds of one content never lose an alias: once the locked section of an \<^verbatim>\<open>add\<close> has recorded a name
  for a digest, the entry still carries it after any interleaving of the sections of other adds, whichever of their
  disk writes fail and wherever.\<close>

theorem locked_adds_keep_aliases:
  assumes "cache_inv E s" and "lc_record E og k (Some n) d s = (Inr i, s')" and "n \<noteq> []"
  shows "has_alias k n (run_sections E xs s')"
proof (rule sections_keep)
  show "cache_inv E s'" using inv_lc_record [OF assms(1), of og k "Some n" d] assms(2) by simp
  show "has_alias k n s'" using lc_record_Inr [OF assms(1,2)] assms(3) by (simp add: has_alias_def)
qed

theorem locked_adds_keep_aliases_witness:
  "has_alias ''aa'' ''web'' (run_sections sample_cache_env [Copy (Host ''/b.iso'') ''bb'', Record ''/a.iso'' ''aa'' (Some ''db'') None]
     (snd (lc_record sample_cache_env ''/a.iso'' ''aa'' (Some ''web'') None sample_store)))"
proof -
  have "fst (lc_record sample_cache_env ''/a.iso'' ''aa'' (Some ''web'') None sample_store) = Inr (sample_info ''aa'' [''deb'', ''web''])"
    by code_simp
  then obtain s' where "lc_record sample_cache_env ''/a.iso'' ''aa'' (Some ''web'') None sample_store = (Inr (sample_info ''aa'' [''deb'', ''web'']), s')"
    by (metis prod.collapse)
  from locked_adds_keep_aliases [OF sample_store_inv this] this show ?thesis by simp
qed

text \<open>\<^verbatim>\<open>add_name\<close> does not take the write lock. If between its read and its write another thread records a
  second alias for the same content, the write puts back the names as read, and the recorded alias is gone. The class
  says that every mutating method, the renaming ones included, takes the lock around its read-modify-write.\<close>

theorem unlocked_rename_loses_alias:
  assumes "cache_inv E s" and "add_name_read ident a s = Inr (i, False)"
    and "lc_record E og (ci_sha i) (Some b) d s = (Inr j, s1)" and "b \<noteq> []" "b \<noteq> a" "b \<notin> set (ci_names i)"
    and "append_alias E (ci_sha i) i a None s1 = (Inr x, s2)"
  shows "has_alias (ci_sha i) b s1 \<and> has_alias (ci_sha i) a s2 \<and> \<not> has_alias (ci_sha i) b s2"
proof -
  have i: "entry s (ci_sha i) = Some i" using add_name_read_entry inv_backed assms(1,2) by blast
  then have "ci_path i = Some (ci_sha i)" using entry_sha inv_backed assms(1) by blast
  from append_alias_Inr [OF assms(7) refl this] have "entry s2 (ci_sha i) = Some x" "ci_names x = ci_names i @ [a]" by simp_all
  moreover have "has_alias (ci_sha i) b s1" using lc_record_Inr [OF assms(1,3)] assms(4) by (simp add: has_alias_def)
  ultimately show ?thesis using assms(5,6) by (simp add: has_alias_def)
qed

theorem unlocked_rename_loses_alias_witness:
  "\<exists>s1 s2. has_alias ''aa'' ''db'' s1 \<and> has_alias ''aa'' ''web'' s2 \<and> \<not> has_alias ''aa'' ''db'' s2"
proof -
  let ?i = "sample_info ''aa'' [''deb'']"
  have r: "add_name_read ''deb'' ''web'' sample_store = Inr (?i, False)" by code_simp
  have "fst (lc_record sample_cache_env ''/a.iso'' (ci_sha ?i) (Some ''db'') None sample_store) = Inr (sample_info ''aa'' [''deb'', ''db''])"
    by code_simp
  then obtain s1 where w1: "lc_record sample_cache_env ''/a.iso'' (ci_sha ?i) (Some ''db'') None sample_store = (Inr (sample_info ''aa'' [''deb'', ''db'']), s1)"
    by (metis prod.collapse)
  have "\<exists>x s2. append_alias sample_cache_env (ci_sha ?i) ?i ''web'' None s1 = (Inr x, s2)"
    by (simp add: append_alias_def seqE_def write_sidecar_def fsop_def sample_cache_env_def bindE_def Let_def ret_def)
  then obtain x s2 where w2: "append_alias sample_cache_env (ci_sha ?i) ?i ''web'' None s1 = (Inr x, s2)" by blast
  from unlocked_rename_loses_alias [OF sample_store_inv r w1 _ _ _ w2]
  show ?thesis by (auto simp: sample_info_def)
qed

text \<open>A name can come to belong to two entries. \<^verbatim>\<open>add\<close> enters new content under a name that another
  entry already carries, which \<^verbatim>\<open>add_name\<close> refuses; afterwards the name resolves to the entry whose digest sorts
  first, whether it is the old or the new one.\<close>

theorem add_shares_a_taken_name:
  assumes "cache_inv E s" and "entry s k = Some i" and "n \<in> set (ci_names i)" and "\<not> looks_like_sha n"
    and "lc_add E src (Some n) d s = (Inr j, s')" and "ci_sha j \<noteq> k"
    and "\<forall>k' x. entry s k' = Some x \<longrightarrow> n \<in> set (ci_names x) \<longrightarrow> k' = k"
  shows "lc_resolve n s' = Inr (if ci_sha j @ ''.json'' \<le> k @ ''.json'' then j else i)"
proof -
  have s': "cache_inv E s'" using inv_lc_add [OF assms(1), of src "Some n" d] assms(5) by simp
  have e: "entry s' = (entry s)(ci_sha j \<mapsto> j)" "n \<noteq> []" "n \<in> set (ci_names j)" using lc_add_Inr [OF assms(1,5)] by auto
  have ik: "ci_sha i = k" using entry_sha inv_backed assms(1,2) by blast
  obtain xs where xs: "iter_entries s' = map Inr xs" "\<And>i. i \<in> set xs \<longleftrightarrow> entry s' (ci_sha i) = Some i"
    "sorted (map (\<lambda>i. ci_sha i @ ''.json'') xs)" using iter_entries_backed [OF inv_backed [OF s']] by blast
  have in_xs: "i \<in> set xs" "j \<in> set xs" using assms(2,6) ik by (auto simp: xs(2) e(1))
  have two: "x = i \<or> x = j" if x: "x \<in> set xs" "n \<in> set (ci_names x)" for x
  proof (cases "ci_sha x = ci_sha j")
    case True
    then show ?thesis using x(1) by (simp add: xs(2) e(1))
  next
    case False
    then have "entry s (ci_sha x) = Some x" using x(1) by (simp add: xs(2) e(1))
    then show ?thesis using assms(2,7) x(2) by fastforce
  qed
  obtain x where f: "find (\<lambda>i. n \<in> set (ci_names i)) xs = Some x"
    using in_xs(2) e(3) by (cases "find (\<lambda>i. n \<in> set (ci_names i)) xs") (auto simp: find_None_iff)
  have least: "ci_sha x @ ''.json'' \<le> ci_sha y @ ''.json''" if "y \<in> set xs" "n \<in> set (ci_names y)" for y
    using find_least [OF xs(3) f that] .
  have "x = i \<or> x = j" using two find_Some_set [OF f] by blast
  then have "x = (if ci_sha j @ ''.json'' \<le> k @ ''.json'' then j else i)"
    using least [OF in_xs(1) assms(3)] least [OF in_xs(2) e(3)] assms(6) ik by auto
  then show ?thesis by (simp add: lc_resolve_by_name [OF e(2) assms(4)] find_by_name_def xs(1) first_named_map f)
qed

theorem add_shares_a_taken_name_witness:
  "lc_resolve ''deb'' (snd (lc_add sample_cache_env ''/b.iso'' (Some ''deb'') None sample_store)) = Inr (sample_info ''aa'' [''deb''])"
proof -
  have e: "entry sample_store = [''aa'' \<mapsto> sample_info ''aa'' [''deb'']]"
    by (auto simp: entry_def sample_store_def fun_eq_iff sample_info_def)
  have l: "\<not> looks_like_sha ''deb''" by code_simp
  have "fst (lc_add sample_cache_env ''/b.iso'' (Some ''deb'') None sample_store) = Inr (sample_info ''bb'' [''deb''])" by code_simp
  then obtain s' where s': "lc_add sample_cache_env ''/b.iso'' (Some ''deb'') None sample_store = (Inr (sample_info ''bb'' [''deb'']), s')"
    by (metis prod.collapse)
  have p: "entry sample_store ''aa'' = Some (sample_info ''aa'' [''deb''])" "''deb'' \<in> set (ci_names (sample_info ''aa'' [''deb'']))"
    "ci_sha (sample_info ''bb'' [''deb'']) \<noteq> ''aa''"
    "\<forall>k' x. entry sample_store k' = Some x \<longrightarrow> ''deb'' \<in> set (ci_names x) \<longrightarrow> k' = ''aa''"
    unfolding e by (simp_all add: sample_info_def)
  have "\<not> ci_sha (sample_info ''bb'' [''deb'']) @ ''.json'' \<le> ''aa'' @ ''.json''" by code_simp
  then have "lc_resolve ''deb'' s' = Inr (sample_info ''aa'' [''deb''])"
    using add_shares_a_taken_name [OF sample_store_inv p(1,2) l s' p(3,4)] by (simp only: if_False)
  then show ?thesis unfolding s' by simp
qed

end
