(* ===== verification/Http_Cache.thy ===== *)
theory Http_Cache
  imports Local_Cache
begin

text \<open>
  The shared tier (\<^verbatim>\<open>cache/http.py\<close>) and the broker over both tiers (\<^verbatim>\<open>cache/manager.py\<close>). The server is a
  parameter: an effect on a state of its own that answers a request or raises (an \<^verbatim>\<open>OSError\<close>, the base class of
  \<^verbatim>\<open>RequestException\<close>, is a transport failure); nothing is assumed of its answers. A body is a byte string, or the document
  its text denotes when that is JSON; \<open>he_raw\<close> is the text of a document. A response whose stream breaks carries the
  exception the reader gets.
\<close>

datatype body = Raw bytes | Doc json

datatype request = GET string | PUT string body | DELETE string

record response =
  status_code :: int
  rs_body :: body
  broken :: "exn option"

record 'r http_env =
  he_base :: string
  he_server :: "request \<Rightarrow> ('r, response) eff"
  he_raw :: "json \<Rightarrow> bytes"

subsection \<open>Requests\<close>

definition rstrip_slash :: "string \<Rightarrow> string" where
  "rstrip_slash s = rev (dropWhile (\<lambda>c. c = CHR ''/'') (rev s))"

definition HttpCache :: "string \<Rightarrow> (request \<Rightarrow> ('r, response) eff) \<Rightarrow> (json \<Rightarrow> bytes) \<Rightarrow> 'r http_env result" where
  "HttpCache url S raw =
     (if url = [] then Inl (CacheError []) else Inr \<lparr>he_base = rstrip_slash url, he_server = S, he_raw = raw\<rparr>)"

definition http_url :: "'r http_env \<Rightarrow> string \<Rightarrow> string" where
  "http_url H p = he_base H @ (if startswith p ''/'' then p else CHR ''/'' # p)"

fun is_transport :: "exn \<Rightarrow> bool" where
  "is_transport (OSError _) = True"
| "is_transport _ = False"

definition http_get :: "'r http_env \<Rightarrow> string \<Rightarrow> ('r, response) eff" where
  "http_get H p = handle_if is_transport (he_server H (GET (http_url H p))) (\<lambda>_. throw (CacheError [p]))"

definition http_put :: "'r http_env \<Rightarrow> string \<Rightarrow> body \<Rightarrow> ('r, response) eff" where
  "http_put H p b = handle_if is_transport (he_server H (PUT (http_url H p) b)) (\<lambda>_. throw (CacheError [p]))"

definition http_delete :: "'r http_env \<Rightarrow> string \<Rightarrow> ('r, response) eff" where
  "http_delete H p = handle_if is_transport (he_server H (DELETE (http_url H p))) (\<lambda>_. throw (CacheError [p]))"

definition resp_ok :: "response \<Rightarrow> bool" where
  "resp_ok r \<longleftrightarrow> status_code r < 400"

definition resp_text :: "'r http_env \<Rightarrow> response \<Rightarrow> bytes" where
  "resp_text H r = (case rs_body r of Raw b \<Rightarrow> b | Doc j \<Rightarrow> he_raw H j)"

definition resp_json :: "response \<Rightarrow> json option" where
  "resp_json r = (case rs_body r of Raw b \<Rightarrow> None | Doc j \<Rightarrow> Some j)"

definition strip :: "string \<Rightarrow> string" where
  "strip s = rev (dropWhile is_space (rev (dropWhile is_space s)))"

abbreviation bin_url :: "string \<Rightarrow> string" where
  "bin_url sha \<equiv> ''/isos/'' @ sha @ ''.bin''"

abbreviation json_url :: "string \<Rightarrow> string" where
  "json_url sha \<equiv> ''/isos/'' @ sha @ ''.json''"

abbreviation name_url :: "name \<Rightarrow> string" where
  "name_url n \<equiv> ''/names/'' @ n"

definition raise_for_put :: "response \<Rightarrow> string \<Rightarrow> ('w, unit) eff" where
  "raise_for_put r p =
     (if status_code r \<in> {200, 201, 204} then ret () else throw (CacheError [p, string_of_int (status_code r)]))"

definition put_checked :: "'r http_env \<Rightarrow> string \<Rightarrow> body \<Rightarrow> ('r, unit) eff" where
  "put_checked H p b = bindE (http_put H p b) (\<lambda>r. raise_for_put r p)"

definition delete_quiet :: "'r http_env \<Rightarrow> string \<Rightarrow> ('r, unit) eff" where
  "delete_quiet H p = bindE (http_delete H p) (\<lambda>r.
     if status_code r \<in> {200, 204, 404} then ret () else throw (CacheError [p, string_of_int (status_code r)]))"

definition put_name :: "'r http_env \<Rightarrow> name \<Rightarrow> string \<Rightarrow> ('r, unit) eff" where
  "put_name H n sha = seqE (liftR (cache_validate_name n)) (put_checked H (name_url n) (Raw sha))"

subsection \<open>Lookups\<close>

definition is_digest :: "string \<Rightarrow> bool" where
  "is_digest s \<longleftrightarrow> looks_like_sha s \<and> length s = 64"

definition hc_resolve_name :: "'r http_env \<Rightarrow> name \<Rightarrow> ('r, string) eff" where
  "hc_resolve_name H n = bindE (http_get H (name_url n)) (\<lambda>r.
     if status_code r = 404 then throw (CacheMissError [n])
     else if \<not> resp_ok r then throw (CacheError [n, string_of_int (status_code r)])
     else let sha = strip (resp_text H r) in
       if sha = [] then throw (CacheError [n])
       else if \<not> is_digest sha then throw (CacheError [n, sha])
       else ret sha)"

definition hc_read_sidecar :: "'r http_env \<Rightarrow> string \<Rightarrow> ('r, cache_info) eff" where
  "hc_read_sidecar H sha = bindE (http_get H (json_url sha)) (\<lambda>r.
     if status_code r = 404 then throw (CacheMissError [take 16 sha])
     else if \<not> resp_ok r then throw (CacheError [sha, string_of_int (status_code r)])
     else liftR (parse_info (\<lambda>_. None) (resp_json r)))"

definition hc_resolve :: "'r http_env \<Rightarrow> string \<Rightarrow> ('r, cache_info) eff" where
  "hc_resolve H ident =
     seqE (liftR (CacheEntry ident))
     (bindE (if is_digest ident then ret ident else hc_resolve_name H ident) (hc_read_sidecar H))"

subsection \<open>Updates of the server\<close>

definition hc_push :: "'r http_env \<Rightarrow> cache_info \<Rightarrow> bytes \<Rightarrow> ('r, unit) eff" where
  "hc_push H i b =
     seqE (put_checked H (bin_url (ci_sha i)) (Raw b))
     (seqE (put_checked H (json_url (ci_sha i)) (Doc (sidecar_body i)))
     (seqE (forE (\<lambda>n. put_name H n (ci_sha i)) (ci_names i)) (ret ())))"

definition hc_delete :: "'r http_env \<Rightarrow> cache_info \<Rightarrow> ('r, unit) eff" where
  "hc_delete H i =
     seqE (forE (\<lambda>n. delete_quiet H (name_url n)) (ci_names i))
     (seqE (delete_quiet H (json_url (ci_sha i))) (delete_quiet H (bin_url (ci_sha i))))"

fun is_miss :: "exn \<Rightarrow> bool" where
  "is_miss (CacheMissError _) = True"
| "is_miss _ = False"

definition hc_add_name :: "'r http_env \<Rightarrow> string \<Rightarrow> name \<Rightarrow> ('r, unit) eff" where
  "hc_add_name H sha n =
     seqE (liftR (cache_validate_name n))
     (bindE (handle_if is_miss (hc_read_sidecar H sha) (\<lambda>_. throw (CacheError [n, take 16 sha]))) (\<lambda>i.
     seqE (if n \<notin> set (ci_names i)
           then put_checked H (json_url sha) (Doc (sidecar_body (i\<lparr>ci_names := ci_names i @ [n]\<rparr>)))
           else ret ())
     (put_name H n sha)))"

text \<open>The two early returns are \<open>None\<close>.\<close>

definition hc_forget_name :: "'r http_env \<Rightarrow> name \<Rightarrow> ('r, unit) eff" where
  "hc_forget_name H n =
     bindE (handle_if is_miss (bindE (hc_resolve_name H n) (\<lambda>sha. ret (Some sha))) (\<lambda>_. ret None)) (\<lambda>found.
     case found of None \<Rightarrow> ret () | Some sha \<Rightarrow>
       seqE (delete_quiet H (name_url n))
       (bindE (handle_if is_miss (bindE (hc_read_sidecar H sha) (\<lambda>i. ret (Some i))) (\<lambda>_. ret None)) (\<lambda>x.
       case x of None \<Rightarrow> ret () | Some i \<Rightarrow>
         put_checked H (json_url sha) (Doc (sidecar_body (i\<lparr>ci_names := filter (\<lambda>a. a \<noteq> n) (ci_names i)\<rparr>))))))"

subsection \<open>The broker\<close>

type_synonym 'r tiers = "store \<times> 'r"

definition onL :: "(store, 'a) eff \<Rightarrow> ('r tiers, 'a) eff" where
  "onL m w = (case m (fst w) of (x, s) \<Rightarrow> (x, (s, snd w)))"

definition onH :: "('r, 'a) eff \<Rightarrow> ('r tiers, 'a) eff" where
  "onH m w = (case m (snd w) of (x, r) \<Rightarrow> (x, (fst w, r)))"

text \<open>The download: the bytes reach the canonical path only when they hash to the digest asked for.\<close>

definition hc_fetch :: "cache_env \<Rightarrow> 'r http_env \<Rightarrow> string \<Rightarrow> ('r tiers, unit) eff" where
  "hc_fetch E H sha = bindE (onH (http_get H (bin_url sha))) (\<lambda>r.
     if status_code r = 404 then throw (CacheMissError [take 16 sha])
     else if \<not> resp_ok r then throw (CacheError [sha, string_of_int (status_code r)])
     else case broken r of Some e \<Rightarrow> throw e | None \<Rightarrow>
       let b = resp_text H r in
       if ce_sha256 E b \<noteq> sha then throw (CacheError [take 16 sha, take 16 (ce_sha256 E b)])
       else onL (put_bin E sha b))"

definition fetch_and_materialize :: "cache_env \<Rightarrow> 'r http_env \<Rightarrow> cache_info \<Rightarrow> ('r tiers, cache_info) eff" where
  "fetch_and_materialize E H i =
     seqE (hc_fetch E H (ci_sha i)) (onL (write_materialized_sidecar E (i\<lparr>ci_path := Some (ci_sha i)\<rparr>)))"

definition cm_resolve :: "cache_env \<Rightarrow> 'r http_env option \<Rightarrow> bool \<Rightarrow> string \<Rightarrow> ('r tiers, cache_info) eff" where
  "cm_resolve E h fetch ident =
     bindE (getE (\<lambda>w. lc_resolve ident (fst w))) (\<lambda>found.
     case found of Inr i \<Rightarrow> ret i
     | Inl e \<Rightarrow> if \<not> is_miss e then throw e else
       (case h of None \<Rightarrow> throw e | Some H \<Rightarrow>
         bindE (onH (hc_resolve H ident)) (\<lambda>i. if \<not> fetch then ret i else fetch_and_materialize E H i)))"

definition local_path :: "cache_info \<Rightarrow> ('w, string) eff" where
  "local_path i = (case ci_path i of None \<Rightarrow> throw (AssertionError []) | Some p \<Rightarrow> ret p)"

definition cm_resolve_path :: "cache_env \<Rightarrow> 'r http_env option \<Rightarrow> string \<Rightarrow> ('r tiers, string) eff" where
  "cm_resolve_path E h ident = bindE (cm_resolve E h True ident) local_path"

text \<open>\<^verbatim>\<open>http.push(info, info.path)\<close> reads the local file.\<close>

definition push_file :: "'r http_env \<Rightarrow> cache_info \<Rightarrow> string \<Rightarrow> ('r tiers, unit) eff" where
  "push_file H i p = bindE (getE (\<lambda>w. map_of (bins (fst w)) p)) (\<lambda>c.
     case c of None \<Rightarrow> throw (OSError [p]) | Some b \<Rightarrow> onH (hc_push H i b))"

text \<open>\<^verbatim>\<open>try: ... except Exception: log\<close>.\<close>

definition best_effort :: "('w, unit) eff \<Rightarrow> ('w, unit) eff" where
  "best_effort m = catchE m (\<lambda>_. ret ())"

definition cm_add :: "cache_env \<Rightarrow> 'r http_env option \<Rightarrow> string \<Rightarrow> name option \<Rightarrow> string option \<Rightarrow> ('r tiers, cache_info) eff" where
  "cm_add E h src n d =
     bindE (onL (lc_add E src n d)) (\<lambda>i.
     seqE (case h of None \<Rightarrow> ret () | Some H \<Rightarrow>
        bindE (local_path i) (\<lambda>p. best_effort (push_file H i p)))
     (ret i))"

definition cm_delete :: "cache_env \<Rightarrow> 'r http_env option \<Rightarrow> string \<Rightarrow> ('r tiers, cache_info) eff" where
  "cm_delete E h ident =
     bindE (onL (lc_delete E ident)) (\<lambda>i.
     seqE (case h of None \<Rightarrow> ret () | Some H \<Rightarrow> best_effort (onH (hc_delete H i))) (ret i))"

definition cm_purge :: "cache_env \<Rightarrow> ('r tiers, cache_info list) eff" where
  "cm_purge E = onL (lc_purge E)"

definition cm_add_name :: "cache_env \<Rightarrow> 'r http_env option \<Rightarrow> string \<Rightarrow> name \<Rightarrow> ('r tiers, cache_info) eff" where
  "cm_add_name E h ident n =
     bindE (onL (lc_add_name E ident n)) (\<lambda>i.
     seqE (case h of None \<Rightarrow> ret () | Some H \<Rightarrow> best_effort (onH (hc_add_name H (ci_sha i) n))) (ret i))"

definition cm_forget_name :: "cache_env \<Rightarrow> 'r http_env option \<Rightarrow> name \<Rightarrow> ('r tiers, cache_info) eff" where
  "cm_forget_name E h n =
     bindE (onL (lc_forget_name E n)) (\<lambda>i.
     seqE (case h of None \<Rightarrow> ret () | Some H \<Rightarrow> best_effort (onH (hc_forget_name H n))) (ret i))"

definition cm_push :: "cache_env \<Rightarrow> 'r http_env option \<Rightarrow> string \<Rightarrow> ('r tiers, cache_info) eff" where
  "cm_push E h ident =
     (case h of None \<Rightarrow> throw (CacheError []) | Some H \<Rightarrow>
      bindE (bindE (getE (\<lambda>w. lc_resolve ident (fst w))) liftR) (\<lambda>i.
      bindE (local_path i) (\<lambda>p. seqE (push_file H i p) (ret i))))"

definition cm_pull :: "cache_env \<Rightarrow> 'r http_env option \<Rightarrow> string \<Rightarrow> ('r tiers, cache_info) eff" where
  "cm_pull E h ident =
     (case h of None \<Rightarrow> throw (CacheError []) | Some H \<Rightarrow>
      bindE (onH (hc_resolve H ident)) (fetch_and_materialize E H))"

subsection \<open>The local directory under any server\<close>

abbreviation tiers_inv :: "cache_env \<Rightarrow> 'r tiers \<Rightarrow> bool" where
  "tiers_inv E w \<equiv> cache_inv E (fst w)"

lemma keeps_tiers_onL [eff_intros]: "(\<And>s. cache_inv E s \<Longrightarrow> cache_inv E (snd (m s))) \<Longrightarrow> keeps (tiers_inv E) (onL m)"
  by (simp add: keeps_def onL_def split: prod.split) (metis snd_conv)

lemma keeps_fst_onH [eff_intros]: "keeps (\<lambda>w. P (fst w)) (onH m)"
  by (simp add: keeps_def onH_def split: prod.split)

lemma keeps_best_effort [eff_intros]: "keeps P m \<Longrightarrow> keeps P (best_effort m)"
  unfolding best_effort_def by (intro eff_intros)

lemma keeps_local_path [eff_intros]: "keeps P (local_path i)"
  unfolding local_path_def by (intro eff_intros)

lemma keeps_push_file [eff_intros]: "keeps (\<lambda>w. P (fst w)) (push_file H i p)"
  unfolding push_file_def by (intro eff_intros)

lemma keeps_sum [eff_intros]:
  "(\<And>e. x = Inl e \<Longrightarrow> keeps P (f e)) \<Longrightarrow> (\<And>y. x = Inr y \<Longrightarrow> keeps P (g y)) \<Longrightarrow> keeps P (case x of Inl e \<Rightarrow> f e | Inr y \<Rightarrow> g y)"
  by (cases x) simp_all

lemma keeps_fetch: "keeps (tiers_inv E) (hc_fetch E H sha)"
  unfolding hc_fetch_def Let_def by (intro eff_intros inv_put_bin) simp_all

lemma fetch_Inr:
  assumes "hc_fetch E H sha w = (Inr u, w')"
  shows "\<exists>b. map_of (bins (fst w')) sha = Some b \<and> ce_sha256 E b = sha"
proof -
  obtain b t where "ce_sha256 E b = sha" "onL (put_bin E sha b) t = (Inr u, w')"
    using assms by (auto simp: hc_fetch_def bindE_Inr_iff Let_def split: if_splits option.splits)
  then show ?thesis
    by (auto simp: onL_def put_bin_def update_conv' split: prod.splits dest!: fsop_Inr)
qed

lemma keeps_materialize_fetched: "keeps (tiers_inv E) (fetch_and_materialize E H i)"
proof -
  let ?i = "i\<lparr>ci_path := Some (ci_sha i)\<rparr>"
  have "tiers_inv E (snd (fetch_and_materialize E H i w))" if i: "tiers_inv E w" for w
    unfolding fetch_and_materialize_def
  proof (rule snd_seqE [where P = "tiers_inv E"])
    fix u w' assume f: "hc_fetch E H (ci_sha i) w = (Inr u, w')"
    have "cache_inv E (fst w')" using keepsD2 [OF keeps_fetch i f] .
    then have "cache_inv E (snd (write_materialized_sidecar E ?i (fst w')))"
      using fetch_Inr [OF f] by (intro inv_write_materialized) auto
    then show "tiers_inv E (snd (onL (write_materialized_sidecar E ?i) w'))"
      by (simp add: onL_def split: prod.split) (metis snd_conv)
  qed (rule keepsD [OF keeps_fetch i])
  then show ?thesis by (simp add: keeps_def)
qed

lemma keeps_cm_resolve: "keeps (tiers_inv E) (cm_resolve E h f ident)"
  unfolding cm_resolve_def by (intro eff_intros keeps_materialize_fetched)

lemma keeps_cm_add: "keeps (tiers_inv E) (cm_add E h src n d)"
  unfolding cm_add_def by (intro eff_intros inv_lc_add)

lemma keeps_cm_delete: "keeps (tiers_inv E) (cm_delete E h ident)"
  unfolding cm_delete_def by (intro eff_intros inv_lc_delete)

lemma keeps_cm_purge: "keeps (tiers_inv E) (cm_purge E)"
  unfolding cm_purge_def by (intro eff_intros inv_lc_purge)

lemma keeps_cm_add_name: "keeps (tiers_inv E) (cm_add_name E h ident n)"
  unfolding cm_add_name_def by (intro eff_intros inv_lc_add_name)

lemma keeps_cm_forget_name: "keeps (tiers_inv E) (cm_forget_name E h n)"
  unfolding cm_forget_name_def by (intro eff_intros inv_lc_forget_name)

lemma keeps_cm_push: "keeps (tiers_inv E) (cm_push E h ident)"
  unfolding cm_push_def by (intro eff_intros)

lemma keeps_cm_pull: "keeps (tiers_inv E) (cm_pull E h ident)"
  unfolding cm_pull_def by (intro eff_intros keeps_materialize_fetched)

text \<open>The calls of a client.\<close>

datatype cache_op = Resolve bool string | Add string "name option" "string option" | Delete string | Purge
  | AddName string name | ForgetName name | Push string | Pull string

fun run_op :: "cache_env \<Rightarrow> 'r http_env option \<Rightarrow> cache_op \<Rightarrow> 'r tiers \<Rightarrow> 'r tiers" where
  "run_op E h (Resolve f i) w = snd (cm_resolve E h f i w)"
| "run_op E h (Add src n d) w = snd (cm_add E h src n d w)"
| "run_op E h (Delete i) w = snd (cm_delete E h i w)"
| "run_op E h Purge w = snd (cm_purge E w)"
| "run_op E h (AddName i n) w = snd (cm_add_name E h i n w)"
| "run_op E h (ForgetName n) w = snd (cm_forget_name E h n w)"
| "run_op E h (Push i) w = snd (cm_push E h i w)"
| "run_op E h (Pull i) w = snd (cm_pull E h i w)"

definition run_ops :: "cache_env \<Rightarrow> 'r http_env option \<Rightarrow> cache_op list \<Rightarrow> 'r tiers \<Rightarrow> 'r tiers" where
  "run_ops E h ops w = fold (run_op E h) ops w"

lemmas keeps_cm = keeps_cm_resolve keeps_cm_add keeps_cm_delete keeps_cm_purge keeps_cm_add_name keeps_cm_forget_name
  keeps_cm_push keeps_cm_pull

lemma run_op_inv: "tiers_inv E w \<Longrightarrow> tiers_inv E (run_op E h c w)"
  by (cases c) (simp_all add: keeps_cm [THEN keepsD])

lemma run_ops_inv: "tiers_inv E w \<Longrightarrow> tiers_inv E (run_ops E h ops w)"
  unfolding run_ops_def by (induction ops arbitrary: w) (simp_all add: run_op_inv)

text \<open>C23: the cache certifies its content. After any sequence of calls, with any server behind the HTTP tier, whatever it answers and whichever
  disk writes fail before or after they take effect, every content file of the local tier hashes to its file name,
  every sidecar describes the entry it is named after, and the content of every described entry is present. A
  swapped or truncated download is never entered.\<close>

theorem cache_content_is_certified:
  "cache_inv E (fst (run_ops E h ops (empty_store, r)))"
  by (rule run_ops_inv) (simp add: inv_empty_store)

subsection \<open>The mirror\<close>

text \<open>\<open>polite m\<close>: what \<open>m\<close> raises is an \<^verbatim>\<open>Exception\<close>, never an interrupt.\<close>

definition polite :: "('w, 'a) eff \<Rightarrow> bool" where
  "polite m \<longleftrightarrow> (\<forall>w e w'. m w = (Inl e, w') \<longrightarrow> is_Exception e)"

lemma polite_basic [eff_intros]: "polite (ret x)" "is_Exception e \<Longrightarrow> polite (throw e)" "polite (getE f)"
  by (auto simp: polite_def ret_def throw_def getE_def)

lemma polite_liftR: "(\<And>e. r = Inl e \<Longrightarrow> is_Exception e) \<Longrightarrow> polite (liftR r)"
  by (auto simp: polite_def liftR_def)

lemma polite_bindE [eff_intros]: "polite m \<Longrightarrow> (\<And>x. polite (f x)) \<Longrightarrow> polite (bindE m f)"
  unfolding polite_def bindE_def by (auto split: prod.splits sum.splits)

lemma polite_seqE [eff_intros]: "polite m \<Longrightarrow> polite n \<Longrightarrow> polite (seqE m n)"
  unfolding seqE_def by (intro polite_bindE)

lemma polite_handle_if [eff_intros]: "polite m \<Longrightarrow> (\<And>e. polite (f e)) \<Longrightarrow> polite (handle_if P m f)"
  unfolding polite_def handle_if_def by (auto split: prod.splits sum.splits if_splits)

lemma polite_forE [eff_intros]: "(\<And>x. polite (f x)) \<Longrightarrow> polite (forE f xs)"
  by (induction xs) (auto intro!: eff_intros)

lemma polite_if [eff_intros]: "(b \<Longrightarrow> polite m) \<Longrightarrow> (\<not> b \<Longrightarrow> polite n) \<Longrightarrow> polite (if b then m else n)"
  by simp

lemma polite_option [eff_intros]:
  "(x = None \<Longrightarrow> polite m) \<Longrightarrow> (\<And>y. x = Some y \<Longrightarrow> polite (f y)) \<Longrightarrow> polite (case x of None \<Rightarrow> m | Some y \<Rightarrow> f y)"
  by (cases x) simp_all

lemma polite_onH [eff_intros]: "polite m \<Longrightarrow> polite (onH m)"
  by (auto simp: polite_def onH_def split: prod.splits)

lemma polite_requests [eff_intros]:
  assumes "\<And>q. polite (he_server H q)"
  shows "polite (http_get H p)" "polite (http_put H p b)" "polite (http_delete H p)"
  unfolding http_get_def http_put_def http_delete_def by (intro eff_intros assms; simp)+

lemma validate_raises: "cache_validate_name n = Inl e \<Longrightarrow> is_Exception e"
  by (auto simp: cache_validate_name_def result_simps)

lemma map_result_raises: "(\<And>x e. f x = Inl e \<Longrightarrow> is_Exception e) \<Longrightarrow> map_result f xs = Inl e \<Longrightarrow> is_Exception e"
  by (induction xs) (auto simp: result_simps)

lemma json_raises:
  "as_str j = Inl e \<Longrightarrow> is_Exception e" "as_obj j = Inl e \<Longrightarrow> is_Exception e" "as_list j = Inl e \<Longrightarrow> is_Exception e"
  "as_opt_str j = Inl e \<Longrightarrow> is_Exception e" "as_int j = Inl e \<Longrightarrow> is_Exception e" "item m k = Inl e \<Longrightarrow> is_Exception e"
  by (auto simp: as_str_def as_obj_def as_list_def as_opt_str_def as_int_def item_def split: json.splits option.splits)

lemma as_names_raises: "as_names j = Inl e \<Longrightarrow> is_Exception e"
  using map_result_raises [of as_str, OF json_raises(1)]
  by (auto simp: as_names_def result_simps json_raises split: json.splits)

lemma parse_raises: "parse_info p d = Inl e \<Longrightarrow> is_Exception e"
  by (auto simp: parse_info_def result_simps json_raises as_names_raises split: option.splits)

lemma polite_lifted [eff_intros]: "polite (liftR (cache_validate_name n))" "polite (liftR (parse_info p d))"
  by (auto intro: polite_liftR validate_raises parse_raises)

lemma polite_updates:
  assumes "\<And>q. polite (he_server H q)"
  shows "polite (hc_push H i b)" "polite (hc_delete H i)" "polite (hc_add_name H sha n)" "polite (hc_forget_name H n)"
  unfolding hc_push_def hc_delete_def hc_add_name_def hc_forget_name_def put_checked_def delete_quiet_def put_name_def
    raise_for_put_def hc_read_sidecar_def hc_resolve_name_def Let_def
  by (intro eff_intros assms; simp)+

text \<open>What a best-effort call leaves of the local tier and of the result.\<close>

lemma best_effort_polite:
  assumes "polite m" and "keeps (\<lambda>w. fst w = s) m"
  shows "\<exists>r'. best_effort m (s, r) = (Inr (), (s, r'))"
proof -
  obtain x w' where m: "m (s, r) = (x, w')" by (cases "m (s, r)")
  then have "fst w' = s" using keepsD2 [OF assms(2) _ m] by simp
  moreover have "is_Exception e" if "x = Inl e" for e using assms(1) m that unfolding polite_def by blast
  ultimately show ?thesis using m by (cases x; cases w') (auto simp: best_effort_def catchE_def handle_if_def ret_def)
qed

lemma mirrored:
  assumes "\<And>x. \<exists>r'. g x (snd (m s), r) = (Inr (), (snd (m s), r'))"
  shows "\<exists>r'. bindE (onL m) (\<lambda>x. seqE (g x) (ret x)) (s, r) = (fst (m s), (snd (m s), r'))"
proof (cases "m s")
  case (Pair x s')
  then show ?thesis
  proof (cases x)
    case (Inr y)
    obtain r' where "g y (s', r) = (Inr (), (s', r'))" using assms [of y] Pair by auto
    then show ?thesis using Pair Inr by (simp add: bindE_def seqE_def onL_def ret_def)
  qed (simp add: bindE_def onL_def)
qed

lemma keeps_tier_onH: "keeps (\<lambda>w. fst w = s) (onH m)"
  by (rule keeps_fst_onH)

lemma keeps_tier_push: "keeps (\<lambda>w. fst w = s) (push_file H i p)"
  by (rule keeps_push_file)

lemma lc_record_path: "cache_inv E s \<Longrightarrow> lc_record E og k n d s = (Inr i, s') \<Longrightarrow> ci_path i = Some k"
  using lc_record_Inr [of E s og k n d i s'] inv_lc_record [of E s og k n d] entry_sha [OF inv_backed, of E s' k i]
  by simp

lemma lc_add_path:
  assumes "cache_inv E s" and "lc_add E src n d s = (Inr i, s')"
  shows "ci_path i = Some (ci_sha i)"
proof -
  have "entry s' (ci_sha i) = Some i" using lc_add_Inr [OF assms] by simp
  moreover have "cache_inv E s'" using inv_lc_add [OF assms(1), of src n d] assms(2) by simp
  ultimately show ?thesis using entry_sha inv_backed by blast
qed

text \<open>C24: the mirror is best effort. When what the server's transport raises is an ordinary exception, adding, deleting, naming and un-naming through the
  broker return or raise exactly what the local tier alone would, and leave the same local directory, whatever the server answers.\<close>

theorem mirror_never_changes_the_outcome:
  assumes "\<And>q. polite (he_server H q)" and "cache_inv E s"
  shows "(\<exists>r'. cm_add E (Some H) src n d (s, r) = (fst (lc_add E src n d s), (snd (lc_add E src n d s), r'))) \<and>
    (\<exists>r'. cm_delete E (Some H) ident (s, r) = (fst (lc_delete E ident s), (snd (lc_delete E ident s), r'))) \<and>
    (\<exists>r'. cm_add_name E (Some H) ident a (s, r) = (fst (lc_add_name E ident a s), (snd (lc_add_name E ident a s), r'))) \<and>
    (\<exists>r'. cm_forget_name E (Some H) a (s, r) = (fst (lc_forget_name E a s), (snd (lc_forget_name E a s), r')))"
proof (intro conjI)
  note be = best_effort_polite [OF _ keeps_tier_onH] and pu = polite_updates [OF assms(1)]
  show "\<exists>r'. cm_delete E (Some H) ident (s, r) = (fst (lc_delete E ident s), (snd (lc_delete E ident s), r'))"
    unfolding cm_delete_def by (simp, rule mirrored, rule be) (intro eff_intros pu)
  show "\<exists>r'. cm_add_name E (Some H) ident a (s, r) = (fst (lc_add_name E ident a s), (snd (lc_add_name E ident a s), r'))"
    unfolding cm_add_name_def by (simp, rule mirrored, rule be) (intro eff_intros pu)
  show "\<exists>r'. cm_forget_name E (Some H) a (s, r) = (fst (lc_forget_name E a s), (snd (lc_forget_name E a s), r'))"
    unfolding cm_forget_name_def by (simp, rule mirrored, rule be) (intro eff_intros pu)
  show "\<exists>r'. cm_add E (Some H) src n d (s, r) = (fst (lc_add E src n d s), (snd (lc_add E src n d s), r'))"
  proof (cases "fst (lc_add E src n d s)")
    case (Inl e)
    then obtain s' where "lc_add E src n d s = (Inl e, s')" by (metis prod.collapse)
    then show ?thesis by (simp add: cm_add_def bindE_def onL_def)
  next
    case (Inr i)
    then obtain s' where l: "lc_add E src n d s = (Inr i, s')" by (metis prod.collapse)
    have q: "polite (push_file H i p)" for p unfolding push_file_def by (intro eff_intros pu) simp
    obtain r' where "best_effort (push_file H i (ci_sha i)) (s', r) = (Inr (), (s', r'))"
      using best_effort_polite [OF q keeps_tier_push] by meson
    then show ?thesis using lc_add_path [OF assms(2) l]
      by (simp add: cm_add_def bindE_def onL_def l seqE_def local_path_def ret_def)
  qed
qed

theorem mirror_never_changes_the_outcome_witness:
  "\<exists>r'. cm_add sample_cache_env (Some \<lparr>he_base = ''https://down'', he_server = \<lambda>q. throw (OSError []), he_raw = \<lambda>_. []\<rparr>) ''/a.iso'' (Some ''deb'') None (empty_store, ()) =
     (Inr (sample_info ''aa'' [''deb'']), (sample_store, r'))"
proof -
  let ?H = "\<lparr>he_base = ''https://down'', he_server = \<lambda>q. throw (OSError []), he_raw = \<lambda>_. []\<rparr> :: unit http_env"
  have "polite (he_server ?H q)" for q by (simp add: polite_def throw_def)
  then show ?thesis
    using mirror_never_changes_the_outcome [of ?H sample_cache_env empty_store "''/a.iso''" "Some ''deb''" None "()"]
    by (simp add: inv_empty_store sample_add)
qed

subsection \<open>The contract\<close>

lemma cm_add_Inr:
  assumes "cm_add E h src n d w = (Inr i, w')"
  shows "\<exists>s'. lc_add E src n d (fst w) = (Inr i, s') \<and> fst w' = s'"
proof -
  let ?m = "\<lambda>i. case h of None \<Rightarrow> ret () | Some H \<Rightarrow> bindE (local_path i) (\<lambda>p. best_effort (push_file H i p))"
  have "bindE (onL (lc_add E src n d)) (\<lambda>i. seqE (?m i) (ret i)) w = (Inr i, w')" using assms by (simp only: cm_add_def)
  then obtain t u where t: "onL (lc_add E src n d) w = (Inr i, t)" "?m i t = (Inr u, w')"
    unfolding bindE_Inr_iff [of "onL _"] seqE_Inr ret_Inr by blast
  have k: "keeps (\<lambda>w. fst w = fst t) (?m i)" by (intro eff_intros keeps_tier_push)
  have "fst w' = fst t" using keepsD2 [OF k _ t(2)] by simp
  then show ?thesis using t(1) by (auto simp: onL_def split: prod.splits)
qed

interpretation cm: catalogue "tiers_inv E" fst "cm_add E h" "cm_resolve E h True" "ce_sha256 E"
proof (unfold_locales, goal_cases)
  case (1 w src n d)
  then show ?case by (rule keepsD [OF keeps_cm_add])
next
  case (2 w src n d i w')
  then show ?case using cm_add_Inr [OF 2(2)] lc_add_Inr [OF 2(1)] by blast
next
  case (3 w k i)
  then show ?case using lc.content by simp
next
  case (4 w n k i)
  then show ?case using lc.lookup_hit [OF 4(1-3), of k i] by (auto simp: cm_resolve_def ret_def)
qed

text \<open>What was added is found. After a successful \<^verbatim>\<open>add\<close> under a name that no other entry carries, resolving the name returns the
  very entry that \<^verbatim>\<open>add\<close> returned, without changing anything or asking the server, and its content is on disk and hashes
  to its digest.\<close>

theorem added_entry_resolves:
  assumes "cache_inv E s" and "cm_add E h src (Some n) d (s, r) = (Inr i, (s', r'))" and "\<not> looks_like_sha n"
    and "\<And>k j. entry s k = Some j \<Longrightarrow> n \<in> set (ci_names j) \<Longrightarrow> k = ci_sha i"
  shows "cm_resolve E h True n (s', r') = (Inr i, (s', r')) \<and> (\<exists>b. map_of (bins s') (ci_sha i) = Some b \<and> ce_sha256 E b = ci_sha i)"
  using cm.add_then_lookup [of E "(s, r)" h src n d i "(s', r')"] assms by simp

theorem added_entry_resolves_witness:
  "cm_resolve sample_cache_env (None :: unit http_env option) True ''deb'' (sample_store, ()) = (Inr (sample_info ''aa'' [''deb'']), (sample_store, ()))"
proof -
  have "cm_add sample_cache_env (None :: unit http_env option) ''/a.iso'' (Some ''deb'') None (empty_store, ()) = (Inr (sample_info ''aa'' [''deb'']), (sample_store, ()))"
    by (simp add: cm_add_def bindE_def onL_def sample_add seqE_def ret_def)
  moreover have "\<not> looks_like_sha ''deb''" by code_simp
  ultimately show ?thesis using added_entry_resolves [OF inv_empty_store] by (fastforce simp: empty_store_def entry_def)
qed

subsection \<open>Downloads\<close>

lemma http_get_Inr: "he_server H (GET (http_url H p)) r = (Inr x, r') \<Longrightarrow> http_get H p r = (Inr x, r')"
  by (simp add: http_get_def handle_if_def)

text \<open>A download of an entry the local tier does not have, on a disk without faults.\<close>

lemma fetch_success:
  assumes "he_server H (GET (http_url H (bin_url (ci_sha i)))) r = (Inr x, r')" and "status_code x = 200" and "broken x = None"
    and "ce_sha256 E (resp_text H x) = ci_sha i" and "ce_fault E = (\<lambda>_. None)" and "map_of (sidecars s) (ci_sha i) = None"
  shows "\<exists>s'. fetch_and_materialize E H i (s, r) = (Inr (i\<lparr>ci_path := Some (ci_sha i)\<rparr>), (s', r')) \<and>
    map_of (bins s') (ci_sha i) = Some (resp_text H x)"
proof -
  let ?s = "s\<lparr>st_tick := Suc (st_tick s), bins := AList.update (ci_sha i) (resp_text H x) (bins s)\<rparr>"
  have "hc_fetch E H (ci_sha i) (s, r) = (Inr (), (?s, r'))"
    using assms(2-5) http_get_Inr [OF assms(1)]
    by (simp add: hc_fetch_def bindE_def onH_def resp_ok_def onL_def put_bin_def fsop_def)
  then show ?thesis using assms(5,6)
    by (simp add: fetch_and_materialize_def seqE_def bindE_def onL_def write_materialized_sidecar_def getE_def write_sidecar_def
        fsop_def ret_def update_conv')
qed

lemma hc_read_sidecar_Inr:
  assumes "he_server H (GET (http_url H (json_url sha))) r = (Inr x, r')" and "status_code x = 200" and "rs_body x = Doc (sidecar_body i)"
  shows "hc_read_sidecar H sha r = (Inr (i\<lparr>ci_path := None\<rparr>), r')"
  using assms http_get_Inr [OF assms(1)] by (simp add: hc_read_sidecar_def bindE_def resp_ok_def resp_json_def liftR_def)

text \<open>A reference by digest is not pinned to that digest. When the local tier misses, the entry returned is the one that the server's
  sidecar for the digest names, downloaded and checked against its own digest, whatever digest was asked for.\<close>

theorem remote_digest_is_not_pinned:
  assumes "is_digest sha" and "lc_resolve sha s = Inl (CacheMissError m)"
    and "he_server H (GET (http_url H (json_url sha))) r = (Inr x, r1)" and "status_code x = 200" and "rs_body x = Doc (sidecar_body i)"
    and "he_server H (GET (http_url H (bin_url (ci_sha i)))) r1 = (Inr y, r2)" and "status_code y = 200" and "broken y = None"
    and "ce_sha256 E (resp_text H y) = ci_sha i" and "ce_fault E = (\<lambda>_. None)" and "map_of (sidecars s) (ci_sha i) = None"
  shows "\<exists>s'. cm_resolve E (Some H) True sha (s, r) = (Inr (i\<lparr>ci_path := Some (ci_sha i)\<rparr>), (s', r2))"
proof -
  have ne: "sha \<noteq> []" using assms(1) by (auto simp: is_digest_def)
  have "hc_resolve H sha r = (Inr (i\<lparr>ci_path := None\<rparr>), r1)"
    using hc_read_sidecar_Inr [OF assms(3-5)] assms(1) ne
    by (simp add: hc_resolve_def seqE_def bindE_def liftR_def CacheEntry_def ret_def)
  moreover obtain s' where "fetch_and_materialize E H (i\<lparr>ci_path := None\<rparr>) (s, r1) = (Inr (i\<lparr>ci_path := Some (ci_sha i)\<rparr>), (s', r2))"
    using fetch_success [of H "i\<lparr>ci_path := None\<rparr>" r1 y r2 E s] assms(6-11) by auto
  ultimately show ?thesis using assms(2) by (simp add: cm_resolve_def bindE_def getE_def onH_def)
qed

text \<open>A server whose sidecar for one digest names another entry.\<close>

definition lying_server :: "string \<Rightarrow> cache_info \<Rightarrow> bytes \<Rightarrow> request \<Rightarrow> (unit, response) eff" where
  "lying_server sha i b q r =
     (Inr (if q = GET (json_url sha) then \<lparr>status_code = 200, rs_body = Doc (sidecar_body i), broken = None\<rparr>
           else if q = GET (bin_url (ci_sha i)) then \<lparr>status_code = 200, rs_body = Raw b, broken = None\<rparr>
           else \<lparr>status_code = 404, rs_body = Raw [], broken = None\<rparr>), r)"

theorem remote_digest_is_not_pinned_witness:
  "\<exists>s'. cm_resolve sample_cache_env (Some \<lparr>he_base = [], he_server = lying_server (replicate 64 (CHR ''0'')) (sample_info ''bb'' []) ''bb'', he_raw = \<lambda>_. []\<rparr>)
     True (replicate 64 (CHR ''0'')) (empty_store, ()) = (Inr (sample_info ''bb'' []), (s', ()))"
proof -
  let ?sha = "replicate 64 (CHR ''0'')" and ?i = "sample_info ''bb'' []"
  let ?H = "\<lparr>he_base = [], he_server = lying_server ?sha ?i ''bb'', he_raw = \<lambda>_. []\<rparr>"
  let ?x = "\<lparr>status_code = 200, rs_body = Doc (sidecar_body ?i), broken = None\<rparr>" and ?y = "\<lparr>status_code = 200, rs_body = Raw ''bb'', broken = None\<rparr>"
  have d: "is_digest ?sha" by code_simp
  then have m: "lc_resolve ?sha empty_store = Inl (CacheMissError [?sha])"
    by (simp add: lc_resolve_def is_digest_def CacheEntry_def list_entries_def iter_entries_def empty_store_def)
  have u: "http_url ?H p = p" if "startswith p ''/''" for p using that by (simp add: http_url_def)
  have n: "bin_url (ci_sha ?i) \<noteq> json_url ?sha" by code_simp
  have g: "he_server ?H (GET (http_url ?H (json_url ?sha))) () = (Inr ?x, ())" "he_server ?H (GET (http_url ?H (bin_url (ci_sha ?i)))) () = (Inr ?y, ())"
    using n by (simp_all add: u startswith_def lying_server_def)
  have i: "?i\<lparr>ci_path := Some (ci_sha ?i)\<rparr> = ?i" by (simp add: sample_info_def)
  show ?thesis
    using remote_digest_is_not_pinned [OF d m g(1) _ _ g(2), of sample_cache_env]
    by (simp add: i empty_store_def sample_cache_env_def resp_text_def) (simp add: sample_info_def)
qed

subsection \<open>Sharing between hosts\<close>

text \<open>What the client relies on of a WebDAV file server: a request is answered, \<^verbatim>\<open>GET\<close> returns what is stored or 404 and changes
  nothing, \<^verbatim>\<open>PUT\<close> stores.\<close>

definition serves :: "(request \<Rightarrow> ('r, response) eff) \<Rightarrow> ('r \<Rightarrow> string \<Rightarrow> body option) \<Rightarrow> bool" where
  "serves S files \<longleftrightarrow>
     (\<forall>u r. \<exists>x. S (GET u) r = (Inr x, r) \<and> broken x = None \<and>
        (case files r u of None \<Rightarrow> status_code x = 404 | Some b \<Rightarrow> status_code x = 200 \<and> rs_body x = b)) \<and>
     (\<forall>u b r. \<exists>x r'. S (PUT u b) r = (Inr x, r') \<and> status_code x \<in> {201, 204} \<and> files r' = (files r)(u \<mapsto> b))"

lemma serves_GET:
  "serves S files \<Longrightarrow> files r u = Some b \<Longrightarrow> \<exists>x. S (GET u) r = (Inr x, r) \<and> broken x = None \<and> status_code x = 200 \<and> rs_body x = b"
proof -
  assume "serves S files" and f: "files r u = Some b"
  then obtain x where "S (GET u) r = (Inr x, r)" "broken x = None"
    "case files r u of None \<Rightarrow> status_code x = 404 | Some b \<Rightarrow> status_code x = 200 \<and> rs_body x = b" unfolding serves_def by blast
  then show ?thesis using f by auto
qed

lemma serves_put:
  assumes "serves (he_server H) files"
  shows "succeeds (\<lambda>r. files r = F) (put_checked H p b) (\<lambda>_ r. files r = F(http_url H p \<mapsto> b))"
  unfolding succeeds_def
proof (intro allI impI)
  fix r assume "files r = F"
  moreover obtain x r' where x: "he_server H (PUT (http_url H p) b) r = (Inr x, r')" "status_code x \<in> {201, 204}" "files r' = (files r)(http_url H p \<mapsto> b)"
    using assms unfolding serves_def by meson
  ultimately show "\<exists>u r'. put_checked H p b r = (Inr u, r') \<and> files r' = F(http_url H p \<mapsto> b)"
    by (auto simp: put_checked_def http_put_def handle_if_def bindE_def raise_for_put_def ret_def)
qed

definition with_names :: "'r http_env \<Rightarrow> string \<Rightarrow> name list \<Rightarrow> (string \<Rightarrow> body option) \<Rightarrow> string \<Rightarrow> body option" where
  "with_names H sha ns F = fold (\<lambda>n F. F(http_url H (name_url n) \<mapsto> Raw sha)) ns F"

lemma with_names_Cons: "with_names H sha (n # ns) F = with_names H sha ns (F(http_url H (name_url n) \<mapsto> Raw sha))"
  by (simp add: with_names_def)

lemma with_names_simps:
  "n \<in> set ns \<Longrightarrow> with_names H sha ns F (http_url H (name_url n)) = Some (Raw sha)"
  "(\<And>n. n \<in> set ns \<Longrightarrow> u \<noteq> http_url H (name_url n)) \<Longrightarrow> with_names H sha ns F u = F u"
  unfolding with_names_def by (induction ns rule: rev_induct) auto

lemma serves_names:
  assumes "serves (he_server H) files" and "\<And>n. n \<in> set ns \<Longrightarrow> cache_validate_name n = Inr ()"
  shows "succeeds (\<lambda>r. files r = F) (forE (\<lambda>n. put_name H n sha) ns) (\<lambda>_ r. files r = with_names H sha ns F)"
  using assms(2)
proof (induction ns arbitrary: F)
  case Nil
  then show ?case by (simp add: with_names_def succeeds_ret)
next
  case (Cons n ns)
  have "succeeds (\<lambda>r. files r = F) (put_name H n sha) (\<lambda>_ r. files r = F(http_url H (name_url n) \<mapsto> Raw sha))"
    unfolding put_name_def using Cons.prems [of n]
    by (intro succeeds_seqE [OF succeeds_liftR [where x = "()"] serves_put [OF assms(1)]]) simp_all
  moreover have "succeeds (\<lambda>r. files r = F(http_url H (name_url n) \<mapsto> Raw sha)) (bindE (forE (\<lambda>n. put_name H n sha) ns) (\<lambda>ys. ret (y # ys)))
      (\<lambda>_ r. files r = with_names H sha (n # ns) F)" for y
    unfolding with_names_Cons
  proof (rule succeeds_bindE [OF Cons.IH])
    show "m \<in> set ns \<Longrightarrow> cache_validate_name m = Inr ()" for m using Cons.prems by simp
  qed (rule succeeds_ret)
  ultimately show ?case by (auto intro: succeeds_bindE)
qed

lemma serves_push:
  assumes "serves (he_server H) files" and "\<And>n. n \<in> set (ci_names i) \<Longrightarrow> cache_validate_name n = Inr ()"
  shows "succeeds (\<lambda>r. files r = F) (hc_push H i b) (\<lambda>_ r. files r = with_names H (ci_sha i) (ci_names i)
     (F(http_url H (bin_url (ci_sha i)) \<mapsto> Raw b, http_url H (json_url (ci_sha i)) \<mapsto> Doc (sidecar_body i))))"
  unfolding hc_push_def
  by (intro succeeds_seqE [OF serves_put [OF assms(1)]] succeeds_seqE [OF serves_names [OF assms]] succeeds_ret) simp_all

lemma url_inj: "http_url H (CHR ''/'' # p) = http_url H (CHR ''/'' # q) \<longleftrightarrow> p = q"
  by (simp add: http_url_def startswith_def)

lemma strip_hex: "list_all hex_char s \<Longrightarrow> strip s = s"
proof -
  have "list_all (\<lambda>d. \<not> is_space (digit_char d)) [0..<10]" "list_all (\<lambda>c. \<not> is_space c) ''abcdef''" by code_simp+
  then have "\<not> is_space c" if "hex_char c" for c
    using that unfolding hex_char_def is_digit_iff by (auto simp: list_all_iff)
  moreover assume "list_all hex_char s"
  ultimately have a: "list_all (\<lambda>c. \<not> is_space c) s" by (auto simp: list_all_iff)
  have d: "dropWhile is_space t = t" if "list_all (\<lambda>c. \<not> is_space c) t" for t using that by (cases t) auto
  have "list_all (\<lambda>c. \<not> is_space c) (rev s)" using a by (simp add: list_all_iff)
  then show ?thesis by (simp add: strip_def d a)
qed

text \<open>What one host pushes another pulls. With a server that stores what is put, pushing an entry and then pulling it on a host with an
  empty cache, by digest or by any of its names, returns the entry with all its metadata and puts the same bytes on disk.\<close>

theorem pushed_entry_can_be_pulled:
  assumes "serves (he_server H) files" and "ce_fault E = (\<lambda>_. None)" and "\<And>n. n \<in> set (ci_names i) \<Longrightarrow> cache_validate_name n = Inr ()"
    and "ce_sha256 E b = ci_sha i" and "length (ci_sha i) = 64" and "list_all hex_char (ci_sha i)"
    and "n = ci_sha i \<or> n \<in> set (ci_names i) \<and> \<not> is_digest n"
  shows "\<exists>r' s'. hc_push H i b r = (Inr (), r') \<and> map_of (bins s') (ci_sha i) = Some b \<and>
    cm_pull E (Some H) n (empty_store, r') = (Inr (i\<lparr>ci_path := Some (ci_sha i)\<rparr>), (s', r'))"
proof -
  let ?k = "ci_sha i"
  have pushed: "succeeds (\<lambda>r'. files r' = files r) (hc_push H i b) (\<lambda>_ r'. files r' = with_names H ?k (ci_names i)
     ((files r)(http_url H (bin_url ?k) \<mapsto> Raw b, http_url H (json_url ?k) \<mapsto> Doc (sidecar_body i))))"
    by (rule serves_push) (use assms(1,3) in auto)
  obtain r' where push: "hc_push H i b r = (Inr (), r')" and F: "files r' = with_names H ?k (ci_names i)
     ((files r)(http_url H (bin_url ?k) \<mapsto> Raw b, http_url H (json_url ?k) \<mapsto> Doc (sidecar_body i)))"
    using pushed by (auto simp: succeeds_def)
  note sg = serves_GET [OF assms(1)]
  have dig: "is_digest ?k" using assms(5,6) by (simp add: is_digest_def looks_like_sha_def dollar_def)
  have ne: "n \<noteq> []" using assms(5,7) assms(3) [of n] by (auto simp: cache_validate_name_def result_simps NAME_RE_def dollar_def)
  have j: "files r' (http_url H (json_url ?k)) = Some (Doc (sidecar_body i))" and bn: "files r' (http_url H (bin_url ?k)) = Some (Raw b)"
    unfolding F by (simp_all add: with_names_simps(2) url_inj)
  have rs: "hc_read_sidecar H ?k r' = (Inr (i\<lparr>ci_path := None\<rparr>), r')"
    using sg [OF j] by (elim exE conjE) (rule hc_read_sidecar_Inr)
  have "hc_resolve_name H n r' = (Inr ?k, r')" if "n \<in> set (ci_names i)"
  proof -
    have "files r' (http_url H (name_url n)) = Some (Raw ?k)" unfolding F using that by (rule with_names_simps(1))
    then obtain x where "he_server H (GET (http_url H (name_url n))) r' = (Inr x, r')" "status_code x = 200" "rs_body x = Raw ?k"
      using sg by blast
    then show ?thesis using dig assms(5) http_get_Inr
      by (fastforce simp: hc_resolve_name_def bindE_def resp_ok_def resp_text_def Let_def strip_hex assms(6) ret_def)
  qed
  then have "hc_resolve H n r' = (Inr (i\<lparr>ci_path := None\<rparr>), r')"
    using rs dig assms(7) ne by (auto simp: hc_resolve_def seqE_def bindE_def liftR_def CacheEntry_def ret_def)
  moreover obtain x where x: "he_server H (GET (http_url H (bin_url ?k))) r' = (Inr x, r')" "status_code x = 200" "broken x = None" "rs_body x = Raw b"
    using sg [OF bn] by blast
  then have "\<exists>s'. fetch_and_materialize E H (i\<lparr>ci_path := None\<rparr>) (empty_store, r') = (Inr (i\<lparr>ci_path := Some ?k\<rparr>), (s', r')) \<and> map_of (bins s') ?k = Some b"
    using fetch_success [of H "i\<lparr>ci_path := None\<rparr>" r' x r' E empty_store] assms(2,4)
    by (simp add: resp_text_def empty_store_def)
  ultimately show ?thesis using push by (auto simp: cm_pull_def bindE_def onH_def)
qed

definition dav :: "request \<Rightarrow> ((string, body) dict, response) eff" where
  "dav q r = (case q of
     GET u \<Rightarrow> (Inr (case map_of r u of None \<Rightarrow> \<lparr>status_code = 404, rs_body = Raw [], broken = None\<rparr>
        | Some b \<Rightarrow> \<lparr>status_code = 200, rs_body = b, broken = None\<rparr>), r)
   | PUT u b \<Rightarrow> (Inr \<lparr>status_code = 201, rs_body = Raw [], broken = None\<rparr>, AList.update u b r)
   | DELETE u \<Rightarrow> (Inr \<lparr>status_code = 204, rs_body = Raw [], broken = None\<rparr>, AList.delete u r))"

lemma dav_serves: "serves dav map_of"
  by (auto simp: serves_def dav_def update_conv' split: option.split)

theorem pushed_entry_can_be_pulled_witness:
  "\<exists>r' s'. hc_push \<lparr>he_base = ''https://c'', he_server = dav, he_raw = \<lambda>_. []\<rparr> (sample_info (replicate 64 (CHR ''f'')) [''deb'']) (replicate 64 (CHR ''f'')) [] = (Inr (), r') \<and>
    map_of (bins s') (replicate 64 (CHR ''f'')) = Some (replicate 64 (CHR ''f'')) \<and>
    cm_pull sample_cache_env (Some \<lparr>he_base = ''https://c'', he_server = dav, he_raw = \<lambda>_. []\<rparr>) ''deb'' (empty_store, r') =
      (Inr (sample_info (replicate 64 (CHR ''f'')) [''deb'']), (s', r'))"
proof -
  let ?H = "\<lparr>he_base = ''https://c'', he_server = dav, he_raw = \<lambda>_. []\<rparr>" and ?k = "replicate 64 (CHR ''f'')"
  let ?i = "sample_info ?k [''deb'']"
  have v: "cache_validate_name ''deb'' = Inr ()" "\<not> is_digest ''deb''" "hex_char (CHR ''f'')" by code_simp+
  then have "list_all hex_char ?k" by (simp add: list_all_iff)
  moreover have "?i\<lparr>ci_path := Some ?k\<rparr> = ?i" "ci_sha ?i = ?k" "ci_names ?i = [''deb'']" by (simp_all add: sample_info_def)
  moreover have "ce_fault sample_cache_env = (\<lambda>_. None)" "ce_sha256 sample_cache_env ?k = ?k" by (simp_all add: sample_cache_env_def)
  ultimately show ?thesis
    using pushed_entry_can_be_pulled [of ?H map_of sample_cache_env ?i ?k "''deb''" "[]"] dav_serves v by simp
qed

end
