(* ===== verification/Connection_Uri.thy ===== *)
theory Connection_Uri
  imports Names Driver_Naming
begin

text \<open>
  The teardown URI of a run: how each backend writes its connection into the state file and rebuilds it for
  \<^verbatim>\<open>cleanup\<close> (\<^verbatim>\<open>drivers/libvirt/_conn.py\<close>, \<^verbatim>\<open>drivers/proxmox/_client.py\<close>,
  \<^verbatim>\<open>drivers/esxi/_client.py\<close>). The part of \<^verbatim>\<open>urllib.parse\<close> these functions use is modelled on byte
  strings: percent quoting, \<^verbatim>\<open>urlencode\<close>, \<^verbatim>\<open>urlparse\<close> with its clean-up of the
  input, its checks of brackets, and its user, password, host and port attributes, and \<^verbatim>\<open>parse_qs\<close>,
  which drops blank values. Whether a bracketed host is a valid IPv6 address is a parameter.
\<close>

subsection \<open>Quoting\<close>

definition quote_safe :: "char \<Rightarrow> bool" where
  "quote_safe c \<longleftrightarrow> is_alnum c \<or> c \<in> set ''_.-~''"

definition hex_upper :: "nat \<Rightarrow> char" where
  "hex_upper n = (if n < 10 then char_of (48 + n) else char_of (55 + n))"

definition pct :: "char \<Rightarrow> string" where
  "pct c = [CHR ''%'', hex_upper (of_char c div 16), hex_upper (of_char c mod 16)]"

definition url_quote :: "string \<Rightarrow> string" where
  "url_quote s = concat (map (\<lambda>c. if quote_safe c then [c] else pct c) s)"

definition quote_plus :: "string \<Rightarrow> string" where
  "quote_plus s = concat (map (\<lambda>c. if quote_safe c then [c] else if c = CHR '' '' then ''+'' else pct c) s)"

definition hex_val :: "char \<Rightarrow> nat option" where
  "hex_val c = (if is_digit c then Some (of_char c - 48)
     else if CHR ''A'' \<le> c \<and> c \<le> CHR ''F'' then Some (of_char c - 55)
     else if CHR ''a'' \<le> c \<and> c \<le> CHR ''f'' then Some (of_char c - 87) else None)"

fun unquote :: "string \<Rightarrow> string" where
  "unquote (c # d # e # s) =
     (if c = CHR ''%'' then
        (case (hex_val d, hex_val e) of (Some m, Some n) \<Rightarrow> char_of (16 * m + n) # unquote s | _ \<Rightarrow> c # unquote (d # e # s))
      else c # unquote (d # e # s))"
| "unquote s = s"

definition unquote_plus :: "string \<Rightarrow> string" where
  "unquote_plus s = unquote (map (\<lambda>c. if c = CHR ''+'' then CHR '' '' else c) s)"

definition urlencode :: "(string, string) dict \<Rightarrow> string" where
  "urlencode kvs = join ''&'' (map (\<lambda>(k, v). quote_plus k @ ''='' @ quote_plus v) kvs)"

subsection \<open>Parsing\<close>

text \<open>\<^verbatim>\<open>str.partition\<close> and \<^verbatim>\<open>str.rpartition\<close> on one character: the part before, whether the separator
  occurs, the part after.\<close>

definition partition_on :: "char \<Rightarrow> string \<Rightarrow> string \<times> bool \<times> string" where
  "partition_on c s = (takeWhile (\<lambda>x. x \<noteq> c) s, c \<in> set s, drop 1 (dropWhile (\<lambda>x. x \<noteq> c) s))"

definition rpartition_on :: "char \<Rightarrow> string \<Rightarrow> string \<times> bool \<times> string" where
  "rpartition_on c s = (rev (drop 1 (dropWhile (\<lambda>x. x \<noteq> c) (rev s))), c \<in> set s, rev (takeWhile (\<lambda>x. x \<noteq> c) (rev s)))"

record split_url =
  us_scheme :: string
  us_netloc :: string
  us_path :: string
  us_query :: string

definition scheme_char :: "char \<Rightarrow> bool" where
  "scheme_char c \<longleftrightarrow> is_alnum c \<or> c \<in> set ''+-.''"

definition control_or_space :: "char \<Rightarrow> bool" where
  "control_or_space c \<longleftrightarrow> of_char c \<le> (32 :: nat)"

definition unsafe_byte :: "char \<Rightarrow> bool" where
  "unsafe_byte c \<longleftrightarrow> of_char c \<in> set [9, 10, 13 :: nat]"

definition split_scheme :: "string \<Rightarrow> string \<times> string" where
  "split_scheme url =
     (let (pre, found, rest) = partition_on (CHR '':'') url in
      if found \<and> pre \<noteq> [] \<and> is_alpha (hd pre) \<and> list_all scheme_char pre then (lower pre, rest) else ([], url))"

definition split_netloc :: "string \<Rightarrow> string \<times> string" where
  "split_netloc url =
     (if startswith url ''//'' then (takeWhile (\<lambda>c. c \<notin> set ''/?#'') (drop 2 url), dropWhile (\<lambda>c. c \<notin> set ''/?#'') (drop 2 url))
      else ([], url))"

definition urlparse :: "(string \<Rightarrow> bool) \<Rightarrow> string \<Rightarrow> split_url result" where
  "urlparse v6 url =
     (let (sc, rest) = split_scheme (filter (\<lambda>c. \<not> unsafe_byte c) (dropWhile control_or_space url));
          (nl, tail) = split_netloc rest;
          op = (CHR ''['' \<in> set nl); cl = (CHR '']'' \<in> set nl);
          (body, _, frag) = partition_on (CHR ''#'') tail;
          (path, _, query) = partition_on (CHR ''?'') body
      in if op \<noteq> cl then Inl (ValueError [])
         else if op \<and> \<not> v6 (fst (partition_on (CHR '']'') (snd (snd (partition_on (CHR ''['') nl))))) then Inl (ValueError [])
         else Inr \<lparr>us_scheme = sc, us_netloc = nl, us_path = path, us_query = query\<rparr>)"

definition url_username :: "split_url \<Rightarrow> string option" where
  "url_username u = (case rpartition_on (CHR ''@'') (us_netloc u) of (info, have_info, _) \<Rightarrow>
     if have_info then Some (fst (partition_on (CHR '':'') info)) else None)"

definition url_password :: "split_url \<Rightarrow> string option" where
  "url_password u = (case rpartition_on (CHR ''@'') (us_netloc u) of (info, have_info, _) \<Rightarrow>
     if have_info then (case partition_on (CHR '':'') info of (_, have_pw, pw) \<Rightarrow> if have_pw then Some pw else None) else None)"

definition hostinfo :: "split_url \<Rightarrow> string \<times> string" where
  "hostinfo u =
     (let hi = snd (snd (rpartition_on (CHR ''@'') (us_netloc u)));
          (_, have_br, bracketed) = partition_on (CHR ''['') hi
      in if have_br then
           (let (h, _, p) = partition_on (CHR '']'') bracketed in (h, snd (snd (partition_on (CHR '':'') p))))
         else (let (h, _, p) = partition_on (CHR '':'') hi in (h, p)))"

definition url_hostname :: "split_url \<Rightarrow> string option" where
  "url_hostname u = (let h = fst (hostinfo u) in
     if h = [] then None
     else (case partition_on (CHR ''%'') h of (a, found, z) \<Rightarrow> Some (lower a @ (if found then CHR ''%'' # z else []))))"

definition url_port :: "split_url \<Rightarrow> int option result" where
  "url_port u = (let p = snd (hostinfo u) in
     if p = [] then Inr None
     else if \<not> list_all is_digit p then Inl (ValueError [p])
     else if 65535 < nat_of_digits p then Inl (ValueError []) else Inr (Some (int (nat_of_digits p))))"

definition parse_qs :: "string \<Rightarrow> (string, string) dict" where
  "parse_qs q = concat (map (\<lambda>kv. case partition_on (CHR ''='') kv of (k, _, v) \<Rightarrow>
       if v = [] then [] else [(unquote_plus k, unquote_plus v)]) (filter (\<lambda>kv. kv \<noteq> []) (split_on (CHR ''&'') q)))"

text \<open>\<^verbatim>\<open>q.get(k, [d])[0]\<close>.\<close>

definition q_first :: "(string, string) dict \<Rightarrow> string \<Rightarrow> string \<Rightarrow> string" where
  "q_first q k d = (case map_of q k of None \<Rightarrow> d | Some v \<Rightarrow> v)"

text \<open>\<^verbatim>\<open>x or default\<close>.\<close>

definition or_str :: "string option \<Rightarrow> string \<Rightarrow> string" where
  "or_str x d = (case x of None \<Rightarrow> d | Some s \<Rightarrow> if s = [] then d else s)"

definition or_int :: "int option \<Rightarrow> int \<Rightarrow> int" where
  "or_int x d = (case x of None \<Rightarrow> d | Some n \<Rightarrow> if n = 0 then d else n)"

subsection \<open>Connections\<close>

definition TEARDOWN_SCHEME :: string where
  "TEARDOWN_SCHEME = ''tr-libvirt''"

record libvirt_conn =
  libvirt_uri :: string

definition lv_to_uri :: "libvirt_conn \<Rightarrow> string" where
  "lv_to_uri c = TEARDOWN_SCHEME @ ''://?'' @ urlencode [(''conn'', libvirt_uri c)]"

definition lv_from_uri :: "(string \<Rightarrow> bool) \<Rightarrow> string \<Rightarrow> libvirt_conn result" where
  "lv_from_uri v6 uri = bindR (urlparse v6 uri) (\<lambda>u.
     if us_scheme u \<noteq> TEARDOWN_SCHEME then Inl (DriverError [uri])
     else Inr \<lparr>libvirt_uri = q_first (parse_qs (us_query u)) ''conn'' ''qemu:///system''\<rparr>)"

definition userinfo :: "string \<Rightarrow> string \<Rightarrow> string" where
  "userinfo u p = url_quote u @ (if p \<noteq> [] then '':'' @ url_quote p else [])"

record esxi_conn =
  ec_host :: string
  ec_user :: string
  ec_password :: string
  ec_datastore :: string
  ec_verify_ssl :: bool
  ec_port :: int

definition esxi_to_uri :: "esxi_conn \<Rightarrow> string" where
  "esxi_to_uri c = ''esxi://'' @ userinfo (ec_user c) (ec_password c) @ ''@'' @ ec_host c @ '':'' @ string_of_int (ec_port c) @ ''/?'' @
     urlencode [(''datastore'', ec_datastore c), (''verify'', if ec_verify_ssl c then ''1'' else ''0'')]"

definition esxi_from_uri :: "(string \<Rightarrow> bool) \<Rightarrow> string \<Rightarrow> esxi_conn result" where
  "esxi_from_uri v6 uri = bindR (urlparse v6 uri) (\<lambda>u.
     if us_scheme u \<noteq> ''esxi'' then Inl (DriverError [uri])
     else case url_hostname u of None \<Rightarrow> Inl (DriverError [uri]) | Some h \<Rightarrow>
       let q = parse_qs (us_query u) in
       bindR (url_port u) (\<lambda>p.
       Inr \<lparr>ec_host = h, ec_user = unquote (or_str (url_username u) ''root''), ec_password = unquote (or_str (url_password u) []),
            ec_datastore = q_first q ''datastore'' ''datastore1'', ec_verify_ssl = (q_first q ''verify'' ''0'' = ''1''), ec_port = or_int p 443\<rparr>))"

definition parse_connection :: "(string \<Rightarrow> bool) \<Rightarrow> string \<Rightarrow> (string \<times> int \<times> string \<times> string) result" where
  "parse_connection v6 uri = bindR (urlparse v6 uri) (\<lambda>u.
     if us_scheme u \<noteq> ''proxmox'' then Inl (DriverError [uri])
     else case url_hostname u of None \<Rightarrow> Inl (DriverError [uri]) | Some h \<Rightarrow>
       bindR (url_port u) (\<lambda>p. Inr (h, or_int p 8006, unquote (or_str (url_username u) []), unquote (or_str (url_password u) []))))"

definition normalize_realm :: "string \<Rightarrow> string" where
  "normalize_realm u = (if CHR ''@'' \<in> set u then u else u @ ''@pam'')"

record proxmox_conn =
  pc_host :: string
  pc_node :: string
  pc_user :: string
  pc_password :: string
  pc_verify_ssl :: bool
  pc_port :: int
  backing_storage :: string
  pc_ssh_user :: string
  pc_ssh_password :: string
  pc_ssh_port :: int

definition pve_to_uri :: "proxmox_conn \<Rightarrow> string" where
  "pve_to_uri c = ''proxmox://'' @ userinfo (pc_user c) (pc_password c) @ ''@'' @ pc_host c @ '':'' @ string_of_int (pc_port c) @ ''/'' @ pc_node c @ ''?'' @
     urlencode ([(''storage'', backing_storage c), (''verify'', if pc_verify_ssl c then ''1'' else ''0''), (''ssh_user'', pc_ssh_user c),
       (''ssh_port'', string_of_int (pc_ssh_port c))] @ (if pc_ssh_password c \<noteq> [] then [(''ssh_password'', pc_ssh_password c)] else []))"

definition strip_char :: "char \<Rightarrow> string \<Rightarrow> string" where
  "strip_char c s = rev (dropWhile (\<lambda>x. x = c) (rev (dropWhile (\<lambda>x. x = c) s)))"

text \<open>\<^verbatim>\<open>int(text)\<close> on an optional sign and digits; anything else raises.\<close>

definition int_of :: "string \<Rightarrow> int result" where
  "int_of s =
     (let (neg, ds) = (case s of c # t \<Rightarrow> if c = CHR ''-'' then (True, t) else if c = CHR ''+'' then (False, t) else (False, s) | [] \<Rightarrow> (False, s)) in
      if ds = [] \<or> \<not> list_all is_digit ds then Inl (ValueError [s])
      else Inr (if neg then - int (nat_of_digits ds) else int (nat_of_digits ds)))"

definition pve_from_uri :: "(string \<Rightarrow> bool) \<Rightarrow> string \<Rightarrow> proxmox_conn result" where
  "pve_from_uri v6 uri = bindR (parse_connection v6 uri) (\<lambda>(h, p, us, pw).
     bindR (urlparse v6 uri) (\<lambda>u.
     let q = parse_qs (us_query u) in
     bindR (int_of (q_first q ''ssh_port'' ''22'')) (\<lambda>sp.
     Inr \<lparr>pc_host = h, pc_node = strip_char (CHR ''/'') (us_path u), pc_user = or_str (Some us) ''root@pam'', pc_password = pw,
          pc_verify_ssl = (q_first q ''verify'' ''0'' = ''1''), pc_port = p, backing_storage = q_first q ''storage'' ''local'',
          pc_ssh_user = q_first q ''ssh_user'' ''root'', pc_ssh_password = q_first q ''ssh_password'' [], pc_ssh_port = sp\<rparr>)))"

subsection \<open>Quoting and parsing are inverse\<close>

lemma hex_upper_props: "n < 16 \<Longrightarrow> hex_val (hex_upper n) = Some n \<and> quote_safe (hex_upper n)"
proof -
  have "list_all (\<lambda>n. hex_val (hex_upper n) = Some n \<and> quote_safe (hex_upper n)) [0..<16]" by code_simp
  then show "n < 16 \<Longrightarrow> ?thesis" by (simp add: list_all_iff)
qed

lemma unquote_plain: "c \<noteq> CHR ''%'' \<Longrightarrow> unquote (c # s) = c # unquote s"
  by (cases "c # s" rule: unquote.cases) auto

lemma byte_digits: "of_char c div 16 < (16 :: nat)" "of_char c mod 16 < (16 :: nat)"
  using nat_of_char_less_256 [of c] by (auto simp: less_mult_imp_div_less)

lemma unquote_pct: "unquote (pct c @ s) = c # unquote s"
  using hex_upper_props byte_digits by (simp add: pct_def)

lemma unquote_concat:
  assumes "\<not> P (CHR ''%'')"
  shows "unquote (concat (map (\<lambda>c. if P c then [c] else pct c) s)) = s"
proof (induction s)
  case (Cons c s)
  moreover have "c \<noteq> CHR ''%''" if "P c" using assms that by auto
  ultimately show ?case by (simp add: unquote_plain unquote_pct)
qed simp

lemma percent_unsafe: "\<not> quote_safe (CHR ''%'')" "\<not> quote_safe (CHR ''+'')" "\<not> quote_safe (CHR '' '')" by code_simp+

lemma unquote_url_quote [simp]: "unquote (url_quote s) = s"
  unfolding url_quote_def by (rule unquote_concat) (rule percent_unsafe)

lemma pct_chars: "x \<in> set (pct c) \<Longrightarrow> x = CHR ''%'' \<or> quote_safe x"
  using hex_upper_props byte_digits by (auto simp: pct_def)

lemma unquote_quote_plus [simp]: "unquote_plus (quote_plus s) = s"
proof -
  let ?f = "\<lambda>c. if c = CHR ''+'' then CHR '' '' else c" and ?P = "\<lambda>c. quote_safe c \<or> c = CHR '' ''"
  have "map ?f (pct c) = pct c" for c using pct_chars percent_unsafe by (intro map_idI) auto
  then have "map ?f (quote_plus s) = concat (map (\<lambda>c. if ?P c then [c] else pct c) s)"
    unfolding quote_plus_def map_concat map_map by (intro arg_cong [of _ _ concat] map_cong) (use percent_unsafe in auto)
  then show ?thesis unfolding unquote_plus_def by (simp only:) (rule unquote_concat, use percent_unsafe in auto)
qed

lemma quote_chars:
  "x \<in> set (url_quote s) \<Longrightarrow> x = CHR ''%'' \<or> quote_safe x"
  "x \<in> set (quote_plus s) \<Longrightarrow> x \<in> {CHR ''%'', CHR ''+''} \<or> quote_safe x"
  by (auto simp: url_quote_def quote_plus_def dest: pct_chars split: if_splits)

lemma quote_Nil [simp]: "url_quote s = [] \<longleftrightarrow> s = []" "quote_plus s = [] \<longleftrightarrow> s = []"
  by (cases s; auto simp: url_quote_def quote_plus_def pct_def)+

text \<open>What the encoders never emit.\<close>

lemma quote_excludes:
  assumes "\<not> quote_safe c" and "c \<noteq> CHR ''%''"
  shows "c \<notin> set (url_quote s)" "c \<noteq> CHR ''+'' \<Longrightarrow> c \<notin> set (quote_plus s)"
  using assms quote_chars by blast+

lemma until_sep: "c \<notin> set a \<Longrightarrow> takeWhile (\<lambda>x. x \<noteq> c) (a @ c # b) = a \<and> dropWhile (\<lambda>x. x \<noteq> c) (a @ c # b) = c # b"
  by (induction a) auto

lemma until_end: "c \<notin> set a \<Longrightarrow> takeWhile (\<lambda>x. x \<noteq> c) a = a \<and> dropWhile (\<lambda>x. x \<noteq> c) a = []"
  by (induction a) auto

lemma partition_on_append: "c \<notin> set a \<Longrightarrow> partition_on c (a @ c # b) = (a, True, b)"
  by (simp add: partition_on_def until_sep)

lemma partition_on_absent: "c \<notin> set a \<Longrightarrow> partition_on c a = (a, False, [])"
  by (simp add: partition_on_def until_end)

lemma rpartition_on_append: "c \<notin> set b \<Longrightarrow> rpartition_on c (a @ c # b) = (a, True, b)"
  by (simp add: rpartition_on_def until_sep)

lemma separators_unsafe:
  "list_all (\<lambda>c. \<not> quote_safe c \<and> c \<noteq> CHR ''%'') ''&=/?#:@[]''"
  by code_simp

lemma parse_qs_urlencode: "parse_qs (urlencode kvs) = filter (\<lambda>(k, v). v \<noteq> []) kvs"
proof (cases "kvs = []")
  case False
  let ?it = "\<lambda>(k, v). quote_plus k @ ''='' @ quote_plus v"
  have no_amp: "CHR ''&'' \<notin> set (?it kv)" for kv
    using quote_excludes(2) [of "CHR ''&''"] separators_unsafe by (cases kv) auto
  have eq: "partition_on (CHR ''='') (?it (k, v)) = (quote_plus k, True, quote_plus v)" for k v
    using quote_excludes(2) [of "CHR ''=''"] separators_unsafe by (simp add: partition_on_append)
  have "split_on (CHR ''&'') (urlencode kvs) = map ?it kvs"
    unfolding urlencode_def by (rule split_on_join) (use False no_amp in auto)
  moreover have "filter (\<lambda>kv. kv \<noteq> []) (map ?it kvs) = map ?it kvs" by (auto simp: filter_id_conv)
  ultimately have "parse_qs (urlencode kvs) = concat (map (\<lambda>(k, v). if v = [] then [] else [(k, v)]) kvs)"
    unfolding parse_qs_def using eq by (auto simp: comp_def intro!: arg_cong [of _ _ concat] map_cong split: prod.splits)
  also have "\<dots> = filter (\<lambda>(k, v). v \<noteq> []) kvs" by (induction kvs) auto
  finally show ?thesis .
qed (simp add: urlencode_def parse_qs_def)

subsection \<open>Parsing a URI that was written\<close>

definition plain :: "char \<Rightarrow> bool" where
  "plain c \<longleftrightarrow> \<not> control_or_space c \<and> c \<notin> set ''/?#[]@:''"

lemma plain_printable: "plain c \<Longrightarrow> \<not> control_or_space c \<and> \<not> unsafe_byte c"
  by (auto simp: plain_def control_or_space_def unsafe_byte_def)

lemma quote_safe_plain: "quote_safe c \<Longrightarrow> plain c" and quote_extra_plain: "plain (CHR ''%'')" "plain (CHR ''+'')" "plain (CHR ''&'')" "plain (CHR ''='')"
proof -
  have "\<forall>c :: char. quote_safe c \<longrightarrow> plain c" by code_simp
  then show "quote_safe c \<Longrightarrow> plain c" by blast
qed code_simp+

lemma plain_quotes: "x \<in> set (url_quote s) \<Longrightarrow> plain x" "x \<in> set (quote_plus s) \<Longrightarrow> plain x"
  using quote_chars quote_safe_plain quote_extra_plain by blast+

lemma plain_join: "(\<And>w x. w \<in> set ws \<Longrightarrow> x \<in> set w \<Longrightarrow> plain x) \<Longrightarrow> x \<in> set (join ''&'' ws) \<Longrightarrow> plain x"
proof (induction ws)
  case (Cons w ws)
  then show ?case using quote_extra_plain(3) by (cases "ws = []") (auto simp: join_Cons)
qed simp

lemma plain_urlencode: "x \<in> set (urlencode kvs) \<Longrightarrow> plain x"
  unfolding urlencode_def by (erule plain_join [rotated]) (use plain_quotes(2) quote_extra_plain(4) in auto)

lemma plain_digits: "x \<in> set (string_of_nat n) \<Longrightarrow> plain x"
proof -
  have "\<forall>c :: char. is_digit c \<longrightarrow> plain c" by code_simp
  then show "x \<in> set (string_of_nat n) \<Longrightarrow> plain x" using string_of_nat_digits [of n] by (auto simp: list_all_iff)
qed

lemma clean_printable: "\<forall>c \<in> set s. \<not> control_or_space c \<Longrightarrow> dropWhile control_or_space s = s \<and> filter (\<lambda>c. \<not> unsafe_byte c) s = s"
  by (cases s) (auto simp: control_or_space_def unsafe_byte_def filter_id_conv)

lemma until_in: "\<forall>x \<in> set a. x \<notin> S \<Longrightarrow> c \<in> S \<Longrightarrow> takeWhile (\<lambda>x. x \<notin> S) (a @ c # b) = a \<and> dropWhile (\<lambda>x. x \<notin> S) (a @ c # b) = c # b"
  by (induction a) auto

definition printable :: "string \<Rightarrow> bool" where
  "printable s \<longleftrightarrow> (\<forall>c \<in> set s. \<not> control_or_space c)"

lemma urlparse_built:
  assumes "sc \<noteq> []" "is_alpha (hd sc)" "list_all scheme_char sc" "lower sc = sc" "CHR '':'' \<notin> set sc"
    and pr: "printable sc" "printable nl" "printable path" "printable q"
    and nl: "\<forall>c \<in> set nl. c \<notin> set ''/?#[]''" and path: "path = [] \<or> hd path = CHR ''/''" "\<forall>c \<in> set path. c \<notin> set ''?#''" and q: "CHR ''#'' \<notin> set q"
  shows "urlparse v6 (sc @ ''://'' @ nl @ path @ ''?'' @ q) = Inr \<lparr>us_scheme = sc, us_netloc = nl, us_path = path, us_query = q\<rparr>"
proof -
  let ?url = "sc @ ''://'' @ nl @ path @ ''?'' @ q"
  have c: "filter (\<lambda>c. \<not> unsafe_byte c) (dropWhile control_or_space ?url) = ?url" proof -
    have "printable ''://?''" by code_simp
    then have "\<forall>c \<in> set ?url. \<not> control_or_space c" using pr by (auto simp: printable_def)
    note this [THEN clean_printable]
    then show ?thesis by (simp only: conjunct1)
  qed
  have s: "split_scheme ?url = (sc, ''//'' @ nl @ path @ ''?'' @ q)"
    using assms(1-5) partition_on_append [of "CHR '':''" sc "''//'' @ nl @ path @ ''?'' @ q"] by (simp add: split_scheme_def)
  obtain x xs where e: "path @ ''?'' @ q = x # xs" "x \<in> set ''/?#''" using path(1) by (cases path) auto
  have "\<forall>c \<in> set nl. c \<notin> set ''/?#''" using nl by simp
  note u = until_in [OF this e(2), of xs]
  have d: "startswith (''//'' @ t) ''//''" "drop 2 (''//'' @ t) = t" for t by (simp_all add: startswith_def)
  have n: "split_netloc (''//'' @ nl @ path @ ''?'' @ q) = (nl, path @ ''?'' @ q)"
    unfolding split_netloc_def e(1) if_P [OF d(1)] d(2) u [THEN conjunct1] u [THEN conjunct2] ..
  have "CHR ''#'' \<notin> set (path @ ''?'' @ q)" using path(2) q by auto
  then have f: "partition_on (CHR ''#'') (path @ ''?'' @ q) = (path @ ''?'' @ q, False, [])" by (rule partition_on_absent)
  have p: "partition_on (CHR ''?'') (path @ ''?'' @ q) = (path, True, q)"
    using path(2) partition_on_append [of "CHR ''?''" path q] by auto
  have "CHR ''['' \<notin> set nl" "CHR '']'' \<notin> set nl" using nl by auto
  then show ?thesis unfolding urlparse_def c s Let_def by (simp add: n [simplified] f [simplified] p [simplified])
qed

definition plain_host :: "string \<Rightarrow> bool" where
  "plain_host h \<longleftrightarrow> h \<noteq> [] \<and> list_all (\<lambda>c. is_lower c \<or> is_digit c \<or> c \<in> set ''.-_'') h"

lemma host_char_plain: "is_lower c \<or> is_digit c \<or> c \<in> set ''.-_'' \<Longrightarrow> plain c \<and> c \<noteq> CHR ''%'' \<and> lower_char c = c"
proof -
  have "\<forall>c :: char. is_lower c \<or> is_digit c \<or> c \<in> set ''.-_'' \<longrightarrow> plain c \<and> c \<noteq> CHR ''%'' \<and> lower_char c = c" by code_simp
  then show "is_lower c \<or> is_digit c \<or> c \<in> set ''.-_'' \<Longrightarrow> ?thesis" by blast
qed

lemma plain_hostD: "plain_host h \<Longrightarrow> h \<noteq> [] \<and> lower h = h \<and> (\<forall>c \<in> set h. plain c \<and> c \<noteq> CHR ''%'')"
  using host_char_plain by (auto simp: plain_host_def lower_def list_all_iff intro!: map_idI)

text \<open>The authority \<^verbatim>\<open>user[:password]@host:port\<close>.\<close>

definition authority :: "string \<Rightarrow> string \<Rightarrow> string \<Rightarrow> nat \<Rightarrow> string" where
  "authority u p h n = userinfo u p @ ''@'' @ h @ '':'' @ string_of_nat n"

lemma userinfo_chars: "x \<in> set (userinfo u p) \<Longrightarrow> plain x \<or> x = CHR '':''"
  using plain_quotes(1) by (auto simp: userinfo_def split: if_splits)

lemma authority_chars:
  assumes "plain_host h"
  shows "printable (authority u p h n)" "\<forall>c \<in> set (authority u p h n). c \<notin> set ''/?#[]''"
proof -
  have "\<not> control_or_space c \<and> c \<notin> set ''/?#[]''" if "c \<in> set (authority u p h n)" for c
  proof -
    have "plain c \<or> c = CHR '':'' \<or> c = CHR ''@''"
      using that assms userinfo_chars plain_hostD plain_digits by (auto simp: authority_def)
    moreover have "\<not> control_or_space (CHR '':'')" "\<not> control_or_space (CHR ''@'')" by code_simp+
    ultimately show ?thesis by (auto simp: plain_def)
  qed
  then show "printable (authority u p h n)" "\<forall>c \<in> set (authority u p h n). c \<notin> set ''/?#[]''" by (auto simp: printable_def)
qed

lemma authority_parts:
  assumes "plain_host h" and "us_netloc url = authority u p h n"
  shows "url_username url = Some (url_quote u)" "url_password url = (if p = [] then None else Some (url_quote p))"
    "url_hostname url = Some h" "n \<le> 65535 \<Longrightarrow> url_port url = Inr (Some (int n))"
proof -
  have h: "h \<noteq> []" "lower h = h" "\<And>c. c \<in> set h \<Longrightarrow> plain c \<and> c \<noteq> CHR ''%''" using plain_hostD [OF assms(1)] by auto
  have ne: "\<not> plain (CHR ''@'')" "\<not> plain (CHR '':'')" "\<not> plain (CHR ''['')" by code_simp+
  then have "CHR ''@'' \<notin> set (h @ '':'' @ string_of_nat n)" using h(3) plain_digits by auto
  then have r: "rpartition_on (CHR ''@'') (us_netloc url) = (userinfo u p, True, h @ '':'' @ string_of_nat n)"
    unfolding assms(2) authority_def using rpartition_on_append by simp
  have colon: "CHR '':'' \<notin> set (url_quote s)" for s using plain_quotes(1) ne(2) by blast
  have i: "partition_on (CHR '':'') (userinfo u p) = (url_quote u, p \<noteq> [], if p = [] then [] else url_quote p)"
    using partition_on_absent [OF colon] partition_on_append [OF colon] by (simp add: userinfo_def)
  show "url_username url = Some (url_quote u)" "url_password url = (if p = [] then None else Some (url_quote p))"
    by (simp_all add: url_username_def url_password_def r i)
  have "CHR ''['' \<notin> set (h @ '':'' @ string_of_nat n)" using ne(3) h(3) plain_digits by auto
  then have "partition_on (CHR ''['') (h @ '':'' @ string_of_nat n) = (h @ '':'' @ string_of_nat n, False, [])" by (rule partition_on_absent)
  moreover have "partition_on (CHR '':'') (h @ '':'' @ string_of_nat n) = (h, True, string_of_nat n)"
    using partition_on_append [of "CHR '':''" h] h(3) ne(2) by auto
  ultimately have hi: "hostinfo url = (h, string_of_nat n)" by (simp add: hostinfo_def r Let_def)
  have "partition_on (CHR ''%'') h = (h, False, [])" using h(3) by (intro partition_on_absent) auto
  then show "url_hostname url = Some h" using h by (simp add: url_hostname_def hi)
  show "n \<le> 65535 \<Longrightarrow> url_port url = Inr (Some (int n))"
    using string_of_nat_digits [of n] by (simp add: url_port_def hi)
qed

subsection \<open>The contract of a teardown URI\<close>

text \<open>What \<^verbatim>\<open>cleanup\<close> relies on: for the connections that are well formed, the URI in the state file denotes the connection. Then
  two connections never share a URI, so a state file is never attributed to the wrong host.\<close>

locale teardown_uri =
  fixes to_uri :: "'c \<Rightarrow> string" and from_uri :: "string \<Rightarrow> 'c result" and wf :: "'c \<Rightarrow> bool"
  assumes roundtrip: "wf c \<Longrightarrow> from_uri (to_uri c) = Inr c"
begin

lemma uri_identifies: "wf c \<Longrightarrow> wf d \<Longrightarrow> to_uri c = to_uri d \<Longrightarrow> c = d"
  using roundtrip by (metis sum.inject(2))

lemma reparse: "wf c \<Longrightarrow> from_uri (to_uri c) = Inr d \<Longrightarrow> to_uri d = to_uri c"
  by (simp add: roundtrip)

end

definition wf_libvirt :: "libvirt_conn \<Rightarrow> bool" where
  "wf_libvirt c \<longleftrightarrow> libvirt_uri c \<noteq> []"

definition wf_esxi :: "esxi_conn \<Rightarrow> bool" where
  "wf_esxi c \<longleftrightarrow> plain_host (ec_host c) \<and> ec_user c \<noteq> [] \<and> ec_datastore c \<noteq> [] \<and> 0 < ec_port c \<and> ec_port c \<le> 65535"

definition wf_proxmox :: "proxmox_conn \<Rightarrow> bool" where
  "wf_proxmox c \<longleftrightarrow> plain_host (pc_host c) \<and> list_all plain (pc_node c) \<and> pc_user c \<noteq> [] \<and> 0 < pc_port c \<and> pc_port c \<le> 65535 \<and>
     backing_storage c \<noteq> [] \<and> pc_ssh_user c \<noteq> [] \<and> 0 \<le> pc_ssh_port c"

lemma urlencode_chars: "printable (urlencode kvs)" "CHR ''#'' \<notin> set (urlencode kvs)"
  using plain_urlencode by (auto simp: plain_def printable_def)

lemma node_chars: "list_all plain s \<Longrightarrow> printable (''/'' @ s) \<and> (\<forall>c \<in> set (''/'' @ s). c \<notin> set ''?#'')"
proof -
  have "\<not> control_or_space (CHR ''/'')" by code_simp
  then show "list_all plain s \<Longrightarrow> ?thesis" by (auto simp: printable_def list_all_iff plain_def)
qed

lemma lv_roundtrip: "wf_libvirt c \<Longrightarrow> lv_from_uri v6 (lv_to_uri c) = Inr c"
proof -
  have sc: "TEARDOWN_SCHEME \<noteq> []" "is_alpha (hd TEARDOWN_SCHEME)" "list_all scheme_char TEARDOWN_SCHEME" "lower TEARDOWN_SCHEME = TEARDOWN_SCHEME"
    "CHR '':'' \<notin> set TEARDOWN_SCHEME" "printable TEARDOWN_SCHEME" "printable []" by code_simp+
  let ?q = "urlencode [(''conn'', libvirt_uri c)]"
  have "urlparse v6 (TEARDOWN_SCHEME @ ''://'' @ [] @ [] @ ''?'' @ ?q) = Inr \<lparr>us_scheme = TEARDOWN_SCHEME, us_netloc = [], us_path = [], us_query = ?q\<rparr>"
    by (rule urlparse_built [OF sc sc(7) urlencode_chars(1) _ _ _ urlencode_chars(2)]) simp_all
  then show "wf_libvirt c \<Longrightarrow> ?thesis"
    by (simp add: lv_to_uri_def lv_from_uri_def parse_qs_urlencode wf_libvirt_def q_first_def)
qed

lemma esxi_roundtrip: "wf_esxi c \<Longrightarrow> esxi_from_uri v6 (esxi_to_uri c) = Inr c"
proof -
  assume wf: "wf_esxi c"
  let ?n = "nat (ec_port c)" and ?q = "urlencode [(''datastore'', ec_datastore c), (''verify'', if ec_verify_ssl c then ''1'' else ''0'')]"
  let ?nl = "authority (ec_user c) (ec_password c) (ec_host c) ?n"
  have sc: "''esxi'' \<noteq> []" "is_alpha (hd ''esxi'')" "list_all scheme_char ''esxi''" "lower ''esxi'' = ''esxi''" "CHR '':'' \<notin> set ''esxi''" "printable ''esxi''" by code_simp+
  have h: "plain_host (ec_host c)" "?n \<le> 65535" "int ?n = ec_port c" "ec_port c \<noteq> 0" using wf by (auto simp: wf_esxi_def)
  have uri: "esxi_to_uri c = ''esxi'' @ ''://'' @ ?nl @ ''/'' @ ''?'' @ ?q"
    using wf by (simp add: esxi_to_uri_def authority_def string_of_int_def wf_esxi_def)
  have u: "urlparse v6 (esxi_to_uri c) = Inr \<lparr>us_scheme = ''esxi'', us_netloc = ?nl, us_path = ''/'', us_query = ?q\<rparr>"
    unfolding uri using node_chars [of "[]"]
    by (intro urlparse_built sc authority_chars h(1) urlencode_chars) (simp_all add: printable_def)
  define url where "url = \<lparr>us_scheme = ''esxi'', us_netloc = ?nl, us_path = ''/'', us_query = ?q\<rparr>"
  have f: "us_scheme url = ''esxi''" "us_netloc url = ?nl" "us_query url = ?q" by (simp_all add: url_def)
  note parts = authority_parts [OF h(1) f(2)]
  have q: "q_first (parse_qs ?q) ''datastore'' d = ec_datastore c" "(q_first (parse_qs ?q) ''verify'' d = ''1'') = ec_verify_ssl c" for d
    using wf by (simp_all add: parse_qs_urlencode q_first_def wf_esxi_def)
  have i: "unquote (or_str (url_username url) d) = ec_user c" "unquote (or_str (url_password url) []) = ec_password c" for d
    using wf by (simp_all add: parts(1,2) or_str_def wf_esxi_def)
  have p: "url_port url = Inr (Some (ec_port c))" "or_int (Some (ec_port c)) 443 = ec_port c" using parts(4) [OF h(2)] h(3,4) by (simp_all add: or_int_def)
  show ?thesis
    unfolding esxi_from_uri_def u [folded url_def] bindR_simps f(1,3) parts(3) Let_def p q i by simp
qed

lemma dropWhile_absent: "c \<notin> set s \<Longrightarrow> dropWhile (\<lambda>x. x = c) s = s"
  by (cases s) auto

lemma strip_slash_node: "list_all plain s \<Longrightarrow> strip_char (CHR ''/'') (CHR ''/'' # s) = s"
proof -
  assume "list_all plain s"
  then have "CHR ''/'' \<notin> set s" by (auto simp: list_all_iff plain_def)
  then show ?thesis by (simp add: strip_char_def dropWhile_absent)
qed

lemma int_of_string: "0 \<le> n \<Longrightarrow> int_of (string_of_int n) = Inr n"
proof -
  obtain c t where ct: "string_of_nat (nat n) = c # t" by (cases "string_of_nat (nat n)") auto
  have "list_all is_digit (c # t)" using string_of_nat_digits [of "nat n"] ct by simp
  moreover have "\<not> is_digit (CHR ''-'')" "\<not> is_digit (CHR ''+'')" by code_simp+
  ultimately have "c \<noteq> CHR ''-''" "c \<noteq> CHR ''+''" "list_all is_digit (c # t)" by auto
  then show "0 \<le> n \<Longrightarrow> ?thesis" using nat_of_digits_string_of_nat [of "nat n"]
    by (simp add: string_of_int_def int_of_def ct)
qed

lemma pve_roundtrip: "wf_proxmox c \<Longrightarrow> pve_from_uri v6 (pve_to_uri c) = Inr c"
proof -
  assume wf: "wf_proxmox c"
  let ?kvs = "[(''storage'', backing_storage c), (''verify'', if pc_verify_ssl c then ''1'' else ''0''), (''ssh_user'', pc_ssh_user c),
       (''ssh_port'', string_of_int (pc_ssh_port c))] @ (if pc_ssh_password c \<noteq> [] then [(''ssh_password'', pc_ssh_password c)] else [])"
  let ?n = "nat (pc_port c)" and ?q = "urlencode ?kvs" and ?p = "''/'' @ pc_node c"
  let ?nl = "authority (pc_user c) (pc_password c) (pc_host c) ?n"
  have sc: "''proxmox'' \<noteq> []" "is_alpha (hd ''proxmox'')" "list_all scheme_char ''proxmox''" "lower ''proxmox'' = ''proxmox''" "CHR '':'' \<notin> set ''proxmox''" "printable ''proxmox''" by code_simp+
  have h: "plain_host (pc_host c)" "?n \<le> 65535" "int ?n = pc_port c" "pc_port c \<noteq> 0" and node: "list_all plain (pc_node c)"
    using wf by (auto simp: wf_proxmox_def)
  have uri: "pve_to_uri c = ''proxmox'' @ ''://'' @ ?nl @ ?p @ ''?'' @ ?q"
    using wf by (simp add: pve_to_uri_def authority_def string_of_int_def [of "pc_port c"] wf_proxmox_def)
  have u: "urlparse v6 (pve_to_uri c) = Inr \<lparr>us_scheme = ''proxmox'', us_netloc = ?nl, us_path = ?p, us_query = ?q\<rparr>"
    unfolding uri using node_chars [OF node]
    by (intro urlparse_built sc authority_chars h(1) urlencode_chars) (blast | simp)+
  define url where "url = \<lparr>us_scheme = ''proxmox'', us_netloc = ?nl, us_path = ?p, us_query = ?q\<rparr>"
  have f: "us_scheme url = ''proxmox''" "us_netloc url = ?nl" "us_path url = ?p" "us_query url = ?q" by (simp_all add: url_def)
  note parts = authority_parts [OF h(1) f(2)]
  have port: "int_of (string_of_int (pc_ssh_port c)) = Inr (pc_ssh_port c)" "string_of_int (pc_ssh_port c) \<noteq> []"
    using wf int_of_string [of "pc_ssh_port c"] by (simp_all add: wf_proxmox_def) (simp add: string_of_int_def)
  have q: "q_first (parse_qs ?q) ''storage'' d = backing_storage c" "(q_first (parse_qs ?q) ''verify'' d = ''1'') = pc_verify_ssl c"
    "q_first (parse_qs ?q) ''ssh_user'' d = pc_ssh_user c" "q_first (parse_qs ?q) ''ssh_port'' d = string_of_int (pc_ssh_port c)"
    "q_first (parse_qs ?q) ''ssh_password'' [] = pc_ssh_password c" for d
    using wf port(2) by (simp_all add: parse_qs_urlencode q_first_def wf_proxmox_def)
  have i: "unquote (or_str (url_username url) []) = pc_user c" "unquote (or_str (url_password url) []) = pc_password c" "or_str (Some (pc_user c)) d = pc_user c" for d
    using wf by (simp_all add: parts(1,2) or_str_def wf_proxmox_def)
  have p: "url_port url = Inr (Some (pc_port c))" "or_int (Some (pc_port c)) 8006 = pc_port c" using parts(4) [OF h(2)] h(3,4) by (simp_all add: or_int_def)
  have s: "strip_char (CHR ''/'') ?p = pc_node c" using strip_slash_node [OF node] by simp
  have "parse_connection v6 (pve_to_uri c) = Inr (pc_host c, pc_port c, pc_user c, pc_password c)"
    unfolding parse_connection_def u [folded url_def] bindR_simps f(1) parts(3) p i by simp
  then show ?thesis
    unfolding pve_from_uri_def u [folded url_def] bindR_simps f Let_def by (simp only: bindR_simps prod.case q port i s) simp
qed

interpretation lv_uri: teardown_uri lv_to_uri "lv_from_uri v6" wf_libvirt
  by unfold_locales (rule lv_roundtrip)

interpretation esxi_uri: teardown_uri esxi_to_uri "esxi_from_uri v6" wf_esxi
  by unfold_locales (rule esxi_roundtrip)

interpretation pve_uri: teardown_uri pve_to_uri "pve_from_uri v6" wf_proxmox
  by unfold_locales (rule pve_roundtrip)

subsection \<open>Properties\<close>



text \<open>An IPv6 host cannot be cleaned up. The URI is written with the bare address, so reading it back takes the text up to the first colon for the
  host and the rest for the port: it raises for every unbracketed address with a colon.\<close>

theorem ipv6_host_cannot_be_reread:
  assumes "CHR '':'' \<in> set (ec_host c)" and "\<forall>x \<in> set (ec_host c). plain x \<and> x \<noteq> CHR ''%'' \<or> x = CHR '':''" and "0 \<le> ec_port c"
  shows "\<exists>e. esxi_from_uri v6 (esxi_to_uri c) = Inl e"
proof -
  let ?h = "ec_host c" and ?d = "string_of_nat (nat (ec_port c))" and ?q = "urlencode [(''datastore'', ec_datastore c), (''verify'', if ec_verify_ssl c then ''1'' else ''0'')]"
  let ?ui = "userinfo (ec_user c) (ec_password c)"
  let ?nl = "?ui @ ''@'' @ ?h @ '':'' @ ?d"
  have sc: "''esxi'' \<noteq> []" "is_alpha (hd ''esxi'')" "list_all scheme_char ''esxi''" "lower ''esxi'' = ''esxi''" "CHR '':'' \<notin> set ''esxi''" "printable ''esxi''"
    and ne: "\<not> plain (CHR ''@'')" "\<not> plain (CHR ''['')" "\<not> is_digit (CHR '':'')" "\<not> control_or_space (CHR '':'')" "\<not> control_or_space (CHR ''@'')" by code_simp+
  have ch: "plain x \<or> x = CHR '':'' \<or> x = CHR ''@''" if "x \<in> set ?nl" for x
  proof -
    have "x \<in> set ?ui \<or> x = CHR ''@'' \<or> x \<in> set ?h \<or> x = CHR '':'' \<or> x \<in> set ?d" using that by simp blast
    then show ?thesis 
      using bspec [OF assms(2), of x] userinfo_chars [of x "ec_user c" "ec_password c"] plain_digits [of x "nat (ec_port c)"] by argo
  qed
  have "printable ?nl" unfolding printable_def using ch ne(4,5) plain_def by blast
  moreover have "\<forall>x \<in> set ?nl. x \<notin> set ''/?#[]''" using ch by (fastforce simp: plain_def)
  moreover have "esxi_to_uri c = ''esxi'' @ ''://'' @ ?nl @ ''/'' @ ''?'' @ ?q" using assms(3) by (simp add: esxi_to_uri_def string_of_int_def)
  ultimately have u: "urlparse v6 (esxi_to_uri c) = Inr \<lparr>us_scheme = ''esxi'', us_netloc = ?nl, us_path = ''/'', us_query = ?q\<rparr>"
    using node_chars [of "[]"] by (simp only:) (intro urlparse_built sc urlencode_chars; simp add: printable_def)
  define url where "url = \<lparr>us_scheme = ''esxi'', us_netloc = ?nl, us_path = ''/'', us_query = ?q\<rparr>"
  have "CHR ''@'' \<notin> set (?h @ '':'' @ ?d)" "CHR ''['' \<notin> set (?h @ '':'' @ ?d)" using assms(2) plain_digits ne(1,2) by auto
  then have r: "rpartition_on (CHR ''@'') (us_netloc url) = (?ui, True, ?h @ '':'' @ ?d)" "partition_on (CHR ''['') (?h @ '':'' @ ?d) = (?h @ '':'' @ ?d, False, [])"
    using rpartition_on_append [of "CHR ''@''" "?h @ '':'' @ ?d" ?ui] partition_on_absent [of "CHR ''[''" "?h @ '':'' @ ?d"] by (simp_all add: url_def)
  obtain a b where ab: "?h = a @ CHR '':'' # b" "CHR '':'' \<notin> set a" using assms(1) by (metis split_list_first)
  have "partition_on (CHR '':'') (?h @ '':'' @ ?d) = (a, True, b @ '':'' @ ?d)"
    using partition_on_append [OF ab(2), of "b @ '':'' @ ?d"] by (simp add: ab(1))
  then have hi: "hostinfo url = (a, b @ '':'' @ ?d)" by (simp add: hostinfo_def r(1) r(2) [simplified] Let_def)
  have "\<not> list_all is_digit (b @ '':'' @ ?d)" using ne(3) by simp
  then have "url_port url = Inl (ValueError [b @ '':'' @ ?d])" by (simp add: url_port_def hi Let_def)
  then show ?thesis unfolding esxi_from_uri_def u [folded url_def] by (simp add: Let_def split: option.split)
qed

end
