(* ===== verification/Binding.thy ===== *)
theory Binding
  imports Connection_Uri Devices
begin

text \<open>
  From the \<^verbatim>\<open>--profile\<close> file to the driver and back: connection profiles (\<^verbatim>\<open>connect.py\<close> and the
  three \<^verbatim>\<open>_profile.py\<close>), the driver registry (\<^verbatim>\<open>drivers/_registry.py\<close>) and the binding resolver
  (\<^verbatim>\<open>orchestrator/backend.py\<close>). The parsed TOML document is a value of \<open>toml\<close>; a float carries its text, its truncation
  and whether it is non-zero, a date its text. How Python prints a list or a table is a parameter (\<open>R\<close>), used
  only when a profile gives one where a string is expected. A driver is the connection it is built with; the
  scheme marker of a plan entry is an optional scheme.
\<close>

subsection \<open>TOML values\<close>

datatype toml = TStr string | TInt int | TBool bool | TFloat string int bool | TDate string
  | TList "toml list" | TTable "(string \<times> toml) list"

fun toml_str :: "(toml \<Rightarrow> string) \<Rightarrow> toml \<Rightarrow> string" where
  "toml_str R (TStr s) = s"
| "toml_str R (TInt i) = string_of_int i"
| "toml_str R (TBool b) = (if b then ''True'' else ''False'')"
| "toml_str R (TFloat t _ _) = t"
| "toml_str R (TDate t) = t"
| "toml_str R v = R v"

fun toml_int :: "toml \<Rightarrow> int result" where
  "toml_int (TInt i) = Inr i"
| "toml_int (TBool b) = Inr (if b then 1 else 0)"
| "toml_int (TFloat _ i _) = Inr i"
| "toml_int (TStr s) = int_of s"
| "toml_int _ = Inl (TypeError [])"

fun toml_bool :: "toml \<Rightarrow> bool" where
  "toml_bool (TStr s) = (s \<noteq> [])"
| "toml_bool (TInt i) = (i \<noteq> 0)"
| "toml_bool (TBool b) = b"
| "toml_bool (TFloat _ _ nz) = nz"
| "toml_bool (TDate _) = True"
| "toml_bool (TList xs) = (xs \<noteq> [])"
| "toml_bool (TTable m) = (m \<noteq> [])"

type_synonym table = "(string, toml) dict"

definition get_or :: "table \<Rightarrow> string \<Rightarrow> toml \<Rightarrow> toml" where
  "get_or t k d = (case map_of t k of None \<Rightarrow> d | Some v \<Rightarrow> v)"

subsection \<open>The common part of a profile\<close>

definition COMMON_KEYS :: "string list" where
  "COMMON_KEYS = [''driver'', ''uplinks'']"

definition validate_keys :: "table \<Rightarrow> string list \<Rightarrow> string \<Rightarrow> unit result" where
  "validate_keys t allowed path =
     (let unknown = filter (\<lambda>k. k \<notin> set (COMMON_KEYS @ allowed)) (dkeys t) in
      guardR (unknown = []) (ProfileError (path # sorted_set unknown)))"

definition UPLINK_KEYS :: "string list" where
  "UPLINK_KEYS = [''bridge'', ''sidecar_addr'', ''gateway'', ''dns'']"

fun as_strings :: "toml list \<Rightarrow> string list option" where
  "as_strings [] = Some []"
| "as_strings (TStr s # xs) = map_option ((#) s) (as_strings xs)"
| "as_strings (_ # xs) = None"

definition parse_dns :: "table \<Rightarrow> exn \<Rightarrow> string list result" where
  "parse_dns t e = (case get_or t ''dns'' (TList []) of
     TList xs \<Rightarrow> (case as_strings xs of None \<Rightarrow> Inl e | Some ds \<Rightarrow> Inr ds)
   | _ \<Rightarrow> Inl e)"

definition parse_gateway :: "table \<Rightarrow> exn \<Rightarrow> string option result" where
  "parse_gateway t e = (case map_of t ''gateway'' of None \<Rightarrow> Inr None | Some (TStr g) \<Rightarrow> Inr (Some g) | Some _ \<Rightarrow> Inl e)"

fun is_ValueError :: "exn \<Rightarrow> bool" where
  "is_ValueError (ValueError _) = True"
| "is_ValueError (JSONDecodeError _) = True"
| "is_ValueError _ = False"

definition wrap_ValueError :: "exn \<Rightarrow> 'a result \<Rightarrow> 'a result" where
  "wrap_ValueError e r = (case r of Inl x \<Rightarrow> if is_ValueError x then Inl e else Inl x | Inr v \<Rightarrow> Inr v)"

definition parse_uplink_table :: "name \<Rightarrow> table \<Rightarrow> string \<Rightarrow> (string \<times> static_addr option) result" where
  "parse_uplink_table n t path =
     (let unknown = filter (\<lambda>k. k \<notin> set UPLINK_KEYS) (dkeys t); e = ProfileError [path, n] in
      bindR (guardR (unknown = []) (ProfileError (path # n # sorted_set unknown))) (\<lambda>_.
      case map_of t ''bridge'' of
        Some (TStr b) \<Rightarrow>
          if b = [] then Inl e else
          (case map_of t ''sidecar_addr'' of
             None \<Rightarrow> Inr (b, None)
           | Some (TStr a) \<Rightarrow>
               if CHR ''/'' \<notin> set a then Inl (ProfileError [path, n, a]) else
               bindR (parse_gateway t e) (\<lambda>g.
               bindR (parse_dns t e) (\<lambda>ds.
               bindR (wrap_ValueError e (mk_StaticAddr a g ds)) (\<lambda>sa. Inr (b, Some sa))))
           | Some _ \<Rightarrow> Inl e)
      | _ \<Rightarrow> Inl e))"

definition parse_uplink :: "string \<Rightarrow> name \<times> toml \<Rightarrow> (string, string) dict \<times> (string, static_addr) dict \<Rightarrow>
    ((string, string) dict \<times> (string, static_addr) dict) result" where
  "parse_uplink path nv acc =
     (case (nv, acc) of ((n, v), (ups, addrs)) \<Rightarrow>
      (case v of
        TStr s \<Rightarrow> if s = [] then Inl (ProfileError [path, n]) else Inr (AList.update n s ups, addrs)
      | TTable t \<Rightarrow> bindR (parse_uplink_table n t path) (\<lambda>(b, sa).
          Inr (AList.update n b ups, case sa of None \<Rightarrow> addrs | Some x \<Rightarrow> AList.update n x addrs))
      | _ \<Rightarrow> Inl (ProfileError [path, n])))"

fun fold_result :: "('a \<Rightarrow> 's \<Rightarrow> 's result) \<Rightarrow> 'a list \<Rightarrow> 's \<Rightarrow> 's result" where
  "fold_result f [] s = Inr s"
| "fold_result f (x # xs) s = bindR (f x s) (fold_result f xs)"

definition parse_uplinks :: "table \<Rightarrow> string \<Rightarrow> ((string, string) dict \<times> (string, static_addr) dict) result" where
  "parse_uplinks t path =
     (case map_of t ''uplinks'' of
        None \<Rightarrow> Inr ([], [])
      | Some (TTable raw) \<Rightarrow> fold_result (parse_uplink path) raw ([], [])
      | Some _ \<Rightarrow> Inl (ProfileError [path]))"

subsection \<open>The three profiles\<close>

record links =
  uplinks :: "(string, string) dict"
  uplink_addrs :: "(string, static_addr) dict"

record proxmox_profile =
  pp_host :: string
  pp_user :: string
  pp_password :: string
  pp_port :: int
  pp_verify_ssl :: bool
  pp_node :: string
  pp_backing_storage :: string
  pp_ssh_user :: "string option"
  pp_ssh_password :: "string option"
  pp_ssh_port :: int

datatype profile = LibvirtProfile string links | ProxmoxProfile proxmox_profile links | ESXiProfile esxi_conn links

definition mk_links :: "(string, string) dict \<times> (string, static_addr) dict \<Rightarrow> links" where
  "mk_links p = \<lparr>uplinks = fst p, uplink_addrs = snd p\<rparr>"

definition libvirt_from_table :: "(toml \<Rightarrow> string) \<Rightarrow> table \<Rightarrow> string \<Rightarrow> profile result" where
  "libvirt_from_table R t path =
     bindR (validate_keys t [''uri''] path) (\<lambda>_.
     bindR (parse_uplinks t path) (\<lambda>ul.
     Inr (LibvirtProfile (toml_str R (get_or t ''uri'' (TStr ''qemu:///system''))) (mk_links ul))))"

definition PROXMOX_FIELDS :: "string list" where
  "PROXMOX_FIELDS = [''host'', ''user'', ''password'', ''port'', ''verify_ssl'', ''node'', ''backing_storage'', ''ssh_user'', ''ssh_password'', ''ssh_port'']"

definition proxmox_from_table :: "(toml \<Rightarrow> string) \<Rightarrow> table \<Rightarrow> string \<Rightarrow> profile result" where
  "proxmox_from_table R t path =
     bindR (validate_keys t PROXMOX_FIELDS path) (\<lambda>_.
     bindR (parse_uplinks t path) (\<lambda>ul.
     bindR (toml_int (get_or t ''port'' (TInt 8006))) (\<lambda>port.
     bindR (toml_int (get_or t ''ssh_port'' (TInt 22))) (\<lambda>ssh_port.
     let h = toml_str R (get_or t ''host'' (TStr [])) in
     bindR (guardR (h \<noteq> []) (ValueError [])) (\<lambda>_.
     Inr (ProxmoxProfile
       \<lparr>pp_host = h, pp_user = toml_str R (get_or t ''user'' (TStr ''root@pam'')), pp_password = toml_str R (get_or t ''password'' (TStr [])),
        pp_port = port, pp_verify_ssl = toml_bool (get_or t ''verify_ssl'' (TBool False)), pp_node = toml_str R (get_or t ''node'' (TStr [])),
        pp_backing_storage = toml_str R (get_or t ''backing_storage'' (TStr ''local'')), pp_ssh_user = map_option (toml_str R) (map_of t ''ssh_user''),
        pp_ssh_password = map_option (toml_str R) (map_of t ''ssh_password''), pp_ssh_port = ssh_port\<rparr> (mk_links ul)))))))"

definition ESXI_FIELDS :: "string list" where
  "ESXI_FIELDS = [''host'', ''user'', ''password'', ''port'', ''verify_ssl'', ''datastore'']"

definition esxi_from_table :: "(toml \<Rightarrow> string) \<Rightarrow> table \<Rightarrow> string \<Rightarrow> profile result" where
  "esxi_from_table R t path =
     bindR (validate_keys t ESXI_FIELDS path) (\<lambda>_.
     bindR (parse_uplinks t path) (\<lambda>ul.
     bindR (toml_int (get_or t ''port'' (TInt 443))) (\<lambda>port.
     let h = toml_str R (get_or t ''host'' (TStr [])) in
     bindR (guardR (h \<noteq> []) (ValueError [])) (\<lambda>_.
     Inr (ESXiProfile
       \<lparr>ec_host = h, ec_user = toml_str R (get_or t ''user'' (TStr ''root'')), ec_password = toml_str R (get_or t ''password'' (TStr [])),
        ec_datastore = toml_str R (get_or t ''datastore'' (TStr ''datastore1'')), ec_verify_ssl = toml_bool (get_or t ''verify_ssl'' (TBool False)),
        ec_port = port\<rparr> (mk_links ul))))))"

type_synonym profile_registry = "(string, table \<Rightarrow> string \<Rightarrow> profile result) dict"

definition register_profile :: "string \<Rightarrow> (table \<Rightarrow> string \<Rightarrow> profile result) \<Rightarrow> profile_registry \<Rightarrow> profile_registry" where
  "register_profile s f reg = AList.update s f reg"

definition PROFILE_BY_SCHEME :: "(toml \<Rightarrow> string) \<Rightarrow> profile_registry" where
  "PROFILE_BY_SCHEME R =
     register_profile ''libvirt'' (libvirt_from_table R)
     (register_profile ''proxmox'' (proxmox_from_table R)
     (register_profile ''esxi'' (esxi_from_table R) []))"

fun scheme :: "profile \<Rightarrow> string" where
  "scheme (LibvirtProfile _ _) = ''libvirt''"
| "scheme (ProxmoxProfile _ _) = ''proxmox''"
| "scheme (ESXiProfile _ _) = ''esxi''"

fun profile_links :: "profile \<Rightarrow> links" where
  "profile_links (LibvirtProfile _ l) = l"
| "profile_links (ProxmoxProfile _ l) = l"
| "profile_links (ESXiProfile _ l) = l"

definition mask_password :: "string option \<Rightarrow> string" where
  "mask_password p = (if p \<noteq> None \<and> p \<noteq> Some [] then ''***set***'' else ''(unset)'')"

fun describe_fields :: "profile \<Rightarrow> (string \<times> string) list" where
  "describe_fields (LibvirtProfile u _) = [(''uri'', u)]"
| "describe_fields (ProxmoxProfile p _) =
     [(''host'', pp_host p), (''port'', string_of_int (pp_port p))] @ (if pp_node p \<noteq> [] then [(''node'', pp_node p)] else []) @
     [(''user'', pp_user p), (''password'', mask_password (Some (pp_password p)))]"
| "describe_fields (ESXiProfile c _) =
     [(''host'', ec_host c), (''port'', string_of_int (ec_port c)), (''user'', ec_user c), (''datastore'', ec_datastore c),
      (''password'', mask_password (Some (ec_password c)))]"

text \<open>What opening and decoding the file gives. Text that is not UTF-8 raises a \<^verbatim>\<open>UnicodeDecodeError\<close>, a
  \<^verbatim>\<open>ValueError\<close> that is no \<^verbatim>\<open>TOMLDecodeError\<close>.\<close>

datatype profile_file = Missing | Unreadable | NotToml | NotUtf8 | Parsed table

definition load_profile :: "profile_registry \<Rightarrow> profile_file \<Rightarrow> string \<Rightarrow> string \<Rightarrow> profile result" where
  "load_profile reg f path n =
     (case f of
        Missing \<Rightarrow> Inl (ProfileError [path])
      | Unreadable \<Rightarrow> Inl (ProfileError [path])
      | NotToml \<Rightarrow> Inl (ProfileError [path])
      | NotUtf8 \<Rightarrow> Inl (ValueError [])
      | Parsed doc \<Rightarrow>
         (case map_of doc n of
            None \<Rightarrow> Inl (ProfileError (path # n # sort (map fst (filter (\<lambda>(k, v). case v of TTable _ \<Rightarrow> True | _ \<Rightarrow> False) doc))))
          | Some (TTable t) \<Rightarrow>
             (case map_of t ''driver'' of
                Some (TStr d) \<Rightarrow>
                  if d = [] then Inl (ProfileError [path, n]) else
                  (case map_of reg d of
                     None \<Rightarrow> Inl (ProfileError (path # n # d # sort (dkeys reg)))
                   | Some from_table \<Rightarrow> from_table t path)
              | _ \<Rightarrow> Inl (ProfileError [path, n]))
          | Some _ \<Rightarrow> Inl (ProfileError [path, n])))"

subsection \<open>Drivers and the binding\<close>

datatype driver_conn = LibvirtDriver libvirt_conn | ProxmoxDriver proxmox_conn | ESXiDriver esxi_conn

fun build_driver :: "profile \<Rightarrow> driver_conn" where
  "build_driver (LibvirtProfile u _) = LibvirtDriver \<lparr>libvirt_uri = u\<rparr>"
| "build_driver (ProxmoxProfile p _) =
     (let u = normalize_realm (pp_user p) in
      ProxmoxDriver \<lparr>pc_host = pp_host p, pc_node = pp_node p, pc_user = u, pc_password = pp_password p, pc_verify_ssl = pp_verify_ssl p,
        pc_port = pp_port p, backing_storage = pp_backing_storage p, pc_ssh_user = or_str (pp_ssh_user p) (fst (partition_on (CHR ''@'') u)),
        pc_ssh_password = (case pp_ssh_password p of None \<Rightarrow> pp_password p | Some w \<Rightarrow> w), pc_ssh_port = pp_ssh_port p\<rparr>)"
| "build_driver (ESXiProfile c _) = ESXiDriver c"

fun conn_uri :: "driver_conn \<Rightarrow> string" where
  "conn_uri (LibvirtDriver c) = lv_to_uri c"
| "conn_uri (ProxmoxDriver c) = pve_to_uri c"
| "conn_uri (ESXiDriver c) = esxi_to_uri c"

fun conn_class :: "driver_conn \<Rightarrow> string" where
  "conn_class (LibvirtDriver _) = ''LibvirtDriver''"
| "conn_class (ProxmoxDriver _) = ''ProxmoxDriver''"
| "conn_class (ESXiDriver _) = ''ESXiDriver''"

record driver_registry =
  from_name :: "(string, string \<Rightarrow> driver_conn result) dict"
  scheme_for_hyp :: "(string, string) dict"

definition register :: "string \<Rightarrow> string \<Rightarrow> string \<Rightarrow> (string \<Rightarrow> driver_conn result) \<Rightarrow> driver_registry \<Rightarrow> driver_registry" where
  "register hyp_cls drv sch f reg =
     reg\<lparr>from_name := AList.update drv f (from_name reg), scheme_for_hyp := AList.update hyp_cls sch (scheme_for_hyp reg)\<rparr>"

definition driver_for_name :: "driver_registry \<Rightarrow> string \<Rightarrow> string \<Rightarrow> driver_conn result" where
  "driver_for_name reg n uri = (case map_of (from_name reg) n of
     None \<Rightarrow> Inl (DriverError (n # sort (dkeys (from_name reg)))) | Some f \<Rightarrow> f uri)"

definition scheme_for_hypervisor :: "driver_registry \<Rightarrow> string \<Rightarrow> string option" where
  "scheme_for_hypervisor reg cls = map_of (scheme_for_hyp reg) cls"

definition is_pinned :: "driver_registry \<Rightarrow> string \<Rightarrow> bool" where
  "is_pinned reg cls \<longleftrightarrow> cls \<in> set (dkeys (scheme_for_hyp reg))"

definition DRIVERS :: "(string \<Rightarrow> bool) \<Rightarrow> driver_registry" where
  "DRIVERS v6 =
     register ''LibvirtHypervisor'' ''LibvirtDriver'' ''libvirt'' (\<lambda>u. bindR (lv_from_uri v6 u) (\<lambda>c. Inr (LibvirtDriver c)))
     (register ''ProxmoxHypervisor'' ''ProxmoxDriver'' ''proxmox'' (\<lambda>u. bindR (pve_from_uri v6 u) (\<lambda>c. Inr (ProxmoxDriver c)))
     (register ''ESXiHypervisor'' ''ESXiDriver'' ''esxi'' (\<lambda>u. bindR (esxi_from_uri v6 u) (\<lambda>c. Inr (ESXiDriver c)))
     \<lparr>from_name = [], scheme_for_hyp = []\<rparr>))"

record resolved_backend =
  rb_driver :: driver_conn
  rb_driver_uri :: string
  rb_uplink_addrs :: "(string, static_addr) dict"
  rb_uplinks :: "(string, string) dict"

text \<open>\<open>hyp\<close> is the class name of the plan's hypervisor entry.\<close>

definition resolve_backend :: "driver_registry \<Rightarrow> string \<Rightarrow> profile option \<Rightarrow> resolved_backend result" where
  "resolve_backend reg hyp prof =
     (case prof of
        None \<Rightarrow> (if is_pinned reg hyp then Inl (DriverError (hyp # (case scheme_for_hypervisor reg hyp of None \<Rightarrow> [] | Some s \<Rightarrow> [s])))
                 else Inl (DriverError [hyp]))
      | Some p \<Rightarrow>
          bindR (guardR (is_pinned reg hyp \<longrightarrow> scheme_for_hypervisor reg hyp = Some (scheme p)) (DriverError [scheme p, hyp])) (\<lambda>_.
          let d = build_driver p in
          Inr \<lparr>rb_driver = d, rb_driver_uri = conn_uri d, rb_uplink_addrs = uplink_addrs (profile_links p), rb_uplinks = uplinks (profile_links p)\<rparr>))"

subsection \<open>Lemmas\<close>

text \<open>What the parser promises of the named uplinks: every one has a host interface; a static sidecar address belongs to a named
  uplink, carries a prefix and passed the validation of addresses.\<close>

definition links_ok :: "(string, string) dict \<times> (string, static_addr) dict \<Rightarrow> bool" where
  "links_ok acc \<longleftrightarrow> (\<forall>n s. map_of (fst acc) n = Some s \<longrightarrow> s \<noteq> []) \<and>
     (\<forall>n a. map_of (snd acc) n = Some a \<longrightarrow> map_of (fst acc) n \<noteq> None \<and> CHR ''/'' \<in> set (addr a) \<and> mk_StaticAddr (addr a) (gw a) (dns a) = Inr a)"

lemma fold_result_keeps:
  assumes "fold_result f xs s = Inr s'" and "P s" and "\<And>x s s'. x \<in> set xs \<Longrightarrow> P s \<Longrightarrow> f x s = Inr s' \<Longrightarrow> P s'"
  shows "P s'"
  using assms by (induction xs arbitrary: s) (auto simp: result_simps)

lemma mk_StaticAddr_self: "mk_StaticAddr a g ds = Inr sa \<Longrightarrow> addr sa = a \<and> mk_StaticAddr (addr sa) (gw sa) (dns sa) = Inr sa"
  by (auto simp: mk_StaticAddr_def result_simps)

lemma wrap_ValueError_Inr [simp]: "wrap_ValueError e r = Inr v \<longleftrightarrow> r = Inr v"
  by (simp add: wrap_ValueError_def split: sum.split)

lemma parse_uplink_table_ok:
  assumes "parse_uplink_table n t path = Inr (b, sa)"
  shows "b \<noteq> [] \<and> (\<forall>a. sa = Some a \<longrightarrow> CHR ''/'' \<in> set (addr a) \<and> mk_StaticAddr (addr a) (gw a) (dns a) = Inr a)"
  using assms
  by (auto simp: parse_uplink_table_def Let_def result_simps dest: mk_StaticAddr_self split: option.splits toml.splits if_splits)

lemma links_ok_Nil: "links_ok ([], [])"
  by (simp add: links_ok_def)

lemma links_ok_uplink: "links_ok (ups, addrs) \<Longrightarrow> s \<noteq> [] \<Longrightarrow> links_ok (AList.update n s ups, addrs)"
  unfolding links_ok_def fst_conv snd_conv update_conv' by (metis fun_upd_apply option.distinct(1) option.inject)

lemma links_ok_addr:
  "links_ok (ups, addrs) \<Longrightarrow> map_of ups n \<noteq> None \<Longrightarrow> CHR ''/'' \<in> set (addr a) \<Longrightarrow> mk_StaticAddr (addr a) (gw a) (dns a) = Inr a \<Longrightarrow>
   links_ok (ups, AList.update n a addrs)"
  unfolding links_ok_def fst_conv snd_conv update_conv' by (metis fun_upd_apply option.inject)

lemma parse_uplink_ok: "links_ok acc \<Longrightarrow> parse_uplink path nv acc = Inr acc' \<Longrightarrow> links_ok acc'"
proof -
  assume acc: "links_ok acc" and p: "parse_uplink path nv acc = Inr acc'"
  obtain n v ups addrs where nv: "nv = (n, v)" "acc = (ups, addrs)" by (metis surj_pair)
  show "links_ok acc'"
  proof (cases v)
    case (TStr s)
    then have "s \<noteq> []" "acc' = (AList.update n s ups, addrs)" using p by (auto simp: parse_uplink_def nv split: if_splits)
    then show ?thesis using acc links_ok_uplink by (simp add: nv)
  next
    case (TTable t)
    then obtain b sa where t: "parse_uplink_table n t path = Inr (b, sa)"
      and a: "acc' = (AList.update n b ups, case sa of None \<Rightarrow> addrs | Some x \<Rightarrow> AList.update n x addrs)"
      using p by (auto simp: parse_uplink_def nv result_simps)
    have "links_ok (AList.update n b ups, addrs)" using acc parse_uplink_table_ok [OF t] links_ok_uplink by (simp add: nv)
    then show ?thesis using parse_uplink_table_ok [OF t] links_ok_addr by (cases sa) (simp_all add: a update_conv')
  qed (use p in \<open>simp_all add: parse_uplink_def nv\<close>)
qed

lemma parse_uplinks_ok: "parse_uplinks t path = Inr ul \<Longrightarrow> links_ok ul"
proof -
  assume p: "parse_uplinks t path = Inr ul"
  show "links_ok ul"
  proof (cases "map_of t ''uplinks''")
    case None
    then show ?thesis using p links_ok_Nil by (simp add: parse_uplinks_def)
  next
    case (Some v)
    then obtain raw where "fold_result (parse_uplink path) raw ([], []) = Inr ul"
      using p by (auto simp: parse_uplinks_def split: toml.splits)
    then show ?thesis by (rule fold_result_keeps) (auto intro: links_ok_Nil parse_uplink_ok)
  qed
qed

fun fields_of :: "string \<Rightarrow> string list" where
  "fields_of s = (if s = ''libvirt'' then [''uri''] else if s = ''proxmox'' then PROXMOX_FIELDS else if s = ''esxi'' then ESXI_FIELDS else [])"

fun host_of :: "profile \<Rightarrow> string option" where
  "host_of (LibvirtProfile _ _) = None"
| "host_of (ProxmoxProfile p _) = Some (pp_host p)"
| "host_of (ESXiProfile c _) = Some (ec_host c)"

definition profile_ok :: "table \<Rightarrow> profile \<Rightarrow> bool" where
  "profile_ok t p \<longleftrightarrow> links_ok (uplinks (profile_links p), uplink_addrs (profile_links p)) \<and>
     set (dkeys t) \<subseteq> set (COMMON_KEYS @ fields_of (scheme p)) \<and> host_of p \<noteq> Some []"

lemma validate_keys_Inr: "validate_keys t allowed path = Inr () \<longleftrightarrow> set (dkeys t) \<subseteq> set (COMMON_KEYS @ allowed)"
  by (auto simp: validate_keys_def Let_def filter_empty_conv)

lemma from_table_ok:
  "libvirt_from_table R t path = Inr p \<Longrightarrow> profile_ok t p \<and> scheme p = ''libvirt''"
  "proxmox_from_table R t path = Inr p \<Longrightarrow> profile_ok t p \<and> scheme p = ''proxmox''"
  "esxi_from_table R t path = Inr p \<Longrightarrow> profile_ok t p \<and> scheme p = ''esxi''"
  using parse_uplinks_ok validate_keys_Inr
  by (auto simp: libvirt_from_table_def proxmox_from_table_def esxi_from_table_def Let_def result_simps profile_ok_def mk_links_def)

lemma registry_cases:
  "map_of (PROFILE_BY_SCHEME R) d = Some f \<Longrightarrow>
   d = ''libvirt'' \<and> f = libvirt_from_table R \<or> d = ''proxmox'' \<and> f = proxmox_from_table R \<or> d = ''esxi'' \<and> f = esxi_from_table R"
  by (auto simp: PROFILE_BY_SCHEME_def register_profile_def split: if_splits)

lemma load_profile_Inr:
  assumes "load_profile reg f path n = Inr p"
  obtains doc t d from_table where "f = Parsed doc" "map_of doc n = Some (TTable t)" "map_of t ''driver'' = Some (TStr d)"
    "map_of reg d = Some from_table" "from_table t path = Inr p"
  using assms by (auto simp: load_profile_def split: profile_file.splits option.splits toml.splits if_splits)

subsection \<open>Properties\<close>

text \<open>C27: a profile that loads is well formed. The profile is the table of that name in the file, of the driver the table names, with no key but the
  ones its backend knows; backends that need a host have one; every uplink names a host interface, and a static sidecar address
  belongs to a named uplink, has an explicit prefix and is a valid address with a valid gateway and resolvers.\<close>

theorem loaded_profile_is_well_formed:
  assumes "load_profile (PROFILE_BY_SCHEME R) f path n = Inr p"
  shows "\<exists>doc t. f = Parsed doc \<and> map_of doc n = Some (TTable t) \<and> map_of t ''driver'' = Some (TStr (scheme p)) \<and> profile_ok t p"
proof -
  from load_profile_Inr [OF assms] obtain doc t d g where l: "f = Parsed doc" "map_of doc n = Some (TTable t)" "map_of t ''driver'' = Some (TStr d)"
    and g: "map_of (PROFILE_BY_SCHEME R) d = Some g" "g t path = Inr p" by metis
  have "profile_ok t p \<and> scheme p = d" using registry_cases [OF g(1)] g(2) from_table_ok [of R t path p] by auto
  then show ?thesis using l by blast
qed

definition sample_profile_file :: profile_file where
  "sample_profile_file = Parsed [(''lab'', TTable [(''driver'', TStr ''esxi''), (''host'', TStr ''esx1''), (''password'', TStr ''p@ss''),
     (''uplinks'', TTable [(''egress'', TTable [(''bridge'', TStr ''vSwitch0''), (''sidecar_addr'', TStr ''10.0.0.2/24''), (''dns'', TList [TStr ''1.1.1.1''])])])])]"

definition sample_profile :: profile where
  "sample_profile = ESXiProfile \<lparr>ec_host = ''esx1'', ec_user = ''root'', ec_password = ''p@ss'', ec_datastore = ''datastore1'', ec_verify_ssl = False, ec_port = 443\<rparr>
     \<lparr>uplinks = [(''egress'', ''vSwitch0'')], uplink_addrs = [(''egress'', \<lparr>addr = ''10.0.0.2/24'', gw = None, dns = [''1.1.1.1'']\<rparr>)]\<rparr>"

lemma sample_profile_loads: "load_profile (PROFILE_BY_SCHEME (\<lambda>_. [])) sample_profile_file ''connect.toml'' ''lab'' = Inr sample_profile"
  by code_simp

theorem loaded_profile_is_well_formed_witness:
  "\<exists>doc t. sample_profile_file = Parsed doc \<and> map_of doc ''lab'' = Some (TTable t) \<and> map_of t ''driver'' = Some (TStr (scheme sample_profile)) \<and> profile_ok t sample_profile"
  by (rule loaded_profile_is_well_formed [OF sample_profile_loads])

text \<open>A plan binds to a backend exactly when a profile is given and, if the plan pins a backend by the class of its entry, the profile is of that
  backend; the binding then is the profile's own connection and uplinks.\<close>

theorem resolve_backend_iff:
  "resolve_backend (DRIVERS v6) hyp prof = Inr b \<longleftrightarrow>
     (\<exists>p. prof = Some p \<and> (\<forall>s. scheme_for_hypervisor (DRIVERS v6) hyp = Some s \<longrightarrow> s = scheme p) \<and>
        b = \<lparr>rb_driver = build_driver p, rb_driver_uri = conn_uri (build_driver p), rb_uplink_addrs = uplink_addrs (profile_links p), rb_uplinks = uplinks (profile_links p)\<rparr>)"
proof -
  have pin: "is_pinned reg hyp \<longleftrightarrow> scheme_for_hypervisor reg hyp \<noteq> None" for reg
    by (simp add: is_pinned_def scheme_for_hypervisor_def map_of_eq_None_iff)
  show ?thesis by (cases prof) (auto simp: resolve_backend_def pin result_simps Let_def)
qed

definition wf_conn :: "driver_conn \<Rightarrow> bool" where
  "wf_conn d = (case d of LibvirtDriver c \<Rightarrow> wf_libvirt c | ProxmoxDriver c \<Rightarrow> wf_proxmox c | ESXiDriver c \<Rightarrow> wf_esxi c)"



text \<open>A profile without its host is not reported as a profile error. A table that names the Proxmox or ESXi driver and no host raises the
  \<^verbatim>\<open>ValueError\<close> of the constructor, although loading promises a \<^verbatim>\<open>ProfileError\<close> for any validation failure
  of a backend, and only that is handled by the command line.\<close>

theorem missing_host_is_a_ValueError:
  "load_profile (PROFILE_BY_SCHEME R) (Parsed [(n, TTable [(''driver'', TStr ''esxi'')])]) path n = Inl (ValueError []) \<and>
   load_profile (PROFILE_BY_SCHEME R) (Parsed [(n, TTable [(''driver'', TStr ''proxmox'')])]) path n = Inl (ValueError [])"
  by (simp add: load_profile_def PROFILE_BY_SCHEME_def register_profile_def esxi_from_table_def proxmox_from_table_def validate_keys_def
      COMMON_KEYS_def parse_uplinks_def get_or_def Let_def)

end
