(* ===== verification/Preflight.thy ===== *)
theory Preflight
  imports Hypervisor Strings
begin

text \<open>
  Preflight (\<^verbatim>\<open>preflight.py\<close>) and the preflights of the three drivers (\<^verbatim>\<open>drivers/*/driver.py\<close>). A finding
  keeps its code, the values interpolated into its message and its hint; every finding a check creates is an
  object of its own, whose identity is the number of the check and the position in it, because the full report tells findings
  apart by identity. What a driver reads from the live host is a parameter: a probe that the source wraps in
  \<^verbatim>\<open>except Exception\<close> is an option, any other may raise.
\<close>

subsection \<open>Findings, checks, reports\<close>

record finding =
  f_obj :: "nat \<times> nat"
  f_code :: string
  f_args :: "string list"
  f_hint :: "string list option"

definition mk_finding :: "string \<Rightarrow> string list \<Rightarrow> string list option \<Rightarrow> finding" where
  "mk_finding c as h = \<lparr>f_obj = (0, 0), f_code = c, f_args = as, f_hint = h\<rparr>"

datatype check_status = Ok | Blocked | Skipped

record check =
  c_name :: string
  c_status :: check_status
  c_findings :: "finding list"
  c_detail :: "string list option"

definition allocate :: "nat \<Rightarrow> finding list \<Rightarrow> finding list" where
  "allocate t fs = map (\<lambda>(i, f). f\<lparr>f_obj := (t, i)\<rparr>) (enumerate 0 fs)"

definition evaluate :: "nat \<Rightarrow> string \<Rightarrow> finding list \<Rightarrow> string list option \<Rightarrow> check" where
  "evaluate t n fs d = \<lparr>c_name = n, c_status = (if fs \<noteq> [] then Blocked else Ok), c_findings = allocate t fs, c_detail = d\<rparr>"

definition check_skipped :: "string \<Rightarrow> string list \<Rightarrow> check" where
  "check_skipped n d = \<lparr>c_name = n, c_status = Skipped, c_findings = [], c_detail = Some d\<rparr>"

record report =
  findings :: "finding list"
  checks :: "check list"

definition from_checks :: "check list \<Rightarrow> report" where
  "from_checks cs = \<lparr>findings = concat (map c_findings cs), checks = cs\<rparr>"

definition bare :: "finding list \<Rightarrow> report" where
  "bare fs = \<lparr>findings = fs, checks = []\<rparr>"

definition clean :: "report \<Rightarrow> bool" where
  "clean r \<longleftrightarrow> findings r = []"

definition merged :: "report \<Rightarrow> report \<Rightarrow> report" where
  "merged r s = \<lparr>findings = findings r @ findings s, checks = checks r @ checks s\<rparr>"

text \<open>The lines of the two reports, with their layout as constructors.\<close>

datatype report_line = CleanLine | HeadLine | CountLine nat | ErrorLine finding | FixLine "string list"
  | CheckLine check_status string "string list option" | BlockerLine finding | BareLine finding

definition fix_line :: "finding \<Rightarrow> report_line list" where
  "fix_line f = (case f_hint f of None \<Rightarrow> [] | Some h \<Rightarrow> [FixLine h])"

definition render :: "report \<Rightarrow> report_line list" where
  "render r = (if findings r = [] then [CleanLine] else HeadLine # concat (map (\<lambda>f. ErrorLine f # fix_line f) (findings r)))"

definition covered :: "report \<Rightarrow> (nat \<times> nat) list" where
  "covered r = concat (map (\<lambda>c. map f_obj (c_findings c)) (checks r))"

definition render_full :: "report \<Rightarrow> report_line list" where
  "render_full r =
     (if findings r = [] then CleanLine else CountLine (length (findings r))) #
     concat (map (\<lambda>c. CheckLine (c_status c) (c_name c) (c_detail c) # concat (map (\<lambda>f. BlockerLine f # fix_line f) (c_findings c))) (checks r)) @
     concat (map (\<lambda>f. BareLine f # fix_line f) (filter (\<lambda>f. f_obj f \<notin> set (covered r)) (findings r)))"

subsection \<open>Capacity\<close>

record host_capacity =
  hc_memory_mb :: "int option"
  hc_logical_cpus :: "int option"
  hc_storage_free_gb :: "int option"

definition describe_capacity :: "host_capacity \<Rightarrow> string list" where
  "describe_capacity c =
     (let parts = (case hc_memory_mb c of None \<Rightarrow> [] | Some n \<Rightarrow> [string_of_int n @ '' MiB RAM'']) @
                  (case hc_logical_cpus c of None \<Rightarrow> [] | Some n \<Rightarrow> [string_of_int n @ '' vCPUs'']) @
                  (case hc_storage_free_gb c of None \<Rightarrow> [] | Some n \<Rightarrow> [string_of_int n @ '' GiB free''])
      in if parts \<noteq> [] then [join '', '' parts] else [''no dimensions reported''])"

fun size_mb :: "device \<Rightarrow> int" where
  "size_mb (Memory n) = n" | "size_mb _ = 0"

fun cpu_count :: "device \<Rightarrow> int" where
  "cpu_count (CPU n _) = n" | "cpu_count _ = 0"

fun cpu_nested :: "device \<Rightarrow> bool" where
  "cpu_nested (CPU _ b) = b" | "cpu_nested _ = False"

abbreviation vm_mb :: "('b, 'c) vm_recipe \<Rightarrow> int" where
  "vm_mb v \<equiv> size_mb (memory (vr_spec v))"

abbreviation vm_cpus :: "('b, 'c) vm_recipe \<Rightarrow> int" where
  "vm_cpus v \<equiv> cpu_count (cpu (vr_spec v))"

definition resource_findings :: "('b, 'c) hypervisor \<Rightarrow> host_capacity \<Rightarrow> finding list" where
  "resource_findings h c =
     (let vms = declared_vms h; total = sum_list (map vm_mb vms) in
      (case hc_memory_mb c of None \<Rightarrow> [] | Some m \<Rightarrow>
         map (\<lambda>v. mk_finding ''insufficient-memory'' [vr_name v, string_of_int (vm_mb v), string_of_int m] (Some [])) (filter (\<lambda>v. m < vm_mb v) vms) @
         (if vms \<noteq> [] \<and> m < total then [mk_finding ''insufficient-memory-aggregate'' [string_of_int total, string_of_int m] (Some [])] else [])) @
      (case hc_logical_cpus c of None \<Rightarrow> [] | Some n \<Rightarrow>
         map (\<lambda>v. mk_finding ''insufficient-vcpus'' [vr_name v, string_of_int (vm_cpus v), string_of_int n] (Some [])) (filter (\<lambda>v. n < vm_cpus v) vms)) @
      (case hc_storage_free_gb c of None \<Rightarrow> [] | Some g \<Rightarrow>
         map (\<lambda>p. mk_finding ''insufficient-storage'' [sp_name p, string_of_int (sp_size_gb p), string_of_int g] (Some []))
           (filter (\<lambda>p. g < sp_size_gb p) (declared_pools h))))"

definition resource_check :: "nat \<Rightarrow> ('b, 'c) hypervisor \<Rightarrow> host_capacity option \<Rightarrow> check" where
  "resource_check t h cap =
     (case cap of None \<Rightarrow> check_skipped ''host-resources'' [''host capacity unavailable'']
      | Some c \<Rightarrow> evaluate t ''host-resources'' (resource_findings h c) (Some (describe_capacity c)))"

subsection \<open>The shared checks\<close>

definition preflight_switches :: "('b, 'c) hypervisor \<Rightarrow> switch option \<Rightarrow> switch list" where
  "preflight_switches h bs = declared_switches h @ (case bs of None \<Rightarrow> [] | Some s \<Rightarrow> [s])"

definition unknown_uplink_findings :: "switch list \<Rightarrow> (name, string) dict \<Rightarrow> finding list" where
  "unknown_uplink_findings sws ups = concat (map (\<lambda>s. case uplink s of
       None \<Rightarrow> []
     | Some u \<Rightarrow> if u \<in> set (dkeys ups) then [] else [mk_finding ''unknown-uplink'' (sw_name s # u # sort (dkeys ups)) (Some [u])]) sws)"

text \<open>\<open>base\<close> and \<open>media\<close> are the two hooks of a builder.\<close>

definition builder_origin_findings :: "('b \<Rightarrow> string option) \<Rightarrow> ('b \<Rightarrow> string option) \<Rightarrow> ('b, 'c) hypervisor \<Rightarrow> finding list" where
  "builder_origin_findings base media h =
     map (\<lambda>v. mk_finding ''no-os-disk-origin'' [vr_name v] (Some []))
       (filter (\<lambda>v. base (vr_builder v) = None \<and> media (vr_builder v) = None) (declared_vms h))"

definition unsupported_firmware_findings :: "('b, 'c) hypervisor \<Rightarrow> string list \<Rightarrow> string \<Rightarrow> finding list" where
  "unsupported_firmware_findings h supported drv =
     map (\<lambda>v. mk_finding ''unsupported-firmware'' (vr_name v # firmware (vr_spec v) # drv # sorted_set supported) (Some (sorted_set supported)))
       (filter (\<lambda>v. firmware (vr_spec v) \<notin> set supported) (declared_vms h))"

definition mgmt_unsupported_findings :: "('b, 'c) hypervisor \<Rightarrow> finding list" where
  "mgmt_unsupported_findings h = map (\<lambda>s. mk_finding ''mgmt-unsupported'' [sw_name s] (Some [])) (filter mgmt (declared_switches h))"

definition SUPPORTED_FIRMWARES :: "string list" where
  "SUPPORTED_FIRMWARES = [''bios'', ''uefi'']"

text \<open>What every driver's preflight starts with, and the part of a driver: its name, its uplinks, the builder hooks.\<close>

record 'b checked_driver =
  cd_name :: string
  cd_uplinks :: "(name, string) dict"
  cd_base :: "'b \<Rightarrow> string option"
  cd_media :: "'b \<Rightarrow> string option"

definition common_checks :: "'b checked_driver \<Rightarrow> ('b, 'c) hypervisor \<Rightarrow> switch option \<Rightarrow> check list" where
  "common_checks D h bs =
     [evaluate 0 ''named-uplink-resolution'' (unknown_uplink_findings (preflight_switches h bs) (cd_uplinks D)) None,
      evaluate 1 ''os-disk-origin'' (builder_origin_findings (cd_base D) (cd_media D) h) None,
      evaluate 2 ''supported-firmware'' (unsupported_firmware_findings h SUPPORTED_FIRMWARES (cd_name D)) None]"

subsection \<open>libvirt\<close>

record libvirt_probe =
  lp_info :: "(int \<times> int) option"
  lp_hostname :: "string option"
  lp_nested :: "bool option"

definition lv_host_capacity :: "libvirt_probe \<Rightarrow> host_capacity option" where
  "lv_host_capacity P = map_option (\<lambda>(mb, n). \<lparr>hc_memory_mb = Some mb, hc_logical_cpus = Some n, hc_storage_free_gb = None\<rparr>) (lp_info P)"

definition nested_kvm_findings :: "libvirt_probe \<Rightarrow> ('b, 'c) hypervisor \<Rightarrow> finding list" where
  "nested_kvm_findings P h =
     (if \<not> list_ex (\<lambda>v. cpu_nested (cpu (vr_spec v))) (declared_vms h) then []
      else if lp_hostname P \<notin> {None, Some [], Some ''localhost''} then []
      else case lp_nested P of None \<Rightarrow> [] | Some True \<Rightarrow> [] | Some False \<Rightarrow> [mk_finding ''nested-kvm-disabled'' [] (Some [])])"

definition lv_preflight :: "'b checked_driver \<Rightarrow> libvirt_probe \<Rightarrow> ('b, 'c) hypervisor \<Rightarrow> switch option \<Rightarrow> report" where
  "lv_preflight D P h bs =
     from_checks (common_checks D h bs @ [evaluate 3 ''nested-kvm'' (nested_kvm_findings P h) None, resource_check 4 h (lv_host_capacity P)])"

subsection \<open>Proxmox\<close>

record proxmox_probe =
  pb_status :: "(int \<times> int) option"
  pb_content :: "string result"
  pb_bridges :: "string list result"
  pb_node :: string
  pb_storage :: string

definition MIB :: int where
  "MIB = 1024 * 1024"

definition bytes_capacity :: "(int \<times> int) option \<Rightarrow> host_capacity option" where
  "bytes_capacity x = map_option (\<lambda>(bs, n). \<lparr>hc_memory_mb = Some (bs div MIB), hc_logical_cpus = Some n, hc_storage_free_gb = None\<rparr>) x"

definition trim :: "string \<Rightarrow> string" where
  "trim s = rev (dropWhile is_space (rev (dropWhile is_space s)))"

definition import_content_findings :: "proxmox_probe \<Rightarrow> finding list result" where
  "import_content_findings P = bindR (pb_content P) (\<lambda>content.
     Inr (if ''import'' \<in> set (map trim (split_on (CHR '','') content)) then []
          else [mk_finding ''proxmox-import-content-missing'' [pb_storage P] (Some [pb_storage P])]))"

text \<open>The mapped uplinks of switches with NAT egress, as a set in order.\<close>

definition nat_uplinks :: "(name, string) dict \<Rightarrow> switch list \<Rightarrow> (name \<times> string) list" where
  "nat_uplinks ups sws = remdups (concat (map (\<lambda>s. case (uplink s, sw_sidecar s) of
       (Some u, Some c) \<Rightarrow> (case map_of ups u of Some b \<Rightarrow> if u \<noteq> [] \<and> nat_flag c then [(u, b)] else [] | None \<Rightarrow> [])
     | _ \<Rightarrow> []) sws))"

definition sorted_uplinks :: "(name, string) dict \<Rightarrow> switch list \<Rightarrow> (name \<times> string) list" where
  "sorted_uplinks ups sws = sort_key fst (nat_uplinks ups sws)"

definition uplink_bridge_findings :: "(name, string) dict \<Rightarrow> proxmox_probe \<Rightarrow> switch list \<Rightarrow> finding list result" where
  "uplink_bridge_findings ups P sws =
     (if nat_uplinks ups sws = [] then Inr []
      else bindR (pb_bridges P) (\<lambda>brs. Inr (map (\<lambda>(n, b). mk_finding ''proxmox-uplink-bridge-missing'' (n # b # pb_node P # sorted_set brs) (Some []))
             (filter (\<lambda>(n, b). b \<notin> set brs) (sorted_uplinks ups sws)))))"

definition pve_preflight :: "'b checked_driver \<Rightarrow> proxmox_probe \<Rightarrow> ('b, 'c) hypervisor \<Rightarrow> switch option \<Rightarrow> report result" where
  "pve_preflight D P h bs =
     bindR (uplink_bridge_findings (cd_uplinks D) P (preflight_switches h bs)) (\<lambda>ub.
     bindR (import_content_findings P) (\<lambda>ic.
     Inr (from_checks (common_checks D h bs @
       [evaluate 3 ''uplink-bridge'' ub None, evaluate 4 ''import-content'' ic None, resource_check 5 h (bytes_capacity (pb_status P))]))))"

subsection \<open>ESXi\<close>

record esxi_probe =
  ep_hardware :: "(int \<times> int) option"
  ep_pnics :: "string list result"
  ep_free_bytes :: "int result"
  ep_datastore :: string
  ep_qemu_img :: bool

definition uplink_pnic_findings :: "(name, string) dict \<Rightarrow> esxi_probe \<Rightarrow> switch list \<Rightarrow> finding list result" where
  "uplink_pnic_findings ups P sws =
     (if nat_uplinks ups sws = [] then Inr []
      else bindR (ep_pnics P) (\<lambda>ps. Inr (map (\<lambda>(n, b). mk_finding ''esxi-uplink-pnic-missing'' (n # b # sorted_set ps) (Some []))
             (filter (\<lambda>(n, b). b \<notin> set ps) (sorted_uplinks ups sws)))))"

definition GIB :: int where
  "GIB = 1024 ^ 3"

text \<open>\<^verbatim>\<open>free / 1024**3 >= needed\<close>: exact below \<open>2\<^sup>53\<close> bytes, since the divisor is a power of two.\<close>

definition datastore_capacity_findings :: "esxi_probe \<Rightarrow> ('b, 'c) hypervisor \<Rightarrow> finding list result" where
  "datastore_capacity_findings P h = bindR (ep_free_bytes P) (\<lambda>free.
     let needed = sum_list (map sp_size_gb (declared_pools h)) in
     Inr (if needed * GIB \<le> free then [] else [mk_finding ''esxi-datastore-capacity'' [ep_datastore P, string_of_int needed] (Some [])]))"

definition overlaps :: "ipv4_network \<Rightarrow> ipv4_network \<Rightarrow> bool" where
  "overlaps a b \<longleftrightarrow> in_network (network_address b) a \<or> in_network (broadcast_address b) a \<or>
     in_network (network_address a) b \<or> in_network (broadcast_address a) b"

fun cidr_overlap_findings :: "switch list \<Rightarrow> finding list" where
  "cidr_overlap_findings [] = []"
| "cidr_overlap_findings (a # sws) =
     map (\<lambda>b. mk_finding ''esxi-cidr-overlap'' [sw_name a, string_of_network (sw_network a), sw_name b, string_of_network (sw_network b)] (Some []))
       (filter (\<lambda>b. overlaps (sw_network a) (sw_network b)) sws) @ cidr_overlap_findings sws"

definition qemu_img_findings :: "'b checked_driver \<Rightarrow> esxi_probe \<Rightarrow> ('b, 'c) hypervisor \<Rightarrow> finding list" where
  "qemu_img_findings D P h =
     (let needs_convert = (list_ex (\<lambda>v. cd_base D (vr_builder v) \<noteq> None) (declared_vms h) \<or> list_ex needs_sidecar (declared_switches h)) in
      if \<not> needs_convert \<or> ep_qemu_img P then [] else [mk_finding ''esxi-qemu-img-missing'' [] (Some [])])"

definition esxi_preflight :: "'b checked_driver \<Rightarrow> esxi_probe \<Rightarrow> ('b, 'c) hypervisor \<Rightarrow> switch option \<Rightarrow> report result" where
  "esxi_preflight D P h bs =
     (let sws = preflight_switches h bs in
      bindR (uplink_pnic_findings (cd_uplinks D) P sws) (\<lambda>up.
      bindR (datastore_capacity_findings P h) (\<lambda>dc.
      Inr (from_checks (common_checks D h bs @
        [evaluate 3 ''uplink-pnic'' up None, evaluate 4 ''datastore-capacity'' dc None, evaluate 5 ''cidr-overlap'' (cidr_overlap_findings sws) None,
         evaluate 6 ''qemu-img'' (qemu_img_findings D P h) None, resource_check 7 h (bytes_capacity (ep_hardware P))])))))"

text \<open>The portability lint of \<^verbatim>\<open>orchestrator/backend.py\<close>, and the gate of the orchestrator.\<close>

definition compatibility_findings :: "('b, 'c) hypervisor \<Rightarrow> finding list" where
  "compatibility_findings h = []"

definition preflight_gate :: "('b, 'c) hypervisor \<Rightarrow> report \<Rightarrow> unit result" where
  "preflight_gate h r = guardR (clean (merged r (bare (compatibility_findings h)))) (PreflightError (map f_code (findings r)))"

subsection \<open>Reports\<close>

lemma allocate_Nil [simp]: "allocate t fs = [] \<longleftrightarrow> fs = []"
  by (cases fs) (simp_all add: allocate_def)

lemma evaluate_findings [simp]: "c_findings (evaluate t n fs d) = [] \<longleftrightarrow> fs = []"
  by (simp add: evaluate_def)

lemma clean_from_checks: "clean (from_checks cs) \<longleftrightarrow> (\<forall>c \<in> set cs. c_findings c = [])"
  by (simp add: clean_def from_checks_def)

text \<open>The findings a report shows: one per error line.\<close>

fun line_finding :: "report_line \<Rightarrow> finding list" where
  "line_finding (ErrorLine f) = [f]" | "line_finding (BlockerLine f) = [f]" | "line_finding (BareLine f) = [f]" | "line_finding _ = []"

definition shown :: "report_line list \<Rightarrow> finding list" where
  "shown ls = concat (map line_finding ls)"

lemma shown_simps [simp]: "shown [] = []" "shown (l # ls) = line_finding l @ shown ls" "shown (xs @ ys) = shown xs @ shown ys"
  by (simp_all add: shown_def)

lemma shown_fix_line [simp]: "shown (fix_line f) = []"
  by (cases "f_hint f") (simp_all add: fix_line_def)

lemma shown_concat: "shown (concat xss) = concat (map shown xss)"
  by (induction xss) simp_all

lemma shown_each:
  "shown (concat (map (\<lambda>f. BlockerLine f # fix_line f) fs)) = fs"
  "shown (concat (map (\<lambda>f. BareLine f # fix_line f) fs)) = fs"
  "shown (concat (map (\<lambda>f. ErrorLine f # fix_line f) fs)) = fs"
  by (induction fs) simp_all

lemma shown_render: "shown (render r) = findings r"
  by (simp add: render_def shown_each)

lemma shown_render_full:
  "shown (render_full r) = concat (map c_findings (checks r)) @ filter (\<lambda>f. f_obj f \<notin> set (covered r)) (findings r)"
  by (simp add: render_full_def shown_concat shown_each comp_def)

lemma checked_are_covered: "f \<in> set (concat (map c_findings (checks r))) \<Longrightarrow> f_obj f \<in> set (covered r)"
  by (auto simp: covered_def)

text \<open>Both texts of a preflight name every blocker exactly once, in order: the failure text of a run and the full
  report of the \<^verbatim>\<open>preflight\<close> verb show the findings of the named checks and, after a merge, the findings that belong to
  no check, provided those are objects of their own; the header counts them.\<close>

theorem every_blocker_is_shown:
  assumes "\<forall>f \<in> set fs. f_obj f \<notin> set (covered (from_checks cs))"
  shows "shown (render_full (merged (from_checks cs) (bare fs))) = concat (map c_findings cs) @ fs \<and>
    shown (render (merged (from_checks cs) (bare fs))) = concat (map c_findings cs) @ fs \<and>
    (hd (render_full (merged (from_checks cs) (bare fs))) =
       (if concat (map c_findings cs) @ fs = [] then CleanLine else CountLine (length (concat (map c_findings cs) @ fs))))"
proof -
  let ?r = "merged (from_checks cs) (bare fs)"
  have f: "findings ?r = concat (map c_findings cs) @ fs" and c: "checks ?r = cs" "covered ?r = covered (from_checks cs)"
    by (simp_all add: merged_def from_checks_def bare_def covered_def)
  have "filter (\<lambda>f. f_obj f \<notin> set (covered ?r)) (concat (map c_findings cs)) = []"
    using checked_are_covered [of _ ?r] c(1) by (fastforce simp: filter_empty_conv)
  moreover have "filter (\<lambda>f. f_obj f \<notin> set (covered ?r)) fs = fs" using assms c(2) by simp
  ultimately have "shown (render_full ?r) = concat (map c_findings cs) @ fs"
    unfolding shown_render_full f c(1) by simp
  moreover have "hd (render_full ?r) = (if findings ?r = [] then CleanLine else CountLine (length (findings ?r)))"
    by (simp add: render_full_def)
  ultimately show ?thesis using shown_render [of ?r] unfolding f by metis
qed

theorem every_blocker_is_shown_witness:
  "shown (render_full (merged (from_checks [evaluate 0 ''a'' [mk_finding ''x'' [] None, mk_finding ''x'' [] None] None, check_skipped ''b'' [''n'']])
      (bare [(mk_finding ''y'' [] None)\<lparr>f_obj := (1, 0)\<rparr>]))) =
     [(mk_finding ''x'' [] None)\<lparr>f_obj := (0, 0)\<rparr>, (mk_finding ''x'' [] None)\<lparr>f_obj := (0, 1)\<rparr>, (mk_finding ''y'' [] None)\<lparr>f_obj := (1, 0)\<rparr>]"
proof -
  let ?cs = "[evaluate 0 ''a'' [mk_finding ''x'' [] None, mk_finding ''x'' [] None] None, check_skipped ''b'' [''n'']]"
  let ?fs = "[(mk_finding ''y'' [] None)\<lparr>f_obj := (1, 0)\<rparr>]"
  have h: "\<forall>f \<in> set ?fs. f_obj f \<notin> set (covered (from_checks ?cs))" by code_simp
  have "concat (map c_findings ?cs) @ ?fs =
     [(mk_finding ''x'' [] None)\<lparr>f_obj := (0, 0)\<rparr>, (mk_finding ''x'' [] None)\<lparr>f_obj := (0, 1)\<rparr>, (mk_finding ''y'' [] None)\<lparr>f_obj := (1, 0)\<rparr>]"
    by code_simp
  then show ?thesis using every_blocker_is_shown [OF h] by metis
qed

subsection \<open>Capacity and the shared checks\<close>

lemma filter_Nil: "filter P xs = [] \<longleftrightarrow> (\<forall>x \<in> set xs. \<not> P x)"
  by (simp add: filter_empty_conv)

lemma sum_list_member_le:
  fixes f :: "'a \<Rightarrow> int"
  assumes "\<forall>y \<in> set xs. 0 \<le> f y" "x \<in> set xs"
  shows "f x \<le> sum_list (map f xs)"
proof -
  obtain us vs where xs: "xs = us @ x # vs" using split_list [OF assms(2)] by blast
  have "0 \<le> sum_list (map f us)" "0 \<le> sum_list (map f vs)"
    using assms(1) xs by (auto intro!: sum_list_nonneg)
  then show ?thesis by (simp add: xs)
qed

text \<open>What the capacity gate demands of a plan whose sizes are not negative.\<close>

definition fits :: "('b, 'c) hypervisor \<Rightarrow> host_capacity \<Rightarrow> bool" where
  "fits h c \<longleftrightarrow>
     (\<forall>m. hc_memory_mb c = Some m \<longrightarrow> declared_vms h = [] \<or> sum_list (map vm_mb (declared_vms h)) \<le> m) \<and>
     (\<forall>n. hc_logical_cpus c = Some n \<longrightarrow> (\<forall>v \<in> set (declared_vms h). vm_cpus v \<le> n)) \<and>
     (\<forall>g. hc_storage_free_gb c = Some g \<longrightarrow> (\<forall>p \<in> set (declared_pools h). sp_size_gb p \<le> g))"

lemma resource_findings_Nil:
  assumes "\<forall>v \<in> set (declared_vms h). 0 \<le> vm_mb v"
  shows "resource_findings h c = [] \<longleftrightarrow> fits h c"
proof -
  have le: "sum_list (map vm_mb (declared_vms h)) \<le> m \<longrightarrow> (\<forall>v \<in> set (declared_vms h). vm_mb v \<le> m)" for m
    using sum_list_member_le [OF assms] by fastforce
  show ?thesis
    by (cases "hc_memory_mb c"; cases "hc_logical_cpus c"; cases "hc_storage_free_gb c")
      (simp_all add: resource_findings_def fits_def Let_def filter_Nil not_less le)
qed

lemma resource_check_Nil:
  "\<forall>v \<in> set (declared_vms h). 0 \<le> vm_mb v \<Longrightarrow>
     c_findings (resource_check t h cap) = [] \<longleftrightarrow> (\<forall>c. cap = Some c \<longrightarrow> fits h c)"
  by (cases cap) (simp_all add: resource_check_def check_skipped_def resource_findings_Nil)

lemma unknown_uplink_Nil:
  "unknown_uplink_findings sws ups = [] \<longleftrightarrow> (\<forall>s \<in> set sws. \<forall>u. uplink s = Some u \<longrightarrow> u \<in> set (dkeys ups))"
  by (auto simp: unknown_uplink_findings_def split: option.splits if_splits)

lemma builder_origin_Nil:
  "builder_origin_findings base media h = [] \<longleftrightarrow>
     (\<forall>v \<in> set (declared_vms h). base (vr_builder v) \<noteq> None \<or> media (vr_builder v) \<noteq> None)"
  unfolding builder_origin_findings_def by (simp add: filter_Nil)

lemma unsupported_firmware_Nil:
  "unsupported_firmware_findings h fws n = [] \<longleftrightarrow> (\<forall>v \<in> set (declared_vms h). firmware (vr_spec v) \<in> set fws)"
  unfolding unsupported_firmware_findings_def by (simp add: filter_Nil)

text \<open>What the three shared checks demand.\<close>

definition realizable :: "'b checked_driver \<Rightarrow> ('b, 'c) hypervisor \<Rightarrow> switch option \<Rightarrow> bool" where
  "realizable D h bs \<longleftrightarrow>
     (\<forall>s \<in> set (preflight_switches h bs). \<forall>u. uplink s = Some u \<longrightarrow> u \<in> set (dkeys (cd_uplinks D))) \<and>
     (\<forall>v \<in> set (declared_vms h). (cd_base D (vr_builder v) \<noteq> None \<or> cd_media D (vr_builder v) \<noteq> None) \<and>
        firmware (vr_spec v) \<in> set SUPPORTED_FIRMWARES)"

lemma common_checks_Nil: "(\<forall>c \<in> set (common_checks D h bs). c_findings c = []) \<longleftrightarrow> realizable D h bs"
  by (simp add: common_checks_def realizable_def unknown_uplink_Nil builder_origin_Nil unsupported_firmware_Nil ball_conj_distrib)

subsection \<open>The drivers\<close>

lemma lv_preflight_clean:
  assumes "\<forall>v \<in> set (declared_vms h). 0 \<le> vm_mb v"
  shows "clean (lv_preflight D P h bs) \<longleftrightarrow> realizable D h bs \<and> nested_kvm_findings P h = [] \<and> (\<forall>c. lv_host_capacity P = Some c \<longrightarrow> fits h c)"
  unfolding lv_preflight_def clean_from_checks set_append ball_Un common_checks_Nil
  by (simp add: resource_check_Nil [OF assms])

lemma overlaps_iff:
  assumes "host_part (prefixlen a) (network_address a) = 0" "host_part (prefixlen b) (network_address b) = 0"
    and "network_address a \<le> broadcast_address a" "network_address b \<le> broadcast_address b"
  shows "overlaps a b \<longleftrightarrow> (\<exists>x. in_network x a \<and> in_network x b)"
proof
  assume "overlaps a b"
  then show "\<exists>x. in_network x a \<and> in_network x b"
    unfolding overlaps_def in_network_iff [OF assms(1)] in_network_iff [OF assms(2)] using assms(3,4) by fastforce
next
  assume "\<exists>x. in_network x a \<and> in_network x b"
  then obtain x where "network_address a \<le> x" "x \<le> broadcast_address a" "network_address b \<le> x" "x \<le> broadcast_address b"
    unfolding in_network_iff [OF assms(1)] in_network_iff [OF assms(2)] by blast
  then show "overlaps a b"
    unfolding overlaps_def in_network_iff [OF assms(1)] in_network_iff [OF assms(2)] by linarith
qed

lemma switch_overlaps:
  assumes "switch_ok s" "switch_ok t"
  shows "overlaps (sw_network s) (sw_network t) \<longleftrightarrow> (\<exists>x. in_network x (sw_network s) \<and> in_network x (sw_network t))"
  by (rule overlaps_iff) (use sw_network_props [OF assms(1)] sw_network_props [OF assms(2)] in linarith)+

definition disjoint_nets :: "switch \<Rightarrow> switch \<Rightarrow> bool" where
  "disjoint_nets s t \<longleftrightarrow> \<not> (\<exists>x. in_network x (sw_network s) \<and> in_network x (sw_network t))"

lemma cidr_overlap_Nil:
  "\<forall>s \<in> set sws. switch_ok s \<Longrightarrow> cidr_overlap_findings sws = [] \<longleftrightarrow> sorted_wrt disjoint_nets sws"
  by (induction sws) (simp_all add: filter_Nil switch_overlaps disjoint_nets_def)

lemma nat_uplinks_mem:
  "(u, b) \<in> set (nat_uplinks ups sws) \<longleftrightarrow>
     (\<exists>s \<in> set sws. \<exists>c. uplink s = Some u \<and> sw_sidecar s = Some c \<and> nat_flag c \<and> u \<noteq> [] \<and> map_of ups u = Some b)"
proof -
  have "(u, b) \<in> set (case (uplink s, sw_sidecar s) of
       (Some u, Some c) \<Rightarrow> (case map_of ups u of Some b \<Rightarrow> if u \<noteq> [] \<and> nat_flag c then [(u, b)] else [] | None \<Rightarrow> []) | _ \<Rightarrow> []) \<longleftrightarrow>
     (\<exists>c. uplink s = Some u \<and> sw_sidecar s = Some c \<and> nat_flag c \<and> u \<noteq> [] \<and> map_of ups u = Some b)" for s :: switch
    by (cases "uplink s"; cases "sw_sidecar s") (auto split: option.splits)
  then show ?thesis unfolding nat_uplinks_def by (simp only: set_remdups set_concat set_map image_image UN_iff)
qed

text \<open>The switches whose guests leave the host are bridged to interfaces that exist.\<close>

definition uplinks_present :: "(name, string) dict \<Rightarrow> switch list \<Rightarrow> string list \<Rightarrow> bool" where
  "uplinks_present ups sws ifs \<longleftrightarrow> (\<forall>(u, b) \<in> set (nat_uplinks ups sws). b \<in> set ifs)"

lemma bindR_findings: "bindR r f = Inr x \<longleftrightarrow> (\<exists>y. r = Inr y \<and> f y = Inr x)"
  by (cases r) (simp_all add: bindR_def)

lemma bridge_filter_Nil:
  "filter (\<lambda>(n, b). b \<notin> set brs) (sorted_uplinks ups sws) = [] \<longleftrightarrow> uplinks_present ups sws brs"
  unfolding filter_Nil sorted_uplinks_def uplinks_present_def by auto

lemma uplink_bridge_Nil:
  "uplink_bridge_findings ups P sws = Inr [] \<longleftrightarrow> nat_uplinks ups sws = [] \<or> (\<exists>brs. pb_bridges P = Inr brs \<and> uplinks_present ups sws brs)"
  by (simp add: uplink_bridge_findings_def bindR_findings bridge_filter_Nil)

lemma uplink_pnic_Nil:
  "uplink_pnic_findings ups P sws = Inr [] \<longleftrightarrow> nat_uplinks ups sws = [] \<or> (\<exists>ps. ep_pnics P = Inr ps \<and> uplinks_present ups sws ps)"
  by (simp add: uplink_pnic_findings_def bindR_findings bridge_filter_Nil)

lemma pve_preflight_clean:
  assumes "\<forall>v \<in> set (declared_vms h). 0 \<le> vm_mb v"
  shows "(\<exists>r. pve_preflight D P h bs = Inr r \<and> clean r) \<longleftrightarrow>
    realizable D h bs \<and> uplink_bridge_findings (cd_uplinks D) P (preflight_switches h bs) = Inr [] \<and>
    import_content_findings P = Inr [] \<and> (\<forall>c. bytes_capacity (pb_status P) = Some c \<longrightarrow> fits h c)"
  by (cases "uplink_bridge_findings (cd_uplinks D) P (preflight_switches h bs)"; cases "import_content_findings P")
    (simp_all add: pve_preflight_def bindR_def clean_from_checks ball_Un common_checks_Nil resource_check_Nil [OF assms], blast)

lemma esxi_preflight_clean:
  assumes "\<forall>v \<in> set (declared_vms h). 0 \<le> vm_mb v"
  shows "(\<exists>r. esxi_preflight D P h bs = Inr r \<and> clean r) \<longleftrightarrow>
    realizable D h bs \<and> uplink_pnic_findings (cd_uplinks D) P (preflight_switches h bs) = Inr [] \<and>
    datastore_capacity_findings P h = Inr [] \<and> cidr_overlap_findings (preflight_switches h bs) = [] \<and>
    qemu_img_findings D P h = [] \<and> (\<forall>c. bytes_capacity (ep_hardware P) = Some c \<longrightarrow> fits h c)"
  by (cases "uplink_pnic_findings (cd_uplinks D) P (preflight_switches h bs)"; cases "datastore_capacity_findings P h")
    (simp_all add: esxi_preflight_def Let_def bindR_def clean_from_checks ball_Un common_checks_Nil resource_check_Nil [OF assms], blast)

lemma gate_passes_iff: "preflight_gate h r = Inr () \<longleftrightarrow> clean r"
  by (simp add: preflight_gate_def guardR_def clean_def merged_def bare_def compatibility_findings_def)

lemma gate_error: "\<not> clean r \<Longrightarrow> preflight_gate h r = Inl (PreflightError (map f_code (findings r)))"
  by (simp add: preflight_gate_def guardR_def clean_def merged_def bare_def compatibility_findings_def)

lemma datastore_capacity_Nil:
  "datastore_capacity_findings P h = Inr [] \<longleftrightarrow> (\<exists>free. ep_free_bytes P = Inr free \<and> sum_list (map sp_size_gb (declared_pools h)) * GIB \<le> free)"
  by (simp add: datastore_capacity_findings_def bindR_findings Let_def) blast

text \<open>A plan passes the gate on an ESXi host exactly when every uplink is mapped, every VM has an origin for its OS disk
  and a firmware the backend realizes, the interfaces behind the NAT uplinks exist, the pools together fit the free
  space of the datastore, the networks of the switches are pairwise disjoint, \<^verbatim>\<open>qemu-img\<close> is there if an image has to be
  converted, and memory and CPUs suffice; a probe that raises keeps the plan from passing.\<close>

theorem esxi_gate_iff:
  assumes "\<forall>v \<in> set (declared_vms h). 0 \<le> vm_mb v" "\<forall>s \<in> set (preflight_switches h bs). switch_ok s"
  shows "(\<exists>r. esxi_preflight D P h bs = Inr r \<and> preflight_gate h r = Inr ()) \<longleftrightarrow>
    realizable D h bs \<and>
    (nat_uplinks (cd_uplinks D) (preflight_switches h bs) = [] \<or>
       (\<exists>ps. ep_pnics P = Inr ps \<and> uplinks_present (cd_uplinks D) (preflight_switches h bs) ps)) \<and>
    (\<exists>free. ep_free_bytes P = Inr free \<and> sum_list (map sp_size_gb (declared_pools h)) * GIB \<le> free) \<and>
    sorted_wrt disjoint_nets (preflight_switches h bs) \<and>
    (ep_qemu_img P \<or> (\<forall>v \<in> set (declared_vms h). cd_base D (vr_builder v) = None) \<and> (\<forall>s \<in> set (declared_switches h). \<not> needs_sidecar s)) \<and>
    (\<forall>c. bytes_capacity (ep_hardware P) = Some c \<longrightarrow> fits h c)"
proof -
  have q: "qemu_img_findings D P h = [] \<longleftrightarrow>
      ep_qemu_img P \<or> (\<forall>v \<in> set (declared_vms h). cd_base D (vr_builder v) = None) \<and> (\<forall>s \<in> set (declared_switches h). \<not> needs_sidecar s)"
    by (cases "ep_qemu_img P") (auto simp: qemu_img_findings_def Let_def list_ex_iff)
  show ?thesis
    unfolding gate_passes_iff esxi_preflight_clean [OF assms(1)] uplink_pnic_Nil datastore_capacity_Nil cidr_overlap_Nil [OF assms(2)] q by (rule refl)
qed

subsection \<open>The contract of a preflight\<close>

text \<open>The orchestrator relies on two promises of a driver's preflight: a clean report means that the plan is realizable on
  the backend and that it fits the capacity the driver measured.\<close>

locale preflight_contract =
  fixes D :: "'b checked_driver" and cap :: "host_capacity option"
    and preflight :: "('b, 'c) hypervisor \<Rightarrow> switch option \<Rightarrow> report result"
  assumes clean_realizable: "preflight h bs = Inr r \<Longrightarrow> clean r \<Longrightarrow> realizable D h bs"
    and clean_fits: "preflight h bs = Inr r \<Longrightarrow> clean r \<Longrightarrow> \<forall>v \<in> set (declared_vms h). 0 \<le> vm_mb v \<Longrightarrow> cap = Some c \<Longrightarrow> fits h c"
begin

lemma passed_gate:
  assumes "preflight h bs = Inr r" "preflight_gate h r = Inr ()" "\<forall>v \<in> set (declared_vms h). 0 \<le> vm_mb v"
  shows "realizable D h bs \<and> (\<forall>c. cap = Some c \<longrightarrow> fits h c)"
  using clean_realizable [OF assms(1)] clean_fits [OF assms(1) _ assms(3)] assms(2) unfolding gate_passes_iff by blast

lemma passed_uplink:
  assumes "preflight h bs = Inr r" "preflight_gate h r = Inr ()" "s \<in> set (preflight_switches h bs)" "uplink s = Some u"
  shows "\<exists>i. map_of (cd_uplinks D) u = Some i"
proof -
  have "realizable D h bs" using clean_realizable [OF assms(1)] assms(2) unfolding gate_passes_iff by blast
  then have "u \<in> set (dkeys (cd_uplinks D))" using assms(3,4) unfolding realizable_def by blast
  then show ?thesis by (simp add: map_of_eq_None_iff [symmetric] flip: not_None_eq) (simp add: map_of_eq_None_iff)
qed

lemma passed_memory:
  assumes "preflight h bs = Inr r" "preflight_gate h r = Inr ()" "\<forall>v \<in> set (declared_vms h). 0 \<le> vm_mb v"
    and "cap = Some c" "hc_memory_mb c = Some m" "v \<in> set (declared_vms h)"
  shows "vm_mb v \<le> m"
proof -
  have "sum_list (map vm_mb (declared_vms h)) \<le> m"
    using passed_gate [OF assms(1,2,3)] assms(4-6) unfolding fits_def by auto
  then show ?thesis using sum_list_member_le [OF assms(3,6)] by linarith
qed

end

lemma from_checks_common:
  "clean (from_checks (common_checks D h bs @ cs)) \<Longrightarrow> realizable D h bs"
  by (simp add: clean_from_checks ball_Un common_checks_Nil)

interpretation lvp: preflight_contract D "lv_host_capacity P" "\<lambda>h bs. Inr (lv_preflight D P h bs)" for D P
proof unfold_locales
  fix h :: "('a, 'b) hypervisor" and bs r c
  assume r: "Inr (lv_preflight D P h bs) = Inr r" "clean r"
  then have c: "clean (lv_preflight D P h bs)" by simp
  then show "realizable D h bs" unfolding lv_preflight_def by (rule from_checks_common)
  assume "\<forall>v \<in> set (declared_vms h). 0 \<le> vm_mb v" "lv_host_capacity P = Some c"
  then show "fits h c" using c lv_preflight_clean [of h D P bs] by blast
qed

interpretation pvep: preflight_contract D "bytes_capacity (pb_status P)" "pve_preflight D P" for D P
proof unfold_locales
  fix h :: "('a, 'b) hypervisor" and bs r c
  assume r: "pve_preflight D P h bs = Inr r" "clean r"
  then show "realizable D h bs"
    unfolding pve_preflight_def bindR_findings by (auto intro: from_checks_common)
  assume "\<forall>v \<in> set (declared_vms h). 0 \<le> vm_mb v" "bytes_capacity (pb_status P) = Some c"
  then show "fits h c" using r pve_preflight_clean [of h D P bs] by blast
qed

interpretation esxip: preflight_contract D "bytes_capacity (ep_hardware P)" "esxi_preflight D P" for D P
proof unfold_locales
  fix h :: "('a, 'b) hypervisor" and bs r c
  assume r: "esxi_preflight D P h bs = Inr r" "clean r"
  then show "realizable D h bs"
    unfolding esxi_preflight_def Let_def bindR_findings by (auto intro: from_checks_common)
  assume "\<forall>v \<in> set (declared_vms h). 0 \<le> vm_mb v" "bytes_capacity (ep_hardware P) = Some c"
  then show "fits h c" using r esxi_preflight_clean [of h D P bs] by blast
qed

subsection \<open>What a passed gate means on every backend\<close>


definition sample_driver :: "unit checked_driver" where
  "sample_driver = \<lparr>cd_name = ''esxi'', cd_uplinks = [(''wan'', ''vmnic0'')], cd_base = (\<lambda>_. Some ''debian''), cd_media = (\<lambda>_. None)\<rparr>"

definition sample_build_switch :: switch where
  "sample_build_switch = sample_switch\<lparr>sw_name := ''build'', networks := [\<lparr>nw_name = ''build''\<rparr>], cidr := ''192.168.20.0/24'', uplink := Some ''wan'',
     sw_sidecar := Some \<lparr>dhcp = True, sc_dns = True, nat_flag = True, sc_addr = None\<rparr>\<rparr>"

definition sample_esxi :: "int \<Rightarrow> esxi_probe" where
  "sample_esxi mb = \<lparr>ep_hardware = Some (mb * MIB, 4), ep_pnics = Inr [''vmnic0''], ep_free_bytes = Inr (200 * GIB), ep_datastore = ''ds'', ep_qemu_img = True\<rparr>"

definition sample_report :: report where
  "sample_report = projr (esxi_preflight sample_driver (sample_esxi 1024) sample_hypervisor (Some sample_build_switch))"

lemma sample_report:
  "esxi_preflight sample_driver (sample_esxi 1024) sample_hypervisor (Some sample_build_switch) = Inr sample_report"
  "preflight_gate sample_hypervisor sample_report = Inr ()"
  by code_simp+

lemma sample_sizes: "\<forall>v \<in> set (declared_vms sample_hypervisor). 0 \<le> vm_mb v"
  by code_simp

lemma sample_build_switch_ok: "switch_ok sample_build_switch"
proof -
  have "Switch ''build'' [\<lparr>nw_name = ''build''\<rparr>] ''192.168.20.0/24'' (Some ''wan'') (mgmt sample_switch)
      (Some \<lparr>dhcp = True, sc_dns = True, nat_flag = True, sc_addr = None\<rparr>) = Inr sample_build_switch" by code_simp
  then show ?thesis by (rule Switch_ok)
qed


theorem esxi_gate_iff_witness:
  "disjoint_nets sample_switch sample_build_switch"
proof -
  have s: "preflight_switches sample_hypervisor (Some sample_build_switch) = [sample_switch, sample_build_switch]" by code_simp
  then have "\<forall>s \<in> set (preflight_switches sample_hypervisor (Some sample_build_switch)). switch_ok s"
    by (simp add: sample_switch_ok sample_build_switch_ok)
  from esxi_gate_iff [OF sample_sizes this, of sample_driver "sample_esxi 1024"] sample_report
  have "sorted_wrt disjoint_nets (preflight_switches sample_hypervisor (Some sample_build_switch))" by blast
  then show ?thesis by (simp add: s)
qed

text \<open>The converse of the first check: a plan too large for the host is refused, with all its blockers in the error.\<close>

lemma oversized_plan_is_refused:
  "bindR (esxi_preflight sample_driver (sample_esxi 256) sample_hypervisor None) (preflight_gate sample_hypervisor) =
     Inl (PreflightError [''insufficient-memory'', ''insufficient-memory-aggregate''])"
  by code_simp

text \<open>A build switch only adds blockers: what passes with it passes without it, on a run that uses cached disks only.\<close>

lemma realizable_without_build_switch: "realizable D h bs \<Longrightarrow> realizable D h None"
  by (cases bs) (simp_all add: realizable_def preflight_switches_def)

lemma lv_cache_only_run_passes:
  assumes "\<forall>v \<in> set (declared_vms h). 0 \<le> vm_mb v" "clean (lv_preflight D P h bs)"
  shows "clean (lv_preflight D P h None)"
  using assms(2) realizable_without_build_switch unfolding lv_preflight_clean [OF assms(1)] by blast

text \<open>On ESXi the check for \<^verbatim>\<open>qemu-img\<close> looks at base images and at the sidecars of the plan only: a plan of installers
  passes without the tool, although the captured disk of every build is converted with it, and so does one whose build switch
  alone needs a sidecar.\<close>

lemma installer_plan_passes_without_qemu_img:
  assumes "\<forall>v \<in> set (declared_vms h). cd_base D (vr_builder v) = None" "\<forall>s \<in> set (declared_switches h). \<not> needs_sidecar s"
  shows "qemu_img_findings D P h = []"
  using assms by (auto simp: qemu_img_findings_def Let_def list_ex_iff)

end
