(* ===== verification/Guest_Agent.thy ===== *)
theory Guest_Agent
  imports Communicators Build_Result State_Schema
begin

text \<open>
  The in-guest channels of the three backends (\<^verbatim>\<open>drivers/libvirt/_guest.py\<close>, \<^verbatim>\<open>drivers/proxmox/_guest.py\<close>,
  \<^verbatim>\<open>drivers/esxi/_guest.py\<close>): running a command with polling, reading and writing a file in bounded chunks. What answers is
  third-party code and a parameter: the QEMU guest agent behind libvirt (\<open>Q\<close>, a command to the reply document), the agent
  part of the Proxmox API (\<open>P\<close>, a call to its JSON value) and the guest operations of VMware Tools (the record \<open>vmtools\<close>). Each
  call may raise anything. A deadline is the number of polls before it; the loop that reads a file through the QEMU agent has none
  and is a partial function. Bytes are characters; a text that arrives with one character per byte is already the
  bytes. An \<^verbatim>\<open>AttributeError\<close> is a \<open>TypeError\<close> of the model.
\<close>

subsection \<open>Base64 with padding\<close>

text \<open>\<^verbatim>\<open>base64.b64encode\<close>, and \<^verbatim>\<open>base64.b64decode\<close> without validation: characters outside the alphabet are
  skipped, a padding that completes a group ends the input, an incomplete group raises.\<close>

definition b64encode :: "string \<Rightarrow> string" where
  "b64encode s = b64_encode s @ replicate ((3 - length s mod 3) mod 3) (CHR ''='')"

fun a2b :: "nat list \<Rightarrow> nat \<Rightarrow> string \<Rightarrow> nat list result" where
  "a2b q p [] = (if q = [] then Inr [] else Inl (ValueError []))"
| "a2b q p (c # s) =
     (if c = CHR ''='' then
        (if 2 \<le> length q then (if 4 \<le> length q + Suc p then Inr (b64_bytes q) else a2b q (Suc p) s) else a2b q p s)
      else case b64_val c of
        None \<Rightarrow> a2b q p s
      | Some v \<Rightarrow> if length q = 3 then bindR (a2b [] 0 s) (\<lambda>bs. Inr (b64_bytes (q @ [v]) @ bs)) else a2b (q @ [v]) 0 s)"

definition b64decode :: "string \<Rightarrow> string result" where
  "b64decode s = bindR (a2b [] 0 s) (\<lambda>bs. Inr (map char_of bs))"

subsection \<open>Values of a reply\<close>

fun json_true :: "json \<Rightarrow> bool" where
  "json_true JNull = False"
| "json_true (JBool b) = b"
| "json_true (JInt i) = (i \<noteq> 0)"
| "json_true (JStr s) = (s \<noteq> [])"
| "json_true (JList xs) = (xs \<noteq> [])"
| "json_true (JObj m) = (m \<noteq> [])"

text \<open>\<^verbatim>\<open>reply["k"]\<close> and \<^verbatim>\<open>reply.get("k", d)\<close> on a value that may be no dictionary.\<close>

definition sub_item :: "json \<Rightarrow> string \<Rightarrow> json result" where
  "sub_item j k = (case j of JObj m \<Rightarrow> item m k | _ \<Rightarrow> Inl (TypeError []))"

definition sub_get :: "json \<Rightarrow> string \<Rightarrow> json \<Rightarrow> json result" where
  "sub_get j k d = (case j of JObj m \<Rightarrow> Inr (get m k d) | _ \<Rightarrow> Inl (TypeError []))"

definition from_b64 :: "json \<Rightarrow> string result" where
  "from_b64 v = (if \<not> json_true v then Inr [] else case v of JStr s \<Rightarrow> b64decode s | _ \<Rightarrow> Inl (TypeError []))"

text \<open>The slices \<^verbatim>\<open>data[start : start + n]\<close> for \<^verbatim>\<open>start in range(0, len(data), n)\<close>.\<close>

function slices :: "nat \<Rightarrow> 'a list \<Rightarrow> 'a list list" where
  "slices n xs = (if n = 0 \<or> xs = [] then [] else take n xs # slices n (drop n xs))"
  by pat_completeness auto

termination
  by (relation "measure (\<lambda>(n, xs). length xs)") auto

declare slices.simps [simp del]

subsection \<open>libvirt: the QEMU guest agent\<close>

datatype qga_cmd = QExec string "string list" | QExecStatus json | QOpen string string | QRead json nat | QWrite json string | QClose json

type_synonym 'w qga = "qga_cmd \<Rightarrow> ('w, json) eff"

definition READ_CHUNK :: nat where "READ_CHUNK = 256 * 1024"
definition WRITE_CHUNK :: nat where "WRITE_CHUNK = 32 * 1024"

definition agent_command :: "'w qga \<Rightarrow> qga_cmd \<Rightarrow> ('w, json) eff" where
  "agent_command Q c = bindE (Q c) (\<lambda>reply. liftR (sub_get reply ''return'' JNull))"

text \<open>\<^verbatim>\<open>except Exception as e: raise GuestAgentError(...) from e\<close>.\<close>

definition agent_error :: "string list \<Rightarrow> ('w, 'a) eff \<Rightarrow> ('w, 'a) eff" where
  "agent_error msg m = catchE m (\<lambda>_. throw (GuestAgentError msg))"

definition lv_status :: "'w qga \<Rightarrow> json \<Rightarrow> ('w, exec_result option) eff" where
  "lv_status Q pid =
     bindE (agent_command Q (QExecStatus pid)) (\<lambda>st.
     bindE (liftR (sub_get st ''exited'' JNull)) (\<lambda>x.
     if \<not> json_true x then ret None else
     liftR (bindR (sub_get st ''exitcode'' (JInt (- 1))) (\<lambda>c. bindR (as_int c) (\<lambda>code.
            bindR (sub_get st ''out-data'' JNull) (\<lambda>o'. bindR (from_b64 o') (\<lambda>out.
            bindR (sub_get st ''err-data'' JNull) (\<lambda>e'. bindR (from_b64 e') (\<lambda>err.
            Inr (Some \<lparr>exit_code = code, stdout = out, stderr = err\<rparr>))))))))))"

fun lv_poll :: "'w qga \<Rightarrow> string \<Rightarrow> string list \<Rightarrow> json \<Rightarrow> nat \<Rightarrow> ('w, exec_result) eff" where
  "lv_poll Q bn argv pid n =
     bindE (agent_error [bn] (lv_status Q pid)) (\<lambda>r.
     case r of Some x \<Rightarrow> ret x
     | None \<Rightarrow> (case n of 0 \<Rightarrow> throw (GuestAgentError (bn # argv)) | Suc m \<Rightarrow> lv_poll Q bn argv pid m))"

declare lv_poll.simps [simp del]

definition lv_execute :: "'w qga \<Rightarrow> string \<Rightarrow> nat \<Rightarrow> string list \<Rightarrow> ('w, exec_result) eff" where
  "lv_execute Q bn polls argv =
     bindE (agent_error [bn] (case argv of
         [] \<Rightarrow> throw (IndexError [])
       | path # args \<Rightarrow> bindE (agent_command Q (QExec path args)) (\<lambda>r. liftR (sub_item r ''pid'')))) (\<lambda>pid.
     lv_poll Q bn argv pid polls)"

text \<open>\<open>None\<close> is a loop that does not end.\<close>

partial_function (option) lv_read_loop :: "'w qga \<Rightarrow> json \<Rightarrow> string \<Rightarrow> 'w \<Rightarrow> (string result \<times> 'w) option" where
  "lv_read_loop Q h acc w =
     (case agent_command Q (QRead h READ_CHUNK) w of
        (Inl e, w') \<Rightarrow> Some (Inl e, w')
      | (Inr res, w') \<Rightarrow>
          (case bindR (sub_get res ''buf-b64'' JNull) (\<lambda>b. bindR (from_b64 b) (\<lambda>chunk. bindR (sub_get res ''eof'' JNull) (\<lambda>e. Inr (chunk, e)))) of
             Inl e \<Rightarrow> Some (Inl e, w')
           | Inr (chunk, e) \<Rightarrow> if json_true e then Some (Inr (acc @ chunk), w') else lv_read_loop Q h (acc @ chunk) w'))"

definition close_handle :: "'w qga \<Rightarrow> json \<Rightarrow> ('w, unit) eff" where
  "close_handle Q h = seqE (agent_command Q (QClose h)) (ret ())"

definition lv_read_file :: "'w qga \<Rightarrow> string \<Rightarrow> string \<Rightarrow> 'w \<Rightarrow> (string result \<times> 'w) option" where
  "lv_read_file Q bn path w =
     (case agent_command Q (QOpen path ''r'') w of
        (Inl e, w') \<Rightarrow> Some (agent_error [path, bn] (throw e) w')
      | (Inr h, w') \<Rightarrow>
          map_option (\<lambda>(r, w''). agent_error [path, bn] (finallyE (liftR r) (close_handle Q h)) w'') (lv_read_loop Q h [] w'))"

definition lv_write_file :: "'w qga \<Rightarrow> string \<Rightarrow> string \<Rightarrow> string \<Rightarrow> ('w, unit) eff" where
  "lv_write_file Q bn path data =
     agent_error [path, bn]
       (bindE (agent_command Q (QOpen path ''w'')) (\<lambda>h.
        finallyE (seqE (forE (\<lambda>chunk. agent_command Q (QWrite h (b64encode chunk))) (slices WRITE_CHUNK data)) (ret ())) (close_handle Q h)))"

subsection \<open>Proxmox: the agent behind the API\<close>

datatype pve_cmd = PExec "string list" | PExecStatus json | PFileRead string | PFileWrite string string

type_synonym 'w pve_agent = "pve_cmd \<Rightarrow> ('w, json) eff"

definition MAX_ENCODED_WRITE_LEN :: nat where "MAX_ENCODED_WRITE_LEN = 60000"
definition RAW_WRITE_CHUNK :: nat where "RAW_WRITE_CHUNK = MAX_ENCODED_WRITE_LEN div 4 * 3"

text \<open>\<open>R\<close> is how Python prints a list or a dictionary, which the agent sends only when it breaks its protocol.\<close>

fun to_bytes :: "(json \<Rightarrow> string) \<Rightarrow> json \<Rightarrow> string" where
  "to_bytes R JNull = []"
| "to_bytes R (JStr s) = s"
| "to_bytes R (JInt i) = string_of_int i"
| "to_bytes R (JBool b) = (if b then ''True'' else ''False'')"
| "to_bytes R j = R j"

fun pve_poll :: "(json \<Rightarrow> string) \<Rightarrow> 'w pve_agent \<Rightarrow> string \<Rightarrow> string list \<Rightarrow> json \<Rightarrow> nat \<Rightarrow> ('w, exec_result) eff" where
  "pve_poll R P bn argv pid n =
     bindE (P (PExecStatus pid)) (\<lambda>st.
     bindE (liftR (sub_get st ''exited'' JNull)) (\<lambda>x.
     if json_true x then
       liftR (bindR (sub_get st ''exitcode'' (JInt (- 1))) (\<lambda>c. bindR (as_int c) (\<lambda>code.
              bindR (sub_get st ''out-data'' JNull) (\<lambda>out. bindR (sub_get st ''err-data'' JNull) (\<lambda>err.
              Inr \<lparr>exit_code = code, stdout = to_bytes R out, stderr = to_bytes R err\<rparr>)))))
     else case n of 0 \<Rightarrow> throw (GuestAgentError (bn # argv)) | Suc m \<Rightarrow> pve_poll R P bn argv pid m))"

declare pve_poll.simps [simp del]

definition run_exec :: "(json \<Rightarrow> string) \<Rightarrow> 'w pve_agent \<Rightarrow> string \<Rightarrow> nat \<Rightarrow> string list \<Rightarrow> ('w, exec_result) eff" where
  "run_exec R P bn polls argv =
     bindE (agent_error [bn] (bindE (P (PExec argv)) (\<lambda>r. liftR (sub_item r ''pid'')))) (\<lambda>pid. pve_poll R P bn argv pid polls)"

definition pve_read_file :: "(json \<Rightarrow> string) \<Rightarrow> 'w pve_agent \<Rightarrow> string \<Rightarrow> string \<Rightarrow> ('w, string) eff" where
  "pve_read_file R P bn path =
     bindE (agent_error [path, bn] (P (PFileRead path))) (\<lambda>res.
     bindE (liftR (sub_get res ''truncated'' JNull)) (\<lambda>t.
     if json_true t then throw (GuestAgentError [path, bn])
     else bindE (liftR (sub_get res ''content'' JNull)) (\<lambda>c. ret (to_bytes R c))))"

definition post_write :: "'w pve_agent \<Rightarrow> string \<Rightarrow> string \<Rightarrow> string \<Rightarrow> ('w, unit) eff" where
  "post_write P bn file encoded = agent_error [file, bn] (seqE (P (PFileWrite file encoded)) (ret ()))"

definition part_name :: "string \<Rightarrow> nat \<Rightarrow> string" where
  "part_name path n = path @ ''.tr-part'' @ string_of_nat n"

text \<open>Staging stops at the first part that fails; the parts staged before it are what the clean-up removes.\<close>

fun stage_parts :: "'w pve_agent \<Rightarrow> string \<Rightarrow> string \<Rightarrow> (nat \<times> string) list \<Rightarrow> string list \<Rightarrow> 'w \<Rightarrow> string list \<times> unit result \<times> 'w" where
  "stage_parts P bn path [] parts w = (parts, Inr (), w)"
| "stage_parts P bn path ((n, chunk) # cs) parts w =
     (case post_write P bn (part_name path n) (b64encode chunk) w of
        (Inl e, w') \<Rightarrow> (parts, Inl e, w')
      | (Inr _, w') \<Rightarrow> stage_parts P bn path cs (parts @ [part_name path n]) w')"

definition cat_line :: "string list \<Rightarrow> string \<Rightarrow> string" where
  "cat_line parts path = ''cat '' @ join '' '' (map quote parts) @ '' > '' @ quote path"

definition rm_line :: "string list \<Rightarrow> string" where
  "rm_line parts = ''rm -f '' @ join '' '' (map quote parts)"

definition assemble :: "(json \<Rightarrow> string) \<Rightarrow> 'w pve_agent \<Rightarrow> string \<Rightarrow> nat \<Rightarrow> string \<Rightarrow> string list \<Rightarrow> ('w, unit) eff" where
  "assemble R P bn polls path parts =
     bindE (run_exec R P bn polls [''sh'', ''-c'', cat_line parts path]) (\<lambda>r.
     if exit_code r \<noteq> 0 then throw (GuestAgentError [path, bn, string_of_int (exit_code r), stderr r]) else ret ())"

definition remove_parts :: "(json \<Rightarrow> string) \<Rightarrow> 'w pve_agent \<Rightarrow> string \<Rightarrow> nat \<Rightarrow> string list \<Rightarrow> ('w, unit) eff" where
  "remove_parts R P bn polls parts =
     (if parts = [] then ret ()
      else handle_if is_GuestAgentError (seqE (run_exec R P bn polls [''sh'', ''-c'', rm_line parts]) (ret ())) (\<lambda>_. ret ()))"

definition write_chunked :: "(json \<Rightarrow> string) \<Rightarrow> 'w pve_agent \<Rightarrow> string \<Rightarrow> nat \<Rightarrow> nat \<Rightarrow> string \<Rightarrow> string \<Rightarrow> ('w, unit) eff" where
  "write_chunked R P bn polls rm_polls path data w =
     (case stage_parts P bn path (enumerate 0 (slices RAW_WRITE_CHUNK data)) [] w of (parts, r, w') \<Rightarrow>
        finallyE (seqE (liftR r) (assemble R P bn polls path parts)) (remove_parts R P bn rm_polls parts) w')"

definition pve_write_file :: "(json \<Rightarrow> string) \<Rightarrow> 'w pve_agent \<Rightarrow> string \<Rightarrow> nat \<Rightarrow> nat \<Rightarrow> string \<Rightarrow> string \<Rightarrow> ('w, unit) eff" where
  "pve_write_file R P bn polls rm_polls path data =
     (if length (b64encode data) \<le> MAX_ENCODED_WRITE_LEN then post_write P bn path (b64encode data)
      else write_chunked R P bn polls rm_polls path data)"

subsection \<open>ESXi: VMware Tools\<close>

record 'w vmtools =
  start_program :: "string \<times> string \<Rightarrow> string \<Rightarrow> string \<Rightarrow> string \<Rightarrow> ('w, int) eff"
  list_processes :: "string \<times> string \<Rightarrow> int \<Rightarrow> ('w, int option list) eff"
  transfer_from :: "string \<times> string \<Rightarrow> string \<Rightarrow> ('w, string) eff"
  transfer_to :: "string \<times> string \<Rightarrow> string \<Rightarrow> nat \<Rightarrow> ('w, string) eff"
  delete_in_guest :: "string \<times> string \<Rightarrow> string \<Rightarrow> ('w, unit) eff"
  guest_file_get :: "string \<Rightarrow> ('w, string) eff"
  guest_file_put :: "string \<Rightarrow> string \<Rightarrow> ('w, unit) eff"

definition esxi_auth :: "posix_cred option \<Rightarrow> string \<Rightarrow> (string \<times> string) result" where
  "esxi_auth cred bn =
     (case cred of
        None \<Rightarrow> Inl (GuestAgentError [bn])
      | Some c \<Rightarrow> (case password c of
            Some (x # pw) \<Rightarrow> Inr (username c, x # pw)
          | _ \<Rightarrow> Inl (GuestAgentError [username c, bn])))"

definition temp_path :: "string \<Rightarrow> string \<Rightarrow> string" where
  "temp_path token ext = ''/tmp/tr-exec-'' @ token @ ''.'' @ ext"

definition exec_wrapper :: "string \<Rightarrow> string list \<Rightarrow> string" where
  "exec_wrapper token argv =
     join '' '' (map quote argv) @ '' >'' @ temp_path token ''out'' @ '' 2>'' @ temp_path token ''err'' @ ''; echo $? >'' @ temp_path token ''rc''"

definition sh_arguments :: "string \<Rightarrow> string" where
  "sh_arguments wrapper = ''-c '' @ quote wrapper"

fun esxi_poll :: "'w vmtools \<Rightarrow> string \<times> string \<Rightarrow> string \<Rightarrow> string list \<Rightarrow> int \<Rightarrow> nat \<Rightarrow> ('w, int) eff" where
  "esxi_poll T a bn argv pid n =
     bindE (agent_error [bn] (list_processes T a pid)) (\<lambda>procs.
     case procs of
       Some code # _ \<Rightarrow> ret code
     | _ \<Rightarrow> (case n of 0 \<Rightarrow> throw (GuestAgentError (bn # argv)) | Suc m \<Rightarrow> esxi_poll T a bn argv pid m))"

declare esxi_poll.simps [simp del]

definition esxi_read_file :: "'w vmtools \<Rightarrow> string \<times> string \<Rightarrow> string \<Rightarrow> string \<Rightarrow> ('w, string) eff" where
  "esxi_read_file T a bn path = agent_error [path, bn] (bindE (transfer_from T a path) (guest_file_get T))"

definition delete_temp :: "'w vmtools \<Rightarrow> string \<times> string \<Rightarrow> string \<Rightarrow> ('w, unit) eff" where
  "delete_temp T a path = catchE (delete_in_guest T a path) (\<lambda>_. ret ())"

text \<open>\<^verbatim>\<open>bytes.strip()\<close> and \<^verbatim>\<open>bytes.isdigit()\<close>.\<close>

definition byte_space :: "char \<Rightarrow> bool" where
  "byte_space c \<longleftrightarrow> of_char c \<in> set [9, 10, 11, 12, 13, 32 :: nat]"

definition byte_strip :: "string \<Rightarrow> string" where
  "byte_strip s = rev (dropWhile byte_space (rev (dropWhile byte_space s)))"

definition exit_of :: "string \<Rightarrow> int \<Rightarrow> int" where
  "exit_of rc_raw code = (if rc_raw \<noteq> [] \<and> list_all is_digit rc_raw then int (nat_of_digits rc_raw) else code)"

definition esxi_execute :: "'w vmtools \<Rightarrow> string \<times> string \<Rightarrow> string \<Rightarrow> string \<Rightarrow> nat \<Rightarrow> string list \<Rightarrow> string option \<Rightarrow> ('w, exec_result) eff" where
  "esxi_execute T a bn token polls argv cwd =
     (let p = temp_path token in
      bindE (agent_error [bn] (start_program T a ''/bin/sh'' (sh_arguments (exec_wrapper token argv)) (case cwd of None \<Rightarrow> [] | Some d \<Rightarrow> d))) (\<lambda>pid.
      bindE (esxi_poll T a bn argv pid polls) (\<lambda>code.
      bindE (esxi_read_file T a bn (p ''out'')) (\<lambda>out.
      bindE (esxi_read_file T a bn (p ''err'')) (\<lambda>err.
      bindE (esxi_read_file T a bn (p ''rc'')) (\<lambda>raw.
      seqE (forE (delete_temp T a) [p ''out'', p ''err'', p ''rc''])
      (ret \<lparr>exit_code = exit_of (byte_strip raw) code, stdout = out, stderr = err\<rparr>)))))))"

definition esxi_write_file :: "'w vmtools \<Rightarrow> string \<times> string \<Rightarrow> string \<Rightarrow> string \<Rightarrow> string \<Rightarrow> ('w, unit) eff" where
  "esxi_write_file T a bn path data =
     agent_error [path, bn] (bindE (transfer_to T a path (length data)) (\<lambda>url. guest_file_put T url data))"

subsection \<open>Errors\<close>

text \<open>\<open>typed m\<close>: whatever \<open>m\<close> raises is a \<^verbatim>\<open>GuestAgentError\<close> or no \<^verbatim>\<open>Exception\<close> at all (an interrupt).\<close>

definition agent_exn :: "exn \<Rightarrow> bool" where
  "agent_exn e \<longleftrightarrow> is_GuestAgentError e \<or> \<not> is_Exception e"

definition typed :: "('w, 'a) eff \<Rightarrow> bool" where
  "typed m \<longleftrightarrow> (\<forall>w e. fst (m w) = Inl e \<longrightarrow> agent_exn e)"

named_theorems typed_intros \<open>effects that raise agent errors only\<close>

lemma typed_ret [typed_intros]: "typed (ret x)"
  by (simp add: typed_def ret_def)

lemma typed_throw [typed_intros]: "typed (throw (GuestAgentError msg))"
  by (simp add: typed_def throw_def agent_exn_def)

lemma typed_liftR: "(\<And>e. r = Inl e \<Longrightarrow> agent_exn e) \<Longrightarrow> typed (liftR r)"
  by (simp add: typed_def liftR_def)

lemma typed_agent_error [typed_intros]: "typed (agent_error msg m)"
  unfolding typed_def agent_error_def catchE_def handle_if_def throw_def agent_exn_def
  by (auto split: prod.splits sum.splits if_splits)

lemma typed_bindE [typed_intros]: "typed m \<Longrightarrow> (\<And>x. typed (f x)) \<Longrightarrow> typed (bindE m f)"
  unfolding typed_def
proof (intro allI impI)
  fix w e assume m: "\<forall>w e. fst (m w) = Inl e \<longrightarrow> agent_exn e" and f: "\<And>x. \<forall>w e. fst (f x w) = Inl e \<longrightarrow> agent_exn e"
    and e: "fst (bindE m f w) = Inl e"
  obtain r w' where w: "m w = (r, w')" by (cases "m w")
  show "agent_exn e"
  proof (cases r)
    case (Inl d) then show ?thesis using m [rule_format, of w d] e w by (simp add: bindE_def)
  next
    case (Inr x) then show ?thesis using f [rule_format, of x w' e] e w by (simp add: bindE_def)
  qed
qed

lemma typed_seqE [typed_intros]: "typed m \<Longrightarrow> typed n \<Longrightarrow> typed (seqE m n)"
  unfolding seqE_def by (intro typed_intros)

lemma typed_forE [typed_intros]: "(\<And>x. typed (f x)) \<Longrightarrow> typed (forE f xs)"
  by (induction xs) (auto intro!: typed_intros)

lemma typed_delete_temp [typed_intros]: "typed (delete_temp T a p)"
  unfolding typed_def delete_temp_def catchE_def handle_if_def ret_def agent_exn_def
  by (auto split: prod.splits sum.splits if_splits)

lemma typed_option [typed_intros]: "typed m \<Longrightarrow> (\<And>x. typed (f x)) \<Longrightarrow> typed (case y of None \<Rightarrow> m | Some x \<Rightarrow> f x)"
  by (cases y) simp_all

lemma typed_lv_poll [typed_intros]: "typed (lv_poll Q bn argv pid n)"
proof (induction n)
  case 0 show ?case unfolding lv_poll.simps [of Q bn argv pid 0] by (auto intro!: typed_intros)
next
  case (Suc n) then show ?case unfolding lv_poll.simps [of Q bn argv pid "Suc n"] by (auto intro!: typed_intros)
qed

lemma typed_esxi_poll [typed_intros]: "typed (esxi_poll T a bn argv pid n)"
proof (induction n)
  case 0 show ?case unfolding esxi_poll.simps [of T a bn argv pid 0] by (intro typed_intros) (auto intro!: typed_intros split: list.splits option.splits)
next
  case (Suc n) then show ?case
    unfolding esxi_poll.simps [of T a bn argv pid "Suc n"] by (intro typed_intros) (auto intro!: typed_intros split: list.splits option.splits)
qed

lemma typed_lv_execute: "typed (lv_execute Q bn polls argv)"
  unfolding lv_execute_def by (intro typed_intros)

lemma typed_lv_write_file: "typed (lv_write_file Q bn path data)"
  unfolding lv_write_file_def by (intro typed_intros)

lemma typed_lv_read_file:
  assumes "lv_read_file Q bn path w = Some (Inl e, w')"
  shows "agent_exn e"
proof -
  have t: "agent_error m x v = (Inl e, w') \<Longrightarrow> agent_exn e" for m and x :: "('a, string) eff" and v
    using typed_agent_error [of m x] unfolding typed_def by (metis fst_conv)
  obtain r v where o': "agent_command Q (QOpen path ''r'') w = (r, v)" by (cases "agent_command Q (QOpen path ''r'') w")
  show ?thesis
  proof (cases r)
    case (Inl d) then show ?thesis using assms o' by (auto simp: lv_read_file_def intro: t)
  next
    case (Inr h) then show ?thesis using assms o' by (auto simp: lv_read_file_def intro: t)
  qed
qed

lemma typed_esxi_read_file [typed_intros]: "typed (esxi_read_file T a bn path)"
  unfolding esxi_read_file_def by (intro typed_intros)

lemma typed_esxi_execute: "typed (esxi_execute T a bn token polls argv cwd)"
  unfolding esxi_execute_def Let_def by (intro typed_intros)

lemma typed_esxi_write_file: "typed (esxi_write_file T a bn path data)"
  unfolding esxi_write_file_def by (intro typed_intros)

subsection \<open>The contract of a guest channel\<close>

text \<open>What \<^verbatim>\<open>NativeCommunicator\<close> relies on: its reconnect loop retries a \<^verbatim>\<open>GuestAgentError\<close> and nothing else, so a channel
  has to raise its failures as that.\<close>

locale guest_channel =
  fixes execute :: "string list \<Rightarrow> ('w, exec_result) eff"
    and read_file :: "string \<Rightarrow> 'w \<Rightarrow> (string result \<times> 'w) option"
    and write_file :: "string \<Rightarrow> string \<Rightarrow> ('w, unit) eff"
  assumes execute_typed: "typed (execute argv)"
    and read_typed: "read_file path w = Some (Inl e, w') \<Longrightarrow> agent_exn e"
    and write_typed: "typed (write_file path data)"
begin

lemma poll_agent_errors:
  "fst (poll_agent (execute argv) n s) = Inl e \<Longrightarrow> is_CommunicatorError e \<or> \<not> is_Exception e"
proof (induction n arbitrary: s)
  case 0 then show ?case by (auto simp: throw_def)
next
  case (Suc n)
  obtain c w where s: "s = (c, w)" by (cases s)
  obtain r w' where x: "execute argv w = (r, w')" by (cases "execute argv w")
  show ?case
  proof (cases r)
    case (Inr v)
    with Suc.prems x s show ?thesis
      by (simp add: bindE_def handle_if_def seqE_def onT_def ret_def modC_def modE_def)
  next
    case (Inl e')
    have t: "agent_exn e'" using execute_typed [of argv] x Inl unfolding typed_def by (metis fst_conv)
    show ?thesis
    proof (cases "is_GuestAgentError e'")
      case True
      with Suc.prems x s Inl have "fst (poll_agent (execute argv) n (c, w')) = Inl e"
        by (simp add: bindE_def handle_if_def seqE_def onT_def ret_def)
      then show ?thesis by (rule Suc.IH)
    next
      case False
      with Suc.prems x s Inl have "e = e'"
        by (simp add: bindE_def handle_if_def seqE_def onT_def ret_def)
      with t False show ?thesis by (simp add: agent_exn_def)
    qed
  qed
qed

lemma reconnect_errors:
  "fst (reconnect_if_needed (execute argv) n s) = Inl e \<Longrightarrow> is_CommunicatorError e \<or> \<not> is_Exception e"
  using poll_agent_errors [of argv n s e]
  by (cases s) (simp add: reconnect_if_needed_def bindE_def getC_def getE_def ret_def split: if_splits)

end

interpretation lvg: guest_channel "lv_execute Q bn polls" "lv_read_file Q bn" "lv_write_file Q bn" for Q bn polls
  by unfold_locales (simp_all add: typed_lv_execute typed_lv_write_file typed_lv_read_file)

interpretation esxig: guest_channel "\<lambda>argv. esxi_execute T a bn token polls argv cwd" "\<lambda>p w. Some (esxi_read_file T a bn p w)" "esxi_write_file T a bn"
  for T a bn token polls cwd
proof
  fix path w e w' assume "Some (esxi_read_file T a bn path w) = Some (Inl e, w')"
  then show "agent_exn e" using typed_esxi_read_file [of T a bn path] unfolding typed_def by (metis fst_conv option.inject)
qed (simp_all add: typed_esxi_execute typed_esxi_write_file)

subsection \<open>Encoding and chunks\<close>

lemma b64_char_not_pad: "v < 64 \<Longrightarrow> b64_char v \<noteq> CHR ''=''"
  using b64_val_char [of v] by (auto simp: b64_val_def is_upper_def is_lower_def is_digit_def less_eq_char_def)

lemma a2b_step:
  "v < 64 \<Longrightarrow> a2b q p (b64_char v # s) =
     (if length q = 3 then bindR (a2b [] 0 s) (\<lambda>bs. Inr (b64_bytes (q @ [v]) @ bs)) else a2b (q @ [v]) 0 s)"
  using b64_char_not_pad [of v] b64_val_char [of v] by simp

lemma a2b_pad:
  "a2b q p (CHR ''='' # s) =
     (if 2 \<le> length q then (if 4 \<le> length q + Suc p then Inr (b64_bytes q) else a2b q (Suc p) s) else a2b q p s)"
  by simp

declare a2b.simps(2) [simp del]

lemma a2b_sextets:
  "\<forall>x \<in> set bs. x < 256 \<Longrightarrow> a2b [] 0 (map b64_char (b64_sextets bs) @ replicate ((3 - length bs mod 3) mod 3) (CHR ''='')) = Inr bs"
proof (induction bs rule: b64_sextets.induct)
  case (1 x y z s)
  have b: "x < 256" "y < 256" "z < 256" using 1(2) by simp_all
  have v: "x div 4 < 64" "x mod 4 * 16 + y div 16 < 64" "y mod 16 * 4 + z div 64 < 64" "z mod 64 < 64" using b by auto
  have l: "length (x # y # z # s) mod 3 = length s mod 3" by simp
  show ?case
    unfolding b64_sextets.simps list.map append_Cons a2b_step [OF v(1)] a2b_step [OF v(2)] a2b_step [OF v(3)] a2b_step [OF v(4)] l
    using 1 b by (simp add: bindR_def)
next
  case (2 x y)
  have v: "x div 4 < 64" "x mod 4 * 16 + y div 16 < 64" "y mod 16 * 4 < 64" using 2 by auto
  show ?case using 2 b64_bytes_sextets [of "[x, y]"] by (simp add: a2b_step v a2b_pad del: b64_bytes.simps)
next
  case (3 x)
  have v: "x div 4 < 64" "x mod 4 * 16 < 64" using 3 by auto
  show ?case using 3 by (simp add: a2b_step v a2b_pad numeral_2_eq_2)
qed simp

lemma b64_roundtrip: "b64decode (b64encode s) = Inr s"
proof -
  have b: "\<forall>x \<in> set (map of_char s). x < (256 :: nat)" using nat_of_char_less_256 by auto
  have "length (map of_char s :: nat list) = length s" by simp
  then have "a2b [] 0 (b64encode s) = Inr (map of_char s)"
    using a2b_sextets [OF b] unfolding b64encode_def b64_encode_def by simp
  then show ?thesis by (simp add: b64decode_def bindR_def comp_def)
qed

lemma b64_sextets_size: "length (b64_sextets bs) + (3 - length bs mod 3) mod 3 = 4 * ((length bs + 2) div 3)"
proof (induction bs rule: b64_sextets.induct)
  case (1 x y z s)
  have "(Suc (Suc (Suc (length s))) + 2) div 3 = Suc ((length s + 2) div 3)" "Suc (Suc (Suc (length s))) mod 3 = length s mod 3" by simp_all
  with 1 show ?case by simp
qed simp_all

lemma b64encode_length: "length (b64encode s) = 4 * ((length s + 2) div 3)"
  using b64_sextets_size [of "map of_char s"] by (simp add: b64encode_def b64_encode_def)

lemma slices_concat: "0 < n \<Longrightarrow> concat (slices n xs) = xs"
proof (induction n xs rule: slices.induct)
  case (1 n xs)
  show ?case
  proof (cases "xs = []")
    case True then show ?thesis by (simp add: slices.simps [of n "[]"])
  next
    case False with 1 show ?thesis by (simp add: slices.simps [of n xs])
  qed
qed

lemma slices_bound: "c \<in> set (slices n xs) \<Longrightarrow> c \<noteq> [] \<and> length c \<le> n"
proof (induction n xs rule: slices.induct)
  case (1 n xs)
  show ?case
  proof (cases "n = 0 \<or> xs = []")
    case True with 1(2) show ?thesis by (simp add: slices.simps [of n xs])
  next
    case False
    then have "c = take n xs \<or> c \<in> set (slices n (drop n xs))" using 1(2) by (simp add: slices.simps [of n xs])
    then show ?thesis using 1(1) False by (auto simp: take_eq_Nil)
  qed
qed

lemma forE_cong: "(\<And>x. x \<in> set xs \<Longrightarrow> f x = g x) \<Longrightarrow> forE f xs = forE g xs"
  by (induction xs) simp_all

text \<open>A write command within the size the agents take.\<close>

fun small_qga :: "qga_cmd \<Rightarrow> bool" where
  "small_qga (QWrite _ b) = (length b \<le> 43692)"
| "small_qga _ = True"

fun small_pve :: "pve_cmd \<Rightarrow> bool" where
  "small_pve (PFileWrite _ b) = (length b \<le> MAX_ENCODED_WRITE_LEN)"
| "small_pve _ = True"

lemma encoded_chunk: "c \<in> set (slices n xs) \<Longrightarrow> length (b64encode c) \<le> 4 * ((n + 2) div 3)"
  using slices_bound [of c n xs] by (simp add: b64encode_length div_le_mono)

lemma stage_parts_cong:
  "(\<And>n c. (n, c) \<in> set cs \<Longrightarrow> length (b64encode c) \<le> MAX_ENCODED_WRITE_LEN) \<Longrightarrow> (\<And>c. small_pve c \<Longrightarrow> P c = P' c) \<Longrightarrow>
   stage_parts P bn path cs parts w = stage_parts P' bn path cs parts w"
proof (induction cs arbitrary: parts w)
  case (Cons x cs)
  obtain n c where x: "x = (n, c)" by (cases x)
  then have "P (PFileWrite (part_name path n) (b64encode c)) = P' (PFileWrite (part_name path n) (b64encode c))"
    using Cons.prems(1) [of n c] by (intro Cons.prems(2)) simp
  moreover have "stage_parts P bn path cs parts' w' = stage_parts P' bn path cs parts' w'" for parts' w'
    by (rule Cons.IH) (use Cons.prems in auto)
  ultimately show ?case by (simp add: x post_write_def cong: sum.case_cong prod.case_cong)
qed simp

lemma pve_poll_cong: "(\<And>c. small_pve c \<Longrightarrow> P c = P' c) \<Longrightarrow> pve_poll R P bn argv pid n = pve_poll R P' bn argv pid n"
proof (induction n)
  case 0 then show ?case by (simp add: pve_poll.simps [of R P _ _ _ 0] pve_poll.simps [of R P' _ _ _ 0] cong: if_cong)
next
  case (Suc n) then show ?case by (simp add: pve_poll.simps [of R P _ _ _ "Suc n"] pve_poll.simps [of R P' _ _ _ "Suc n"] cong: if_cong)
qed

lemma run_exec_cong: "(\<And>c. small_pve c \<Longrightarrow> P c = P' c) \<Longrightarrow> run_exec R P bn n argv = run_exec R P' bn n argv"
  using pve_poll_cong [of P P'] by (simp add: run_exec_def)

text \<open>C31: A write command never exceeds what the agent takes: whatever an agent does with a command whose payload is larger than the
  cap (60000 encoded characters on Proxmox, 43692 for the 32 KiB chunks of libvirt) makes no difference to writing a file of any size.\<close>

theorem writes_stay_within_the_caps:
  assumes "\<And>c. small_qga c \<Longrightarrow> Q c = Q' c" and "\<And>c. small_pve c \<Longrightarrow> P c = P' c"
  shows "lv_write_file Q bn path data = lv_write_file Q' bn path data \<and>
    pve_write_file R P bn polls rm_polls path data = pve_write_file R P' bn polls rm_polls path data"
proof
  have q: "agent_command Q c = agent_command Q' c" if "small_qga c" for c
    using assms(1) [OF that] by (simp add: agent_command_def)
  have "forE (\<lambda>chunk. agent_command Q (QWrite h (b64encode chunk))) (slices WRITE_CHUNK data) =
      forE (\<lambda>chunk. agent_command Q' (QWrite h (b64encode chunk))) (slices WRITE_CHUNK data)" for h
    by (rule forE_cong, rule q) (use encoded_chunk [of _ WRITE_CHUNK data] in \<open>simp add: WRITE_CHUNK_def\<close>)
  then show "lv_write_file Q bn path data = lv_write_file Q' bn path data"
    by (simp add: lv_write_file_def close_handle_def q)
  have "length (b64encode c) \<le> MAX_ENCODED_WRITE_LEN" if "(n, c) \<in> set (enumerate 0 (slices RAW_WRITE_CHUNK data))" for n c
    using encoded_chunk [of c RAW_WRITE_CHUNK data] that
    by (auto simp: RAW_WRITE_CHUNK_def MAX_ENCODED_WRITE_LEN_def in_set_enumerate_eq)
  then have s: "stage_parts P bn path (enumerate 0 (slices RAW_WRITE_CHUNK data)) parts w =
      stage_parts P' bn path (enumerate 0 (slices RAW_WRITE_CHUNK data)) parts w" for parts w
    using assms(2) by (rule stage_parts_cong)
  have "write_chunked R P bn polls rm_polls path data = write_chunked R P' bn polls rm_polls path data"
    using run_exec_cong [of P P', OF assms(2)] by (intro ext) (simp add: write_chunked_def s assemble_def remove_parts_def cong: if_cong)
  then show "pve_write_file R P bn polls rm_polls path data = pve_write_file R P' bn polls rm_polls path data"
    using assms(2) by (simp add: pve_write_file_def post_write_def)
qed

text \<open>However large, a file is staged on Proxmox as the slices of its data: the staged parts are the base64 of consecutive pieces
  whose concatenation is the data, and the shell that assembles them is given exactly the names of the parts.\<close>

lemma parts_are_the_data:
  "concat (map (\<lambda>c. case b64decode (b64encode c) of Inr s \<Rightarrow> s | Inl _ \<Rightarrow> []) (slices RAW_WRITE_CHUNK data)) = data"
  using slices_concat [of RAW_WRITE_CHUNK data] by (simp add: b64_roundtrip RAW_WRITE_CHUNK_def MAX_ENCODED_WRITE_LEN_def)

lemma stage_parts_names:
  "stage_parts P bn path cs parts w = (parts', Inr (), w') \<Longrightarrow> parts' = parts @ map (\<lambda>(n, c). part_name path n) cs"
proof (induction cs arbitrary: parts w)
  case (Cons x cs)
  obtain n c where x: "x = (n, c)" by (cases x)
  obtain r v where p: "post_write P bn (part_name path n) (b64encode c) w = (r, v)" by (cases "post_write P bn (part_name path n) (b64encode c) w")
  then show ?case using Cons.prems x Cons.IH [of "parts @ [part_name path n]" v] by (cases r) (auto simp: p)
qed simp

lemma rm_line_words: "sh_words Blank [] (rm_line parts) = Some (''rm'' # ''-f'' # parts)"
proof (cases "parts = []")
  case True
  have "sh_words Blank [] ''rm -f '' = Some [''rm'', ''-f'']" by code_simp
  with True show ?thesis by (simp add: rm_line_def)
next
  case False
  have "quote ''rm'' = ''rm''" "quote ''-f'' = ''-f''" by code_simp+
  with False show ?thesis using sh_words_join [of "[]" "''rm'' # ''-f'' # parts"] by (simp add: rm_line_def join_Cons)
qed

subsection \<open>Files through the QEMU agent\<close>

text \<open>The documented behaviour of the file commands, over the guest's files \<open>fs\<close> and the open handles \<open>hs\<close> with their positions:
  opening for writing truncates; a write at the end of the file appends the decoded bytes; a read returns
  at most \<open>n\<close> of the bytes that follow, at least one while there are any, and reports the end of the file at the latest when there are none.\<close>

definition serves_files :: "'w qga \<Rightarrow> ('w \<Rightarrow> string \<Rightarrow> string option) \<Rightarrow> ('w \<Rightarrow> json \<Rightarrow> (string \<times> nat) option) \<Rightarrow> bool" where
  "serves_files Q fs hs \<longleftrightarrow>
     (\<forall>p w. \<exists>h w'. agent_command Q (QOpen p ''w'') w = (Inr h, w') \<and> fs w' p = Some [] \<and> hs w' h = Some (p, 0)) \<and>
     (\<forall>p w s. fs w p = Some s \<longrightarrow> (\<exists>h w'. agent_command Q (QOpen p ''r'') w = (Inr h, w') \<and> fs w' p = Some s \<and> hs w' h = Some (p, 0))) \<and>
     (\<forall>h w p s b bs. hs w h = Some (p, length s) \<and> fs w p = Some s \<and> b64decode b = Inr bs \<longrightarrow>
        (\<exists>r w'. agent_command Q (QWrite h b) w = (Inr r, w') \<and> fs w' p = Some (s @ bs) \<and> hs w' h = Some (p, length s + length bs))) \<and>
     (\<forall>h w p k n s. hs w h = Some (p, k) \<and> fs w p = Some s \<and> 0 < n \<longrightarrow>
        (\<exists>m e w'. m \<le> n \<and> (k < length s \<longrightarrow> 0 < m) \<and> (length s \<le> k \<longrightarrow> e) \<and> (e \<longrightarrow> length s \<le> k + m) \<and>
           agent_command Q (QRead h n) w = (Inr (JObj [(''buf-b64'', JStr (b64encode (take m (drop k s)))), (''eof'', JBool e)]), w') \<and>
           fs w' p = Some s \<and> hs w' h = Some (p, k + m))) \<and>
     (\<forall>h w. \<exists>r w'. agent_command Q (QClose h) w = (Inr r, w') \<and> fs w' = fs w)"

lemma serves_open:
  assumes "serves_files Q fs hs"
  shows "\<exists>h w'. agent_command Q (QOpen p ''w'') w = (Inr h, w') \<and> fs w' p = Some [] \<and> hs w' h = Some (p, 0)"
    and "fs w p = Some s \<Longrightarrow> \<exists>h w'. agent_command Q (QOpen p ''r'') w = (Inr h, w') \<and> fs w' p = Some s \<and> hs w' h = Some (p, 0)"
  by (rule assms [unfolded serves_files_def, THEN conjunct1, rule_format])
    (rule assms [unfolded serves_files_def, THEN conjunct2, THEN conjunct1, rule_format])

lemma serves_write:
  assumes "serves_files Q fs hs" "hs w h = Some (p, length s)" "fs w p = Some s" "b64decode b = Inr bs"
  shows "\<exists>r w'. agent_command Q (QWrite h b) w = (Inr r, w') \<and> fs w' p = Some (s @ bs) \<and> hs w' h = Some (p, length s + length bs)"
  using assms(1) [unfolded serves_files_def, THEN conjunct2, THEN conjunct2, THEN conjunct1, rule_format, of w h p s b bs] assms(2-4) by simp

lemma serves_read:
  assumes "serves_files Q fs hs" "hs w h = Some (p, k)" "fs w p = Some s" "0 < n"
  shows "\<exists>m e w'. m \<le> n \<and> (k < length s \<longrightarrow> 0 < m) \<and> (length s \<le> k \<longrightarrow> e) \<and> (e \<longrightarrow> length s \<le> k + m) \<and>
     agent_command Q (QRead h n) w = (Inr (JObj [(''buf-b64'', JStr (b64encode (take m (drop k s)))), (''eof'', JBool e)]), w') \<and>
     fs w' p = Some s \<and> hs w' h = Some (p, k + m)"
  using assms(1) [unfolded serves_files_def, THEN conjunct2, THEN conjunct2, THEN conjunct2, THEN conjunct1, rule_format, of w h p k s n]
    assms(2-4) by simp

lemma serves_close:
  assumes "serves_files Q fs hs"
  shows "\<exists>r w'. agent_command Q (QClose h) w = (Inr r, w') \<and> fs w' = fs w"
  using assms [unfolded serves_files_def, THEN conjunct2, THEN conjunct2, THEN conjunct2, THEN conjunct2, rule_format, of h w] by assumption

lemma from_b64_encode: "from_b64 (JStr (b64encode s)) = Inr s"
proof (cases "b64encode s = []")
  case True
  then have "s = []" using b64encode_length [of s] by (cases s) (simp_all add: b64encode_def)
  then show ?thesis by (simp add: from_b64_def b64encode_def b64_encode_def)
qed (simp add: from_b64_def b64_roundtrip)

lemma read_loop_returns:
  assumes Q: "serves_files Q fs hs"
  shows "fs w p = Some s \<Longrightarrow> hs w h = Some (p, k) \<Longrightarrow>
    \<exists>w'. lv_read_loop Q h acc w = Some (Inr (acc @ drop k s), w') \<and> fs w' p = Some s"
proof (induction "length s - k" arbitrary: k acc w rule: less_induct)
  case less
  obtain m e w' where m: "m \<le> READ_CHUNK" "k < length s \<longrightarrow> 0 < m" "length s \<le> k \<longrightarrow> e" "e \<longrightarrow> length s \<le> k + m"
    and r: "agent_command Q (QRead h READ_CHUNK) w = (Inr (JObj [(''buf-b64'', JStr (b64encode (take m (drop k s)))), (''eof'', JBool e)]), w')"
    and w': "fs w' p = Some s" "hs w' h = Some (p, k + m)"
    using serves_read [OF Q less.prems(2,1), of READ_CHUNK] by (auto simp: READ_CHUNK_def)
  let ?d = "take m (drop k s)"
  have step: "lv_read_loop Q h acc w = (if e then Some (Inr (acc @ ?d), w') else lv_read_loop Q h (acc @ ?d) w')"
    by (subst lv_read_loop.simps) (simp add: r sub_get_def get_def from_b64_encode bindR_def)
  have split: "?d @ drop (k + m) s = drop k s" by (metis append_take_drop_id drop_drop add.commute)
  show ?case
  proof (cases e)
    case True
    then have "drop (k + m) s = []" using m(4) by simp
    then have "?d = drop k s" using split by simp
    then show ?thesis using step True w' by simp
  next
    case False
    then have "length s - (k + m) < length s - k" using m by auto
    from less.hyps [OF this w'(1) w'(2), of "acc @ ?d"]
    show ?thesis using step False split by (metis append_assoc)
  qed
qed

lemma write_loop_appends:
  assumes Q: "serves_files Q fs hs"
  shows "fs w p = Some s \<Longrightarrow> hs w h = Some (p, length s) \<Longrightarrow>
    \<exists>rs w'. forE (\<lambda>chunk. agent_command Q (QWrite h (b64encode chunk))) cs w = (Inr rs, w') \<and> fs w' p = Some (s @ concat cs)"
proof (induction cs arbitrary: s w)
  case Nil then show ?case by (simp add: ret_def)
next
  case (Cons c cs)
  obtain r v where v: "agent_command Q (QWrite h (b64encode c)) w = (Inr r, v)" "fs v p = Some (s @ c)" "hs v h = Some (p, length (s @ c))"
    using serves_write [OF Q Cons.prems(2,1) b64_roundtrip [of c]] by auto
  from Cons.IH [OF v(2,3)] obtain rs w' where
    "forE (\<lambda>chunk. agent_command Q (QWrite h (b64encode chunk))) cs v = (Inr rs, w')" "fs w' p = Some ((s @ c) @ concat cs)" by blast
  then show ?case using v(1) by (simp add: bindE_def ret_def)
qed

text \<open>C30: A file written through the guest agent of libvirt is read back unchanged, whatever its size and bytes and whatever the guest
  was doing before: the write succeeds and leaves exactly the data, and the read, which has no deadline, ends and returns them,
  provided the agent serves files as documented.\<close>

theorem guest_file_roundtrip:
  assumes "serves_files Q fs hs"
  shows "\<exists>w1 w2. lv_write_file Q bn path data w = (Inr (), w1) \<and> fs w1 path = Some data \<and>
    lv_read_file Q bn' path w1 = Some (Inr data, w2)"
proof -
  obtain h v where o': "agent_command Q (QOpen path ''w'') w = (Inr h, v)" "fs v path = Some []" "hs v h = Some (path, length ([] :: string))"
    using serves_open(1) [OF assms, of path w] by auto
  obtain rs u where l: "forE (\<lambda>chunk. agent_command Q (QWrite h (b64encode chunk))) (slices WRITE_CHUNK data) v = (Inr rs, u)" "fs u path = Some data"
    using write_loop_appends [OF assms o'(2,3), of "slices WRITE_CHUNK data"] by (auto simp: slices_concat WRITE_CHUNK_def)
  obtain r w1 where c: "agent_command Q (QClose h) u = (Inr r, w1)" "fs w1 = fs u" using serves_close [OF assms, of h u] by blast
  have "lv_write_file Q bn path data w = (Inr (), w1)"
    by (simp add: lv_write_file_def agent_error_def catchE_def handle_if_def bindE_def seqE_def finallyE_def close_handle_def ret_def o'(1) l(1) c(1))
  moreover have f: "fs w1 path = Some data" using c(2) l(2) by simp
  obtain h' v' where o2: "agent_command Q (QOpen path ''r'') w1 = (Inr h', v')" "fs v' path = Some data" "hs v' h' = Some (path, 0)"
    using serves_open(2) [OF assms, of w1 path data] f by blast
  obtain u' where l2: "lv_read_loop Q h' [] v' = Some (Inr data, u')" using read_loop_returns [OF assms o2(2,3), of "[]"] by auto
  obtain r' w2 where c2: "agent_command Q (QClose h') u' = (Inr r', w2)" using serves_close [OF assms, of h' u'] by blast
  have "lv_read_file Q bn' path w1 = Some (Inr data, w2)"
    by (simp add: lv_read_file_def o2(1) l2 agent_error_def catchE_def handle_if_def finallyE_def close_handle_def seqE_def bindE_def ret_def liftR_def c2)
  ultimately show ?thesis using f by blast
qed

text \<open>A guest whose agent names a handle by the path.\<close>

type_synonym sample_guest = "(string \<Rightarrow> string option) \<times> (json \<Rightarrow> (string \<times> nat) option)"

definition answer :: "json \<Rightarrow> json" where
  "answer j = JObj [(''return'', j)]"

fun sample_qga :: "sample_guest qga" where
  "sample_qga (QOpen p m) w = (Inr (answer (JStr p)), (if m = ''w'' then (fst w)(p \<mapsto> []) else fst w, (snd w)(JStr p \<mapsto> (p, 0))))"
| "sample_qga (QWrite h b) w =
     (case (snd w h, b64decode b) of
        (Some (p, k), Inr bs) \<Rightarrow>
          (Inr (answer (JObj [])), ((fst w)(p := map_option (\<lambda>s. take k s @ bs @ drop (k + length bs) s) (fst w p)), (snd w)(h \<mapsto> (p, k + length bs))))
      | _ \<Rightarrow> (Inr (JObj []), w))"
| "sample_qga (QRead h n) w =
     (case snd w h of
        Some (p, k) \<Rightarrow>
          (case fst w p of
             Some s \<Rightarrow> (Inr (answer (JObj [(''buf-b64'', JStr (b64encode (take n (drop k s)))), (''eof'', JBool (length s \<le> k + n))])),
                        (fst w, (snd w)(h \<mapsto> (p, k + min n (length s - k)))))
           | None \<Rightarrow> (Inr (JObj []), w))
      | None \<Rightarrow> (Inr (JObj []), w))"
| "sample_qga (QClose h) w = (Inr (answer (JObj [])), w)"
| "sample_qga _ w = (Inr (JObj []), w)"

lemma sample_qga_command: "sample_qga c w = (Inr (answer j), w') \<Longrightarrow> agent_command sample_qga c w = (Inr j, w')"
  by (simp add: agent_command_def bindE_def liftR_def sub_get_def answer_def get_def)

lemma sample_qga_serves: "serves_files sample_qga fst snd"
  unfolding serves_files_def
proof (intro conjI allI impI)
  fix h p k n and w :: sample_guest and s :: string
  assume a: "snd w h = Some (p, k) \<and> fst w p = Some s \<and> 0 < (n :: nat)"
  let ?m = "min n (length s - k)"
  have t: "take ?m (drop k s) = take n (drop k s)" by (simp add: min_def)
  have "sample_qga (QRead h n) w = (Inr (answer (JObj [(''buf-b64'', JStr (b64encode (take ?m (drop k s)))), (''eof'', JBool (length s \<le> k + n))])),
      (fst w, (snd w)(h \<mapsto> (p, k + ?m))))" using a unfolding t by simp
  then have r: "agent_command sample_qga (QRead h n) w = (Inr (JObj [(''buf-b64'', JStr (b64encode (take ?m (drop k s)))), (''eof'', JBool (length s \<le> k + n))]),
      (fst w, (snd w)(h \<mapsto> (p, k + ?m))))" by (rule sample_qga_command)
  show "\<exists>m e w'. m \<le> n \<and> (k < length s \<longrightarrow> 0 < m) \<and> (length s \<le> k \<longrightarrow> e) \<and> (e \<longrightarrow> length s \<le> k + m) \<and>
       agent_command sample_qga (QRead h n) w = (Inr (JObj [(''buf-b64'', JStr (b64encode (take m (drop k s)))), (''eof'', JBool e)]), w') \<and>
       fst w' p = Some s \<and> snd w' h = Some (p, k + m)"
    by (rule exI [of _ ?m], rule exI [of _ "length s \<le> k + n"], rule exI, use a r in auto)
next
  fix h p b bs and w :: sample_guest and s :: string
  assume a: "snd w h = Some (p, length s) \<and> fst w p = Some s \<and> b64decode b = Inr bs"
  then have "sample_qga (QWrite h b) w = (Inr (answer (JObj [])), ((fst w)(p \<mapsto> s @ bs), (snd w)(h \<mapsto> (p, length s + length bs))))" by simp
  from sample_qga_command [OF this] show "\<exists>r w'. agent_command sample_qga (QWrite h b) w = (Inr r, w') \<and> fst w' p = Some (s @ bs) \<and>
      snd w' h = Some (p, length s + length bs)" by simp
next
  fix p and w :: sample_guest
  have "sample_qga (QOpen p ''w'') w = (Inr (answer (JStr p)), ((fst w)(p \<mapsto> []), (snd w)(JStr p \<mapsto> (p, 0))))" by simp
  from sample_qga_command [OF this] show "\<exists>h w'. agent_command sample_qga (QOpen p ''w'') w = (Inr h, w') \<and> fst w' p = Some [] \<and> snd w' h = Some (p, 0)"
    by simp
next
  fix p s and w :: sample_guest assume "fst w p = Some s"
  have "sample_qga (QOpen p ''r'') w = (Inr (answer (JStr p)), (fst w, (snd w)(JStr p \<mapsto> (p, 0))))" by simp
  from sample_qga_command [OF this] show "\<exists>h w'. agent_command sample_qga (QOpen p ''r'') w = (Inr h, w') \<and> fst w' p = Some s \<and> snd w' h = Some (p, 0)"
    using \<open>fst w p = Some s\<close> by simp
next
  fix h and w :: sample_guest
  have "sample_qga (QClose h) w = (Inr (answer (JObj [])), w)" by simp
  from sample_qga_command [OF this] show "\<exists>r w'. agent_command sample_qga (QClose h) w = (Inr r, w') \<and> fst w' = fst w" by simp
qed

theorem guest_file_roundtrip_witness:
  "\<exists>w1 w2. lv_write_file sample_qga ''vm'' ''/etc/motd'' ''hello'' (\<lambda>_. None, \<lambda>_. None) = (Inr (), w1) \<and>
     lv_read_file sample_qga ''vm'' ''/etc/motd'' w1 = Some (Inr ''hello'', w2)"
  using guest_file_roundtrip [OF sample_qga_serves, of "''vm''" "''/etc/motd''" "''hello''" "(\<lambda>_. None, \<lambda>_. None)" "''vm''"] by blast

text \<open>An agent that truncates what is too large for it: writing is the same as with the agent that does not.\<close>

theorem writes_stay_within_the_caps_witness:
  "lv_write_file sample_qga ''vm'' ''/f'' ''data'' = lv_write_file (\<lambda>c. if small_qga c then sample_qga c else throw (OSError [])) ''vm'' ''/f'' ''data'' \<and>
   pve_write_file (\<lambda>_. []) (\<lambda>_. ret (JObj [])) ''vm'' 1 1 ''/f'' ''data'' =
     pve_write_file (\<lambda>_. []) (\<lambda>c. if small_pve c then ret (JObj []) else (throw (OSError []) :: (unit, json) eff)) ''vm'' 1 1 ''/f'' ''data''"
  by (rule writes_stay_within_the_caps) simp_all

subsection \<open>What callers see\<close>

text \<open>C32: Whatever the agent and the transport do, running a command and reading or writing a file on libvirt and ESXi fails with a
  \<^verbatim>\<open>GuestAgentError\<close> only (interrupts apart), so the reconnect loop of the native communicator on top of them either
  succeeds or reports a \<^verbatim>\<open>CommunicatorError\<close>: no error of a library escapes.\<close>

theorem guest_errors_are_typed:
  "typed (lv_execute Q bn polls argv) \<and> typed (lv_write_file Q bn path data) \<and>
   typed (esxi_execute T a bn token polls argv cwd) \<and> typed (esxi_read_file T a bn path) \<and> typed (esxi_write_file T a bn path data) \<and>
   (\<forall>w e w'. lv_read_file Q bn path w = Some (Inl e, w') \<longrightarrow> agent_exn e) \<and>
   (\<forall>s e. fst (reconnect_if_needed (lv_execute Q bn polls argv) n s) = Inl e \<longrightarrow> is_CommunicatorError e \<or> \<not> is_Exception e) \<and>
   (\<forall>s e. fst (reconnect_if_needed (esxi_execute T a bn token polls argv cwd) n s) = Inl e \<longrightarrow> is_CommunicatorError e \<or> \<not> is_Exception e)"
  by (intro conjI allI impI lvg.execute_typed lvg.write_typed esxig.execute_typed esxig.write_typed typed_esxi_read_file)
    (erule lvg.read_typed lvg.reconnect_errors esxig.reconnect_errors)+

theorem guest_errors_are_typed_witness:
  "is_CommunicatorError (CommunicatorError []) \<and>
   fst (reconnect_if_needed (lv_execute (\<lambda>_. throw (OSError [])) ''vm'' 1 [''true'']) 2 (\<lparr>nc_target = Some ''vm'', nc_live = False\<rparr>, ())) = Inl (CommunicatorError [])"
proof -
  let ?m = "reconnect_if_needed (lv_execute (\<lambda>_. throw (OSError [])) ''vm'' 1 [''true'']) 2 (\<lparr>nc_target = Some ''vm'', nc_live = False\<rparr>, ())"
  have r: "fst ?m = Inl (CommunicatorError [])" by code_simp
  have "is_CommunicatorError (CommunicatorError []) \<or> \<not> is_Exception (CommunicatorError [])"
    using guest_errors_are_typed [where Q = "\<lambda>_. throw (OSError []) :: (unit, json) eff" and bn = "''vm''" and polls = 1 and argv = "[''true'']" and n = 2] r
    by blast
  with r show ?thesis by simp
qed

text \<open>On Proxmox the poll for the end of a command is outside the handler: an error of the API client during it escapes as
  itself, and the reconnect loop does not retry it.\<close>

theorem proxmox_poll_error_escapes:
  "fst (run_exec R (\<lambda>c. case c of PExec _ \<Rightarrow> ret (JObj [(''pid'', JInt 7)]) | _ \<Rightarrow> throw (OSError [''timed out''])) bn polls argv w) = Inl (OSError [''timed out''])"
  by (simp add: run_exec_def agent_error_def catchE_def handle_if_def bindE_def ret_def liftR_def sub_item_def item_def pve_poll.simps [of R _ bn argv "JInt 7" polls] throw_def)

text \<open>The program that VMware Tools starts is a shell whose command line is the argument vector: the shell reads
  the two words \<^verbatim>\<open>-c\<close> and the wrapper, and the command at the start of the wrapper is read back as the arguments.\<close>

theorem esxi_command_is_exact:
  "sh_words Blank [] (sh_arguments (exec_wrapper token argv)) = Some [''-c'', exec_wrapper token argv] \<and>
   (\<exists>redirect. exec_wrapper token argv = shlex_join argv @ redirect \<and> sh_words Blank [] (shlex_join argv) = Some argv)"
proof
  have q: "quote ''-c'' = ''-c''" by code_simp
  show "sh_words Blank [] (sh_arguments (exec_wrapper token argv)) = Some [''-c'', exec_wrapper token argv]"
    using sh_words_join [of "[]" "[''-c'', exec_wrapper token argv]"] by (simp add: sh_arguments_def q)
  show "\<exists>redirect. exec_wrapper token argv = shlex_join argv @ redirect \<and> sh_words Blank [] (shlex_join argv) = Some argv"
    unfolding exec_wrapper_def shlex_join_def using sh_words_join by blast
qed

end
