(* ===== verification/Serial_Sink.thy ===== *)
theory Serial_Sink
  imports Build_Result "HOL-Library.Sublist"
begin

text \<open>
  The build-result sinks: the generators through which the orchestrator reads a build VM's serial console on
  libvirt, Proxmox and ESXi (\<^verbatim>\<open>drivers/*/_serial.py\<close>, and \<^verbatim>\<open>folder_read_from\<close> of \<^verbatim>\<open>drivers/esxi/_client.py\<close>).
  A generator is a function from the answers the device has given so far, one per turn of its loop, to what it has
  yielded and how it stands: waiting for the next answer, ended, or raised. The answers are third-party behaviour and
  arbitrary. Releasing the stream or the socket afterwards is not modelled.
\<close>

datatype sink_end = Waiting | Ended | Raised exn

type_synonym sink_run = "string list \<times> sink_end"

definition yield :: "string \<Rightarrow> sink_run \<Rightarrow> sink_run" where
  "yield chunk r = (chunk # fst r, snd r)"

subsection \<open>libvirt\<close>

text \<open>An attempt to open the console succeeds or fails, before or after the deadline; a read gives bytes (none at the end of the
  stream), would block, or fails.\<close>

datatype open_try = Opened | NotOpen bool
datatype recv = Bytes string | WouldBlock | StreamError

fun lv_drain :: "recv list \<Rightarrow> sink_run" where
  "lv_drain [] = ([], Waiting)"
| "lv_drain (StreamError # rs) = ([], Ended)"
| "lv_drain (WouldBlock # rs) = yield [] (lv_drain rs)"
| "lv_drain (Bytes d # rs) = (if d = [] then ([], Ended) else yield d (lv_drain rs))"

fun lv_sink :: "string \<Rightarrow> open_try list \<Rightarrow> recv list \<Rightarrow> sink_run" where
  "lv_sink bn [] rs = ([], Waiting)"
| "lv_sink bn (Opened # ts) rs = lv_drain rs"
| "lv_sink bn (NotOpen expired # ts) rs = (if expired then ([], Raised (DriverError [bn])) else yield [] (lv_sink bn ts rs))"

subsection \<open>Proxmox\<close>

text \<open>A frame, a time-out with the fate of the keep-alive that follows it, the close, or any other error.\<close>

datatype frame = Frame string | Timeout "exn option" | Closed | Failed exn

fun pve_sink :: "string \<Rightarrow> frame list \<Rightarrow> sink_run" where
  "pve_sink bn [] = ([], Waiting)"
| "pve_sink bn (Timeout None # fs) = yield [] (pve_sink bn fs)"
| "pve_sink bn (Timeout (Some e) # fs) = ([], Raised (DriverError [bn]))"
| "pve_sink bn (Closed # fs) = ([], Ended)"
| "pve_sink bn (Failed e # fs) = ([], Raised e)"
| "pve_sink bn (Frame d # fs) = (if d = [] then yield [] (pve_sink bn fs) else yield d (pve_sink bn fs))"

subsection \<open>ESXi\<close>

definition folder_read_from :: "nat \<Rightarrow> (nat \<times> string) result \<Rightarrow> string result" where
  "folder_read_from offset resp =
     bindR resp (\<lambda>(status, content).
     if status = 206 then Inr content
     else if status = 200 then Inr (drop offset content)
     else if status \<in> set [404, 416, 429, 503] then Inr []
     else if 400 \<le> status \<and> status < 600 then Inl (OSError [string_of_nat status]) else Inr [])"

text \<open>One turn of the loop: what the file service answers for an offset, whether the VM is gone or off, and what the file service
  answers to the final read.\<close>

record esxi_round =
  er_read :: "nat \<Rightarrow> (nat \<times> string) result"
  er_off :: "bool result"
  er_final :: "nat \<Rightarrow> (nat \<times> string) result"

fun esxi_sink :: "nat \<Rightarrow> esxi_round list \<Rightarrow> sink_run" where
  "esxi_sink offset [] = ([], Waiting)"
| "esxi_sink offset (e # es) =
     (case folder_read_from offset (er_read e offset) of
        Inl x \<Rightarrow> ([], Raised x)
      | Inr chunk \<Rightarrow>
          if chunk \<noteq> [] then yield chunk (esxi_sink (offset + length chunk) es)
          else (case er_off e of
              Inl x \<Rightarrow> ([], Raised x)
            | Inr False \<Rightarrow> yield [] (esxi_sink offset es)
            | Inr True \<Rightarrow>
                (case folder_read_from offset (er_final e offset) of
                   Inl x \<Rightarrow> ([], Raised x)
                 | Inr rest \<Rightarrow> (if rest \<noteq> [] then [rest] else [], Ended))))"

subsection \<open>The contract of a sink\<close>

text \<open>The orchestrator checks its deadline whenever a sink yields. A sink therefore has to yield at every answer of the
  device that does not end it, and what it yields may depend on the answers so far only.\<close>

locale console_sink =
  fixes sink :: "'e list \<Rightarrow> sink_run"
  assumes ticks: "snd (sink es) = Waiting \<Longrightarrow> length (fst (sink es)) = length es"
    and causal: "\<exists>zs. fst (sink (es @ fs)) = fst (sink es) @ zs"
begin

lemma bounded_by_answers:
  assumes "snd (sink es) = Waiting" "length es \<le> length gs" "take (length es) gs = es"
  shows "take (length es) (fst (sink gs)) = fst (sink es)"
proof -
  obtain zs where "fst (sink (es @ drop (length es) gs)) = fst (sink es) @ zs" using causal by blast
  moreover have "es @ drop (length es) gs = gs" using assms(3) by (metis append_take_drop_id)
  ultimately show ?thesis using ticks [OF assms(1)] by simp
qed

end

lemma yield_simps [simp]: "fst (yield c r) = c # fst r" "snd (yield c r) = snd r"
  by (simp_all add: yield_def)

lemma lv_drain_causal: "\<exists>zs. fst (lv_drain (es @ fs)) = fst (lv_drain es) @ zs"
  by (induction es rule: lv_drain.induct) auto

lemma lv_drain_ticks: "snd (lv_drain es) = Waiting \<Longrightarrow> length (fst (lv_drain es)) = length es"
  by (induction es rule: lv_drain.induct) (auto split: if_splits)

lemma pve_sink_causal: "\<exists>zs. fst (pve_sink bn (es @ fs)) = fst (pve_sink bn es) @ zs"
  by (induction bn es rule: pve_sink.induct) auto

lemma pve_sink_ticks: "snd (pve_sink bn es) = Waiting \<Longrightarrow> length (fst (pve_sink bn es)) = length es"
  by (induction bn es rule: pve_sink.induct) (auto split: if_splits)

lemma esxi_sink_causal: "\<exists>zs. fst (esxi_sink o' (es @ fs)) = fst (esxi_sink o' es) @ zs"
proof (induction es arbitrary: o')
  case (Cons e es) then show ?case by (auto split: sum.splits bool.splits)
qed simp

lemma esxi_sink_ticks: "snd (esxi_sink o' es) = Waiting \<Longrightarrow> length (fst (esxi_sink o' es)) = length es"
  by (induction es arbitrary: o') (auto split: sum.splits bool.splits if_splits)

interpretation lvs: console_sink lv_drain
  by unfold_locales (simp_all add: lv_drain_ticks lv_drain_causal)

interpretation pves: console_sink "pve_sink bn" for bn
  by unfold_locales (simp_all add: pve_sink_ticks pve_sink_causal)

interpretation esxis: console_sink "esxi_sink o'" for o'
  by unfold_locales (simp_all add: esxi_sink_ticks esxi_sink_causal)

subsection \<open>The deadline\<close>

lemma wait_loop_expired: "wait_loop vm b st (xs @ (c, True) # zs) = wait_loop vm b st (xs @ [(c, True)])"
  by (induction xs arbitrary: b st) (auto simp: Let_def split: option.splits)

lemma zip_split_at:
  assumes "length ys = Suc k" "length ys \<le> length flags"
  shows "zip ys flags = zip (take k ys) (take k flags) @ [(ys ! k, flags ! k)]"
proof -
  have "ys = take k ys @ [ys ! k]" using assms(1) by (metis append_Nil2 drop_all lessI order_refl take_Suc_conv_app_nth take_all)
  moreover have "flags = take k flags @ flags ! k # drop (Suc k) flags" using assms by (simp add: id_take_nth_drop)
  ultimately have "zip ys flags = zip (take k ys @ [ys ! k]) (take k flags @ flags ! k # drop (Suc k) flags)" by metis
  then show ?thesis using assms by simp
qed

lemma zip_take_left: "zip xs (take (length xs) ys) = zip xs ys"
proof (induction xs arbitrary: ys)
  case (Cons x xs) then show ?case by (cases ys) simp_all
qed simp

context console_sink
begin

lemma deadline:
  assumes "snd (sink es) = Waiting" "length es = Suc k" "length flags = length (fst (sink (es @ fs)))" "flags ! k"
  shows "wait_for_build_result vm (zip (fst (sink (es @ fs))) flags) = wait_for_build_result vm (zip (fst (sink es)) flags)"
proof -
  obtain zs where z: "fst (sink (es @ fs)) = fst (sink es) @ zs" using causal by blast
  have n: "length (fst (sink es)) = Suc k" using ticks [OF assms(1)] assms(2) by simp
  have e: "zip (fst (sink es)) flags = zip (take k (fst (sink es))) (take k flags) @ [(fst (sink es) ! k, True)]"
    using zip_split_at [of "fst (sink es)" k flags] n assms(3,4) z by simp
  have "zip (fst (sink es) @ zs) flags = zip (fst (sink es)) flags @ zip zs (drop (Suc k) flags)"
    unfolding zip_append1 n using zip_take_left [of "fst (sink es)" flags, unfolded n] by argo
  then show ?thesis
    unfolding wait_for_build_result_def z by (simp only: e append_assoc append_Cons append_Nil) (rule wait_loop_expired)
qed

end



subsection \<open>The serial log of ESXi\<close>

text \<open>What the file service may answer about a log with content \<open>f\<close>: the rest from the offset, or all of it; every other status says
  nothing. \<open>grows\<close> runs through the turns of the loop with the content at the read and at the final read of each.\<close>

definition shows_log :: "(nat \<Rightarrow> (nat \<times> string) result) \<Rightarrow> string \<Rightarrow> bool" where
  "shows_log r f \<longleftrightarrow> (\<forall>off st body. r off = Inr (st, body) \<longrightarrow> (st = 206 \<longrightarrow> body = drop off f) \<and> (st = 200 \<longrightarrow> body = f))"

fun grows :: "string \<Rightarrow> (esxi_round \<times> string \<times> string) list \<Rightarrow> bool" where
  "grows f [] = True"
| "grows f ((e, f1, f2) # tr) = (prefix f f1 \<and> prefix f1 f2 \<and> shows_log (er_read e) f1 \<and> shows_log (er_final e) f2 \<and> grows f2 tr)"

fun final_log :: "string \<Rightarrow> (esxi_round \<times> string \<times> string) list \<Rightarrow> string" where
  "final_log f [] = f"
| "final_log f ((e, f1, f2) # tr) = final_log f2 tr"

lemma grows_final: "grows f tr \<Longrightarrow> prefix f (final_log f tr)"
  by (induction f tr rule: final_log.induct) (auto intro: prefix_order.trans)

lemma read_shows: "shows_log r f \<Longrightarrow> folder_read_from off (r off) = Inr chunk \<Longrightarrow> chunk \<noteq> [] \<Longrightarrow> chunk = drop off f"
  by (auto simp: folder_read_from_def bindR_def shows_log_def split: sum.splits if_splits)

lemma prefix_take_drop: "prefix f g \<Longrightarrow> n \<le> length f \<Longrightarrow> take n f @ drop n g = g"
  by (auto simp: prefix_def)

lemma esxi_sink_prefix:
  "grows f tr \<Longrightarrow> off \<le> length f \<Longrightarrow> prefix (take off f @ concat (fst (esxi_sink off (map fst tr)))) (final_log f tr)"
proof (induction tr arbitrary: f off)
  case Nil then show ?case by (simp add: take_is_prefix)
next
  case (Cons x tr)
  obtain e f1 f2 where x: "x = (e, f1, f2)" by (cases x)
  have g: "prefix f f1" "prefix f1 f2" "shows_log (er_read e) f1" "shows_log (er_final e) f2" "grows f2 tr" using Cons.prems(1) x by simp_all
  have len: "off \<le> length f1" "off \<le> length f2" using prefix_length_le [OF g(1)] prefix_length_le [OF g(2)] Cons.prems(2) by linarith+
  have same: "take off f = take off f2" "take off f = take off f1" using g(1,2) Cons.prems(2) by (auto simp: prefix_def)
  have last: "prefix f2 (final_log f2 tr)" using grows_final [OF g(5)] .
  have stop: "prefix (take off f) (final_log f2 tr)" using last same(1) by (metis prefix_order.trans take_is_prefix)
  show ?case
  proof (cases "folder_read_from off (er_read e off)")
    case (Inl d) then show ?thesis using x stop by simp
  next
    case (Inr chunk)
    show ?thesis
    proof (cases "chunk = []")
      case False
      have c: "chunk = drop off f1" using read_shows [OF g(3) Inr False] .
      have all: "take off f @ chunk = f1" using prefix_take_drop [OF g(1) Cons.prems(2)] c by simp
      have l1: "off + length chunk = length f1" using c len(1) by simp
      have t: "take (length f1) f2 = f1" using g(2) by (auto simp: prefix_def)
      have "prefix (take (length f1) f2 @ concat (fst (esxi_sink (length f1) (map fst tr)))) (final_log f2 tr)"
        using Cons.IH [OF g(5), of "length f1"] g(2) prefix_length_le by blast
      then have "prefix (f1 @ concat (fst (esxi_sink (off + length chunk) (map fst tr)))) (final_log f2 tr)" unfolding t l1 .
      then have "prefix ((take off f @ chunk) @ concat (fst (esxi_sink (off + length chunk) (map fst tr)))) (final_log f2 tr)" unfolding all .
      then show ?thesis using Inr False x by simp
    next
      case True
      show ?thesis
      proof (cases "er_off e")
        case (Inl d) then show ?thesis using Inr True x stop by simp
      next
        case off: (Inr b)
        show ?thesis
        proof (cases b)
          case False
          have "prefix (take off f2 @ concat (fst (esxi_sink off (map fst tr)))) (final_log f2 tr)" using Cons.IH [OF g(5) len(2)] .
          then show ?thesis using off False Inr True x unfolding same(1) by simp
        next
          case bt: True
          show ?thesis
          proof (cases "folder_read_from off (er_final e off)")
            case (Inl d) then show ?thesis using off bt Inr True x stop by simp
          next
            case fin: (Inr rest)
            show ?thesis
            proof (cases "rest = []")
              case True then show ?thesis using off bt Inr \<open>chunk = []\<close> fin x stop by simp
            next
              case False
              then have "take off f @ rest = f2" using read_shows [OF g(4) fin] same(1) by simp
              then show ?thesis using off bt Inr \<open>chunk = []\<close> fin False x last by simp
            qed
          qed
        qed
      qed
    qed
  qed
qed

text \<open>C34: A build judged successful on ESXi has its result record in the VM's serial log: for a log that only grows and a file service that
  answers with its bytes or with nothing, the wait accepts only if the log itself contains a line after the marker whose
  first word is \<^verbatim>\<open>ok\<close>; no byte is invented, repeated or reordered by the incremental reads.\<close>

theorem esxi_verdict_is_in_the_log:
  assumes "grows [] tr" and "esxi_sink 0 (map fst tr) = (ys, x)" and "length flags = length ys"
    and "wait_for_build_result vm (zip ys flags) = Inr ()"
  shows "prefix (concat ys) (final_log [] tr) \<and>
    (\<exists>before line after. final_log [] tr = before @ RESULT_MARKER @ line @ after \<and> CHR 0x0A \<notin> set line \<and> first_word (strip line) = ''ok'')"
proof
  show p: "prefix (concat ys) (final_log [] tr)" using esxi_sink_prefix [OF assms(1), of 0] assms(2) by simp
  then obtain more where m: "final_log [] tr = concat ys @ more" by (auto simp: prefix_def)
  have "map fst (zip ys flags) = ys" using assms(3) by simp
  then obtain before line after where "concat ys = before @ RESULT_MARKER @ line @ after" "CHR 0x0A \<notin> set line" "first_word (strip line) = ''ok''"
    using wait_loop_ok [OF assms(4) [unfolded wait_for_build_result_def]] by auto
  then show "\<exists>before line after. final_log [] tr = before @ RESULT_MARKER @ line @ after \<and> CHR 0x0A \<notin> set line \<and> first_word (strip line) = ''ok''"
    using m by (intro exI [of _ before] exI [of _ line] exI [of _ "after @ more"]) simp
qed

definition file_at_once :: "string \<Rightarrow> nat \<Rightarrow> (nat \<times> string) result" where
  "file_at_once f off = (if off < length f then Inr (206, drop off f) else Inr (416, []))"

lemma file_at_once_shows: "shows_log (file_at_once f) f"
  by (auto simp: shows_log_def file_at_once_def split: if_splits)

definition OK_LOG :: string where
  "OK_LOG = ''TESTRANGE-RESULT: ok'' @ newline"

theorem esxi_verdict_is_in_the_log_witness:
  "\<exists>before line after. OK_LOG = before @ RESULT_MARKER @ line @ after \<and> CHR 0x0A \<notin> set line \<and> first_word (strip line) = ''ok''"
proof -
  let ?e = "\<lparr>er_read = file_at_once [], er_off = Inr False, er_final = file_at_once []\<rparr>"
  let ?d = "\<lparr>er_read = file_at_once OK_LOG, er_off = Inr True, er_final = file_at_once OK_LOG\<rparr>"
  have g: "grows [] [(?e, [], []), (?d, OK_LOG, OK_LOG)]" by (simp add: file_at_once_shows)
  have s: "esxi_sink 0 (map fst [(?e, [] :: string, [] :: string), (?d, OK_LOG, OK_LOG)]) = ([[], OK_LOG], Waiting)" by code_simp
  have w: "wait_for_build_result ''web'' (zip [[], OK_LOG] [False, False]) = Inr ()" by code_simp
  have l: "length [False, False] = length [[], OK_LOG]" by simp
  note r = esxi_verdict_is_in_the_log [OF g s l w]
  have f: "final_log [] [(?e, [], []), (?d, OK_LOG, OK_LOG)] = OK_LOG" by simp
  show ?thesis using r unfolding f by blast
qed

text \<open>When the file service answers, nothing is left behind: a sink that has ended has delivered the log as it was at its final read.\<close>

definition answers :: "(nat \<Rightarrow> (nat \<times> string) result) \<Rightarrow> string \<Rightarrow> bool" where
  "answers r f \<longleftrightarrow> shows_log r f \<and> (\<forall>off < length f. \<exists>st body. r off = Inr (st, body) \<and> (st = 200 \<or> st = 206))"

lemma read_answers: "answers r f \<Longrightarrow> off \<le> length f \<Longrightarrow> folder_read_from off (r off) = Inr chunk \<Longrightarrow> take off f @ chunk = f"
proof (cases "off < length f")
  case True
  assume a: "answers r f" "folder_read_from off (r off) = Inr chunk"
  then obtain st body where r: "r off = Inr (st, body)" "st = 200 \<or> st = 206" using True unfolding answers_def by blast
  have "(st = 206 \<longrightarrow> body = drop off f) \<and> (st = 200 \<longrightarrow> body = f)" using a(1) r(1) unfolding answers_def shows_log_def by blast
  then have "chunk = drop off f" using a(2) r by (auto simp: folder_read_from_def bindR_def)
  then show ?thesis by simp
next
  case False
  assume a: "answers r f" "off \<le> length f" "folder_read_from off (r off) = Inr chunk"
  then have "chunk = []" using False read_shows [of r f off chunk] unfolding answers_def by fastforce
  then show ?thesis using False a(2) by simp
qed

theorem ended_sink_is_complete:
  assumes "grows f tr" "off \<le> length f" "\<forall>(e, f1, f2) \<in> set tr. answers (er_read e) f1 \<and> answers (er_final e) f2"
    and "snd (esxi_sink off (map fst tr)) = Ended"
  shows "\<exists>(e, f1, f2) \<in> set tr. er_off e = Inr True \<and> take off f @ concat (fst (esxi_sink off (map fst tr))) = f2"
  using assms
proof (induction tr arbitrary: f off)
  case (Cons x tr)
  obtain e f1 f2 where x: "x = (e, f1, f2)" by (cases x)
  have g: "prefix f f1" "prefix f1 f2" "grows f2 tr" using Cons.prems(1) x by simp_all
  have a: "answers (er_read e) f1" "answers (er_final e) f2" "\<forall>(e, f1, f2) \<in> set tr. answers (er_read e) f1 \<and> answers (er_final e) f2"
    using Cons.prems(3) x by auto
  have len: "off \<le> length f1" "off \<le> length f2" using prefix_length_le [OF g(1)] prefix_length_le [OF g(2)] Cons.prems(2) by linarith+
  have same: "take off f = take off f2" "take off f = take off f1" using g(1,2) Cons.prems(2) by (auto simp: prefix_def)
  obtain chunk where c: "folder_read_from off (er_read e off) = Inr chunk"
    using Cons.prems(4) x by (cases "folder_read_from off (er_read e off)") simp_all
  have all: "take off f @ chunk = f1" using read_answers [OF a(1) len(1) c] same(2) by simp
  show ?case
  proof (cases "chunk = []")
    case False
    have l: "off + length chunk = length f1" using arg_cong [OF all, of length] Cons.prems(2) by simp
    have t: "take (length f1) f2 = f1" using g(2) by (auto simp: prefix_def)
    have "snd (esxi_sink (length f1) (map fst tr)) = Ended" using Cons.prems(4) x c False l by simp
    from Cons.IH [OF g(3) _ a(3) this] prefix_length_le [OF g(2)] t
    have "\<exists>(e, h1, h2) \<in> set tr. er_off e = Inr True \<and> f1 @ concat (fst (esxi_sink (length f1) (map fst tr))) = h2" by simp
    then have "\<exists>(e, h1, h2) \<in> set tr. er_off e = Inr True \<and> (take off f @ chunk) @ concat (fst (esxi_sink (off + length chunk) (map fst tr))) = h2"
      unfolding all l .
    then show ?thesis using x c False by fastforce
  next
    case True
    obtain b where b: "er_off e = Inr b" using Cons.prems(4) x c True by (cases "er_off e") simp_all
    show ?thesis
    proof (cases b)
      case False
      have "snd (esxi_sink off (map fst tr)) = Ended" using Cons.prems(4) x c True b False by simp
      from Cons.IH [OF g(3) len(2) a(3) this] show ?thesis using x c True b False same(1) by fastforce
    next
      case bt: True
      obtain rest where r: "folder_read_from off (er_final e off) = Inr rest"
        using Cons.prems(4) x c True b bt by (cases "folder_read_from off (er_final e off)") simp_all
      have "take off f @ rest = f2" using read_answers [OF a(2) len(2) r] same(1) by simp
      then show ?thesis using x c True b bt r by auto
    qed
  qed
qed simp

text \<open>A file service that is busy at the end of a build makes the sink lose the record: a \<^verbatim>\<open>503\<close> is one missed poll while the
  VM runs, but the final read after power-off is not repeated. The log holds the record and the build is judged a failure.\<close>

theorem busy_service_loses_the_record:
  "let busy = (\<lambda>_. Inr (503, [])); tr = [(\<lparr>er_read = busy, er_off = Inr True, er_final = busy\<rparr>, OK_LOG, OK_LOG)] in
   grows [] tr \<and> final_log [] tr = OK_LOG \<and> esxi_sink 0 (map fst tr) = ([], Ended) \<and>
   wait_for_build_result ''web'' (zip [] []) = Inl (BuildFailedError [''web'', []])"
proof -
  have "wait_for_build_result ''web'' [] = Inl (BuildFailedError [''web'', []])" by code_simp
  moreover have "shows_log (\<lambda>_. Inr (503, [])) OK_LOG" by (simp add: shows_log_def)
  ultimately show ?thesis by (simp add: folder_read_from_def bindR_def)
qed

end
