(* ===== verification/Cloud_Init.thy ===== *)
theory Cloud_Init
  imports VM_Build
begin

text \<open>
  The cloud-init builder (\<^verbatim>\<open>builders/cloudinit.py\<close>, \<^verbatim>\<open>packages/\<close>, \<^verbatim>\<open>NativeAgentProvision\<close> of \<^verbatim>\<open>builders/base.py\<close>): the
  three documents of the seed, the provisioning script, the network configuration, the key of the built disks, and the
  readiness check. A document is a value of \<open>yaml\<close>; the YAML printer, the digest and the ISO writer are third-party code and
  the parameters \<open>dump\<close>, \<open>sha\<close> and \<open>mkiso\<close>. The texts of the script are those of the source.
\<close>

subsection \<open>The builder\<close>

datatype package = Apt string | Pip string bool | OtherPackage string

fun pkg_name :: "package \<Rightarrow> string" where
  "pkg_name (Apt n) = n" | "pkg_name (Pip n _) = n" | "pkg_name (OtherPackage n) = n"

definition mk_Apt :: "string \<Rightarrow> package result" where
  "mk_Apt n = bindR (Package ''Apt'' n) (\<lambda>m. Inr (Apt m))"

definition mk_Pip :: "string \<Rightarrow> bool \<Rightarrow> package result" where
  "mk_Pip n insecure = bindR (Package ''Pip'' n) (\<lambda>m. Inr (Pip m insecure))"

record agent_provision =
  ap_packages :: "package list"
  ap_enable :: "string list"

record cloudinit =
  ci_base :: string
  ci_credentials :: "credential list"
  ci_packages :: "package list"
  ci_commands :: "string list"
  ci_insecure :: bool

fun cred_name :: "credential \<Rightarrow> string" where
  "cred_name (Posix c) = username c" | "cred_name (Other n _) = n"

fun is_OtherPackage :: "package \<Rightarrow> bool" where
  "is_OtherPackage (OtherPackage _) = True" | "is_OtherPackage _ = False"

definition CloudInitBuilder :: "string \<Rightarrow> credential list \<Rightarrow> package list \<Rightarrow> string list \<Rightarrow> bool \<Rightarrow> cloudinit result" where
  "CloudInitBuilder base creds pkgs cmds insecure =
     bindR (guardR (\<not> list_ex is_OtherPackage pkgs) (ValueError [])) (\<lambda>_.
     bindR (guardR ([] \<notin> set cmds) (ValueError [])) (\<lambda>_.
     bindR (guardR (distinct (map cred_name creds))
        (ValueError (sorted_set (filter (\<lambda>u. 1 < count_list (map cred_name creds) u) (map cred_name creds))))) (\<lambda>_.
     Inr \<lparr>ci_base = base, ci_credentials = creds, ci_packages = pkgs, ci_commands = cmds, ci_insecure = insecure\<rparr>)))"

subsection \<open>The provisioning script\<close>

definition SERIAL_DEVICE :: string where "SERIAL_DEVICE = ''/dev/ttyS0''"
definition FAIL_LOG_TAIL_BYTES :: int where "FAIL_LOG_TAIL_BYTES = 16384"

definition BS :: char where "BS = CHR 0x5C"

definition unlines :: "string list \<Rightarrow> string" where
  "unlines ls = join newline ls"

definition PROVISION_PREAMBLE :: string where
  "PROVISION_PREAMBLE = unlines
     [''__tr_serial='' @ SERIAL_DEVICE,
      ''__tr_emit_fail() {'',
      ''    __tr_rc=$?'',
      ''    __tr_cmd=$BASH_COMMAND'',
      ''    {'',
      ''        printf '' @ [SQ] @ ''TESTRANGE-RESULT: fail rc=%s cmd='' @ [DQ] @ ''%s'' @ [DQ, BS] @ ''n'' @ [SQ] @ '' '' @ [DQ] @ ''$__tr_rc'' @ [DQ] @ '' '' @ [DQ] @ ''$__tr_cmd'' @ [DQ],
      ''        printf '' @ [SQ] @ ''TESTRANGE-LOG-BEGIN'' @ [BS] @ ''n'' @ [SQ],
      ''        tail -c '' @ string_of_int FAIL_LOG_TAIL_BYTES @ '' /var/log/cloud-init-output.log 2>/dev/null | base64'',
      ''        printf '' @ [SQ] @ ''TESTRANGE-LOG-END'' @ [BS] @ ''n'' @ [SQ],
      ''    } > '' @ [DQ] @ ''$__tr_serial'' @ [DQ] @ '' 2>/dev/null'',
      ''    poweroff -f'',
      ''}'',
      ''trap __tr_emit_fail ERR'',
      ''set -eE'']"

definition PROVISION_FOOTER :: string where
  "PROVISION_FOOTER = unlines
     [''sync'',
      ''printf '' @ [SQ] @ ''TESTRANGE-RESULT: ok'' @ [BS] @ ''n'' @ [SQ] @ '' > '' @ [DQ] @ SERIAL_DEVICE @ [DQ] @ '' 2>/dev/null'',
      ''poweroff'']"

fun pip_secure :: "package \<Rightarrow> string list" where
  "pip_secure (Pip n False) = [n]" | "pip_secure _ = []"

fun pip_insecure :: "package \<Rightarrow> string list" where
  "pip_insecure (Pip n True) = [n]" | "pip_insecure _ = []"

fun apt_name :: "package \<Rightarrow> string list" where
  "apt_name (Apt n) = [n]" | "apt_name _ = []"

definition PIP_CMD :: string where "PIP_CMD = ''pip3 install --break-system-packages''"

definition render_pip_install_lines :: "package list \<Rightarrow> string list" where
  "render_pip_install_lines pips =
     (let secure = concat (map pip_secure pips); insecure = concat (map pip_insecure pips) in
      (if secure \<noteq> [] then [PIP_CMD @ '' '' @ join '' '' secure] else []) @
      (if insecure \<noteq> [] then [PIP_CMD @ '' --trusted-host pypi.org --trusted-host files.pythonhosted.org '' @ join '' '' insecure] else []))"

definition apt_lines :: "string list \<Rightarrow> string list" where
  "apt_lines apt_pkgs =
     (if apt_pkgs = [] then [] else [''export DEBIAN_FRONTEND=noninteractive'', ''apt-get update'', ''apt-get install -y '' @ join '' '' apt_pkgs])"

definition provision_lines :: "string list \<Rightarrow> package list \<Rightarrow> string list \<Rightarrow> string list" where
  "provision_lines apt_pkgs pips cmds = apt_lines apt_pkgs @ render_pip_install_lines pips @ cmds"

definition render_provision_script :: "string list \<Rightarrow> package list \<Rightarrow> string list \<Rightarrow> string" where
  "render_provision_script apt_pkgs pips cmds =
     unlines ([PROVISION_PREAMBLE] @ provision_lines apt_pkgs pips cmds @ [PROVISION_FOOTER]) @ newline"

subsection \<open>The documents\<close>

datatype yaml = YStr string | YInt int | YBool bool | YList "yaml list" | YMap "(string \<times> yaml) list"

definition write_file_entry :: "string \<Rightarrow> string \<Rightarrow> yaml" where
  "write_file_entry path content = YMap [(''path'', YStr path), (''content'', YStr content), (''owner'', YStr ''root:root''), (''permissions'', YStr ''0644'')]"

definition INSECURE_APT_CONFIG :: string where
  "INSECURE_APT_CONFIG = ''Acquire::https::Verify-Peer '' @ [DQ] @ ''false'' @ [DQ] @ '';'' @ newline @
     ''Acquire::https::Verify-Host '' @ [DQ] @ ''false'' @ [DQ] @ '';'' @ newline"

definition render_insecure_write_files :: "bool \<Rightarrow> yaml list" where
  "render_insecure_write_files insecure = (if insecure then [write_file_entry ''/etc/apt/apt.conf.d/99-testrange-insecure'' INSECURE_APT_CONFIG] else [])"

definition DISABLE_NETWORK_WRITE_FILE :: yaml where
  "DISABLE_NETWORK_WRITE_FILE = write_file_entry ''/etc/cloud/cloud.cfg.d/99-testrange-disable-network.cfg'' (''network: {config: disabled}'' @ newline)"

definition user_entry :: "posix_cred \<Rightarrow> yaml" where
  "user_entry c =
     YMap ([(''name'', YStr (username c)), (''lock_passwd'', YBool False)] @
       (if username c \<noteq> ''root'' then [(''shell'', YStr ''/bin/bash'')] else []) @
       (case pc_ssh_key c of None \<Rightarrow> [] | Some k \<Rightarrow> [(''ssh_authorized_keys'', YList [YStr (auth_line k)])]) @
       (if admin c then [(''sudo'', YStr ''ALL=(ALL) NOPASSWD:ALL''), (''groups'', YList (map YStr (if groups c = [] then [''sudo''] else groups c)))]
        else if groups c \<noteq> [] then [(''groups'', YList (map YStr (groups c)))] else []))"

definition chpasswd_entry :: "posix_cred \<Rightarrow> yaml list" where
  "chpasswd_entry c = (case password c of
     Some (x # pw) \<Rightarrow> [YMap [(''name'', YStr (username c)), (''type'', YStr ''text''), (''password'', YStr (x # pw))]]
   | _ \<Rightarrow> [])"

definition posix_creds :: "credential list \<Rightarrow> posix_cred list" where
  "posix_creds cs = concat (map (\<lambda>c. case c of Posix p \<Rightarrow> [p] | Other _ _ \<Rightarrow> []) cs)"

definition user_data_body :: "cloudinit \<Rightarrow> agent_provision option \<Rightarrow> yaml" where
  "user_data_body B agent =
     (let creds = posix_creds (ci_credentials B);
          users = map user_entry creds;
          chpasswd = concat (map chpasswd_entry creds);
          agent_apt = (case agent of None \<Rightarrow> [] | Some a \<Rightarrow> map pkg_name (ap_packages a));
          agent_cmds = (case agent of None \<Rightarrow> [] | Some a \<Rightarrow> ap_enable a);
          script = render_provision_script (agent_apt @ concat (map apt_name (ci_packages B))) (ci_packages B) (agent_cmds @ ci_commands B)
      in YMap ([(''ssh_pwauth'', YBool True),
                (''users'', YList (if users = [] then [YMap [(''name'', YStr ''root''), (''lock_passwd'', YBool False)]] else users)),
                (''write_files'', YList (render_insecure_write_files (ci_insecure B) @ [DISABLE_NETWORK_WRITE_FILE]))] @
               (if chpasswd \<noteq> [] then [(''chpasswd'', YMap [(''users'', YList chpasswd), (''expire'', YBool False)])] else []) @
               [(''runcmd'', YList [YList [YStr ''bash'', YStr ''-c'', YStr script]])]))"

definition render_user_data :: "(yaml \<Rightarrow> string) \<Rightarrow> cloudinit \<Rightarrow> agent_provision option \<Rightarrow> string" where
  "render_user_data dump B agent = ''#cloud-config'' @ newline @ dump (user_data_body B agent)"

definition render_meta_data :: "(yaml \<Rightarrow> string) \<Rightarrow> vm_spec \<Rightarrow> string" where
  "render_meta_data dump s = dump (YMap [(''instance-id'', YStr (''iid-'' @ vs_name s)), (''local-hostname'', YStr (vs_name s))])"

subsection \<open>The network configuration\<close>

definition nic_dns :: "static_addr \<Rightarrow> network_addressing option \<Rightarrow> string list" where
  "nic_dns a sub = (if dns a \<noteq> [] then dns a else case sub of Some n \<Rightarrow> (case na_dns_server n of Some d \<Rightarrow> [d] | None \<Rightarrow> []) | None \<Rightarrow> [])"

definition nic_gateway :: "static_addr \<Rightarrow> network_addressing option \<Rightarrow> string option" where
  "nic_gateway a sub = (case gw a of Some g \<Rightarrow> Some g | None \<Rightarrow> (case sub of Some n \<Rightarrow> na_gateway n | None \<Rightarrow> None))"

definition nic_netplan_entry :: "addr_mode option \<Rightarrow> string \<Rightarrow> network_addressing option \<Rightarrow> bool \<Rightarrow> yaml result" where
  "nic_netplan_entry a mac sub emit_default_route =
     (let head = (''match'', YMap [(''macaddress'', YStr (lower mac))]) in
      case a of
        None \<Rightarrow> Inr (YMap [head, (''dhcp4'', YBool False), (''dhcp6'', YBool False), (''optional'', YBool True)])
      | Some DHCPAddr \<Rightarrow> Inr (YMap [head, (''dhcp4'', YBool True), (''dhcp6'', YBool False)])
      | Some (StaticAddr sa) \<Rightarrow>
          bindR (static_cidr sa (map_option na_prefix_len sub)) (\<lambda>c.
          Inr (YMap ([head, (''addresses'', YList [YStr c])] @
            (if nic_dns sa sub \<noteq> [] then [(''nameservers'', YMap [(''addresses'', YList (map YStr (nic_dns sa sub)))])] else []) @
            (case nic_gateway sa sub of
               Some g \<Rightarrow> if emit_default_route then [(''routes'', YList [YMap [(''to'', YStr ''default''), (''via'', YStr g)]])] else []
             | None \<Rightarrow> [])))))"

fun is_static :: "device \<Rightarrow> bool" where
  "is_static d = (case nic_addr d of Some (StaticAddr _) \<Rightarrow> True | _ \<Rightarrow> False)"

fun declared_entries :: "(name, network_addressing) dict \<Rightarrow> nat \<Rightarrow> bool \<Rightarrow> (device \<times> string) list \<Rightarrow> (string \<times> yaml) list result" where
  "declared_entries adr idx first_static_seen [] = Inr []"
| "declared_entries adr idx first_static_seen ((nic, mac) # ns) =
     bindR (nic_netplan_entry (nic_addr nic) mac (map_of adr (handle_str (nic_network nic))) (is_static nic \<and> \<not> first_static_seen)) (\<lambda>y.
     bindR (declared_entries adr (Suc idx) (first_static_seen \<or> is_static nic) ns) (\<lambda>ys.
     Inr ((''id'' @ string_of_nat idx, y) # ys)))"

definition network_body :: "vm_spec \<Rightarrow> (name, network_addressing) dict \<Rightarrow> build_nic \<Rightarrow> string list \<Rightarrow> yaml result" where
  "network_body s adr bn macs =
     bindR (guardR (length macs = length (nics s)) (ValueError [string_of_nat (length macs), string_of_nat (length (nics s))])) (\<lambda>_.
     bindR (nic_netplan_entry (Some (StaticAddr (bn_addr bn))) (bn_mac bn) (Some (bn_addressing bn)) True) (\<lambda>b.
     bindR (declared_entries adr 0 False (zip (nics s) macs)) (\<lambda>ds.
     Inr (YMap [(''version'', YInt 2), (''ethernets'', YMap ((''build0'', b) # ds))]))))"

definition render_network_config :: "(yaml \<Rightarrow> string) \<Rightarrow> vm_spec \<Rightarrow> (name, network_addressing) dict \<Rightarrow> build_nic \<Rightarrow> string list \<Rightarrow> string result" where
  "render_network_config dump s adr bn macs = bindR (network_body s adr bn macs) (\<lambda>y. Inr (dump y))"

subsection \<open>The key, the seed and readiness\<close>

definition disk_tokens :: "vm_spec \<Rightarrow> string list" where
  "disk_tokens s = (''os:'' @ string_of_int (disk_size_gb (os_drive s))) #
     map (\<lambda>(i, d). ''data'' @ string_of_nat i @ '':'' @ string_of_int (disk_size_gb d)) (enumerate 0 (data_drives s))"

definition disks_text :: "vm_spec \<Rightarrow> string" where
  "disks_text s = join ''|'' (disk_tokens s)"

definition combined :: "string \<Rightarrow> string \<Rightarrow> string \<Rightarrow> string \<Rightarrow> string \<Rightarrow> string \<Rightarrow> string" where
  "combined u m n disks base_sha sidecar_sha =
     ''user-data:'' @ newline @ u @ newline @ ''---'' @ newline @ ''meta-data:'' @ newline @ m @ newline @ ''---'' @ newline @
     ''network-config:'' @ newline @ n @ newline @ ''---'' @ newline @ ''disks:'' @ disks @ newline @ ''---'' @ newline @
     ''base:'' @ base_sha @ newline @ ''---'' @ newline @ ''sidecar:'' @ sidecar_sha"

definition ci_config_text :: "(yaml \<Rightarrow> string) \<Rightarrow> cloudinit \<Rightarrow> vm_spec \<Rightarrow> (name, network_addressing) dict \<Rightarrow> string \<Rightarrow> string \<Rightarrow> string list \<Rightarrow> build_nic \<Rightarrow>
    agent_provision option \<Rightarrow> string result" where
  "ci_config_text dump B s adr base_sha sidecar_sha macs bn agent =
     bindR (render_network_config dump s adr bn macs) (\<lambda>n.
     Inr (combined (render_user_data dump B agent) (render_meta_data dump s) n (disks_text s) base_sha sidecar_sha))"

definition ci_config_hash :: "(string \<Rightarrow> string) \<Rightarrow> (yaml \<Rightarrow> string) \<Rightarrow> cloudinit \<Rightarrow> vm_spec \<Rightarrow> (name, network_addressing) dict \<Rightarrow> string \<Rightarrow> string \<Rightarrow>
    string list \<Rightarrow> build_nic \<Rightarrow> agent_provision option \<Rightarrow> string result" where
  "ci_config_hash sha dump B s adr base_sha sidecar_sha macs bn agent =
     bindR (ci_config_text dump B s adr base_sha sidecar_sha macs bn agent) (\<lambda>t. Inr (take 16 (sha t)))"

definition ci_render_seed :: "((string \<times> string) list \<Rightarrow> string result) \<Rightarrow> (yaml \<Rightarrow> string) \<Rightarrow> cloudinit \<Rightarrow> vm_spec \<Rightarrow> (name, network_addressing) dict \<Rightarrow>
    string list \<Rightarrow> build_nic \<Rightarrow> agent_provision option \<Rightarrow> string result" where
  "ci_render_seed mkiso dump B s adr macs bn agent =
     bindR (render_network_config dump s adr bn macs) (\<lambda>n.
     mkiso [(''user-data'', render_user_data dump B agent), (''meta-data'', render_meta_data dump s), (''network-config'', n)])"

definition ci_wait_ready :: "(string list \<Rightarrow> ('w, exec_result) eff) \<Rightarrow> ('w, unit) eff" where
  "ci_wait_ready execute =
     bindE (execute [''cloud-init'', ''status'', ''--wait'']) (\<lambda>r.
     if exit_code r \<noteq> 0 then throw (BuildNotReadyError [string_of_int (exit_code r), stderr r]) else ret ())"

subsection \<open>The network configuration\<close>

fun members :: "yaml \<Rightarrow> (string \<times> yaml) list" where
  "members (YMap kvs) = kvs" | "members _ = []"

definition has_route :: "yaml \<Rightarrow> bool" where
  "has_route y \<longleftrightarrow> map_of (members y) ''routes'' \<noteq> None"

definition matches_mac :: "yaml \<Rightarrow> string \<Rightarrow> bool" where
  "matches_mac y mac \<longleftrightarrow> map_of (members y) ''match'' = Some (YMap [(''macaddress'', YStr (lower mac))])"

definition gateway_for :: "(name, network_addressing) dict \<Rightarrow> device \<Rightarrow> string option" where
  "gateway_for adr nic = (case nic_addr nic of
     Some (StaticAddr sa) \<Rightarrow> nic_gateway sa (map_of adr (handle_str (nic_network nic))) | _ \<Rightarrow> None)"

lemma entry_mac: "nic_netplan_entry a mac sub r = Inr y \<Longrightarrow> matches_mac y mac"
  by (auto simp: nic_netplan_entry_def matches_mac_def Let_def bindR_def split: option.splits addr_mode.splits sum.splits)

lemma entry_route:
  "nic_netplan_entry a mac sub r = Inr y \<Longrightarrow>
     has_route y \<longleftrightarrow> r \<and> (\<exists>sa. a = Some (StaticAddr sa) \<and> nic_gateway sa sub \<noteq> None)"
  by (auto simp: nic_netplan_entry_def has_route_def Let_def bindR_def split: option.splits addr_mode.splits sum.splits if_splits)

text \<open>Which declared NICs get the default route: the first static one, if a gateway is known for it.\<close>

definition routed :: "(name, network_addressing) dict \<Rightarrow> device list \<Rightarrow> nat \<Rightarrow> bool" where
  "routed adr ds i \<longleftrightarrow> is_static (ds ! i) \<and> (\<forall>j < i. \<not> is_static (ds ! j)) \<and> gateway_for adr (ds ! i) \<noteq> None"

lemma declared_entries_spec:
  assumes "declared_entries adr idx had ns = Inr ys" and "i < length ns"
  shows "length ys = length ns \<and> fst (ys ! i) = ''id'' @ string_of_nat (idx + i) \<and> matches_mac (snd (ys ! i)) (snd (ns ! i)) \<and>
    (has_route (snd (ys ! i)) \<longleftrightarrow> \<not> had \<and> routed adr (map fst ns) i)"
  using assms
proof (induction ns arbitrary: idx had ys i)
  case (Cons x ns)
  obtain nic mac where x: "x = (nic, mac)" by (cases x)
  let ?sub = "map_of adr (handle_str (nic_network nic))"
  obtain y zs where y: "nic_netplan_entry (nic_addr nic) mac ?sub (is_static nic \<and> \<not> had) = Inr y"
    and zs: "declared_entries adr (Suc idx) (had \<or> is_static nic) ns = Inr zs" and ys: "ys = (''id'' @ string_of_nat idx, y) # zs"
    using Cons.prems(1) x by (auto simp: bindR_def split: sum.splits)
  have len: "length zs = length ns"
    using Cons.IH [OF zs] zs by (cases ns) auto
  show ?case
  proof (cases i)
    case 0
    have "has_route y \<longleftrightarrow> \<not> had \<and> is_static nic \<and> gateway_for adr nic \<noteq> None"
      using entry_route [OF y] by (auto simp: gateway_for_def split: option.splits addr_mode.splits)
    then show ?thesis using 0 x ys len entry_mac [OF y] by (auto simp: routed_def)
  next
    case (Suc k)
    have k: "k < length ns" using Cons.prems(2) Suc by simp
    have r: "routed adr (map fst (x # ns)) (Suc k) \<longleftrightarrow> \<not> is_static nic \<and> routed adr (map fst ns) k"
      unfolding routed_def using x by (auto simp: less_Suc_eq_0_disj simp del: is_static.simps)
    show ?thesis using Cons.IH [OF zs k] Suc ys len r by auto
  qed
qed simp

lemma declared_entries_keys:
  "declared_entries adr idx had ns = Inr ys \<Longrightarrow> map fst ys = map (\<lambda>k. ''id'' @ string_of_nat k) [idx ..< idx + length ns]"
proof (induction ns arbitrary: idx had ys)
  case (Cons x ns)
  obtain nic mac where x: "x = (nic, mac)" by (cases x)
  then obtain y zs where "declared_entries adr (Suc idx) (had \<or> is_static nic) ns = Inr zs" "ys = (''id'' @ string_of_nat idx, y) # zs"
    using Cons.prems by (auto simp: bindR_def split: sum.splits)
  moreover have "[idx ..< idx + length (x # ns)] = idx # [Suc idx ..< Suc idx + length ns]" by (simp add: upt_conv_Cons del: upt_Suc)
  ultimately show ?case using Cons.IH [of "Suc idx" _ zs] by (simp del: upt_Suc)
qed simp

text \<open>C35: The network configuration of a guest has one stanza for the build NIC and one per declared NIC, all under different keys and matched
  by the MAC of that NIC; among the declared NICs at most one carries a default route, namely the first with a static
  address, and it does exactly when a gateway is known for it.\<close>

theorem netplan_is_unambiguous:
  assumes "network_body s adr bn macs = Inr y"
  shows "\<exists>b ds. map_of (members y) ''ethernets'' = Some (YMap ((''build0'', b) # ds)) \<and> matches_mac b (bn_mac bn) \<and>
    length ds = length (nics s) \<and> length macs = length (nics s) \<and> distinct (''build0'' # map fst ds) \<and>
    (\<forall>i < length ds. matches_mac (snd (ds ! i)) (macs ! i) \<and> (has_route (snd (ds ! i)) \<longleftrightarrow> routed adr (nics s) i)) \<and>
    (\<forall>i < length ds. \<forall>j < length ds. has_route (snd (ds ! i)) \<and> has_route (snd (ds ! j)) \<longrightarrow> i = j)"
proof -
  obtain b ds where l: "length macs = length (nics s)" and b: "nic_netplan_entry (Some (StaticAddr (bn_addr bn))) (bn_mac bn) (Some (bn_addressing bn)) True = Inr b"
    and d: "declared_entries adr 0 False (zip (nics s) macs) = Inr ds" and y: "y = YMap [(''version'', YInt 2), (''ethernets'', YMap ((''build0'', b) # ds))]"
    using assms by (auto simp: network_body_def bindR_def guardR_def split: sum.splits if_splits)
  have keys: "map fst ds = map (\<lambda>k. ''id'' @ string_of_nat k) [0 ..< length (nics s)]" using declared_entries_keys [OF d] l by simp
  then have len: "length ds = length (nics s)" by (metis length_map length_upt minus_nat.diff_0)
  have "distinct (map fst ds)" unfolding keys by (auto simp: distinct_map inj_on_def string_of_nat_inj)
  moreover have "''build0'' \<notin> set (map fst ds)" unfolding keys by auto
  moreover have spec: "matches_mac (snd (ds ! i)) (macs ! i) \<and> (has_route (snd (ds ! i)) \<longleftrightarrow> routed adr (nics s) i)" if "i < length ds" for i
    using declared_entries_spec [OF d, of i] that l len by simp
  moreover have "i = j" if "i < length ds" "j < length ds" "has_route (snd (ds ! i))" "has_route (snd (ds ! j))" for i j
  proof -
    have "routed adr (nics s) i" "routed adr (nics s) j" using spec that by blast+
    then show ?thesis unfolding routed_def by (meson linorder_neqE_nat)
  qed
  ultimately show ?thesis using y entry_mac [OF b] l len by auto
qed

subsection \<open>The key of the disks\<close>

lemma last_sep_unique:
  "c \<notin> set a \<Longrightarrow> c \<notin> set b \<Longrightarrow> x @ c # a = y @ c # b \<longleftrightarrow> x = y \<and> a = b"
proof (induction x arbitrary: y)
  case Nil then show ?case by (cases y) auto
next
  case (Cons z x)
  show ?case
  proof (cases y)
    case Nil
    have "x @ c # a \<noteq> b" using Cons.prems(2) by auto
    then show ?thesis using Nil by simp
  next
    case y: (Cons v u) then show ?thesis using Cons.IH [OF Cons.prems, of u] by simp
  qed
qed

lemma string_of_int_chars: "c \<in> set (string_of_int i) \<Longrightarrow> is_digit c \<or> c = CHR ''-''"
  using string_of_nat_digits by (auto simp: string_of_int_def list_all_iff split: if_splits)

lemma string_of_int_inj: "string_of_int i = string_of_int j \<longleftrightarrow> i = j"
proof -
  have d: "CHR ''-'' \<notin> set (string_of_nat n)" for n using string_of_nat_digits [of n] by (auto simp: list_all_iff is_digit_def less_eq_char_def)
  have n: "CHR ''-'' # t \<noteq> string_of_nat n" "string_of_nat n \<noteq> CHR ''-'' # t" for t n using d [of n] by (metis list.set_intros(1))+
  show ?thesis by (cases "i < 0"; cases "j < 0") (simp_all add: string_of_int_def n string_of_nat_inj eq_nat_nat_iff)
qed

definition plain_token :: "string \<Rightarrow> bool" where
  "plain_token t \<longleftrightarrow> CHR 0x0A \<notin> set t \<and> CHR ''|'' \<notin> set t"

lemma plain_number: "plain_token (string_of_int i)" "plain_token (string_of_nat n)"
  using string_of_int_chars [of "CHR 0x0A" i] string_of_int_chars [of "CHR ''|''" i] string_of_nat_digits [of n]
  by (auto simp: plain_token_def list_all_iff is_digit_def less_eq_char_def)

lemma plain_append [simp]: "plain_token (s @ t) \<longleftrightarrow> plain_token s \<and> plain_token t"
  by (auto simp: plain_token_def)

lemma plain_tokens: "\<forall>t \<in> set (disk_tokens s). plain_token t"
proof -
  have c: "plain_token ''os:''" "plain_token ''data''" "plain_token '':''" by (simp_all add: plain_token_def)
  have "plain_token (''data'' @ string_of_nat i @ '':'' @ string_of_int k)" for i k unfolding plain_append using c plain_number by blast
  moreover have "plain_token (''os:'' @ string_of_int k)" for k unfolding plain_append using c plain_number by blast
  ultimately show ?thesis unfolding disk_tokens_def by auto
qed

lemma disks_text_newline: "CHR 0x0A \<notin> set (disks_text s)"
  using join_chars [of "CHR 0x0A" "''|''" "disk_tokens s"] plain_tokens [of s] unfolding disks_text_def plain_token_def by fastforce

lemma data_tokens_inj:
  "map (\<lambda>(i, d). ''data'' @ string_of_nat i @ '':'' @ string_of_int (disk_size_gb d)) (enumerate n ds) =
   map (\<lambda>(i, d). ''data'' @ string_of_nat i @ '':'' @ string_of_int (disk_size_gb d)) (enumerate n es) \<Longrightarrow>
   map disk_size_gb ds = map disk_size_gb es"
proof (induction ds arbitrary: es n)
  case Nil then show ?case by (cases es) simp_all
next
  case (Cons d ds)
  then obtain e es' where es: "es = e # es'" by (cases es) simp_all
  with Cons.prems have "string_of_int (disk_size_gb d) = string_of_int (disk_size_gb e)"
    and r: "map (\<lambda>(i, d). ''data'' @ string_of_nat i @ '':'' @ string_of_int (disk_size_gb d)) (enumerate (Suc n) ds) =
      map (\<lambda>(i, d). ''data'' @ string_of_nat i @ '':'' @ string_of_int (disk_size_gb d)) (enumerate (Suc n) es')" by simp_all
  then show ?case using Cons.IH [OF r] es by (simp add: string_of_int_inj)
qed

lemma disks_text_inj:
  assumes "disks_text s = disks_text t"
  shows "disk_size_gb (os_drive s) = disk_size_gb (os_drive t) \<and> map disk_size_gb (data_drives s) = map disk_size_gb (data_drives t)"
proof -
  have "split_on (CHR ''|'') (disks_text u) = disk_tokens u" for u
    unfolding disks_text_def using plain_tokens [of u] by (intro split_on_join) (auto simp: disk_tokens_def plain_token_def)
  then have "disk_tokens s = disk_tokens t" using assms by metis
  then show ?thesis unfolding disk_tokens_def using data_tokens_inj [of 0 "data_drives s" "data_drives t"] by (simp add: string_of_int_inj)
qed

lemma combined_tail:
  assumes n: "CHR 0x0A \<notin> set d" "CHR 0x0A \<notin> set d'" "CHR 0x0A \<notin> set b" "CHR 0x0A \<notin> set b'" "CHR 0x0A \<notin> set c" "CHR 0x0A \<notin> set c'"
    and e: "combined u m v d b c = combined u' m' v' d' b' c'"
  shows "d = d' \<and> b = b' \<and> c = c'"
proof -
  define h where "h u m v = ''user-data:'' @ newline @ u @ newline @ ''---'' @ newline @ ''meta-data:'' @ newline @ m @ newline @ ''---'' @ newline @
     ''network-config:'' @ newline @ v @ newline @ ''---''" for u m v :: string
  have c: "combined u m v d b c = ((((h u m v @ CHR 0x0A # (''disks:'' @ d)) @ CHR 0x0A # ''---'') @ CHR 0x0A # (''base:'' @ b)) @ CHR 0x0A # ''---'') @ CHR 0x0A # (''sidecar:'' @ c)"
    for u m v d b c :: string
    by (simp add: combined_def h_def newline_def)
  have s: "((((h u m v @ CHR 0x0A # (''disks:'' @ d)) @ CHR 0x0A # ''---'') @ CHR 0x0A # (''base:'' @ b)) @ CHR 0x0A # ''---'') @ CHR 0x0A # (''sidecar:'' @ c) =
      ((((h u' m' v' @ CHR 0x0A # (''disks:'' @ d')) @ CHR 0x0A # ''---'') @ CHR 0x0A # (''base:'' @ b')) @ CHR 0x0A # ''---'') @ CHR 0x0A # (''sidecar:'' @ c')"
    using e unfolding c .
  have p: "CHR 0x0A \<notin> set (''disks:'' @ d)" "CHR 0x0A \<notin> set (''disks:'' @ d')" "CHR 0x0A \<notin> set (''base:'' @ b)" "CHR 0x0A \<notin> set (''base:'' @ b')"
    "CHR 0x0A \<notin> set (''sidecar:'' @ c)" "CHR 0x0A \<notin> set (''sidecar:'' @ c')" "CHR 0x0A \<notin> set ''---''"
    using n by simp_all
  note s1 = last_sep_unique [OF p(5,6), THEN iffD1, OF s]
  note s2 = last_sep_unique [OF p(7,7), THEN iffD1, OF s1 [THEN conjunct1], THEN conjunct1]
  note s3 = last_sep_unique [OF p(3,4), THEN iffD1, OF s2]
  note s4 = last_sep_unique [OF p(7,7), THEN iffD1, OF s3 [THEN conjunct1], THEN conjunct1]
  note s5 = last_sep_unique [OF p(1,2), THEN iffD1, OF s4]
  show ?thesis using s1 s3 s5 by simp
qed

lemma config_text_form:
  "ci_config_text dump B s adr base sc macs bn ag = Inr t \<Longrightarrow> \<exists>u m v. t = combined u m v (disks_text s) base sc"
  by (auto simp: ci_config_text_def bindR_def split: sum.splits)

text \<open>C36: The build key covers the whole disk set: whatever the texts of the seed, two builds have the same key only if the OS disk and
  the data disks have the same sizes in the same order and the base image and the sidecar image have the same digests,
  unless the digest of the two key texts collides. A resized, added or removed disk never reuses an artifact.\<close>

theorem disk_key_is_sensitive:
  assumes "ci_config_text dump B s adr base sc macs bn ag = Inr t" "ci_config_text dump' B' s' adr' base' sc' macs' bn' ag' = Inr t'"
    and "CHR 0x0A \<notin> set base" "CHR 0x0A \<notin> set base'" "CHR 0x0A \<notin> set sc" "CHR 0x0A \<notin> set sc'"
    and "take 16 (sha t) = take 16 (sha t') \<Longrightarrow> t = t'"
    and "ci_config_hash sha dump B s adr base sc macs bn ag = ci_config_hash sha dump' B' s' adr' base' sc' macs' bn' ag'"
  shows "disk_size_gb (os_drive s) = disk_size_gb (os_drive s') \<and> map disk_size_gb (data_drives s) = map disk_size_gb (data_drives s') \<and>
    base = base' \<and> sc = sc'"
proof -
  have "t = t'" using assms(1,2,7,8) by (simp add: ci_config_hash_def bindR_def)
  then obtain u m v u' m' v' where "combined u m v (disks_text s) base sc = combined u' m' v' (disks_text s') base' sc'"
    using config_text_form [OF assms(1)] config_text_form [OF assms(2)] by metis
  from combined_tail [OF disks_text_newline disks_text_newline assms(3-6) this] show ?thesis using disks_text_inj by blast
qed

definition sample_ci :: cloudinit where
  "sample_ci = \<lparr>ci_base = ''debian'', ci_credentials = [], ci_packages = [Apt ''nginx''], ci_commands = [], ci_insecure = False\<rparr>"

definition sample_spec :: "int \<Rightarrow> vm_spec" where
  "sample_spec gb = \<lparr>vs_name = ''web'', devices = [CPU 1 False, Memory 512, OSDrive (PoolHandle ''p'') gb, NetworkIface (NetworkHandle ''a'' ''lan'') (Some DHCPAddr),
     NetworkIface (NetworkHandle ''b'' ''lan'') (Some (StaticAddr \<lparr>addr = ''10.0.0.5'', gw = None, dns = []\<rparr>))], firmware = ''bios''\<rparr>"

definition sample_addressing :: network_addressing where
  "sample_addressing = \<lparr>na_cidr = ''10.0.0.0/24'', na_prefix_len = 24, na_dhcp = True, na_gateway = Some ''10.0.0.1'', na_dns_server = None\<rparr>"

definition sample_bn :: build_nic where
  "sample_bn = \<lparr>bn_mac = ''52:54:00:00:00:01'', bn_network = ''build'', bn_addr = \<lparr>addr = ''10.9.0.3/24'', gw = None, dns = []\<rparr>, bn_addressing = sample_addressing\<rparr>"

abbreviation sample_text :: "int \<Rightarrow> string result" where
  "sample_text gb \<equiv> ci_config_text (\<lambda>_. []) sample_ci (sample_spec gb) [(''b'', sample_addressing)] ''aa'' ''bb'' [''m0'', ''m1''] sample_bn None"

theorem disk_key_is_sensitive_witness:
  "ci_config_hash (\<lambda>t. if t = projr (sample_text 8) then ''8'' else ''x'') (\<lambda>_. []) sample_ci (sample_spec 8) [(''b'', sample_addressing)] ''aa'' ''bb'' [''m0'', ''m1''] sample_bn None \<noteq>
   ci_config_hash (\<lambda>t. if t = projr (sample_text 8) then ''8'' else ''x'') (\<lambda>_. []) sample_ci (sample_spec 9) [(''b'', sample_addressing)] ''aa'' ''bb'' [''m0'', ''m1''] sample_bn None"
proof -
  let ?sha = "\<lambda>t. if t = projr (sample_text 8) then ''8'' else ''x''"
  have "\<not> isl (sample_text 8)" "\<not> isl (sample_text 9)" by code_simp+
  then obtain t t' where t: "sample_text 8 = Inr t" "sample_text 9 = Inr t'" by (metis isl_def sum.collapse(2))
  have d: "disk_size_gb (os_drive (sample_spec 8)) \<noteq> disk_size_gb (os_drive (sample_spec 9))" by code_simp
  have h: "take 16 (?sha t) = take 16 (?sha t') \<Longrightarrow> t = t'" using t(1) by (auto split: if_splits)
  note r = disk_key_is_sensitive [OF t(1) t(2) _ _ _ _ h]
  show ?thesis using r d by fastforce
qed

theorem netplan_is_unambiguous_witness:
  "\<exists>y b ds. network_body (sample_spec 8) [(''b'', sample_addressing)] sample_bn [''m0'', ''m1''] = Inr y \<and>
     map_of (members y) ''ethernets'' = Some (YMap ((''build0'', b) # ds)) \<and> length ds = 2 \<and> \<not> has_route (snd (ds ! 0)) \<and> has_route (snd (ds ! 1))"
proof -
  let ?adr = "[(''b'', sample_addressing)]"
  have "\<not> isl (network_body (sample_spec 8) ?adr sample_bn [''m0'', ''m1''])" by code_simp
  then obtain y where y: "network_body (sample_spec 8) ?adr sample_bn [''m0'', ''m1''] = Inr y" by (metis isl_def sum.collapse(2))
  have n: "length (nics (sample_spec 8)) = 2" by code_simp
  have r: "\<not> routed ?adr (nics (sample_spec 8)) 0" "routed ?adr (nics (sample_spec 8)) 1"
    by (simp_all add: routed_def sample_spec_def nics_def gateway_for_def nic_gateway_def sample_addressing_def)
  from netplan_is_unambiguous [OF y] obtain b ds where e: "map_of (members y) ''ethernets'' = Some (YMap ((''build0'', b) # ds))" "length ds = length (nics (sample_spec 8))"
    and h: "\<forall>i < length ds. has_route (snd (ds ! i)) \<longleftrightarrow> routed ?adr (nics (sample_spec 8)) i" by blast
  show ?thesis using y e h [rule_format, of 0] h [rule_format, of 1] n r by auto
qed

subsection \<open>The provisioning script\<close>

lemma package_safe:
  assumes "Package cls n = Inr m"
  shows "m = n \<and> n \<noteq> [] \<and> list_all shell_safe n"
proof -
  have c: "\<forall>c. package_rest c \<longrightarrow> shell_safe c" "\<forall>c. package_first c \<longrightarrow> shell_safe c"
    by (auto simp: package_rest_def package_first_def shell_safe_def)
  have "class_match package_first package_rest n" "m = n" "n \<noteq> []" using assms by (auto simp: Package_def split: if_splits)
  then show ?thesis using c by (cases n) (auto simp: class_match_iff list_all_iff)
qed

lemma safe_quote: "n \<noteq> [] \<Longrightarrow> list_all shell_safe n \<Longrightarrow> quote n = n"
  by (simp add: quote_def)

lemma safe_words:
  assumes "\<forall>w \<in> set ws. w \<noteq> [] \<and> list_all shell_safe w"
  shows "sh_words Blank [] (join '' '' ws) = Some ws"
proof -
  have "map quote ws = ws" using assms by (simp add: map_idI safe_quote)
  then show ?thesis using sh_words_join [of "[]" ws] by simp
qed

lemma join_prefix: "ws \<noteq> [] \<Longrightarrow> join '' '' (ps @ ws) = (if ps = [] then [] else join '' '' ps @ '' '') @ join '' '' ws"
  by (induction ps) (auto simp: join_Cons)

definition safe_word :: "string \<Rightarrow> bool" where
  "safe_word w \<longleftrightarrow> w \<noteq> [] \<and> list_all shell_safe w"

lemma command_line:
  assumes "list_all safe_word cs" "cs \<noteq> []" "args \<noteq> []" "\<forall>w \<in> set args. safe_word w"
  shows "sh_words Blank [] (join '' '' cs @ '' '' @ join '' '' args) = Some (cs @ args)"
proof -
  have "\<forall>w \<in> set (cs @ args). w \<noteq> [] \<and> list_all shell_safe w" using assms(1,4) by (auto simp: list_all_iff safe_word_def)
  from safe_words [OF this] show ?thesis unfolding join_prefix [OF assms(3)] using assms(2) by simp
qed

definition APT_INSTALL :: "string list" where "APT_INSTALL = [''apt-get'', ''install'', ''-y'']"
definition PIP_INSTALL :: "string list" where "PIP_INSTALL = [''pip3'', ''install'', ''--break-system-packages'']"
definition PIP_TRUST :: "string list" where "PIP_TRUST = [''--trusted-host'', ''pypi.org'', ''--trusted-host'', ''files.pythonhosted.org'']"

lemma command_texts:
  "''apt-get install -y '' @ t = join '' '' APT_INSTALL @ '' '' @ t" "PIP_CMD @ '' '' @ t = join '' '' PIP_INSTALL @ '' '' @ t"
  "PIP_CMD @ '' --trusted-host pypi.org --trusted-host files.pythonhosted.org '' @ t = join '' '' (PIP_INSTALL @ PIP_TRUST) @ '' '' @ t"
  "list_all safe_word APT_INSTALL" "list_all safe_word PIP_INSTALL" "list_all safe_word (PIP_INSTALL @ PIP_TRUST)"
proof -
  have j: "join '' '' APT_INSTALL = ''apt-get install -y''" "join '' '' PIP_INSTALL = PIP_CMD"
    "join '' '' (PIP_INSTALL @ PIP_TRUST) = PIP_CMD @ '' --trusted-host pypi.org --trusted-host files.pythonhosted.org''" by code_simp+
  show "''apt-get install -y '' @ t = join '' '' APT_INSTALL @ '' '' @ t" "PIP_CMD @ '' '' @ t = join '' '' PIP_INSTALL @ '' '' @ t"
    "PIP_CMD @ '' --trusted-host pypi.org --trusted-host files.pythonhosted.org '' @ t = join '' '' (PIP_INSTALL @ PIP_TRUST) @ '' '' @ t"
    unfolding j by simp_all
  show "list_all safe_word APT_INSTALL" "list_all safe_word PIP_INSTALL" "list_all safe_word (PIP_INSTALL @ PIP_TRUST)" by code_simp+
qed

lemma pip_names: "w \<in> set (pip_secure p) \<or> w \<in> set (pip_insecure p) \<Longrightarrow> w = pkg_name p"
  by (cases p rule: pip_secure.cases) auto

lemma package_word: "Package cls n = Inr n \<Longrightarrow> safe_word n"
  using package_safe [of cls n n] by (simp add: safe_word_def)

text \<open>A package name cannot change what the provisioning script runs. For packages that their constructors accept, the shell reads the
  install lines as exactly the install command with one argument per package: the apt line with the agent's and the plan's
  packages in order, the pip lines with the packages of their trust class.\<close>

theorem install_lines_are_exact:
  assumes "\<forall>n \<in> set apts. Package ''Apt'' n = Inr n" "apts \<noteq> []" and "\<forall>p \<in> set pips. Package ''Pip'' (pkg_name p) = Inr (pkg_name p)"
  shows "sh_words Blank [] (last (apt_lines apts)) = Some (APT_INSTALL @ apts) \<and>
    (\<forall>l \<in> set (render_pip_install_lines pips).
       sh_words Blank [] l = Some (PIP_INSTALL @ concat (map pip_secure pips)) \<or>
       sh_words Blank [] l = Some ((PIP_INSTALL @ PIP_TRUST) @ concat (map pip_insecure pips)))"
proof
  have a: "\<forall>w \<in> set apts. safe_word w" using assms(1) package_word by blast
  have "last (apt_lines apts) = join '' '' APT_INSTALL @ '' '' @ join '' '' apts" using assms(2) command_texts(1) [of "join '' '' apts"] by (simp add: apt_lines_def)
  then show "sh_words Blank [] (last (apt_lines apts)) = Some (APT_INSTALL @ apts)"
    using command_line [OF command_texts(4) _ assms(2) a] by (simp add: APT_INSTALL_def)
  have p: "\<forall>w \<in> set (concat (map pip_secure pips)). safe_word w" "\<forall>w \<in> set (concat (map pip_insecure pips)). safe_word w"
    using assms(3) package_word pip_names by fastforce+
  let ?s = "concat (map pip_secure pips)" and ?i = "concat (map pip_insecure pips)"
  have m: "l \<in> set (render_pip_install_lines pips) \<Longrightarrow> ?s \<noteq> [] \<and> l = join '' '' PIP_INSTALL @ '' '' @ join '' '' ?s \<or>
      ?i \<noteq> [] \<and> l = join '' '' (PIP_INSTALL @ PIP_TRUST) @ '' '' @ join '' '' ?i" for l
    unfolding render_pip_install_lines_def Let_def command_texts(2,3) by simp argo
  have ne: "PIP_INSTALL \<noteq> []" "PIP_INSTALL @ PIP_TRUST \<noteq> []" by (simp_all add: PIP_INSTALL_def)
  show "\<forall>l \<in> set (render_pip_install_lines pips). sh_words Blank [] l = Some (PIP_INSTALL @ ?s) \<or> sh_words Blank [] l = Some ((PIP_INSTALL @ PIP_TRUST) @ ?i)"
  proof
    fix l
    assume "l \<in> set (render_pip_install_lines pips)"
    from m [OF this] consider (secure) "?s \<noteq> []" "l = join '' '' PIP_INSTALL @ '' '' @ join '' '' ?s"
      | (trusted) "?i \<noteq> []" "l = join '' '' (PIP_INSTALL @ PIP_TRUST) @ '' '' @ join '' '' ?i" by argo
    then show "sh_words Blank [] l = Some (PIP_INSTALL @ ?s) \<or> sh_words Blank [] l = Some ((PIP_INSTALL @ PIP_TRUST) @ ?i)"
    proof cases
      case secure
      show ?thesis unfolding secure(2) using command_line [OF command_texts(5) ne(1) secure(1) p(1)] by (rule disjI1)
    next
      case trusted
      show ?thesis unfolding trusted(2) using command_line [OF command_texts(6) ne(2) trusted(1) p(2)] by (rule disjI2)
    qed
  qed
qed

theorem install_lines_are_exact_witness:
  "sh_words Blank [] ''apt-get install -y nginx g++'' = Some [''apt-get'', ''install'', ''-y'', ''nginx'', ''g++'']"
proof -
  have h: "\<forall>n \<in> set [''nginx'', ''g++'']. Package ''Apt'' n = Inr n" "[''nginx'', ''g++''] \<noteq> []" "\<forall>p \<in> set [Pip ''requests'' True]. Package ''Pip'' (pkg_name p) = Inr (pkg_name p)"
    by code_simp+
  have l: "last (apt_lines [''nginx'', ''g++'']) = ''apt-get install -y nginx g++''" "APT_INSTALL @ [''nginx'', ''g++''] = [''apt-get'', ''install'', ''-y'', ''nginx'', ''g++'']" by code_simp+
  from install_lines_are_exact [OF h, THEN conjunct1] show ?thesis unfolding l .
qed

end
