(* ===== verification/Boot_Media.thy ===== *)
theory Boot_Media
  imports Effects Build_Result
begin

text \<open>
  What the two installers share when they prepare a boot medium (\<^verbatim>\<open>materialize_prepared\<close> of \<^verbatim>\<open>builders/base.py\<close>, the used
  part of \<^verbatim>\<open>pathlib\<close>, \<^verbatim>\<open>tempfile\<close> and \<^verbatim>\<open>str\<close>). A file system is a map from paths to contents. The
  tool \<^verbatim>\<open>xorriso\<close> is a parameter \<open>X\<close>: run with an argument vector it changes the files in any way, and ends with a code and its
  error text, or could not be started. A fresh temporary directory is an argument.
\<close>

type_synonym hex_digest = string

type_synonym files = "string \<Rightarrow> string option"

datatype xrun = Exited int string | NotStarted

type_synonym tool = "string list \<Rightarrow> (files, xrun) eff"

subsection \<open>Paths and files\<close>

definition path_name :: "string \<Rightarrow> string" where
  "path_name p = rev (takeWhile (\<lambda>c. c \<noteq> CHR ''/'') (rev p))"

definition path_parent :: "string \<Rightarrow> string" where
  "path_parent p = rev (tl (dropWhile (\<lambda>c. c \<noteq> CHR ''/'') (rev p)))"

text \<open>\<^verbatim>\<open>PurePath.stem\<close>: a dot at either end of the name starts no suffix.\<close>

definition path_stem :: "string \<Rightarrow> string" where
  "path_stem p =
     (let n = path_name p; suffix = takeWhile (\<lambda>c. c \<noteq> CHR ''.'') (rev n) in
      if CHR ''.'' \<in> set (tl n) \<and> suffix \<noteq> [] then take (length n - Suc (length suffix)) n else n)"

definition under :: "string \<Rightarrow> string \<Rightarrow> string" where
  "under d n = d @ ''/'' @ n"

definition write_file :: "string \<Rightarrow> string \<Rightarrow> (files, unit) eff" where
  "write_file p c = modE (\<lambda>w. w(p \<mapsto> c))"

definition unlink :: "string \<Rightarrow> (files, unit) eff" where
  "unlink p = modE (\<lambda>w. w(p := None))"

definition read_file :: "string \<Rightarrow> (files, string) eff" where
  "read_file p = bindE (getE (\<lambda>w. w p)) (\<lambda>c. case c of Some t \<Rightarrow> ret t | None \<Rightarrow> throw (OSError [p]))"

definition rename :: "string \<Rightarrow> string \<Rightarrow> (files, unit) eff" where
  "rename src dst = bindE (read_file src) (\<lambda>c. modE (\<lambda>w. (w(src := None))(dst \<mapsto> c)))"

definition rmtree :: "string \<Rightarrow> (files, unit) eff" where
  "rmtree d = modE (\<lambda>w p. if startswith p (d @ ''/'') then None else w p)"

definition materialize_prepared :: "string \<Rightarrow> string \<Rightarrow> (string \<Rightarrow> (files, unit) eff) \<Rightarrow> (files, unit) eff" where
  "materialize_prepared tmpdir prepared build =
     (let tmp = under tmpdir (path_name prepared) in
      finallyE (seqE (build tmp) (rename tmp prepared)) (rmtree tmpdir))"

text \<open>The caching both installers put around it.\<close>

definition prepared_once :: "string \<Rightarrow> string \<Rightarrow> (string \<Rightarrow> (files, unit) eff) \<Rightarrow> (files, string) eff" where
  "prepared_once tmpdir prepared build =
     bindE (getE (\<lambda>w. w prepared \<noteq> None)) (\<lambda>there.
     seqE (if there then ret () else materialize_prepared tmpdir prepared build) (ret prepared))"

subsection \<open>Text\<close>

definition lstrip :: "string \<Rightarrow> string" where
  "lstrip s = dropWhile is_space s"

definition rstrip :: "string \<Rightarrow> string" where
  "rstrip s = rev (dropWhile is_space (rev s))"

text \<open>\<^verbatim>\<open>s.replace(old, new)\<close> for a pattern that is not empty.\<close>

function replace_sub :: "string \<Rightarrow> string \<Rightarrow> string \<Rightarrow> string" where
  "replace_sub old new s =
     (if s = [] \<or> old = [] then s
      else if startswith s old then new @ replace_sub old new (drop (length old) s)
      else hd s # replace_sub old new (tl s))"
  by pat_completeness auto

termination
  by (relation "measure (\<lambda>(old, new, s). length s)") auto

declare replace_sub.simps [simp del]

subsection \<open>The prepared medium\<close>

definition local_to :: "string \<Rightarrow> (files, 'a) eff \<Rightarrow> bool" where
  "local_to d m \<longleftrightarrow> (\<forall>w p. \<not> startswith p (d @ ''/'') \<longrightarrow> snd (m w) p = w p)"

lemma local_to_modE: "(\<And>w p. \<not> startswith p (d @ ''/'') \<Longrightarrow> f w p = w p) \<Longrightarrow> local_to d (modE f)"
  by (simp add: local_to_def modE_def)

lemma under_startswith [simp]: "startswith (under d n) (d @ ''/'')"
  by (simp add: under_def startswith_iff)



lemma prepared_once_is_cached:
  assumes "prepared_once d p build w = (Inr q, w')" "\<not> startswith p (d @ ''/'')"
  shows "q = p \<and> w' p \<noteq> None \<and> prepared_once d' p build' w' = (Inr p, w')"
proof -
  have "w' p \<noteq> None" if "materialize_prepared d p build v = (Inr (), w')" "\<not> startswith p (d @ ''/'')" for v
    using that by (auto simp: materialize_prepared_def Let_def finallyE_def seqE_def bindE_def rename_def read_file_def getE_def modE_def ret_def throw_def rmtree_def
      split: sum.splits option.splits prod.splits)
  then show ?thesis
    using assms by (auto simp: prepared_once_def seqE_def bindE_def getE_def ret_def split: if_splits sum.splits prod.splits)
qed

subsection \<open>Lines\<close>

lemma splitlines_parts: "l \<in> set (splitlines s) \<Longrightarrow> list_all (\<lambda>c. \<not> is_linebreak c) l"
proof -
  have "list_all (\<lambda>c. \<not> is_linebreak c) acc \<Longrightarrow> l \<in> set (lines_acc acc s) \<Longrightarrow> list_all (\<lambda>c. \<not> is_linebreak c) l" for acc
  proof (induction acc s rule: lines_acc.induct)
    case (2 acc c cs)
    have r: "list_all (\<lambda>c. \<not> is_linebreak c) (rev acc)" using "2.prems"(1) by (simp add: list_all_iff)
    consider (crlf) "c = CHR 0x0D \<and> cs \<noteq> [] \<and> hd cs = CHR 0x0A" | (single) "\<not> (c = CHR 0x0D \<and> cs \<noteq> [] \<and> hd cs = CHR 0x0A)" "is_linebreak c"
      | (plain) "\<not> (c = CHR 0x0D \<and> cs \<noteq> [] \<and> hd cs = CHR 0x0A)" "\<not> is_linebreak c" by blast
    then show ?case
    proof cases
      case crlf
      then have "l = rev acc \<or> l \<in> set (lines_acc [] (tl cs))" using "2.prems"(2) by simp
      then show ?thesis using r "2.IH"(1) [OF crlf] by auto
    next
      case single
      then have "l = rev acc \<or> l \<in> set (lines_acc [] cs)" using "2.prems"(2) by (simp only: lines_acc.simps if_False if_True list.set insert_iff)
      then show ?thesis using r "2.IH"(2) [OF single] by auto
    next
      case plain
      then have "l \<in> set (lines_acc (c # acc) cs)" using "2.prems"(2) by (simp only: lines_acc.simps if_False)
      then show ?thesis using "2.IH"(3) [OF plain] plain(2) "2.prems"(1) by simp
    qed
  next
    case (1 acc)
    then show ?case by (simp add: list_all_iff split: if_splits)
  qed
  from this [of "[]"] show "l \<in> set (splitlines s) \<Longrightarrow> list_all (\<lambda>c. \<not> is_linebreak c) l" by (simp add: splitlines_def)
qed

definition CRLF :: string where
  "CRLF = [CHR 0x0D, CHR 0x0A]"

lemma splitlines_crlf: "list_all (\<lambda>c. \<not> is_linebreak c) l \<Longrightarrow> splitlines (l @ CRLF @ t) = l # splitlines t"
proof -
  have "lines_acc acc (l @ CRLF @ t) = (rev acc @ l) # lines_acc [] t" if "list_all (\<lambda>c. \<not> is_linebreak c) l" for acc
    using that
  proof (induction l arbitrary: acc)
    case Nil then show ?case by (simp add: CRLF_def)
  next
    case (Cons c l)
    then have "c \<noteq> CHR 0x0D" by (auto simp: is_linebreak_def)
    with Cons show ?case by simp
  qed
  then show "list_all (\<lambda>c. \<not> is_linebreak c) l \<Longrightarrow> splitlines (l @ CRLF @ t) = l # splitlines t" by (simp add: splitlines_def)
qed

lemma splitlines_join:
  assumes "ls \<noteq> []" "\<forall>l \<in> set ls. list_all (\<lambda>c. \<not> is_linebreak c) l" "sep = newline \<or> sep = CRLF"
  shows "splitlines (join sep ls @ sep) = ls"
proof -
  have e: "splitlines [] = []" by (simp add: splitlines_def)
  have one: "splitlines (l @ sep @ t) = l # splitlines t" if "list_all (\<lambda>c. \<not> is_linebreak c) l" for l t
    using assms(3) splitlines_line [OF that] splitlines_crlf [OF that] by auto
  show ?thesis using assms(1,2)
  proof (induction ls)
    case (Cons l ls)
    show ?case
    proof (cases "ls = []")
      case True then show ?thesis using one [of l "[]"] Cons.prems e by simp
    next
      case False
      then show ?thesis using one [of l "join sep ls @ sep"] Cons by (simp add: join_Cons)
    qed
  qed simp
qed

end
