(* ===== verification/Proxmox_Answer.thy ===== *)
theory Proxmox_Answer
  imports Cloud_Init Boot_Media
begin

text \<open>
  The installer-origin builder for Proxmox VE (\<^verbatim>\<open>builders/proxmox.py\<close>, \<^verbatim>\<open>builders/_proxmox_prepare.py\<close>, the shared helpers of
  \<^verbatim>\<open>builders/base.py\<close>): its validating constructor, the answer file with its TOML string literals, the first-boot script,
  the key of the installed disk, and the preparation of the installer image. A file system is a map from paths to contents;
  \<^verbatim>\<open>xorriso\<close> is a parameter that may change any file and ends with a code and a message. The digest \<open>sha\<close> is a parameter. The errors
  \<^verbatim>\<open>ProxmoxPrepareError\<close> and \<^verbatim>\<open>EsxiPrepareError\<close> are the \<open>BuilderError\<close> of the model. Texts are those of the source.
\<close>

subsection \<open>The builder\<close>

record proxmox_builder =
  pb_installer_iso :: string
  pb_credentials :: "credential list"
  pb_packages :: "package list"
  pb_commands :: "string list"
  pb_country :: string
  pb_keyboard :: string
  pb_timezone :: string
  pb_fqdn_domain :: string
  pb_mailto :: string
  pb_filesystem :: string
  pb_disk_device :: string
  pb_partition_label :: string
  pb_network_interface :: string
  pb_apt_insecure :: bool

definition first_named :: "credential list \<Rightarrow> string \<Rightarrow> credential option" where
  "first_named cs u = find (\<lambda>c. cred_name c = u) cs"

text \<open>The checks of the \<^verbatim>\<open>root\<close> credential and of duplicate usernames that the two installers share.\<close>

definition root_with_password :: "credential list \<Rightarrow> posix_cred result" where
  "root_with_password cs = (case first_named cs ''root'' of
     None \<Rightarrow> Inl (ValueError [])
   | Some (Other _ _) \<Rightarrow> Inl (ValueError [])
   | Some (Posix c) \<Rightarrow> (case password c of Some (_ # _) \<Rightarrow> Inr c | _ \<Rightarrow> Inl (ValueError [])))"

definition duplicate_usernames :: "credential list \<Rightarrow> string list" where
  "duplicate_usernames cs = sorted_set (filter (\<lambda>u. 1 < count_list (map cred_name cs) u) (map cred_name cs))"

definition ProxmoxAnswerBuilder :: "proxmox_builder \<Rightarrow> proxmox_builder result" where
  "ProxmoxAnswerBuilder B =
     bindR (root_with_password (pb_credentials B)) (\<lambda>_.
     bindR (guardR (\<not> list_ex is_OtherPackage (pb_packages B)) (ValueError [])) (\<lambda>_.
     bindR (guardR ([] \<notin> set (pb_commands B)) (ValueError [])) (\<lambda>_.
     bindR (guardR (duplicate_usernames (pb_credentials B) = []) (ValueError (duplicate_usernames (pb_credentials B)))) (\<lambda>_.
     Inr B))))"

fun root_credential :: "credential list \<Rightarrow> posix_cred result" where
  "root_credential [] = Inl (ValueError [])"
| "root_credential (Posix c # cs) = (if username c = ''root'' then Inr c else root_credential cs)"
| "root_credential (Other _ _ # cs) = root_credential cs"

definition baked_keys :: "credential list \<Rightarrow> string list" where
  "baked_keys cs = concat (map (\<lambda>c. case pc_ssh_key c of None \<Rightarrow> [] | Some k \<Rightarrow> [auth_line k]) (posix_creds cs))"

subsection \<open>TOML strings\<close>

text \<open>\<^verbatim>\<open>s.replace(c, r)\<close> for a single character.\<close>

definition replace_char :: "char \<Rightarrow> string \<Rightarrow> string \<Rightarrow> string" where
  "replace_char c r s = concat (map (\<lambda>x. if x = c then r else [x]) s)"

definition u_escape :: "char \<Rightarrow> string" where
  "u_escape c = [BS] @ ''u00'' @ hex2 (of_char c)"

definition control_char :: "char \<Rightarrow> bool" where
  "control_char c \<longleftrightarrow> of_char c < (32 :: nat) \<or> of_char c = (127 :: nat)"

definition toml_basic_str :: "string \<Rightarrow> string" where
  "toml_basic_str v =
     (let e1 = replace_char DQ [BS, DQ] (replace_char BS [BS, BS] v);
          e2 = replace_char (CHR 0x09) (BS # ''t'') (replace_char (CHR 0x0D) (BS # ''r'') (replace_char (CHR 0x0A) (BS # ''n'') e1));
          e3 = concat (map (\<lambda>c. if control_char c then u_escape c else [c]) e2)
      in [DQ] @ e3 @ [DQ])"

subsection \<open>The answer file\<close>

definition network_block :: "proxmox_builder \<Rightarrow> vm_spec \<Rightarrow> (name, network_addressing) dict \<Rightarrow> string list result" where
  "network_block B s adr =
     (case nics s of
        [] \<Rightarrow> Inr [''source = '' @ [DQ] @ ''from-dhcp'' @ [DQ]]
      | nic # _ \<Rightarrow> (case nic_addr nic of
          Some (StaticAddr sa) \<Rightarrow>
            (let sub = map_of adr (handle_str (nic_network nic)) in
             bindR (static_cidr sa (map_option na_prefix_len sub)) (\<lambda>cidr.
             Inr ([''source = '' @ [DQ] @ ''from-answer'' @ [DQ], ''cidr = '' @ toml_basic_str cidr] @
               (case nic_gateway sa sub of Some g \<Rightarrow> [''gateway = '' @ toml_basic_str g] | None \<Rightarrow> []) @
               (case nic_dns sa sub of d # _ \<Rightarrow> [''dns = '' @ toml_basic_str d] | [] \<Rightarrow> []) @
               [''filter.ID_NET_NAME = '' @ toml_basic_str (pb_network_interface B)])))
        | _ \<Rightarrow> Inr [''source = '' @ [DQ] @ ''from-dhcp'' @ [DQ]]))"

definition global_block :: "proxmox_builder \<Rightarrow> name \<Rightarrow> string \<Rightarrow> string list" where
  "global_block B n pw =
     [''country = '' @ toml_basic_str (pb_country B), ''keyboard = '' @ toml_basic_str (pb_keyboard B), ''timezone = '' @ toml_basic_str (pb_timezone B),
      ''fqdn = '' @ toml_basic_str (n @ ''.'' @ pb_fqdn_domain B), ''mailto = '' @ toml_basic_str (pb_mailto B), ''root-password = '' @ toml_basic_str pw] @
     (if baked_keys (pb_credentials B) \<noteq> []
      then [''root-ssh-keys = ['' @ join '', '' (map toml_basic_str (baked_keys (pb_credentials B))) @ '']''] else [])"

definition root_password :: "proxmox_builder \<Rightarrow> string result" where
  "root_password B = bindR (root_credential (pb_credentials B)) (\<lambda>c. case password c of Some pw \<Rightarrow> Inr pw | None \<Rightarrow> Inl (AssertionError []))"

definition build_answer_toml :: "proxmox_builder \<Rightarrow> vm_spec \<Rightarrow> (name, network_addressing) dict \<Rightarrow> string result" where
  "build_answer_toml B s adr =
     bindR (root_password B) (\<lambda>pw.
     bindR (network_block B s adr) (\<lambda>net.
     Inr (unlines ([''[global]''] @ global_block B (vs_name s) pw @ [[], ''[network]''] @ net @
       [[], ''[disk-setup]'', ''filesystem = '' @ toml_basic_str (pb_filesystem B), ''disk-list = ['' @ toml_basic_str (pb_disk_device B) @ '']'',
        [], ''[first-boot]'', ''source = '' @ [DQ] @ ''from-iso'' @ [DQ], ''ordering = '' @ [DQ] @ ''network-online'' @ [DQ]]) @ newline)))"

definition pve_render_seed :: "(string \<Rightarrow> string \<Rightarrow> string result) \<Rightarrow> proxmox_builder \<Rightarrow> vm_spec \<Rightarrow> (name, network_addressing) dict \<Rightarrow> string result" where
  "pve_render_seed mkiso B s adr = bindR (build_answer_toml B s adr) (\<lambda>a. mkiso (pb_partition_label B) a)"

subsection \<open>The first-boot script\<close>

definition FIRST_BOOT_LOG :: string where "FIRST_BOOT_LOG = ''/var/log/testrange-first-boot.log''"
definition APT_INSECURE_CONF :: string where "APT_INSECURE_CONF = ''/etc/apt/apt.conf.d/99-testrange-insecure''"
definition PVE_FIRSTBOOT_SENTINEL :: string where "PVE_FIRSTBOOT_SENTINEL = ''/var/lib/proxmox-first-boot/pending-first-boot-setup''"

definition FIRST_BOOT_PROLOGUE :: string where
  "FIRST_BOOT_PROLOGUE = unlines
     [''#!/bin/bash'',
      ''exec > >(tee -a '' @ FIRST_BOOT_LOG @ '') 2>&1'',
      ''__tr_serial='' @ SERIAL_DEVICE,
      ''__tr_emit_fail() {'',
      ''    __tr_rc=$?'',
      ''    __tr_cmd=$BASH_COMMAND'',
      ''    {'',
      ''        printf '' @ [SQ] @ ''TESTRANGE-RESULT: fail rc=%s cmd='' @ [DQ] @ ''%s'' @ [DQ, BS] @ ''n'' @ [SQ] @ '' '' @ [DQ] @ ''$__tr_rc'' @ [DQ] @ '' '' @ [DQ] @ ''$__tr_cmd'' @ [DQ],
      ''        printf '' @ [SQ] @ ''TESTRANGE-LOG-BEGIN'' @ [BS] @ ''n'' @ [SQ],
      ''        tail -c '' @ string_of_int FAIL_LOG_TAIL_BYTES @ '' '' @ FIRST_BOOT_LOG @ '' 2>/dev/null | base64'',
      ''        printf '' @ [SQ] @ ''TESTRANGE-LOG-END'' @ [BS] @ ''n'' @ [SQ],
      ''    } > '' @ [DQ] @ ''$__tr_serial'' @ [DQ] @ '' 2>/dev/null'',
      ''    poweroff -f'',
      ''}'',
      ''trap __tr_emit_fail ERR'',
      ''set -eE'']"

definition dq :: "string \<Rightarrow> string" where "dq s = [DQ] @ s @ [DQ]"

definition network_flip :: "string \<Rightarrow> string" where
  "network_flip nic = unlines
     [''NIC='' @ dq nic,
      ''BR='' @ dq ''vmbr0'',
      ''ip addr flush dev '' @ dq ''$BR'' @ '' 2>/dev/null || true'',
      ''ip addr flush dev '' @ dq ''$NIC'' @ '' 2>/dev/null || true'',
      ''ip route flush dev '' @ dq ''$BR'' @ '' 2>/dev/null || true'',
      ''while ip route show default 2>/dev/null | grep -q .; do'',
      ''  ip route del default 2>/dev/null || break'',
      ''done'',
      ''ip link set '' @ dq ''$NIC'' @ '' up'',
      ''ip link set '' @ dq ''$BR'' @ '' up'',
      ''dhclient -1 -v '' @ dq ''$BR'']"

definition pin_mgmt_nic :: "string \<Rightarrow> string" where
  "pin_mgmt_nic nic = unlines
     [''mkdir -p /etc/systemd/network'',
      ''cat >/etc/systemd/network/10-testrange-mgmt.link <<'' @ [SQ] @ ''EOF'' @ [SQ],
      ''[Match]'', ''Driver=virtio_net'', [], ''[Link]'', ''Name='' @ nic, ''EOF'']"

definition REPO_SWAP :: string where
  "REPO_SWAP = unlines
     [''rm -f /etc/apt/sources.list.d/pve-enterprise.list '' @ [BS],
      ''      /etc/apt/sources.list.d/pve-enterprise.sources '' @ [BS],
      ''      /etc/apt/sources.list.d/ceph.list '' @ [BS],
      ''      /etc/apt/sources.list.d/ceph.sources'',
      ''codename='' @ [DQ] @ ''$(. /etc/os-release && echo '' @ dq ''$VERSION_CODENAME'' @ '')'' @ [DQ],
      ''echo '' @ dq ''deb http://download.proxmox.com/debian/pve $codename pve-no-subscription'' @ '' '' @ [BS],
      ''  > /etc/apt/sources.list.d/pve-no-subscription.list'',
      ''export DEBIAN_FRONTEND=noninteractive'']"

definition APT_INSECURE :: string where
  "APT_INSECURE = unlines
     [''mkdir -p /etc/apt/apt.conf.d'',
      ''cat >'' @ APT_INSECURE_CONF @ '' <<'' @ [SQ] @ ''EOF'' @ [SQ],
      ''Acquire::https::Verify-Peer '' @ dq ''false'' @ '';'',
      ''Acquire::https::Verify-Host '' @ dq ''false'' @ '';'',
      ''EOF'']"

definition FIRST_BOOT_FOOTER :: string where
  "FIRST_BOOT_FOOTER = unlines
     [''rm -f '' @ PVE_FIRSTBOOT_SENTINEL,
      ''sync'',
      ''printf '' @ [SQ] @ ''TESTRANGE-RESULT: ok'' @ [BS] @ ''n'' @ [SQ] @ '' > '' @ SERIAL_DEVICE @ '' 2>/dev/null'',
      ''systemctl poweroff'']"

definition pip_install_lines :: "package list \<Rightarrow> string list" where
  "pip_install_lines pips =
     (let secure = concat (map pip_secure pips); insecure = concat (map pip_insecure pips) in
      (if secure \<noteq> [] then [PIP_CMD @ '' '' @ join '' '' secure] else []) @
      (if insecure \<noteq> [] then [PIP_CMD @ '' --trusted-host pypi.org --trusted-host files.pythonhosted.org '' @ join '' '' insecure] else []))"

definition first_boot_lines :: "proxmox_builder \<Rightarrow> string list" where
  "first_boot_lines B =
     (let apt_pkgs = concat (map apt_name (pb_packages B)) in
      [FIRST_BOOT_PROLOGUE, network_flip (pb_network_interface B), pin_mgmt_nic (pb_network_interface B), REPO_SWAP] @
      (if pb_apt_insecure B then [APT_INSECURE] else []) @
      [''apt-get update''] @
      (if apt_pkgs \<noteq> [] then [''apt-get install -y '' @ join '' '' apt_pkgs] else []) @
      pip_install_lines (pb_packages B) @ pb_commands B @
      (if pb_apt_insecure B then [''rm -f '' @ APT_INSECURE_CONF] else []) @
      [FIRST_BOOT_FOOTER])"

definition first_boot_script :: "proxmox_builder \<Rightarrow> string" where
  "first_boot_script B = unlines (first_boot_lines B) @ newline"

definition first_boot_digest :: "(string \<Rightarrow> string) \<Rightarrow> proxmox_builder \<Rightarrow> string" where
  "first_boot_digest sha B = sha (first_boot_script B)"

subsection \<open>The key and readiness\<close>

definition pve_combined :: "string \<Rightarrow> string \<Rightarrow> string \<Rightarrow> string \<Rightarrow> string \<Rightarrow> string \<Rightarrow> hex_digest \<Rightarrow> hex_digest \<Rightarrow> hex_digest \<Rightarrow> string" where
  "pve_combined settings fqdn pw keys network disks first_boot base_sha sidecar_sha =
     ''settings:'' @ settings @ newline @ ''---'' @ newline @ ''fqdn:'' @ fqdn @ newline @ ''---'' @ newline @
     ''root-password:'' @ pw @ newline @ ''---'' @ newline @ ''ssh-keys:'' @ keys @ newline @ ''---'' @ newline @
     ''network:'' @ newline @ network @ newline @ ''---'' @ newline @
     ''disks:'' @ disks @ newline @ ''---'' @ newline @ ''first-boot:'' @ first_boot @ newline @ ''---'' @ newline @
     ''base:'' @ base_sha @ newline @ ''---'' @ newline @ ''sidecar:'' @ sidecar_sha"

text \<open>An absent password would be printed as \<^verbatim>\<open>None\<close>; the constructor excludes it.\<close>

definition pve_config_text :: "(string \<Rightarrow> string) \<Rightarrow> proxmox_builder \<Rightarrow> vm_spec \<Rightarrow> (name, network_addressing) dict \<Rightarrow> string \<Rightarrow> string \<Rightarrow> string result" where
  "pve_config_text sha B s adr base_sha sidecar_sha =
     bindR (root_credential (pb_credentials B)) (\<lambda>c.
     bindR (network_block B s adr) (\<lambda>net.
     Inr (pve_combined (join ''|'' [pb_country B, pb_keyboard B, pb_timezone B, pb_fqdn_domain B, pb_mailto B])
       (vs_name s @ ''.'' @ pb_fqdn_domain B) (case password c of Some pw \<Rightarrow> pw | None \<Rightarrow> ''None'') (join ''|'' (baked_keys (pb_credentials B)))
       (unlines net) (pb_filesystem B @ '':'' @ pb_disk_device B @ '':'' @ string_of_int (disk_size_gb (os_drive s)))
       (take 24 (first_boot_digest sha B)) base_sha sidecar_sha)))"

definition pve_config_hash :: "(string \<Rightarrow> string) \<Rightarrow> proxmox_builder \<Rightarrow> vm_spec \<Rightarrow> (name, network_addressing) dict \<Rightarrow> string \<Rightarrow> string \<Rightarrow> string result" where
  "pve_config_hash sha B s adr base_sha sidecar_sha = bindR (pve_config_text sha B s adr base_sha sidecar_sha) (\<lambda>t. Inr (take 16 (sha t)))"

text \<open>Both installers ask for \<^verbatim>\<open>true\<close> over the transport.\<close>

definition installer_wait_ready :: "(string list \<Rightarrow> ('w, exec_result) eff) \<Rightarrow> ('w, unit) eff" where
  "installer_wait_ready execute =
     bindE (execute [''true'']) (\<lambda>r. if exit_code r \<noteq> 0 then throw (BuildNotReadyError [string_of_int (exit_code r), stderr r]) else ret ())"

subsection \<open>Preparing the installer image\<close>

definition PREPARE_ISO_RECIPE :: string where "PREPARE_ISO_RECIPE = ''grub-serial-console-v1''"
definition AUTO_INSTALLER_GRUB_TOKEN :: string where "AUTO_INSTALLER_GRUB_TOKEN = ''proxmox-start-auto-installer''"
definition GRUB_CFG_ISO_PATH :: string where "GRUB_CFG_ISO_PATH = ''/boot/grub/grub.cfg''"
definition SERIAL_CONSOLE :: string where "SERIAL_CONSOLE = ''console=ttyS0''"

definition auto_installer_mode_toml :: "string \<Rightarrow> string" where
  "auto_installer_mode_toml label = ''mode = '' @ dq ''partition'' @ newline @ ''partition_label = '' @ dq label @ newline"

definition auto_entry :: "string \<Rightarrow> bool" where
  "auto_entry line \<longleftrightarrow> contains_sub line AUTO_INSTALLER_GRUB_TOKEN \<and> startswith (lstrip line) ''linux''"

definition grub_line :: "string \<Rightarrow> string" where
  "grub_line line =
     (if auto_entry line \<and> \<not> contains_sub line SERIAL_CONSOLE
      then rstrip (replace_sub ''splash=silent'' ''splash=verbose'' (replace_sub '' quiet '' '' '' line)) @ '' console=ttyS0,115200''
      else line)"

definition grub_with_serial_console :: "string \<Rightarrow> string result" where
  "grub_with_serial_console grub_cfg =
     (if list_ex auto_entry (splitlines grub_cfg) then Inr (unlines (map grub_line (splitlines grub_cfg)) @ newline)
      else Inl (BuilderError [GRUB_CFG_ISO_PATH, AUTO_INSTALLER_GRUB_TOKEN]))"

definition extract_grub_cfg :: "tool \<Rightarrow> string \<Rightarrow> string \<Rightarrow> string \<Rightarrow> (files, bool) eff" where
  "extract_grub_cfg X xorriso vanilla dest =
     bindE (X [xorriso, ''-osirrox'', ''on'', ''-indev'', vanilla, ''-extract'', GRUB_CFG_ISO_PATH, dest]) (\<lambda>x.
     case x of NotStarted \<Rightarrow> throw (OSError [xorriso]) | Exited _ _ \<Rightarrow> getE (\<lambda>w. w dest \<noteq> None))"

definition pve_xorriso_cmd :: "string \<Rightarrow> string \<Rightarrow> string \<Rightarrow> string \<Rightarrow> string \<Rightarrow> string list \<Rightarrow> string list" where
  "pve_xorriso_cmd xorriso vanilla out mode_toml first_boot grub_map =
     [xorriso, ''-return_with'', ''FAILURE'', ''32'', ''-indev'', vanilla, ''-outdev'', out, ''-boot_image'', ''any'', ''keep'', ''-overwrite'', ''on'',
      ''-map'', mode_toml, ''/auto-installer-mode.toml'', ''-map'', first_boot, ''/proxmox-first-boot''] @ grub_map @ [''-commit'']"

text \<open>Running the tool with \<^verbatim>\<open>check=True\<close>.\<close>

definition run_checked :: "tool \<Rightarrow> string list \<Rightarrow> (files, unit) eff" where
  "run_checked X argv = bindE (X argv) (\<lambda>x. case x of
     NotStarted \<Rightarrow> throw (BuilderError [])
   | Exited code err \<Rightarrow> if code = 0 then ret () else throw (BuilderError [string_of_int code, lstrip (rstrip err)]))"

definition pve_grub_map :: "tool \<Rightarrow> string \<Rightarrow> string \<Rightarrow> string \<Rightarrow> (files, string list) eff" where
  "pve_grub_map X xorriso td vanilla =
     bindE (extract_grub_cfg X xorriso vanilla (under td ''grub-orig.cfg'')) (\<lambda>have_grub.
     if \<not> have_grub then ret [] else
     bindE (read_file (under td ''grub-orig.cfg'')) (\<lambda>g.
     bindE (liftR (grub_with_serial_console g)) (\<lambda>t.
     seqE (write_file (under td ''grub.cfg'') t) (ret [''-map'', under td ''grub.cfg'', GRUB_CFG_ISO_PATH]))))"

definition pve_prepare_iso :: "string option \<Rightarrow> tool \<Rightarrow> string \<Rightarrow> string \<Rightarrow> string \<Rightarrow> string \<Rightarrow> string \<Rightarrow> (files, unit) eff" where
  "pve_prepare_iso which X td vanilla out label script =
     (case which of None \<Rightarrow> throw (BuilderError [])
      | Some xorriso \<Rightarrow>
          seqE (unlink out)
          (finallyE
            (seqE (write_file (under td ''auto-installer-mode.toml'') (auto_installer_mode_toml label))
             (seqE (write_file (under td ''proxmox-first-boot'') script)
             (bindE (pve_grub_map X xorriso td vanilla) (\<lambda>grub_map.
              run_checked X (pve_xorriso_cmd xorriso vanilla out (under td ''auto-installer-mode.toml'') (under td ''proxmox-first-boot'') grub_map)))))
            (rmtree td)))"

definition NUL_CHAR :: string where "NUL_CHAR = [CHR 0x00]"

definition pve_prepared_path :: "(string \<Rightarrow> string) \<Rightarrow> proxmox_builder \<Rightarrow> string \<Rightarrow> string" where
  "pve_prepared_path sha B media =
     (let digest = take 16 (sha (first_boot_digest sha B @ NUL_CHAR @ pb_partition_label B @ NUL_CHAR @ PREPARE_ISO_RECIPE)) in
      under (path_parent media) (path_stem media @ ''-prepared-'' @ digest @ ''.iso''))"

definition pve_prepare_boot_media :: "(string \<Rightarrow> string) \<Rightarrow> string option \<Rightarrow> tool \<Rightarrow> string \<Rightarrow> string \<Rightarrow> proxmox_builder \<Rightarrow> string \<Rightarrow> (files, string) eff" where
  "pve_prepare_boot_media sha which X tmpdir td B media =
     prepared_once tmpdir (pve_prepared_path sha B media)
       (\<lambda>tmp. pve_prepare_iso which X td media tmp (pb_partition_label B) (first_boot_script B))"

subsection \<open>Reading a TOML string\<close>

text \<open>The reader of the language: a basic string up to its closing quote with the escapes of the language, and the rest. Raw control characters
  are an error.\<close>

definition hex_digit_val :: "char \<Rightarrow> nat option" where
  "hex_digit_val c =
     (if is_digit c then Some (of_char c - 48) else if CHR ''a'' \<le> c \<and> c \<le> CHR ''f'' then Some (of_char c - 87)
      else if CHR ''A'' \<le> c \<and> c \<le> CHR ''F'' then Some (of_char c - 55) else None)"

definition code_point :: "string \<Rightarrow> nat option" where
  "code_point s = foldl (\<lambda>a c. case (a, hex_digit_val c) of (Some n, Some d) \<Rightarrow> Some (16 * n + d) | _ \<Rightarrow> None) (Some 0) s"

definition simple_escape :: "char \<Rightarrow> char option" where
  "simple_escape c = map_of [(CHR ''b'', CHR 0x08), (CHR ''t'', CHR 0x09), (CHR ''n'', CHR 0x0A), (CHR ''f'', CHR 0x0C), (CHR ''r'', CHR 0x0D), (DQ, DQ), (BS, BS)] c"

definition push :: "char \<Rightarrow> (string \<times> string) option \<Rightarrow> (string \<times> string) option" where
  "push c r = map_option (\<lambda>(v, t). (c # v, t)) r"

fun toml_body :: "string \<Rightarrow> (string \<times> string) option" where
  "toml_body [] = None"
| "toml_body (c # s) =
     (if c = DQ then Some ([], s)
      else if c = BS then
        (case s of
           e # s' \<Rightarrow>
             (case simple_escape e of
                Some x \<Rightarrow> push x (toml_body s')
              | None \<Rightarrow>
                 (case s' of
                    h1 # h2 # h3 # h4 # s'' \<Rightarrow>
                      (case code_point [h1, h2, h3, h4] of
                         Some n \<Rightarrow> if e = CHR ''u'' \<and> n < 256 then push (char_of n) (toml_body s'') else None
                       | None \<Rightarrow> None)
                  | _ \<Rightarrow> None))
         | [] \<Rightarrow> None)
      else if control_char c \<and> c \<noteq> CHR 0x09 then None
      else push c (toml_body s))"

definition toml_string :: "string \<Rightarrow> (string \<times> string) option" where
  "toml_string s = (case s of c # s' \<Rightarrow> if c = DQ then toml_body s' else None | [] \<Rightarrow> None)"

text \<open>The escape of one character.\<close>

definition toml_char :: "char \<Rightarrow> string" where
  "toml_char c =
     (if c = BS then [BS, BS] else if c = DQ then [BS, DQ] else if c = CHR 0x0A then BS # ''n'' else if c = CHR 0x0D then BS # ''r''
      else if c = CHR 0x09 then BS # ''t'' else if control_char c then u_escape c else [c])"

lemma toml_str_chars: "toml_basic_str v = [DQ] @ concat (map toml_char v) @ [DQ]"
proof -
  have c: "concat (map f (replace_char x r s)) = concat (map (\<lambda>y. if y = x then concat (map f r) else f y) s)" for f :: "char \<Rightarrow> string" and x r s
    unfolding replace_char_def by (induction s) auto
  have r: "replace_char x r (replace_char y t s) = concat (map (\<lambda>z. if z = y then replace_char x r t else if z = x then r else [z]) s)" for x r y t s
    unfolding replace_char_def by (induction s) auto
  let ?u = "\<lambda>c. if control_char c then u_escape c else [c]"
  let ?v = "\<lambda>y. if y = BS then concat (map ?u [BS, BS]) else if y = DQ then concat (map ?u [BS, DQ]) else if y = CHR 0x0A then concat (map ?u (BS # ''n''))
    else if y = CHR 0x0D then concat (map ?u (BS # ''r'')) else if y = CHR 0x09 then concat (map ?u (BS # ''t'')) else ?u y"
  have "?v y = toml_char y" for y
    by (simp add: toml_char_def control_char_def BS_def DQ_def)
  moreover have "concat (map ?u (replace_char (CHR 0x09) (BS # ''t'') (replace_char (CHR 0x0D) (BS # ''r'') (replace_char (CHR 0x0A) (BS # ''n'')
      (replace_char DQ [BS, DQ] (replace_char BS [BS, BS] v)))))) = concat (map ?v v)"
    unfolding c by (induction v) (auto simp: BS_def DQ_def)
  ultimately show ?thesis unfolding toml_basic_str_def Let_def by simp
qed

lemma code_point_hex2:
  "code_point (''00'' @ hex2 (of_char c)) = Some (of_char (c :: char))"
proof -
  have h: "hex_digit_val (hex_digit n) = Some n" if "n < 16" for n
  proof -
    have "list_all (\<lambda>n. hex_digit_val (hex_digit n) = Some n) [0..<16]" by code_simp
    then show ?thesis using that by (simp add: list_all_iff)
  qed
  have "of_char c div 16 < (16 :: nat)" by (rule less_mult_imp_div_less) simp
  then have d: "of_char c div 16 mod 16 = (of_char c div 16 :: nat)" by (rule mod_less)
  have z: "hex_digit_val (CHR ''0'') = Some 0" by code_simp
  show ?thesis unfolding hex2_def d using h [of "of_char c div 16"] h [of "of_char c mod 16"] \<open>of_char c div 16 < 16\<close> by (simp add: code_point_def z)
qed

lemma toml_body_char: "toml_body (toml_char c @ r) = push c (toml_body r)"
proof -
  have e: "simple_escape BS = Some BS" "simple_escape DQ = Some DQ" "simple_escape (CHR ''n'') = Some (CHR 0x0A)" "simple_escape (CHR ''r'') = Some (CHR 0x0D)"
    "simple_escape (CHR ''t'') = Some (CHR 0x09)" "simple_escape (CHR ''u'') = None" "BS \<noteq> DQ" by code_simp+
  have t: "toml_char BS = [BS, BS]" "toml_char DQ = [BS, DQ]" "toml_char (CHR 0x0A) = [BS, CHR ''n'']" "toml_char (CHR 0x0D) = [BS, CHR ''r'']"
    "toml_char (CHR 0x09) = [BS, CHR ''t'']" by code_simp+
  obtain h1 h2 where h: "hex2 (of_char c) = [h1, h2]" by (simp add: hex2_def)
  have cp: "code_point [CHR ''0'', CHR ''0'', h1, h2] = Some (of_char c)" using code_point_hex2 [of c] h by simp
  consider "c = BS" | "c = DQ" | "c = CHR 0x0A" | "c = CHR 0x0D" | "c = CHR 0x09"
    | (plain) "c \<noteq> BS" "c \<noteq> DQ" "c \<noteq> CHR 0x0A" "c \<noteq> CHR 0x0D" "c \<noteq> CHR 0x09" by blast
  then show ?thesis
  proof cases
    case plain
    then show ?thesis using e h cp by (simp add: toml_char_def u_escape_def)
  qed (simp_all add: t e)
qed

lemma toml_string_roundtrip: "toml_string (toml_basic_str v @ t) = Some (v, t)"
proof -
  have "toml_body (concat (map toml_char v) @ DQ # t) = Some (v, t)"
    by (induction v) (simp_all add: toml_body_char push_def)
  then show ?thesis by (simp add: toml_str_chars toml_string_def)
qed

lemma toml_char_newline: "CHR 0x0A \<notin> set (toml_char c)"
proof -
  have d: "CHR 0x0A \<noteq> hex_digit n" if "n < 16" for n
  proof -
    have "list_all (\<lambda>n. CHR 0x0A \<noteq> hex_digit n) [0..<16]" by code_simp
    then show ?thesis using that by (simp add: list_all_iff)
  qed
  have "CHR 0x0A \<noteq> BS" "CHR 0x0A \<noteq> DQ" by (simp_all add: BS_def DQ_def)
  then show ?thesis using d by (auto simp: toml_char_def u_escape_def hex2_def)
qed

lemma toml_str_newline: "CHR 0x0A \<notin> set (toml_basic_str v)"
  using toml_char_newline by (auto simp: toml_str_chars DQ_def)

subsection \<open>Reading the answer file\<close>

datatype toml_val = TStr string | TList "string list"

lemma push_Some: "push c r = Some (v, t) \<longleftrightarrow> (\<exists>u. r = Some (u, t) \<and> v = c # u)"
  by (auto simp: push_def)

lemma toml_body_shorter: "toml_body s = Some (v, t) \<Longrightarrow> length t < length s"
proof (induction s arbitrary: v rule: length_induct)
  case (1 s)
  show ?case
  proof (cases s)
    case Nil
    then show ?thesis using "1.prems" by simp
  next
    case (Cons c s')
    have "t = s' \<or> (\<exists>u r. toml_body r = Some (u, t) \<and> length r < length s)"
      using "1.prems" unfolding Cons
      by (subst (asm) toml_body.simps(2)) (fastforce simp: push_Some simp del: toml_body.simps split: if_splits list.splits option.splits)
    then show ?thesis using 1 Cons by (auto dest: less_trans)
  qed
qed

lemma toml_string_shorter: "toml_string s = Some (v, t) \<Longrightarrow> length t < length s"
  using toml_body_shorter by (fastforce simp: toml_string_def split: list.splits if_splits)

function toml_array :: "string \<Rightarrow> string list option" where
  "toml_array s = (case toml_string s of
     None \<Rightarrow> None
   | Some (v, t) \<Rightarrow> if t = '']'' then Some [v] else if startswith t '', '' then map_option (Cons v) (toml_array (drop 2 t)) else None)"
  by pat_completeness auto

termination
  by (relation "measure length") (auto dest!: toml_string_shorter)

declare toml_array.simps [simp del]

definition toml_value :: "string \<Rightarrow> toml_val option" where
  "toml_value s =
     (if startswith s ''['' then map_option TList (toml_array (tl s))
      else case toml_string s of Some (v, []) \<Rightarrow> Some (TStr v) | _ \<Rightarrow> None)"

definition toml_pair :: "string \<Rightarrow> (string \<times> toml_val) option" where
  "toml_pair l =
     (let k = takeWhile (\<lambda>c. c \<noteq> CHR '' '') l; r = dropWhile (\<lambda>c. c \<noteq> CHR '' '') l in
      if startswith r '' = '' then map_option (Pair k) (toml_value (drop 3 r)) else None)"

fun toml_lines :: "string \<Rightarrow> string list \<Rightarrow> (string \<times> string \<times> toml_val) list option" where
  "toml_lines sec [] = Some []"
| "toml_lines sec (l # ls) =
     (if l = [] then toml_lines sec ls
      else if hd l = CHR ''['' then (if last l = CHR '']'' then toml_lines (butlast (tl l)) ls else None)
      else case toml_pair l of Some kv \<Rightarrow> map_option (Cons (sec, kv)) (toml_lines sec ls) | None \<Rightarrow> None)"

definition read_toml :: "string \<Rightarrow> (string \<times> string \<times> toml_val) list option" where
  "read_toml t = toml_lines [] (split_on (CHR 0x0A) t)"

text \<open>The settings the answer file is to carry.\<close>

definition network_settings :: "proxmox_builder \<Rightarrow> vm_spec \<Rightarrow> (name, network_addressing) dict \<Rightarrow> (string \<times> toml_val) list result" where
  "network_settings B s adr =
     (case map nic_addr (nics s) of
        Some (StaticAddr sa) # _ \<Rightarrow>
          (let sub = map_of adr (handle_str (nic_network (hd (nics s)))) in
           bindR (static_cidr sa (map_option na_prefix_len sub)) (\<lambda>cidr.
           Inr ([(''source'', TStr ''from-answer''), (''cidr'', TStr cidr)] @
             map (\<lambda>g. (''gateway'', TStr g)) (case nic_gateway sa sub of Some g \<Rightarrow> [g] | None \<Rightarrow> []) @
             map (\<lambda>d. (''dns'', TStr d)) (take 1 (nic_dns sa sub)) @
             [(''filter.ID_NET_NAME'', TStr (pb_network_interface B))])))
      | _ \<Rightarrow> Inr [(''source'', TStr ''from-dhcp'')])"

definition global_settings :: "proxmox_builder \<Rightarrow> name \<Rightarrow> string \<Rightarrow> (string \<times> toml_val) list" where
  "global_settings B n pw =
     [(''country'', TStr (pb_country B)), (''keyboard'', TStr (pb_keyboard B)), (''timezone'', TStr (pb_timezone B)), (''fqdn'', TStr (n @ ''.'' @ pb_fqdn_domain B)),
      (''mailto'', TStr (pb_mailto B)), (''root-password'', TStr pw)] @
     (if baked_keys (pb_credentials B) = [] then [] else [(''root-ssh-keys'', TList (baked_keys (pb_credentials B)))])"

fun toml_line :: "string \<times> toml_val \<Rightarrow> string" where
  "toml_line (k, TStr v) = k @ '' = '' @ toml_basic_str v"
| "toml_line (k, TList vs) = k @ '' = ['' @ join '', '' (map toml_basic_str vs) @ '']''"

fun plain_setting :: "string \<times> toml_val \<Rightarrow> bool" where
  "plain_setting (k, v) \<longleftrightarrow> k \<noteq> [] \<and> hd k \<noteq> CHR ''['' \<and> CHR '' '' \<notin> set k \<and> CHR 0x0A \<notin> set k \<and> v \<noteq> TList []"

lemma toml_array_join:
  "vs \<noteq> [] \<Longrightarrow> toml_array (join '', '' (map toml_basic_str vs) @ '']'') = Some vs"
proof (induction vs)
  case (Cons v vs)
  show ?case
  proof (cases vs)
    case Nil
    then show ?thesis by (simp add: toml_array.simps toml_string_roundtrip)
  next
    case (Cons u us)
    then have "toml_array (join '', '' (map toml_basic_str vs) @ '']'') = Some vs" using Cons.IH by simp
    moreover have "join '', '' (map toml_basic_str (v # vs)) = toml_basic_str v @ '', '' @ join '', '' (map toml_basic_str vs)" using Cons by simp
    ultimately show ?thesis by (subst toml_array.simps) (simp add: toml_string_roundtrip startswith_def)
  qed
qed simp

lemma toml_pair_line:
  assumes "plain_setting kv"
  shows "toml_pair (toml_line kv) = Some kv" "toml_line kv \<noteq> []" "hd (toml_line kv) \<noteq> CHR ''[''" "CHR 0x0A \<notin> set (toml_line kv)"
proof -
  obtain k v where kv: "kv = (k, v)" by (cases kv)
  have k: "takeWhile (\<lambda>c. c \<noteq> CHR '' '') (k @ CHR '' '' # t) = k" "dropWhile (\<lambda>c. c \<noteq> CHR '' '') (k @ CHR '' '' # t) = CHR '' '' # t" for t
    using assms kv by (simp_all add: takeWhile_append dropWhile_append)
  have s: "\<not> startswith (toml_basic_str x) ''[''" "toml_string (toml_basic_str x) = Some (x, [])" for x
    using toml_string_roundtrip [of x "[]"] by (simp_all add: toml_str_chars startswith_def DQ_def)
  show "toml_pair (toml_line kv) = Some kv"
    using assms kv k s toml_array_join by (cases v) (simp_all add: toml_pair_def toml_value_def startswith_def Let_def)
  show "toml_line kv \<noteq> []" "hd (toml_line kv) \<noteq> CHR ''[''" using assms kv by (cases v; simp)+
  have "CHR 0x0A \<notin> set (join '', '' (map toml_basic_str vs))" for vs
    using join_chars [of "CHR 0x0A" "'', ''" "map toml_basic_str vs"] toml_str_newline by auto
  then show "CHR 0x0A \<notin> set (toml_line kv)" using assms kv toml_str_newline by (cases v) simp_all
qed

lemma toml_lines_settings:
  "list_all plain_setting kvs \<Longrightarrow> toml_lines sec (map toml_line kvs @ ls) = map_option (append (map (Pair sec) kvs)) (toml_lines sec ls)"
proof (induction kvs)
  case Nil then show ?case by (simp add: option.map_ident)
next
  case (Cons kv kvs)
  have p: "plain_setting kv" using Cons.prems by simp
  show ?case using Cons toml_pair_line [OF p] by (cases "toml_lines sec ls") simp_all
qed

lemma network_block_settings:
  "network_block B s adr = bindR (network_settings B s adr) (\<lambda>kvs. Inr (map toml_line kvs))"
proof -
  have t: "toml_basic_str ''from-dhcp'' = [DQ] @ ''from-dhcp'' @ [DQ]" "toml_basic_str ''from-answer'' = [DQ] @ ''from-answer'' @ [DQ]" by code_simp+
  show ?thesis
    by (cases "nics s")
      (auto simp: network_block_def network_settings_def t Let_def bindR_def split: option.splits addr_mode.splits sum.splits list.splits)
qed

lemma network_settings_plain:
  "network_settings B s adr = Inr kvs \<Longrightarrow> list_all plain_setting kvs"
  by (auto simp: network_settings_def Let_def bindR_def list.pred_map comp_def list.pred_True split: option.splits addr_mode.splits sum.splits list.splits)

lemma global_block_settings: "global_block B n pw = map toml_line (global_settings B n pw)"
  by (simp add: global_block_def global_settings_def)

lemma global_settings_plain: "list_all plain_setting (global_settings B n pw)"
  by (simp add: global_settings_def)

definition disk_settings :: "proxmox_builder \<Rightarrow> (string \<times> toml_val) list" where
  "disk_settings B = [(''filesystem'', TStr (pb_filesystem B)), (''disk-list'', TList [pb_disk_device B])]"

definition boot_settings :: "(string \<times> toml_val) list" where
  "boot_settings = [(''source'', TStr ''from-iso''), (''ordering'', TStr ''network-online'')]"

lemma answer_lines:
  assumes "root_password B = Inr pw" "network_settings B s adr = Inr net"
  shows "build_answer_toml B s adr = Inr (unlines ([''[global]''] @ map toml_line (global_settings B (vs_name s) pw) @ [[], ''[network]''] @ map toml_line net @
    [[], ''[disk-setup]''] @ map toml_line (disk_settings B) @ [[], ''[first-boot]''] @ map toml_line boot_settings) @ newline)"
proof -
  have t: "toml_basic_str ''from-iso'' = [DQ] @ ''from-iso'' @ [DQ]" "toml_basic_str ''network-online'' = [DQ] @ ''network-online'' @ [DQ]" by code_simp+
  show ?thesis
    unfolding build_answer_toml_def network_block_settings assms bindR_simps global_block_settings disk_settings_def boot_settings_def by (simp add: t)
qed

lemma split_unlines:
  assumes "\<forall>l \<in> set ls. CHR 0x0A \<notin> set l" "ls \<noteq> []"
  shows "split_on (CHR 0x0A) (unlines ls @ newline) = ls @ [[]]"
proof -
  have "unlines ls @ newline = join [CHR 0x0A] (ls @ [[]])" using join_snoc_Nil [OF assms(2)] by (simp add: unlines_def newline_def)
  then show ?thesis using split_on_join [of "ls @ [[]]" "CHR 0x0A"] assms by simp
qed

text \<open>C37: The auto-installer reads the answer file as exactly the settings of the builder: whatever characters the root password, the keys,
  the domain or the other settings contain (quotes, backslashes, newlines, control characters), a TOML reader gets each of them back unchanged,
  under its own key in its own section, and no other setting.\<close>

theorem answer_file_is_exact:
  assumes "build_answer_toml B s adr = Inr t"
  shows "\<exists>pw net. root_password B = Inr pw \<and> network_settings B s adr = Inr net \<and>
    read_toml t = Some (map (Pair ''global'') (global_settings B (vs_name s) pw) @ map (Pair ''network'') net @
      map (Pair ''disk-setup'') (disk_settings B) @ map (Pair ''first-boot'') boot_settings)"
proof -
  obtain pw net where p: "root_password B = Inr pw" "network_settings B s adr = Inr net"
    using assms by (auto simp: build_answer_toml_def network_block_settings bindR_Inr_iff)
  let ?g = "global_settings B (vs_name s) pw"
  let ?ls = "[''[global]''] @ map toml_line ?g @ [[], ''[network]''] @ map toml_line net @
    [[], ''[disk-setup]''] @ map toml_line (disk_settings B) @ [[], ''[first-boot]''] @ map toml_line boot_settings"
  have plain: "list_all plain_setting ?g" "list_all plain_setting net" "list_all plain_setting (disk_settings B)" "list_all plain_setting boot_settings"
    using global_settings_plain network_settings_plain [OF p(2)] by (simp_all add: disk_settings_def boot_settings_def)
  then have "\<forall>kvs \<in> {?g, net, disk_settings B, boot_settings}. \<forall>l \<in> set (map toml_line kvs). CHR 0x0A \<notin> set l"
    using toml_pair_line(4) by (auto simp: list_all_iff)
  then have "\<forall>l \<in> set ?ls. CHR 0x0A \<notin> set l" by auto
  then have "split_on (CHR 0x0A) (unlines ?ls @ newline) = ?ls @ [[]]" by (rule split_unlines) simp
  moreover have "t = unlines ?ls @ newline" using assms answer_lines [OF p] by simp
  ultimately have r: "read_toml t = toml_lines [] (?ls @ [[]])" by (simp only: read_toml_def)
  have head: "toml_lines sec (''[global]'' # ls) = toml_lines ''global'' ls" "toml_lines sec (''[network]'' # ls) = toml_lines ''network'' ls"
    "toml_lines sec (''[disk-setup]'' # ls) = toml_lines ''disk-setup'' ls" "toml_lines sec (''[first-boot]'' # ls) = toml_lines ''first-boot'' ls"
    "toml_lines sec ([] # ls) = toml_lines sec ls" for sec ls by simp_all
  have "read_toml t = Some (map (Pair ''global'') ?g @ map (Pair ''network'') net @ map (Pair ''disk-setup'') (disk_settings B) @ map (Pair ''first-boot'') boot_settings)"
    unfolding r append_assoc append_Cons append_Nil by (simp only: head toml_lines_settings [OF plain(1)] toml_lines_settings [OF plain(2)] toml_lines_settings [OF plain(3)]
      toml_lines_settings [OF plain(4)] toml_lines.simps(1) option.map append_Nil2)
  then show ?thesis using p by blast
qed

definition sample_pve :: "string \<Rightarrow> proxmox_builder" where
  "sample_pve pw = \<lparr>pb_installer_iso = ''pve.iso'',
     pb_credentials = [Posix \<lparr>username = ''root'', admin = True, password = Some pw, pc_ssh_key = None, groups = []\<rparr>],
     pb_packages = [], pb_commands = [], pb_country = ''us'', pb_keyboard = ''en-us'', pb_timezone = ''UTC'', pb_fqdn_domain = ''testrange.local'',
     pb_mailto = ''root@testrange.local'', pb_filesystem = ''ext4'', pb_disk_device = ''vda'', pb_partition_label = ''PROXMOX-AIS'',
     pb_network_interface = ''enp1s0'', pb_apt_insecure = False\<rparr>"

definition NASTY :: string where
  "NASTY = [DQ, CHR 0x0A] @ ''[global]'' @ [BS, CHR 0x0B]"

theorem answer_file_is_exact_witness:
  "\<exists>t. build_answer_toml (sample_pve NASTY) (sample_spec 8) [] = Inr t \<and>
     map_option (map (snd \<circ> snd) \<circ> filter (\<lambda>x. fst (snd x) = ''root-password'')) (read_toml t) = Some [TStr NASTY]"
proof -
  have "\<not> isl (build_answer_toml (sample_pve NASTY) (sample_spec 8) [])" by code_simp
  then obtain t where t: "build_answer_toml (sample_pve NASTY) (sample_spec 8) [] = Inr t" by (metis isl_def sum.collapse(2))
  have p: "root_password (sample_pve NASTY) = Inr NASTY" by code_simp
  have n: "network_settings (sample_pve NASTY) (sample_spec 8) [] = Inr [(''source'', TStr ''from-dhcp'')]" by code_simp
  have k: "baked_keys (pb_credentials (sample_pve NASTY)) = []" by code_simp
  from answer_file_is_exact [OF t] obtain pw net where e: "root_password (sample_pve NASTY) = Inr pw" "network_settings (sample_pve NASTY) (sample_spec 8) [] = Inr net"
    and r: "read_toml t = Some (map (Pair ''global'') (global_settings (sample_pve NASTY) (vs_name (sample_spec 8)) pw) @ map (Pair ''network'') net @
      map (Pair ''disk-setup'') (disk_settings (sample_pve NASTY)) @ map (Pair ''first-boot'') boot_settings)" by blast
  have pw: "pw = NASTY" and net: "net = [(''source'', TStr ''from-dhcp'')]" using e p n by simp_all
  have "map (snd \<circ> snd) (filter (\<lambda>x. fst (snd x) = ''root-password'') (map (Pair ''global'') (global_settings (sample_pve NASTY) (vs_name (sample_spec 8)) NASTY) @
      map (Pair ''network'') [(''source'', TStr ''from-dhcp'')] @ map (Pair ''disk-setup'') (disk_settings (sample_pve NASTY)) @ map (Pair ''first-boot'') boot_settings)) = [TStr NASTY]"
    by (simp add: global_settings_def disk_settings_def boot_settings_def k)
  then have "map_option (map (snd \<circ> snd) \<circ> filter (\<lambda>x. fst (snd x) = ''root-password'')) (read_toml t) = Some [TStr NASTY]"
    unfolding r pw net option.map comp_apply by (rule arg_cong)
  with t show ?thesis by (intro exI conjI)
qed

lemma root_found:
  assumes "root_with_password cs = Inr c"
  shows "root_credential cs = Inr c \<and> c \<in> set (posix_creds cs) \<and> (\<exists>pw. password c = Some pw \<and> pw \<noteq> [])"
proof -
  have "first_named cs ''root'' = Some (Posix c) \<Longrightarrow> root_credential cs = Inr c \<and> Posix c \<in> set cs"
    unfolding first_named_def by (induction cs rule: root_credential.induct) (auto split: if_splits)
  moreover have "first_named cs ''root'' = Some (Posix c)" "\<exists>x xs. password c = Some (x # xs)"
    using assms by (auto simp: root_with_password_def split: option.splits credential.splits list.splits)
  ultimately show ?thesis by (force simp: posix_creds_def)
qed

text \<open>A constructed builder has a root password, so the answer file fails only on an address that does not fit its network.\<close>

lemma constructed_root_password:
  assumes "ProxmoxAnswerBuilder B = Inr B'"
  shows "B' = B \<and> (\<exists>pw. root_password B = Inr pw \<and> pw \<noteq> [])"
proof -
  obtain c where c: "root_with_password (pb_credentials B) = Inr c" and "B' = B"
    using assms by (cases "root_with_password (pb_credentials B)") (simp_all add: ProxmoxAnswerBuilder_def guardR_def split: if_splits)
  then show ?thesis using root_found [OF c] by (auto simp: root_password_def)
qed

subsection \<open>Rewriting the boot menu\<close>

text \<open>A replacement keeps a token that cannot overlap an occurrence of the pattern.\<close>

definition either_starts :: "string \<Rightarrow> string \<Rightarrow> bool" where
  "either_starts x y \<longleftrightarrow> startswith x y \<or> startswith y x"

definition never_starts :: "string \<Rightarrow> string \<Rightarrow> bool" where
  "never_starts tok old \<longleftrightarrow> list_all (\<lambda>k. \<not> either_starts (drop k tok) old) [0..<length tok]"

definition clash_free :: "string \<Rightarrow> string \<Rightarrow> bool" where
  "clash_free tok old \<longleftrightarrow> never_starts tok old \<and> list_all (\<lambda>k. \<not> either_starts (drop k old) tok) [1..<length old]"

lemma startswith_either: "startswith (x @ y) p \<Longrightarrow> either_starts x p"
  by (auto simp: either_starts_def startswith_iff append_eq_append_conv2)

lemma replace_sub_Cons:
  "old \<noteq> [] \<Longrightarrow> replace_sub old new (c # s) =
     (if startswith (c # s) old then new @ replace_sub old new (drop (length old) (c # s)) else c # replace_sub old new s)"
  by (subst replace_sub.simps) simp

lemma replace_sub_walk:
  assumes "never_starts tok old" "old \<noteq> []"
  shows "replace_sub old new (tok @ b) = tok @ replace_sub old new b"
proof -
  have "list_all (\<lambda>k. \<not> either_starts (drop k t) old) [0..<length t] \<Longrightarrow> replace_sub old new (t @ b) = t @ replace_sub old new b" for t
  proof (induction t)
    case (Cons c t)
    have h: "\<not> either_starts (drop k (c # t)) old" if "k \<le> length t" for k using Cons.prems that by (simp add: list_all_iff del: upt_Suc)
    have "\<not> startswith (c # t @ b) old" using startswith_either [of "c # t" b old] h [of 0] by auto
    moreover have "\<not> either_starts (drop k t) old" if "k < length t" for k using h [of "Suc k"] that by simp
    then have "list_all (\<lambda>k. \<not> either_starts (drop k t) old) [0..<length t]" by (simp add: list_all_iff)
    ultimately show ?case using Cons.IH assms(2) by (simp add: replace_sub_Cons)
  qed simp
  then show ?thesis using assms(1) by (simp add: never_starts_def)
qed

lemma replace_sub_keeps:
  assumes "clash_free tok old" "old \<noteq> []"
  shows "\<exists>a' b'. replace_sub old new (a @ tok @ b) = a' @ tok @ b'"
proof (induction a rule: length_induct)
  case (1 a)
  have w: "replace_sub old new (tok @ b) = tok @ replace_sub old new b"
    using assms by (intro replace_sub_walk) (simp_all add: clash_free_def)
  show ?case
  proof (cases a)
    case Nil
    then show ?thesis using w by (metis append_Nil)
  next
    case (Cons c a2)
    show ?thesis
    proof (cases "startswith (a @ tok @ b) old")
      case True
      have "length old \<le> length a"
      proof (rule ccontr)
        assume n: "\<not> length old \<le> length a"
        then have "startswith (tok @ b) (drop (length a) old)" using True by (metis append_eq_append_conv_if append_take_drop_id drop_append startswith_iff)
        then have "either_starts (drop (length a) old) tok" using startswith_either [of tok b] by (auto simp: either_starts_def)
        moreover have "length a \<in> set [1..<length old]" using Cons n by simp
        ultimately show False using assms(1) by (auto simp only: clash_free_def list_all_iff)
      qed
      then have "drop (length old) (a @ tok @ b) = drop (length old) a @ tok @ b" by simp
      moreover have "length (drop (length old) a) < length a" using assms(2) Cons by simp
      ultimately obtain a' b' where "replace_sub old new (drop (length old) (a @ tok @ b)) = a' @ tok @ b'" using 1 by metis
      moreover have "replace_sub old new (a @ tok @ b) = new @ replace_sub old new (drop (length old) (a @ tok @ b))"
        using True Cons assms(2) by (subst replace_sub.simps) simp
      ultimately show ?thesis by (metis append_assoc)
    next
      case False
      obtain a' b' where "replace_sub old new (a2 @ tok @ b) = a' @ tok @ b'" using 1 Cons by (metis impossible_Cons linorder_not_le)
      then have "replace_sub old new (a @ tok @ b) = (c # a') @ tok @ b'" using False Cons assms(2) by (simp add: replace_sub_Cons)
      then show ?thesis by blast
    qed
  qed
qed

lemma contains_sub_iff: "contains_sub s p \<longleftrightarrow> (\<exists>a b. s = a @ p @ b)"
proof -
  have "find_from p s i \<noteq> None \<longleftrightarrow> (\<exists>a b. s = a @ p @ b)" for i
  proof (induction s arbitrary: i)
    case Nil then show ?case by auto
  next
    case (Cons c s)
    have "(\<exists>a b. c # s = a @ p @ b) \<longleftrightarrow> startswith (c # s) p \<or> (\<exists>a b. s = a @ p @ b)"
      by (auto simp: startswith_iff Cons_eq_append_conv)
    then show ?case using Cons.IH by simp
  qed
  then show ?thesis by (simp add: contains_sub_def find_sub_def)
qed

lemma rstrip_keeps:
  assumes "\<not> is_space (last tok)" "tok \<noteq> []"
  shows "\<exists>b'. rstrip (a @ tok @ b) = a @ tok @ b'"
proof -
  obtain t c where t: "tok = t @ [c]" "\<not> is_space c" using assms by (metis append_butlast_last_id)
  have "dropWhile is_space (rev b @ c # u) = dropWhile is_space (rev b) @ c # u" for u
    using t(2) by (cases "\<forall>x \<in> set (rev b). is_space x") (simp_all add: dropWhile_append dropWhile_eq_Nil_conv)
  then show ?thesis by (simp add: rstrip_def t(1))
qed

lemma lstrip_linux: "startswith (lstrip s) ''linux'' \<longleftrightarrow> (\<exists>ws r. (\<forall>c \<in> set ws. is_space c) \<and> s = ws @ ''linux'' @ r)"
proof
  assume "startswith (lstrip s) ''linux''"
  then obtain r where "lstrip s = ''linux'' @ r" by (auto simp: startswith_iff)
  then have "s = takeWhile is_space s @ ''linux'' @ r" by (metis lstrip_def takeWhile_dropWhile_id)
  then show "\<exists>ws r. (\<forall>c \<in> set ws. is_space c) \<and> s = ws @ ''linux'' @ r" using set_takeWhileD by metis
next
  assume "\<exists>ws r. (\<forall>c \<in> set ws. is_space c) \<and> s = ws @ ''linux'' @ r"
  then obtain ws r where "\<forall>c \<in> set ws. is_space c" "s = ws @ ''linux'' @ r" by blast
  moreover have "\<not> is_space (CHR ''l'')" by code_simp
  ultimately have "lstrip s = ''linux'' @ r" by (simp add: lstrip_def dropWhile_append)
  then show "startswith (lstrip s) ''linux''" by (simp only: startswith_append)
qed

lemma replace_sub_indent:
  assumes "old = p # q # u" "\<not> is_space p \<or> \<not> is_space q \<and> q \<noteq> CHR ''l''" "never_starts ''linux'' old" "\<forall>c \<in> set ws. is_space c"
  shows "replace_sub old new (ws @ ''linux'' @ r) = ws @ ''linux'' @ replace_sub old new r"
  using assms(4)
proof (induction ws)
  case Nil
  then show ?case using replace_sub_walk [OF assms(3)] assms(1) by simp
next
  case (Cons c ws)
  have "\<not> startswith (c # ws @ ''linux'' @ r) old"
    using assms(1,2) Cons.prems by (cases ws) (auto simp: startswith_iff)
  then show ?case using Cons assms(1) by (simp add: replace_sub_Cons)
qed

lemma replace_sub_linux:
  assumes "old = p # q # u" "\<not> is_space p \<or> \<not> is_space q \<and> q \<noteq> CHR ''l''" "never_starts ''linux'' old" "startswith (lstrip s) ''linux''"
  shows "startswith (lstrip (replace_sub old new s)) ''linux''"
  using assms(4) replace_sub_indent [OF assms(1-3)] unfolding lstrip_linux by blast

lemma replace_sub_contains:
  "clash_free tok old \<Longrightarrow> old \<noteq> [] \<Longrightarrow> contains_sub s tok \<Longrightarrow> contains_sub (replace_sub old new s) tok"
  unfolding contains_sub_iff using replace_sub_keeps by blast

lemma rstrip_contains:
  "tok \<noteq> [] \<Longrightarrow> \<not> is_space (last tok) \<Longrightarrow> contains_sub s tok \<Longrightarrow> contains_sub (rstrip s @ t) tok"
  unfolding contains_sub_iff using rstrip_keeps by (metis append_assoc)

lemma rstrip_linux: "startswith (lstrip s) ''linux'' \<Longrightarrow> startswith (lstrip (rstrip s @ t)) ''linux''"
proof -
  have x: "\<not> is_space (last ''linux'')" "''linux'' \<noteq> []" by code_simp+
  assume "startswith (lstrip s) ''linux''"
  then obtain ws r where ws: "\<forall>c \<in> set ws. is_space c" "s = ws @ ''linux'' @ r" unfolding lstrip_linux by blast
  from rstrip_keeps [OF x, of ws r] obtain r' where "rstrip s @ t = ws @ ''linux'' @ r' @ t" unfolding ws(2) by auto
  then show ?thesis unfolding lstrip_linux using ws(1) by blast
qed

text \<open>A rewritten entry is still an entry, and it names the serial console.\<close>

lemma grub_line_entry:
  assumes "auto_entry l"
  shows "auto_entry (grub_line l) \<and> contains_sub (grub_line l) SERIAL_CONSOLE"
proof (cases "contains_sub l SERIAL_CONSOLE")
  case True
  then show ?thesis using assms by (simp add: grub_line_def)
next
  case False
  let ?q = "'' quiet ''" and ?s = "''splash=silent''" and ?T = AUTO_INSTALLER_GRUB_TOKEN and ?c = "'' console=ttyS0,115200''"
  let ?b = "replace_sub ?s ''splash=verbose'' (replace_sub ?q '' '' l)"
  have g: "grub_line l = rstrip ?b @ ?c" using assms False by (simp add: grub_line_def)
  have cf: "clash_free ?T ?q" "clash_free ?T ?s" "never_starts ''linux'' ?q" "never_starts ''linux'' ?s" "?T \<noteq> []" "\<not> is_space (last ?T)"
    and p: "\<not> is_space (CHR '' '') \<or> \<not> is_space (CHR ''q'') \<and> CHR ''q'' \<noteq> CHR ''l''" "\<not> is_space (CHR ''s'') \<or> \<not> is_space (CHR ''p'') \<and> CHR ''p'' \<noteq> CHR ''l''"
    and ne: "?q \<noteq> []" "?s \<noteq> []" by code_simp+
  have e: "contains_sub l ?T" "startswith (lstrip l) ''linux''" using assms by (simp_all only: auto_entry_def)
  have "contains_sub (grub_line l) ?T" unfolding g
    by (rule rstrip_contains [OF cf(5,6) replace_sub_contains [OF cf(2) ne(2) replace_sub_contains [OF cf(1) ne(1) e(1)]]])
  moreover have "startswith (lstrip (grub_line l)) ''linux''" unfolding g
    by (rule rstrip_linux [OF replace_sub_linux [OF refl p(2) cf(4) replace_sub_linux [OF refl p(1) cf(3) e(2)]]])
  moreover have "rstrip ?b @ ?c = (rstrip ?b @ '' '') @ SERIAL_CONSOLE @ '',115200''" by (simp add: SERIAL_CONSOLE_def)
  then have "contains_sub (grub_line l) SERIAL_CONSOLE" unfolding g contains_sub_iff by (intro exI)
  ultimately show ?thesis by (simp only: auto_entry_def simp_thms)
qed

lemma grub_line_idem: "grub_line (grub_line l) = grub_line l"
  using grub_line_entry [of l] by (cases "auto_entry l") (simp_all add: grub_line_def [of "grub_line l"], simp add: grub_line_def)

lemma grub_line_no_break:
  assumes "list_all (\<lambda>c. \<not> is_linebreak c) l"
  shows "list_all (\<lambda>c. \<not> is_linebreak c) (grub_line l)"
proof -
  have r: "set (replace_sub old new s) \<subseteq> set new \<union> set s" for old new s
  proof (induction old new s rule: replace_sub.induct)
    case (1 old new s)
    show ?case using 1 set_drop_subset [of "length old" s] by (subst replace_sub.simps) (auto dest: list.set_sel)
  qed
  have s: "set (rstrip x) \<subseteq> set x" for x unfolding rstrip_def using set_dropWhileD by fastforce
  have c: "\<forall>c \<in> set '' ''. \<not> is_linebreak c" "\<forall>c \<in> set ''splash=verbose''. \<not> is_linebreak c" "\<forall>c \<in> set '' console=ttyS0,115200''. \<not> is_linebreak c"
    by code_simp+
  have u: "\<forall>c \<in> set (replace_sub old new x). \<not> is_linebreak c" if "\<forall>c \<in> set new. \<not> is_linebreak c" "\<forall>c \<in> set x. \<not> is_linebreak c" for old new x
    using that r [of old new x] by blast
  have "\<forall>c \<in> set l. \<not> is_linebreak c" using assms by (simp add: list_all_iff)
  from s u [OF c(2) u [OF c(1) this]]
  have "\<forall>c \<in> set (rstrip (replace_sub ''splash=silent'' ''splash=verbose'' (replace_sub '' quiet '' '' '' l))). \<not> is_linebreak c" by blast
  then show ?thesis using c(3) assms unfolding grub_line_def list_all_iff by (simp only: set_append split: if_split) blast
qed

text \<open>The rewritten boot menu of the installer streams every automated entry to the serial console, leaves every other line alone, and
  is a fixed point of the rewriting.\<close>

theorem grub_rewrite_is_exact:
  assumes "grub_with_serial_console g = Inr t"
  shows "splitlines t = map grub_line (splitlines g) \<and> (\<exists>l \<in> set (splitlines t). auto_entry l) \<and>
    (\<forall>l \<in> set (splitlines t). auto_entry l \<longrightarrow> contains_sub l SERIAL_CONSOLE) \<and> grub_with_serial_console t = Inr t"
proof -
  let ?ls = "map grub_line (splitlines g)"
  have e: "list_ex auto_entry (splitlines g)" and t: "t = join newline ?ls @ newline"
    using assms by (simp_all add: grub_with_serial_console_def unlines_def split: if_splits)
  have ne: "?ls \<noteq> []" using e by (cases "splitlines g") simp_all
  have s: "splitlines t = ?ls"
    unfolding t using grub_line_no_break splitlines_parts by (intro splitlines_join [OF ne]) auto
  have "map grub_line ?ls = ?ls" by (simp add: grub_line_idem)
  moreover have x: "\<exists>l \<in> set ?ls. auto_entry l" using e grub_line_entry by (auto simp: list_ex_iff)
  ultimately have "grub_with_serial_console t = Inr t"
    unfolding grub_with_serial_console_def s by (simp only: list_ex_iff if_True unlines_def t)
  moreover have "auto_entry l \<longrightarrow> contains_sub l SERIAL_CONSOLE" if m: "l \<in> set ?ls" for l
  proof -
    obtain k where k: "l = grub_line k" using m by auto
    show ?thesis using grub_line_entry [of k] unfolding k by (cases "auto_entry k") (simp_all add: grub_line_def)
  qed
  ultimately show ?thesis using s x by simp
qed

definition SAMPLE_GRUB :: string where
  "SAMPLE_GRUB = unlines [''menuentry x {'', ''  linux /boot/linux26 ro quiet splash=silent proxmox-start-auto-installer'', ''}'']"

theorem grub_rewrite_is_exact_witness:
  "grub_with_serial_console SAMPLE_GRUB = Inr (unlines [''menuentry x {'', ''  linux /boot/linux26 ro splash=verbose proxmox-start-auto-installer console=ttyS0,115200'', ''}''] @ newline) \<and>
   grub_with_serial_console (unlines [''menuentry x {'', ''  linux /boot/linux26 ro splash=verbose proxmox-start-auto-installer console=ttyS0,115200'', ''}''] @ newline) =
     Inr (unlines [''menuentry x {'', ''  linux /boot/linux26 ro splash=verbose proxmox-start-auto-installer console=ttyS0,115200'', ''}''] @ newline)"
proof -
  have g: "grub_with_serial_console SAMPLE_GRUB = Inr (unlines [''menuentry x {'', ''  linux /boot/linux26 ro splash=verbose proxmox-start-auto-installer console=ttyS0,115200'', ''}''] @ newline)"
    by code_simp
  from g grub_rewrite_is_exact [OF g] show ?thesis by argo
qed

subsection \<open>What the installer image carries\<close>

lemma finally_rmtree:
  "finallyE m (rmtree d) w = (Inr x, w') \<Longrightarrow> \<exists>w1. m w = (Inr x, w1) \<and> w' = (\<lambda>p. if startswith p (d @ ''/'') then None else w1 p)"
  by (auto simp: finallyE_def rmtree_def modE_def split: prod.splits sum.splits)

lemma run_checked_ok: "run_checked X argv u = (Inr (), w1) \<longleftrightarrow> (\<exists>m. X argv u = (Inr (Exited 0 m), w1))"
  by (auto simp: run_checked_def bindE_def ret_def throw_def split: prod.splits sum.splits xrun.splits if_splits)

lemma write_file_apply [simp]: "write_file p c w = (Inr (), w(p \<mapsto> c))" "unlink p w = (Inr (), w(p := None))"
  by (simp_all add: write_file_def unlink_def modE_def)

lemma seqE_ok: "seqE m n w = (Inr x, w') \<longleftrightarrow> (\<exists>y u. m w = (Inr y, u) \<and> n u = (Inr x, w'))"
  by (auto simp: seqE_def bindE_def split: prod.splits sum.splits)

lemma bindE_ok: "bindE m f w = (Inr x, w') \<longleftrightarrow> (\<exists>y u. m w = (Inr y, u) \<and> f y u = (Inr x, w'))"
  by (auto simp: bindE_def split: prod.splits sum.splits)

definition grub_extraction :: "string \<Rightarrow> string \<Rightarrow> string \<Rightarrow> string list" where
  "grub_extraction x td v = [x, ''-osirrox'', ''on'', ''-indev'', v, ''-extract'', GRUB_CFG_ISO_PATH, under td ''grub-orig.cfg'']"

lemma extract_grub_ok: "extract_grub_cfg X x v (under td ''grub-orig.cfg'') w = (Inr b, u) \<Longrightarrow> u = snd (X (grub_extraction x td v) w)"
  unfolding extract_grub_cfg_def grub_extraction_def
  by (auto simp: bindE_def getE_def throw_def split: prod.splits sum.splits xrun.splits)

lemma pve_grub_map_ok:
  assumes "pve_grub_map X x td v w = (Inr gm, u)"
  shows "gm = [] \<and> u = snd (X (grub_extraction x td v) w) \<or>
    gm = [''-map'', under td ''grub.cfg'', GRUB_CFG_ISO_PATH] \<and>
      (\<exists>g t. grub_with_serial_console g = Inr t \<and> u = (snd (X (grub_extraction x td v) w))(under td ''grub.cfg'' \<mapsto> t))"
proof -
  obtain b u0 where e: "extract_grub_cfg X x v (under td ''grub-orig.cfg'') w = (Inr b, u0)"
    and r: "(if \<not> b then ret [] else
     bindE (read_file (under td ''grub-orig.cfg'')) (\<lambda>g. bindE (liftR (grub_with_serial_console g)) (\<lambda>t.
     seqE (write_file (under td ''grub.cfg'') t) (ret [''-map'', under td ''grub.cfg'', GRUB_CFG_ISO_PATH])))) u0 = (Inr gm, u)"
    using assms unfolding pve_grub_map_def bindE_ok by blast
  show ?thesis
  proof (cases b)
    case True
    then obtain g u1 t where "read_file (under td ''grub-orig.cfg'') u0 = (Inr g, u1)" "grub_with_serial_console g = Inr t" "u = u1(under td ''grub.cfg'' \<mapsto> t)"
      and gm: "gm = [''-map'', under td ''grub.cfg'', GRUB_CFG_ISO_PATH]"
      using r by (auto simp: bindE_ok seqE_ok liftR_def ret_def)
    moreover from this have "u1 = u0" by (auto simp: read_file_def bindE_ok getE_def ret_def throw_def split: option.splits)
    ultimately show ?thesis using extract_grub_ok [OF e] by blast
  next
    case False
    then show ?thesis using r extract_grub_ok [OF e] by (simp add: ret_def)
  qed
qed

lemma under_neq:
  "length c \<le> length n \<Longrightarrow> under d n \<noteq> c" "n \<noteq> [] \<Longrightarrow> last n \<noteq> last c \<Longrightarrow> under d n \<noteq> c" "\<not> startswith c (d @ ''/'') \<Longrightarrow> under d n \<noteq> c"
  "under d n = under d m \<longleftrightarrow> n = m"
proof -
  show "length c \<le> length n \<Longrightarrow> under d n \<noteq> c" by (auto simp: under_def)
  show "n \<noteq> [] \<Longrightarrow> last n \<noteq> last c \<Longrightarrow> under d n \<noteq> c" by (auto simp: under_def)
  show "\<not> startswith c (d @ ''/'') \<Longrightarrow> under d n \<noteq> c" using under_startswith by metis
  show "under d n = under d m \<longleftrightarrow> n = m" by (simp add: under_def)
qed

lemma extraction_frame:
  assumes "\<not> startswith x (td @ ''/'')" "\<not> startswith v (td @ ''/'')"
  shows "under td ''auto-installer-mode.toml'' \<notin> set (grub_extraction x td v)" "under td ''proxmox-first-boot'' \<notin> set (grub_extraction x td v)"
  using under_neq(3) [OF assms(1)] under_neq(3) [OF assms(2)]
  by (simp_all add: grub_extraction_def under_neq(4) under_neq(1,2) GRUB_CFG_ISO_PATH_def)

text \<open>The command that writes the prepared installer runs on files that carry the activation file with the label of the seed, the first-boot
  script of the builder, and a boot menu on the serial console if the image has one, provided the tool changes only files named in its
  arguments; the preparation succeeds only if that command does, and its temporary files are gone afterwards.\<close>

theorem prepared_image_is_faithful:
  assumes "pve_prepare_iso (Some x) X td v out label script w = (Inr (), w')"
    and frame: "\<And>argv u p. p \<notin> set argv \<Longrightarrow> snd (X argv u) p = u p"
    and apart: "\<not> startswith x (td @ ''/'')" "\<not> startswith v (td @ ''/'')"
  shows "\<exists>u w1 gm m. X (pve_xorriso_cmd x v out (under td ''auto-installer-mode.toml'') (under td ''proxmox-first-boot'') gm) u = (Inr (Exited 0 m), w1) \<and>
    u (under td ''auto-installer-mode.toml'') = Some (auto_installer_mode_toml label) \<and> u (under td ''proxmox-first-boot'') = Some script \<and>
    (gm = [] \<or> gm = [''-map'', under td ''grub.cfg'', GRUB_CFG_ISO_PATH] \<and> (\<exists>g t. grub_with_serial_console g = Inr t \<and> u (under td ''grub.cfg'') = Some t)) \<and>
    w' = (\<lambda>p. if startswith p (td @ ''/'') then None else w1 p)"
proof -
  let ?m = "under td ''auto-installer-mode.toml''" and ?f = "under td ''proxmox-first-boot''" and ?E = "grub_extraction x td v"
  let ?w = "((w(out := None))(?m \<mapsto> auto_installer_mode_toml label))(?f \<mapsto> script)"
  from assms(1) obtain w1 gm u where g: "pve_grub_map X x td v ?w = (Inr gm, u)" and r: "run_checked X (pve_xorriso_cmd x v out ?m ?f gm) u = (Inr (), w1)"
    and w': "w' = (\<lambda>p. if startswith p (td @ ''/'') then None else w1 p)"
    by (auto simp: pve_prepare_iso_def seqE_ok bindE_ok dest!: finally_rmtree)
  have "?m \<noteq> ?f" by (simp add: under_neq(4))
  then have e: "snd (X ?E ?w) ?m = Some (auto_installer_mode_toml label)" "snd (X ?E ?w) ?f = Some script"
    using frame [OF extraction_frame(1) [OF apart], of ?w] frame [OF extraction_frame(2) [OF apart], of ?w] by simp_all
  have n: "under td ''grub.cfg'' \<noteq> ?m" "under td ''grub.cfg'' \<noteq> ?f" by (simp_all add: under_neq(4))
  have "u ?m = Some (auto_installer_mode_toml label) \<and> u ?f = Some script \<and>
    (gm = [] \<or> gm = [''-map'', under td ''grub.cfg'', GRUB_CFG_ISO_PATH] \<and> (\<exists>g t. grub_with_serial_console g = Inr t \<and> u (under td ''grub.cfg'') = Some t))"
    using pve_grub_map_ok [OF g] e n by auto
  then show ?thesis using r w' unfolding run_checked_ok by blast
qed

lemma isl_unit_split: "\<not> isl (fst r) \<Longrightarrow> \<exists>w. r = (Inr (), w)"
  by (cases r; cases "fst r") auto

definition sample_tool :: tool where
  "sample_tool argv u = (Inr (Exited 0 []), case drop 7 argv of p # _ \<Rightarrow> u(p \<mapsto> SAMPLE_GRUB) | [] \<Rightarrow> u)"

theorem prepared_image_is_faithful_witness:
  "\<exists>u gm. u ''/t/auto-installer-mode.toml'' = Some (auto_installer_mode_toml ''PROXMOX-AIS'') \<and> u ''/t/proxmox-first-boot'' = Some ''script'' \<and>
     fst (sample_tool (pve_xorriso_cmd ''xorriso'' ''/v.iso'' ''/o.iso'' ''/t/auto-installer-mode.toml'' ''/t/proxmox-first-boot'' gm) u) = Inr (Exited 0 [])"
proof -
  have "\<not> isl (fst (pve_prepare_iso (Some ''xorriso'') sample_tool ''/t'' ''/v.iso'' ''/o.iso'' ''PROXMOX-AIS'' ''script'' (\<lambda>_. None)))" by code_simp
  then obtain w' where w: "pve_prepare_iso (Some ''xorriso'') sample_tool ''/t'' ''/v.iso'' ''/o.iso'' ''PROXMOX-AIS'' ''script'' (\<lambda>_. None) = (Inr (), w')"
    using isl_unit_split by blast
  have f: "p \<notin> set argv \<Longrightarrow> snd (sample_tool argv u) p = u p" for argv u p
    using set_drop_subset [of 7 argv] by (auto simp: sample_tool_def split: list.splits)
  have a: "\<not> startswith ''xorriso'' (''/t'' @ ''/'')" "\<not> startswith ''/v.iso'' (''/t'' @ ''/'')" by code_simp+
  have n: "under ''/t'' ''auto-installer-mode.toml'' = ''/t/auto-installer-mode.toml''" "under ''/t'' ''proxmox-first-boot'' = ''/t/proxmox-first-boot''" by code_simp+
  from prepared_image_is_faithful [OF w f a, unfolded n] obtain u w1 gm m where
    "sample_tool (pve_xorriso_cmd ''xorriso'' ''/v.iso'' ''/o.iso'' ''/t/auto-installer-mode.toml'' ''/t/proxmox-first-boot'' gm) u = (Inr (Exited 0 m), w1)"
    "u ''/t/auto-installer-mode.toml'' = Some (auto_installer_mode_toml ''PROXMOX-AIS'')" "u ''/t/proxmox-first-boot'' = Some ''script''" by blast
  moreover have "fst (sample_tool argv u) = Inr (Exited 0 [])" for argv by (simp add: sample_tool_def)
  ultimately show ?thesis by blast
qed

end
