(* ===== verification/Esxi_Kickstart.thy ===== *)
theory Esxi_Kickstart
  imports Proxmox_Answer
begin

text \<open>
  The installer-origin builder for ESXi (\<^verbatim>\<open>builders/esxi.py\<close>, \<^verbatim>\<open>builders/_esxi_prepare.py\<close>): the validating constructor, the kickstart file,
  the patch of the boot configuration, the preparation of the installer image, the key of the installed disk. Texts are
  their UTF-8 bytes, the boot configuration is ASCII. \<^verbatim>\<open>xorriso\<close> and the digest are parameters, as for Proxmox.
\<close>

subsection \<open>The builder\<close>

record esxi_builder =
  eb_installer_iso :: string
  eb_credentials :: "credential list"
  eb_license :: "string option"
  eb_enable_ssh :: bool
  eb_allow_tcp_forwarding :: bool

definition reject_control_chars :: "string \<Rightarrow> string \<Rightarrow> unit result" where
  "reject_control_chars v what =
     (let bad = sorted_set (filter (\<lambda>c. of_char c < (32 :: nat)) v) in guardR (bad = []) (ValueError [what, bad]))"

definition reject_key :: "posix_cred \<Rightarrow> unit result" where
  "reject_key c = (case pc_ssh_key c of None \<Rightarrow> Inr () | Some k \<Rightarrow> reject_control_chars (auth_line k) (username c))"

definition validate_credentials :: "credential list \<Rightarrow> credential list result" where
  "validate_credentials cs =
     bindR (root_with_password cs) (\<lambda>root.
     bindR (reject_control_chars (case password root of Some pw \<Rightarrow> pw | None \<Rightarrow> []) ''root password'') (\<lambda>_.
     bindR (guardR (\<not> (\<exists>k \<in> set_option (pc_ssh_key root). algorithm k = ''ed25519'')) (ValueError [])) (\<lambda>_.
     bindR (for_each reject_key (posix_creds cs)) (\<lambda>_.
     bindR (guardR (duplicate_usernames cs = []) (ValueError (duplicate_usernames cs))) (\<lambda>_.
     Inr cs)))))"

definition validate_license :: "string option \<Rightarrow> string option result" where
  "validate_license lic = (case lic of None \<Rightarrow> Inr None
     | Some l \<Rightarrow> bindR (reject_control_chars l ''license'') (\<lambda>_. bindR (guardR (\<not> list_all is_space l) (ValueError [])) (\<lambda>_. Inr (Some l))))"

definition ESXiKickstartBuilder :: "esxi_builder \<Rightarrow> esxi_builder result" where
  "ESXiKickstartBuilder B =
     bindR (validate_credentials (eb_credentials B)) (\<lambda>cs.
     bindR (validate_license (eb_license B)) (\<lambda>_.
     bindR (if eb_enable_ssh B then bindR (root_credential cs) (\<lambda>c. guardR (pc_ssh_key c \<noteq> None) (ValueError [])) else Inr ()) (\<lambda>_.
     Inr B)))"

subsection \<open>The kickstart file\<close>

definition KICKSTART_KERNELOPT :: string where
  "KICKSTART_KERNELOPT = ''runweasel ks=cdrom:/ks.cfg logPort=com1 gdbPort=none systemMediaSize=min''"

definition install_lines :: "string \<Rightarrow> string option \<Rightarrow> string list" where
  "install_lines pw lic =
     [''# Generated by ESXiKickstartBuilder '' @ [CHR 0xE2, CHR 0x80, CHR 0x94] @ '' do not edit by hand.'', ''accepteula''] @
     (case lic of Some (c # l) \<Rightarrow> [''serialnum --esx='' @ c # l] | _ \<Rightarrow> []) @
     [''rootpw '' @ pw, ''install --firstdisk --overwritevmfs'', ''network --bootproto=dhcp --device=vmnic0'', ''reboot'', []]"

definition result_lines :: "string list" where
  "result_lines =
     [''%post --interpreter=busybox --ignorefailure=true'', ''_t=TESTRANGE'', ''_r=RESULT'',
      ''vsish -e set /system/log '' @ dq ''${_t}-${_r}: ok'', ''sleep 2'', ''poweroff -f'']"

definition here :: "string \<Rightarrow> string \<Rightarrow> string" where
  "here path tag = ''cat > '' @ path @ '' <<'' @ [SQ] @ tag @ [SQ]"

definition forwarding_lines :: "string list" where
  "forwarding_lines =
     [''grep -vi '' @ [SQ] @ ''^AllowTcpForwarding'' @ [SQ] @ '' /etc/ssh/sshd_config > /etc/ssh/sshd_config.tr'',
      ''echo '' @ [SQ] @ ''AllowTcpForwarding yes'' @ [SQ] @ '' >> /etc/ssh/sshd_config.tr'',
      ''mv /etc/ssh/sshd_config.tr /etc/ssh/sshd_config'']"

definition local_sh :: "bool \<Rightarrow> string list" where
  "local_sh fwd = [''#!/bin/sh''] @ (if fwd then forwarding_lines else []) @
     [''vim-cmd hostsvc/enable_ssh'', ''esxcli network firewall ruleset set --enabled true --ruleset-id sshServer'', ''/etc/init.d/SSH restart'', ''exit 0'']"

definition firstboot :: "string option \<Rightarrow> bool \<Rightarrow> string list" where
  "firstboot key fwd =
     [[], ''%firstboot --interpreter=busybox''] @
     (case key of
        Some (c # k) \<Rightarrow>
          [''mkdir -p /etc/ssh/keys-root'', here ''/etc/ssh/keys-root/authorized_keys'' ''KEYEOF'', c # k, ''KEYEOF'',
           ''chmod 600 /etc/ssh/keys-root/authorized_keys'', ''chown root:root /etc/ssh/keys-root/authorized_keys'',
           here ''/etc/rc.local.d/local.sh'' ''RCEOF''] @ local_sh fwd @ [''RCEOF'', ''chmod +x /etc/rc.local.d/local.sh'']
      | _ \<Rightarrow> []) @
     [''if [ ! -f /etc/vmware/.tr-rebooted ]; then'', ''touch /etc/vmware/.tr-rebooted'', ''/sbin/auto-backup.sh'', ''reboot'', ''fi'', ''/sbin/auto-backup.sh'']"

definition kickstart_lines :: "string \<Rightarrow> string option \<Rightarrow> string option \<Rightarrow> bool \<Rightarrow> string list" where
  "kickstart_lines pw key lic fwd = install_lines pw lic @ result_lines @ firstboot key fwd"

definition render_kickstart :: "string \<Rightarrow> string option \<Rightarrow> string option \<Rightarrow> bool \<Rightarrow> string result" where
  "render_kickstart pw key lic fwd =
     (if pw = [] then Inl (BuilderError []) else Inr (unlines (kickstart_lines pw key lic fwd) @ newline))"

text \<open>The builder's own rendering: the key only when SSH is the transport.\<close>

definition baked_key :: "esxi_builder \<Rightarrow> posix_cred \<Rightarrow> string option" where
  "baked_key B root = (if eb_enable_ssh B then map_option auth_line (pc_ssh_key root) else None)"

definition build_kickstart :: "esxi_builder \<Rightarrow> string result" where
  "build_kickstart B =
     bindR (root_credential (eb_credentials B)) (\<lambda>root.
     bindR (case password root of Some pw \<Rightarrow> Inr pw | None \<Rightarrow> Inl (AssertionError [])) (\<lambda>pw.
     render_kickstart pw (baked_key B root) (eb_license B) (eb_allow_tcp_forwarding B)))"

subsection \<open>The boot configuration and the image\<close>

definition KERNELOPT_LINE :: string where
  "KERNELOPT_LINE = ''kernelopt='' @ KICKSTART_KERNELOPT"

definition kernelopt_line :: "string \<Rightarrow> bool" where
  "kernelopt_line l \<longleftrightarrow> startswith l ''kernelopt=''"

definition patch_bootcfg :: "string \<Rightarrow> string" where
  "patch_bootcfg raw =
     (if contains_sub raw ''ks=cdrom:/ks.cfg'' then raw else
      let ls = splitlines raw;
          new_lines = map (\<lambda>l. if kernelopt_line l then KERNELOPT_LINE else l) ls @ (if list_ex kernelopt_line ls then [] else [KERNELOPT_LINE]);
          sep = (if contains_sub raw CRLF then CRLF else newline)
      in join sep new_lines @ sep)"

definition patch_file :: "string \<Rightarrow> (files, unit) eff" where
  "patch_file p = bindE (read_file p) (\<lambda>raw. write_file p (patch_bootcfg raw))"

definition BOOTCFG_BIOS :: string where "BOOTCFG_BIOS = ''/BOOT.CFG''"
definition BOOTCFG_UEFI :: string where "BOOTCFG_UEFI = ''/EFI/BOOT/BOOT.CFG''"

definition absent_source :: "string \<Rightarrow> bool" where
  "absent_source err \<longleftrightarrow> list_ex (contains_sub (lower err)) [''not found'', ''no such file'', ''cannot determine attributes'']"

definition esxi_extraction :: "string \<Rightarrow> string \<Rightarrow> string \<Rightarrow> string \<Rightarrow> string list" where
  "esxi_extraction xorriso vanilla iso_path out = [xorriso, ''-osirrox'', ''on'', ''-indev'', vanilla, ''-extract'', iso_path, out]"

definition extract_file :: "tool \<Rightarrow> string \<Rightarrow> string \<Rightarrow> string \<Rightarrow> string \<Rightarrow> (files, bool) eff" where
  "extract_file X xorriso vanilla iso_path out =
     bindE (X (esxi_extraction xorriso vanilla iso_path out)) (\<lambda>x. case x of
       NotStarted \<Rightarrow> throw (OSError [xorriso])
     | Exited code err \<Rightarrow>
         if code \<noteq> 0 then (if absent_source err then ret False else seqE (unlink out) (throw (BuilderError [iso_path, string_of_int code, lstrip (rstrip err)])))
         else getE (\<lambda>w. w out \<noteq> None))"

definition esxi_xorriso_cmd :: "string \<Rightarrow> string \<Rightarrow> string \<Rightarrow> string \<Rightarrow> string \<Rightarrow> string \<Rightarrow> bool \<Rightarrow> string list" where
  "esxi_xorriso_cmd xorriso vanilla out ks bios uefi have_efi =
     [xorriso, ''-return_with'', ''FAILURE'', ''32'', ''-compliance'', ''lowercase'', ''-indev'', vanilla, ''-rockridge'', ''off'', ''-outdev'', out,
      ''-boot_image'', ''any'', ''patch'', ''-map'', ks, ''/ks.cfg'', ''-map'', bios, BOOTCFG_BIOS] @
     (if have_efi then [''-map'', uefi, BOOTCFG_UEFI] else []) @ [''-commit'']"

definition esxi_prepare_iso :: "string option \<Rightarrow> tool \<Rightarrow> string \<Rightarrow> string \<Rightarrow> string \<Rightarrow> string \<Rightarrow> (files, unit) eff" where
  "esxi_prepare_iso which X td vanilla out kickstart =
     (case which of None \<Rightarrow> throw (BuilderError [])
      | Some xorriso \<Rightarrow>
          (let ks = under td ''ks.cfg''; bios = under td ''BOOT.CFG''; uefi = under td ''BOOT.EFI.CFG'' in
           seqE (unlink out)
           (finallyE
             (seqE (write_file ks kickstart)
              (bindE (extract_file X xorriso vanilla BOOTCFG_BIOS bios) (\<lambda>have_bios.
               if \<not> have_bios then throw (BuilderError [vanilla, BOOTCFG_BIOS]) else
               seqE (patch_file bios)
               (bindE (extract_file X xorriso vanilla BOOTCFG_UEFI uefi) (\<lambda>have_efi.
                seqE (if have_efi then patch_file uefi else ret ())
                (run_checked X (esxi_xorriso_cmd xorriso vanilla out ks bios uefi have_efi)))))))
             (rmtree td))))"

definition esxi_prepared_path :: "(string \<Rightarrow> string) \<Rightarrow> string \<Rightarrow> string \<Rightarrow> string" where
  "esxi_prepared_path sha kickstart media =
     (let digest = take 16 (sha (kickstart @ newline @ ''---KERNELOPT---'' @ newline @ KICKSTART_KERNELOPT)) in
      under (path_parent media) (path_stem media @ ''-esxi-'' @ digest @ ''.iso''))"

definition esxi_prepare_boot_media :: "(string \<Rightarrow> string) \<Rightarrow> string option \<Rightarrow> tool \<Rightarrow> string \<Rightarrow> string \<Rightarrow> esxi_builder \<Rightarrow> string \<Rightarrow> (files, string) eff" where
  "esxi_prepare_boot_media sha which X tmpdir td B media =
     bindE (liftR (build_kickstart B)) (\<lambda>ks.
     prepared_once tmpdir (esxi_prepared_path sha ks media) (\<lambda>tmp. esxi_prepare_iso which X td media tmp ks))"

subsection \<open>The key\<close>

definition esxi_combined :: "string \<Rightarrow> string \<Rightarrow> string \<Rightarrow> hex_digest \<Rightarrow> string \<Rightarrow> string \<Rightarrow> hex_digest \<Rightarrow> hex_digest \<Rightarrow> string" where
  "esxi_combined pw key lic ks_digest disk fw base_sha sidecar_sha =
     ''root-password:'' @ pw @ newline @ ''---'' @ newline @ ''ssh-key:'' @ key @ newline @ ''---'' @ newline @
     ''license:'' @ lic @ newline @ ''---'' @ newline @ ''kickstart:'' @ ks_digest @ newline @ ''---'' @ newline @
     ''disk:'' @ disk @ newline @ ''---'' @ newline @ ''firmware:'' @ fw @ newline @ ''---'' @ newline @
     ''kernelopt:'' @ KICKSTART_KERNELOPT @ newline @ ''---'' @ newline @
     ''base:'' @ base_sha @ newline @ ''---'' @ newline @ ''sidecar:'' @ sidecar_sha"

definition or_None :: "string option \<Rightarrow> string" where
  "or_None v = (case v of Some s \<Rightarrow> s | None \<Rightarrow> ''None'')"

definition esxi_config_text :: "(string \<Rightarrow> string) \<Rightarrow> esxi_builder \<Rightarrow> vm_spec \<Rightarrow> string \<Rightarrow> string \<Rightarrow> string result" where
  "esxi_config_text sha B s base_sha sidecar_sha =
     bindR (root_credential (eb_credentials B)) (\<lambda>root.
     bindR (build_kickstart B) (\<lambda>ks.
     Inr (esxi_combined (or_None (password root)) (case pc_ssh_key root of Some k \<Rightarrow> auth_line k | None \<Rightarrow> []) (or_None (eb_license B))
       (take 16 (sha ks)) (string_of_int (disk_size_gb (os_drive s))) (firmware s) base_sha sidecar_sha)))"

definition esxi_config_hash :: "(string \<Rightarrow> string) \<Rightarrow> esxi_builder \<Rightarrow> vm_spec \<Rightarrow> string \<Rightarrow> string \<Rightarrow> string result" where
  "esxi_config_hash sha B s base_sha sidecar_sha = bindR (esxi_config_text sha B s base_sha sidecar_sha) (\<lambda>t. Inr (take 16 (sha t)))"

subsection \<open>The lines of the kickstart\<close>

lemma reject_control_ok: "reject_control_chars v what = Inr () \<longleftrightarrow> (\<forall>c \<in> set v. (32 :: nat) \<le> of_char c)"
  by (auto simp: reject_control_chars_def Let_def guardR_def filter_empty_conv not_le)

lemma printable_newline: "\<forall>c \<in> set v. (32 :: nat) \<le> of_char c \<Longrightarrow> CHR 0x0A \<notin> set v"
  by auto

lemma license_ok:
  assumes "\<not> isl (validate_license lic)"
  shows "\<forall>l \<in> set_option lic. CHR 0x0A \<notin> set l \<and> l \<noteq> []"
proof (cases lic)
  case (Some l)
  have "reject_control_chars l ''license'' = Inr ()" using assms Some by (cases "reject_control_chars l ''license''") (simp_all add: validate_license_def)
  then have "CHR 0x0A \<notin> set l" using printable_newline by (simp add: reject_control_ok)
  moreover have "l \<noteq> []"
    using assms Some \<open>reject_control_chars l ''license'' = Inr ()\<close> by (auto simp: validate_license_def guardR_def)
  ultimately show ?thesis using Some by simp
qed simp

text \<open>What a constructed builder guarantees of the values that reach the file.\<close>

lemma constructed_values:
  assumes "ESXiKickstartBuilder B = Inr B'"
  obtains root pw where "B' = B" "root_credential (eb_credentials B) = Inr root" "password root = Some pw" "pw \<noteq> []" "CHR 0x0A \<notin> set pw"
    "\<forall>k \<in> set_option (baked_key B root). CHR 0x0A \<notin> set k" "\<forall>l \<in> set_option (eb_license B). CHR 0x0A \<notin> set l \<and> l \<noteq> []"
    "eb_enable_ssh B \<Longrightarrow> baked_key B root \<noteq> None"
proof -
  let ?cs = "eb_credentials B"
  obtain root where r: "root_with_password ?cs = Inr root"
    using assms by (cases "root_with_password ?cs") (simp_all add: ESXiKickstartBuilder_def validate_credentials_def)
  then obtain pw where pw: "password root = Some pw" "pw \<noteq> []" and rc: "root_credential ?cs = Inr root" and m: "root \<in> set (posix_creds ?cs)"
    using root_found by blast
  have ok: "reject_control_chars pw ''root password'' = Inr ()" "for_each reject_key (posix_creds ?cs) = Inr ()" "\<not> isl (validate_license (eb_license B))" "B' = B"
    "eb_enable_ssh B \<longrightarrow> pc_ssh_key root \<noteq> None"
    using assms r rc pw by (auto simp: ESXiKickstartBuilder_def validate_credentials_def bindR_def guardR_def split: sum.splits if_splits)
  have "reject_key root = Inr ()" using ok(2) m by (simp add: for_each_Inr_iff)
  then have "\<forall>k \<in> set_option (baked_key B root). CHR 0x0A \<notin> set k"
    by (auto simp: reject_key_def baked_key_def reject_control_ok split: option.splits if_splits)
  moreover have "\<forall>l \<in> set_option (eb_license B). CHR 0x0A \<notin> set l \<and> l \<noteq> []"
    using license_ok [OF ok(3)] .
  moreover have "CHR 0x0A \<notin> set pw" using ok(1) by (auto simp: reject_control_ok)
  ultimately show thesis using that [OF ok(4) rc pw(1) pw(2)] ok(5) by (simp add: baked_key_def)
qed

text \<open>The reader of the installer: directives up to the first section, then sections, each from its header to the next.\<close>

definition is_header :: "string \<Rightarrow> bool" where
  "is_header l \<longleftrightarrow> startswith l ''%''"

fun ks_sections :: "string \<Rightarrow> string list \<Rightarrow> string list \<Rightarrow> (string \<times> string list) list" where
  "ks_sections h acc [] = [(h, rev acc)]"
| "ks_sections h acc (l # ls) = (if is_header l then (h, rev acc) # ks_sections l [] ls else ks_sections h (l # acc) ls)"

definition ks_read :: "string \<Rightarrow> (string \<times> string list) list" where
  "ks_read t = ks_sections [] [] (split_on (CHR 0x0A) t)"

lemma ks_sections_body:
  "\<forall>l \<in> set ls. \<not> is_header l \<Longrightarrow> ks_sections h acc (ls @ rest) = ks_sections h (rev ls @ acc) rest"
  by (induction ls arbitrary: acc) simp_all

definition firstboot_body :: "string option \<Rightarrow> bool \<Rightarrow> string list" where
  "firstboot_body key fwd = drop 2 (firstboot key fwd)"

lemma firstboot_split: "firstboot key fwd = [[], ''%firstboot --interpreter=busybox''] @ firstboot_body key fwd"
  by (simp add: firstboot_body_def firstboot_def)

lemma plain_lines:
  "\<forall>l \<in> set (install_lines pw lic). \<not> is_header l"
  "\<forall>l \<in> set (tl result_lines). \<not> is_header l"
  "\<forall>k \<in> set_option key. \<not> is_header k \<Longrightarrow> \<forall>l \<in> set (firstboot_body key fwd). \<not> is_header l"
  by (auto simp: is_header_def startswith_def install_lines_def result_lines_def firstboot_body_def firstboot_def here_def local_sh_def forwarding_lines_def
    split: option.splits list.splits)

lemma kickstart_no_newline:
  assumes "CHR 0x0A \<notin> set pw" "\<forall>k \<in> set_option key. CHR 0x0A \<notin> set k" "\<forall>l \<in> set_option lic. CHR 0x0A \<notin> set l"
  shows "\<forall>l \<in> set (kickstart_lines pw key lic fwd). CHR 0x0A \<notin> set l"
proof -
  have c: "\<forall>l \<in> set (result_lines @ firstboot None fwd @ local_sh fwd). CHR 0x0A \<notin> set l"
    by (cases fwd) (simp_all add: result_lines_def firstboot_def local_sh_def forwarding_lines_def dq_def DQ_def SQ_def)
  have "\<forall>l \<in> set (install_lines pw lic). CHR 0x0A \<notin> set l"
    using assms by (auto simp: install_lines_def split: option.splits list.splits)
  moreover have "\<forall>l \<in> set (firstboot key fwd). CHR 0x0A \<notin> set l"
    using assms(2) c by (cases key) (auto simp: firstboot_def here_def SQ_def split: list.splits)
  ultimately show ?thesis using c unfolding kickstart_lines_def set_append by blast
qed

subsection \<open>The kickstart is exact\<close>

text \<open>The documents a shell script writes: a line \<^verbatim>\<open>cat > path <<'tag'\<close> and the lines up to the tag.\<close>

fun heredocs :: "string list \<Rightarrow> (string \<times> string list) option list" where
  "heredocs [] = []"
| "heredocs (l # ls) =
     (if startswith l ''cat > '' then
        (let path = takeWhile (\<lambda>c. c \<noteq> CHR '' '') (drop 6 l); tag = butlast (drop (length path + 10) l) in
         (if tag \<in> set ls then Some (path, takeWhile (\<lambda>x. x \<noteq> tag) ls) else None) # heredocs ls)
      else heredocs ls)"

lemma heredoc_lines:
  "heredocs (here ''/etc/ssh/keys-root/authorized_keys'' ''KEYEOF'' # ls) =
     (if ''KEYEOF'' \<in> set ls then Some (''/etc/ssh/keys-root/authorized_keys'', takeWhile (\<lambda>x. x \<noteq> ''KEYEOF'') ls) else None) # heredocs ls"
  "heredocs (here ''/etc/rc.local.d/local.sh'' ''RCEOF'' # ls) =
     (if ''RCEOF'' \<in> set ls then Some (''/etc/rc.local.d/local.sh'', takeWhile (\<lambda>x. x \<noteq> ''RCEOF'') ls) else None) # heredocs ls"
  by (simp_all add: here_def startswith_def Let_def SQ_def)

lemma heredocs_plain: "\<forall>l \<in> set ls. \<not> startswith l ''cat > '' \<Longrightarrow> heredocs (ls @ rest) = heredocs rest"
  by (induction ls) simp_all

definition written_by_firstboot :: "string option \<Rightarrow> bool \<Rightarrow> (string \<times> string list) list" where
  "written_by_firstboot key fwd = (case key of
     Some (c # k) \<Rightarrow> [(''/etc/ssh/keys-root/authorized_keys'', [c # k]), (''/etc/rc.local.d/local.sh'', local_sh fwd)] | _ \<Rightarrow> [])"

lemma firstboot_documents:
  assumes "\<forall>k \<in> set_option key. k \<noteq> ''KEYEOF'' \<and> \<not> startswith k ''cat > ''"
  shows "heredocs (firstboot_body key fwd) = map Some (written_by_firstboot key fwd)"
proof -
  let ?tail = "[''if [ ! -f /etc/vmware/.tr-rebooted ]; then'', ''touch /etc/vmware/.tr-rebooted'', ''/sbin/auto-backup.sh'', ''reboot'', ''fi'', ''/sbin/auto-backup.sh'']"
  let ?sh = "local_sh fwd" and ?A = "''/etc/ssh/keys-root/authorized_keys''"
  have tail: "heredocs ?tail = []" by (simp add: startswith_def)
  show ?thesis
  proof (cases "key = None \<or> key = Some []")
    case True
    then have "firstboot_body key fwd = ?tail" by (auto simp: firstboot_body_def firstboot_def)
    then show ?thesis using True tail by (auto simp: written_by_firstboot_def)
  next
    case False
    then obtain c k where key: "key = Some (c # k)" by (cases key; cases "the key") auto
    let ?k = "c # k"
    have sh: "takeWhile (\<lambda>x. x \<noteq> ''RCEOF'') (?sh @ ''RCEOF'' # r) = ?sh" "\<forall>l \<in> set ?sh. \<not> startswith l ''cat > ''" for r
      by (cases fwd; simp add: local_sh_def forwarding_lines_def startswith_def takeWhile_append)+
    have b: "firstboot_body key fwd = ''mkdir -p /etc/ssh/keys-root'' # here ?A ''KEYEOF'' # ?k # ''KEYEOF'' # ''chmod 600 /etc/ssh/keys-root/authorized_keys'' #
      ''chown root:root /etc/ssh/keys-root/authorized_keys'' # here ''/etc/rc.local.d/local.sh'' ''RCEOF'' # ?sh @ ''RCEOF'' # ''chmod +x /etc/rc.local.d/local.sh'' # ?tail"
      by (simp add: firstboot_body_def firstboot_def key)
    have h: "heredocs (''mkdir -p /etc/ssh/keys-root'' # ls) = heredocs ls" "heredocs (''KEYEOF'' # ls) = heredocs ls"
      "heredocs (''chmod 600 /etc/ssh/keys-root/authorized_keys'' # ls) = heredocs ls" "heredocs (''chown root:root /etc/ssh/keys-root/authorized_keys'' # ls) = heredocs ls"
      "heredocs (''RCEOF'' # ls) = heredocs ls" "heredocs (''chmod +x /etc/rc.local.d/local.sh'' # ls) = heredocs ls" for ls
      by (simp_all add: startswith_def)
    have k: "heredocs (?k # ls) = heredocs ls" "takeWhile (\<lambda>x. x \<noteq> ''KEYEOF'') (?k # ''KEYEOF'' # ls) = [?k]" for ls
      using assms key by simp_all
    have i: "''KEYEOF'' \<in> set (?k # ''KEYEOF'' # ls)" "''RCEOF'' \<in> set (?sh @ ''RCEOF'' # ls)" for ls by simp_all
    have "heredocs (firstboot_body key fwd) = [Some (?A, [?k]), Some (''/etc/rc.local.d/local.sh'', ?sh)]"
      unfolding b h(1) heredoc_lines(1) k(2) if_P [OF i(1)] k(1) h(2-4) heredoc_lines(2) if_P [OF i(2)] sh(1) heredocs_plain [OF sh(2)] h(5,6) tail ..
    then show ?thesis by (simp add: written_by_firstboot_def key)
  qed
qed

lemma root_credential_in: "root_credential cs = Inr c \<Longrightarrow> c \<in> set (posix_creds cs)"
  by (induction cs rule: root_credential.induct) (auto simp: posix_creds_def split: if_splits)

text \<open>C38: The installer reads the kickstart of a constructed builder as intended, whatever the password, the license and the key contain: the directives
  set that password, and that license if there is one, and contain nothing else; the only sections are the result section and the first-boot section; and
  first boot writes exactly the key file with the key and the start-up script, or nothing when SSH is not the transport. The key must not itself look like a
  section header, the start of a document or its end mark, which no SSH public key does.\<close>

theorem kickstart_is_exact:
  assumes "ESXiKickstartBuilder B = Inr B'" and "build_kickstart B = Inr t"
    and "\<forall>c \<in> set (posix_creds (eb_credentials B)). \<forall>k \<in> set_option (pc_ssh_key c).
      \<not> is_header (auth_line k) \<and> auth_line k \<noteq> ''KEYEOF'' \<and> \<not> startswith (auth_line k) ''cat > ''"
  shows "\<exists>root pw fb. root_credential (eb_credentials B) = Inr root \<and> password root = Some pw \<and>
    ks_read t = [([], install_lines pw (eb_license B)), (hd result_lines, tl result_lines @ [[]]), (''%firstboot --interpreter=busybox'', fb @ [[]])] \<and>
    filter (\<lambda>l. startswith l ''rootpw'') (install_lines pw (eb_license B)) = [''rootpw '' @ pw] \<and>
    filter (\<lambda>l. startswith l ''serialnum'') (install_lines pw (eb_license B)) = map (\<lambda>l. ''serialnum --esx='' @ l) (case eb_license B of Some l \<Rightarrow> [l] | None \<Rightarrow> []) \<and>
    heredocs fb = map Some (written_by_firstboot (baked_key B root) (eb_allow_tcp_forwarding B))"
proof -
  obtain root pw where v: "root_credential (eb_credentials B) = Inr root" "password root = Some pw" "pw \<noteq> []" "CHR 0x0A \<notin> set pw"
    "\<forall>k \<in> set_option (baked_key B root). CHR 0x0A \<notin> set k" "\<forall>l \<in> set_option (eb_license B). CHR 0x0A \<notin> set l \<and> l \<noteq> []"
    by (rule constructed_values [OF assms(1)]) blast
  let ?key = "baked_key B root" and ?lic = "eb_license B" and ?fwd = "eb_allow_tcp_forwarding B"
  let ?ls = "kickstart_lines pw ?key ?lic ?fwd" and ?fb = "firstboot_body ?key ?fwd"
  have t: "t = unlines ?ls @ newline" using assms(2) v(1-3) by (simp add: build_kickstart_def render_kickstart_def)
  have root: "root \<in> set (posix_creds (eb_credentials B))"
    using root_credential_in [OF v(1)] .
  have key: "\<forall>k \<in> set_option ?key. \<not> is_header k" "\<forall>k \<in> set_option ?key. k \<noteq> ''KEYEOF'' \<and> \<not> startswith k ''cat > ''"
    using assms(3) root by (auto simp: baked_key_def split: if_splits)
  have n: "\<forall>l \<in> set ?ls. CHR 0x0A \<notin> set l" using v(4-6) by (intro kickstart_no_newline) auto
  have e: "?ls \<noteq> []" by (simp add: kickstart_lines_def install_lines_def)
  have r: "ks_read t = ks_sections [] [] (?ls @ [[]])" unfolding ks_read_def t split_unlines [OF n e] ..
  have hd: "is_header (hd result_lines)" "is_header ''%firstboot --interpreter=busybox''" "\<not> is_header []" "result_lines = hd result_lines # tl result_lines"
    by (simp_all add: is_header_def startswith_def result_lines_def)
  have "ks_read t = [([], install_lines pw ?lic), (hd result_lines, tl result_lines @ [[]]), (''%firstboot --interpreter=busybox'', ?fb @ [[]])]"
    unfolding r kickstart_lines_def firstboot_split append_assoc ks_sections_body [OF plain_lines(1)]
    by (subst hd(4)) (simp add: hd(1-3) ks_sections_body [OF plain_lines(2)] ks_sections_body [OF plain_lines(3) [OF key(1)]])
  moreover have "filter (\<lambda>l. startswith l ''rootpw'') (install_lines pw ?lic) = [''rootpw '' @ pw]"
    by (auto simp: install_lines_def startswith_def split: option.splits list.splits)
  moreover have "filter (\<lambda>l. startswith l ''serialnum'') (install_lines pw ?lic) = map (\<lambda>l. ''serialnum --esx='' @ l) (case ?lic of Some l \<Rightarrow> [l] | None \<Rightarrow> [])"
    using v(6) by (auto simp: install_lines_def startswith_def split: option.splits list.splits)
  ultimately show ?thesis using v(1,2) firstboot_documents [OF key(2)] by blast
qed

definition sample_ks :: esxi_builder where
  "sample_ks = \<lparr>eb_installer_iso = ''esxi.iso'',
     eb_credentials = [Posix \<lparr>username = ''root'', admin = True, password = Some ''p w%post'',
       pc_ssh_key = Some \<lparr>pub = [], priv = [], auth_line = ''ecdsa-sha2-nistp256 AAAA x'', algorithm = ''ecdsa''\<rparr>, groups = []\<rparr>],
     eb_license = Some ''0000-1'', eb_enable_ssh = True, eb_allow_tcp_forwarding = False\<rparr>"

lemma sample_ks_ok: "\<not> isl (ESXiKickstartBuilder sample_ks)" "\<not> isl (build_kickstart sample_ks)"
  "\<forall>c \<in> set (posix_creds (eb_credentials sample_ks)). \<forall>k \<in> set_option (pc_ssh_key c).
      \<not> is_header (auth_line k) \<and> auth_line k \<noteq> ''KEYEOF'' \<and> \<not> startswith (auth_line k) ''cat > ''"
  by code_simp+

theorem kickstart_is_exact_witness:
  "\<exists>t. build_kickstart sample_ks = Inr t \<and> map fst (ks_read t) = [[], hd result_lines, ''%firstboot --interpreter=busybox''] \<and>
     filter (\<lambda>l. startswith l ''rootpw'') (snd (hd (ks_read t))) = [''rootpw p w%post'']"
proof -
  obtain B' t where b: "ESXiKickstartBuilder sample_ks = Inr B'" and t: "build_kickstart sample_ks = Inr t"
    using sample_ks_ok(1,2) by (metis isl_def sum.collapse(2))
  have r: "map_option (\<lambda>r. password r) (case root_credential (eb_credentials sample_ks) of Inr r \<Rightarrow> Some r | Inl _ \<Rightarrow> None) = Some (Some ''p w%post'')" by code_simp
  from kickstart_is_exact [OF b t sample_ks_ok(3)] obtain root pw fb where k: "root_credential (eb_credentials sample_ks) = Inr root" "password root = Some pw"
    "ks_read t = [([], install_lines pw (eb_license sample_ks)), (hd result_lines, tl result_lines @ [[]]), (''%firstboot --interpreter=busybox'', fb @ [[]])]"
    "filter (\<lambda>l. startswith l ''rootpw'') (install_lines pw (eb_license sample_ks)) = [''rootpw '' @ pw]" by blast
  have "pw = ''p w%post''" using r k(1,2) by simp
  then show ?thesis using t k(3,4) by simp
qed

subsection \<open>The source of the kickstart is no verdict\<close>

lemma contains_prefix: "hd pat \<notin> set p \<Longrightarrow> pat \<noteq> [] \<Longrightarrow> contains_sub (p @ v) pat \<longleftrightarrow> contains_sub v pat"
proof -
  assume h: "hd pat \<notin> set p" "pat \<noteq> []"
  obtain c u where p: "pat = c # u" using h(2) by (cases pat) auto
  have "v = drop (length p) a @ pat @ b" if e: "p @ v = a @ pat @ b" for a b
  proof -
    have "length p \<le> length a"
    proof (rule ccontr)
      assume "\<not> length p \<le> length a"
      then have "p ! length a = c" using e by (metis append_Cons linorder_not_le nth_append nth_append_length p)
      then show False using h(1) p \<open>\<not> length p \<le> length a\<close> by (auto dest: nth_mem)
    qed
    then show ?thesis using e by (metis append_eq_append_conv_if append_eq_conv_conj drop_append)
  qed
  then show ?thesis unfolding contains_sub_iff by (metis append_assoc)
qed

lemma contains_join:
  assumes "sep \<notin> set pat" "pat \<noteq> []"
  shows "contains_sub (join [sep] ls) pat \<longleftrightarrow> (\<exists>l \<in> set ls. contains_sub l pat)"
proof (induction ls)
  case Nil
  then show ?case using assms by (simp add: contains_sub_iff)
next
  case (Cons l ls)
  have "contains_sub (l @ sep # r) pat \<longleftrightarrow> contains_sub l pat \<or> contains_sub r pat" for r
  proof
    assume "contains_sub (l @ sep # r) pat"
    then obtain a b where e: "l @ sep # r = a @ pat @ b" by (auto simp: contains_sub_iff)
    from this consider us where "l = a @ us" "us @ sep # r = pat @ b" | us where "a = l @ us" "sep # r = us @ pat @ b"
      by (auto simp: append_eq_append_conv2)
    then show "contains_sub l pat \<or> contains_sub r pat"
    proof cases
      case 1
      then obtain vs where "us = pat @ vs"
        using assms(1) by (auto simp: append_eq_append_conv2 Cons_eq_append_conv)
      then show ?thesis using 1 by (auto simp: contains_sub_iff)
    next
      case 2
      then show ?thesis using assms by (cases us) (auto simp: contains_sub_iff Cons_eq_append_conv)
    qed
  next
    assume "contains_sub l pat \<or> contains_sub r pat"
    then show "contains_sub (l @ sep # r) pat" unfolding contains_sub_iff by (metis append.assoc append_Cons)
  qed
  then show ?case using Cons.IH by (cases ls) simp_all
qed

lemma no_marker_no_verdict: "\<not> contains_sub data RESULT_MARKER \<Longrightarrow> parse_build_result final data = None"
  by (simp add: parse_build_result_def segments_def offsets.simps contains_sub_def)

lemma marker_lines:
  "(\<exists>l \<in> set (kickstart_lines pw key lic fwd). contains_sub l RESULT_MARKER) \<longleftrightarrow>
     contains_sub pw RESULT_MARKER \<or> (\<exists>l \<in> set_option lic. contains_sub l RESULT_MARKER) \<or> (\<exists>k \<in> set_option key. contains_sub k RESULT_MARKER)"
proof -
  let ?M = "\<lambda>l. contains_sub l RESULT_MARKER"
  have m: "hd RESULT_MARKER \<notin> set ''rootpw ''" "hd RESULT_MARKER \<notin> set ''serialnum --esx=''" "RESULT_MARKER \<noteq> []" by code_simp+
  have e: "\<not> ?M []" by code_simp
  have fixed: "\<not> (\<exists>l \<in> set (result_lines @ firstboot None fwd @ local_sh fwd @ [''mkdir -p /etc/ssh/keys-root'', here ''/etc/ssh/keys-root/authorized_keys'' ''KEYEOF'',
      ''KEYEOF'', ''chmod 600 /etc/ssh/keys-root/authorized_keys'', ''chown root:root /etc/ssh/keys-root/authorized_keys'', here ''/etc/rc.local.d/local.sh'' ''RCEOF'',
      ''RCEOF'', ''chmod +x /etc/rc.local.d/local.sh'']). ?M l)"
    by (cases fwd; simp only:; code_simp)
  have inst: "(\<exists>l \<in> set (install_lines pw lic). ?M l) \<longleftrightarrow> ?M pw \<or> (\<exists>l \<in> set_option lic. ?M l)"
  proof -
    have c: "\<not> ?M (''# Generated by ESXiKickstartBuilder '' @ [CHR 0xE2, CHR 0x80, CHR 0x94] @ '' do not edit by hand.'')" "\<not> ?M ''accepteula''"
      "\<not> ?M ''install --firstdisk --overwritevmfs''" "\<not> ?M ''network --bootproto=dhcp --device=vmnic0''" "\<not> ?M ''reboot''" by code_simp+
    show ?thesis
      unfolding install_lines_def set_append bex_Un list.set bex_simps using c e contains_prefix [OF m(1,3), of pw] contains_prefix [OF m(2,3)]
      by (cases lic; cases "the lic") (simp_all add: disj_commute)
  qed
  have "(\<exists>l \<in> set (firstboot key fwd). ?M l) \<longleftrightarrow> (\<exists>k \<in> set_option key. ?M k)"
  proof (cases "key = None \<or> key = Some []")
    case True
    then have "firstboot key fwd = firstboot None fwd" by (auto simp: firstboot_def)
    then show ?thesis using fixed True e unfolding set_append bex_Un by auto
  next
    case False
    then obtain c k where key: "key = Some (c # k)" by (cases key; cases "the key") auto
    show ?thesis using fixed unfolding firstboot_def key option.case list.case option.set set_append bex_Un list.set bex_simps by argo
  qed
  then show ?thesis using inst fixed unfolding kickstart_lines_def set_append bex_Un by blast
qed

text \<open>The installer echoes the text of the kickstart to the console that carries the build result. The text contains the marker of a result record exactly when
  the password, the license or the key does; otherwise no excerpt of it is taken for a verdict.\<close>

theorem kickstart_echo_is_no_verdict:
  assumes "build_kickstart B = Inr t" "root_credential (eb_credentials B) = Inr root" "password root = Some pw"
  shows "(contains_sub t RESULT_MARKER \<longleftrightarrow> contains_sub pw RESULT_MARKER \<or> (\<exists>l \<in> set_option (eb_license B). contains_sub l RESULT_MARKER) \<or>
      (\<exists>k \<in> set_option (baked_key B root). contains_sub k RESULT_MARKER)) \<and>
    (\<not> contains_sub t RESULT_MARKER \<longrightarrow> (\<forall>a p b final. t = a @ p @ b \<longrightarrow> parse_build_result final p = None))"
proof -
  let ?ls = "kickstart_lines pw (baked_key B root) (eb_license B) (eb_allow_tcp_forwarding B)"
  have "t = unlines ?ls @ newline" using assms by (simp add: build_kickstart_def render_kickstart_def split: if_splits)
  moreover have "?ls \<noteq> []" by (simp add: kickstart_lines_def install_lines_def)
  ultimately have "t = join [CHR 0x0A] (?ls @ [[]])" using join_snoc_Nil [of ?ls newline] by (simp add: unlines_def newline_def)
  moreover have "CHR 0x0A \<notin> set RESULT_MARKER" "RESULT_MARKER \<noteq> []" "\<not> contains_sub [] RESULT_MARKER" by code_simp+
  ultimately have m: "contains_sub t RESULT_MARKER \<longleftrightarrow> (\<exists>l \<in> set ?ls. contains_sub l RESULT_MARKER)" using contains_join by simp
  have "contains_sub t RESULT_MARKER" if "t = a @ p @ b" "contains_sub p RESULT_MARKER" for a p b
    using that unfolding contains_sub_iff by (metis append.assoc)
  then show ?thesis unfolding m [unfolded marker_lines, symmetric] using no_marker_no_verdict by blast
qed

theorem kickstart_echo_is_no_verdict_witness:
  "\<exists>t. build_kickstart sample_ks = Inr t \<and> parse_build_result False t = None"
proof -
  obtain t where t: "build_kickstart sample_ks = Inr t" using sample_ks_ok(2) by (metis isl_def sum.collapse(2))
  let ?root = "\<lparr>username = ''root'', admin = True, password = Some ''p w%post'',
       pc_ssh_key = Some \<lparr>pub = [], priv = [], auth_line = ''ecdsa-sha2-nistp256 AAAA x'', algorithm = ''ecdsa''\<rparr>, groups = []\<rparr> :: posix_cred"
  have r: "root_credential (eb_credentials sample_ks) = Inr ?root" "password ?root = Some ''p w%post''" by code_simp+
  have "\<not> contains_sub ''p w%post'' RESULT_MARKER" "\<not> (\<exists>l \<in> set_option (eb_license sample_ks). contains_sub l RESULT_MARKER)"
    "\<not> (\<exists>k \<in> set_option (baked_key sample_ks ?root). contains_sub k RESULT_MARKER)" by code_simp+
  with kickstart_echo_is_no_verdict [OF t r] have "\<forall>a p b final. t = a @ p @ b \<longrightarrow> parse_build_result final p = None" by blast
  from this [rule_format, of "[]" t "[]" False] t show ?thesis by simp
qed

subsection \<open>The boot configuration\<close>

lemma kernelopt_facts: "contains_sub KERNELOPT_LINE ''ks=cdrom:/ks.cfg''" "kernelopt_line KERNELOPT_LINE" "list_all (\<lambda>c. \<not> is_linebreak c) KERNELOPT_LINE"
  by code_simp+

text \<open>The patched boot configuration starts the unattended installer: it names the kickstart, every kernel-option line of a configuration that did not name
  it is the one that does, and there is one; every other line is kept, in order. Patching again changes nothing.\<close>

theorem bootcfg_runs_the_kickstart:
  "contains_sub (patch_bootcfg raw) ''ks=cdrom:/ks.cfg'' \<and> patch_bootcfg (patch_bootcfg raw) = patch_bootcfg raw \<and>
   (\<not> contains_sub raw ''ks=cdrom:/ks.cfg'' \<longrightarrow>
      (let ls = splitlines (patch_bootcfg raw) in
       KERNELOPT_LINE \<in> set ls \<and> (\<forall>l \<in> set ls. kernelopt_line l \<longrightarrow> l = KERNELOPT_LINE) \<and>
       filter (\<lambda>l. \<not> kernelopt_line l) ls = filter (\<lambda>l. \<not> kernelopt_line l) (splitlines raw)))"
proof (cases "contains_sub raw ''ks=cdrom:/ks.cfg''")
  case True
  then show ?thesis by (simp add: patch_bootcfg_def)
next
  case False
  let ?ls = "splitlines raw"
  define new where "new = map (\<lambda>l. if kernelopt_line l then KERNELOPT_LINE else l) ?ls @ (if list_ex kernelopt_line ?ls then [] else [KERNELOPT_LINE])"
  define sep where "sep = (if contains_sub raw CRLF then CRLF else newline)"
  have p: "patch_bootcfg raw = join sep new @ sep" using False by (simp add: patch_bootcfg_def new_def sep_def Let_def)
  have k: "KERNELOPT_LINE \<in> set new" by (auto simp: new_def list_ex_iff)
  then have ne: "new \<noteq> []" by auto
  have lines: "\<forall>l \<in> set new. list_all (\<lambda>c. \<not> is_linebreak c) l" using splitlines_parts kernelopt_facts(3) by (auto simp: new_def)
  have s: "splitlines (patch_bootcfg raw) = new" unfolding p by (rule splitlines_join [OF ne lines]) (simp add: sep_def)
  obtain xs ys where "new = xs @ KERNELOPT_LINE # ys" using k by (meson split_list)
  then have "\<exists>a b. join sep new @ sep = a @ KERNELOPT_LINE @ b"
  proof (induction xs arbitrary: new)
    case Nil
    then show ?case by (cases ys) (auto intro: exI [of _ "[]"])
  next
    case (Cons x xs)
    then obtain a b where "join sep (xs @ KERNELOPT_LINE # ys) @ sep = a @ KERNELOPT_LINE @ b" by blast
    then have "join sep new @ sep = (x @ sep @ a) @ KERNELOPT_LINE @ b" using Cons.prems by (simp add: join_Cons)
    then show ?case by blast
  qed
  then have c: "contains_sub (patch_bootcfg raw) ''ks=cdrom:/ks.cfg''"
    using kernelopt_facts(1) unfolding p contains_sub_iff by (metis append.assoc)
  moreover have "filter (\<lambda>l. \<not> kernelopt_line l) new = filter (\<lambda>l. \<not> kernelopt_line l) ?ls"
  proof -
    have "filter (\<lambda>l. \<not> kernelopt_line l) (map (\<lambda>l. if kernelopt_line l then KERNELOPT_LINE else l) zs) = filter (\<lambda>l. \<not> kernelopt_line l) zs" for zs
      by (induction zs) (simp_all add: kernelopt_facts(2))
    then show ?thesis by (simp add: new_def kernelopt_facts(2))
  qed
  moreover have "\<forall>l \<in> set new. kernelopt_line l \<longrightarrow> l = KERNELOPT_LINE" by (auto simp: new_def)
  moreover have "patch_bootcfg (patch_bootcfg raw) = patch_bootcfg raw" using c by (simp add: patch_bootcfg_def [of "patch_bootcfg raw"])
  ultimately show ?thesis using k by (simp add: s Let_def)
qed

theorem bootcfg_runs_the_kickstart_witness:
  "\<not> contains_sub (''a=1'' @ CRLF @ ''kernelopt=cdromBoot'' @ CRLF) ''ks=cdrom:/ks.cfg'' \<and>
   KERNELOPT_LINE \<in> set (splitlines (patch_bootcfg (''a=1'' @ CRLF @ ''kernelopt=cdromBoot'' @ CRLF)))"
proof -
  have n: "\<not> contains_sub (''a=1'' @ CRLF @ ''kernelopt=cdromBoot'' @ CRLF) ''ks=cdrom:/ks.cfg''" by code_simp
  from bootcfg_runs_the_kickstart [of "''a=1'' @ CRLF @ ''kernelopt=cdromBoot'' @ CRLF", THEN conjunct2, THEN conjunct2, rule_format, OF n] n
  show ?thesis unfolding Let_def by argo
qed

subsection \<open>What the installer image carries\<close>

lemma extract_file_ok:
  "extract_file X x v p out w = (Inr b, u) \<Longrightarrow> u = snd (X (esxi_extraction x v p out) w)"
  unfolding extract_file_def by (auto simp: bindE_def seqE_def getE_def throw_def ret_def split: prod.splits sum.splits xrun.splits if_splits)

lemma patch_file_ok: "patch_file p w = (Inr (), u) \<longleftrightarrow> (\<exists>raw. w p = Some raw \<and> u = w(p \<mapsto> patch_bootcfg raw))"
  by (auto simp: patch_file_def read_file_def bindE_ok getE_def ret_def throw_def split: option.splits)

lemma esxi_extraction_frame:
  assumes "\<not> startswith x (td @ ''/'')" "\<not> startswith v (td @ ''/'')"
  shows "under td ''ks.cfg'' \<notin> set (esxi_extraction x v BOOTCFG_BIOS (under td ''BOOT.CFG''))"
    "under td ''ks.cfg'' \<notin> set (esxi_extraction x v BOOTCFG_UEFI (under td ''BOOT.EFI.CFG''))"
    "td \<noteq> ''/EFI/BOOT'' \<Longrightarrow> under td ''BOOT.CFG'' \<notin> set (esxi_extraction x v BOOTCFG_UEFI (under td ''BOOT.EFI.CFG''))"
proof -
  have e: "BOOTCFG_UEFI = under ''/EFI/BOOT'' ''BOOT.CFG''" by code_simp
  have k: "under td ''ks.cfg'' \<noteq> BOOTCFG_BIOS" "under td ''ks.cfg'' \<noteq> BOOTCFG_UEFI"
    using under_neq(2) [of "''ks.cfg''"] by (auto simp: BOOTCFG_BIOS_def BOOTCFG_UEFI_def)
  have u: "td \<noteq> ''/EFI/BOOT'' \<Longrightarrow> under td ''BOOT.CFG'' \<noteq> BOOTCFG_UEFI" unfolding e under_def append_same_eq .
  show "under td ''ks.cfg'' \<notin> set (esxi_extraction x v BOOTCFG_BIOS (under td ''BOOT.CFG''))"
    "under td ''ks.cfg'' \<notin> set (esxi_extraction x v BOOTCFG_UEFI (under td ''BOOT.EFI.CFG''))"
    "td \<noteq> ''/EFI/BOOT'' \<Longrightarrow> under td ''BOOT.CFG'' \<notin> set (esxi_extraction x v BOOTCFG_UEFI (under td ''BOOT.EFI.CFG''))"
    using k u under_neq(3) [OF assms(1)] under_neq(3) [OF assms(2)] by (simp_all add: esxi_extraction_def under_neq(4) under_neq(2))
qed

text \<open>The command that writes the prepared ESXi installer runs on files that carry the kickstart and boot configurations patched from the image's own, for BIOS
  always and for UEFI if the image has one, provided the tool changes only files named in its arguments; the preparation succeeds only if that
  command does, and its temporary files are gone afterwards.\<close>

theorem esxi_image_is_faithful:
  assumes "esxi_prepare_iso (Some x) X td v out ks w = (Inr (), w')"
    and frame: "\<And>argv u p. p \<notin> set argv \<Longrightarrow> snd (X argv u) p = u p"
    and apart: "\<not> startswith x (td @ ''/'')" "\<not> startswith v (td @ ''/'')" "td \<noteq> ''/EFI/BOOT''"
  shows "\<exists>u w1 have_efi m. X (esxi_xorriso_cmd x v out (under td ''ks.cfg'') (under td ''BOOT.CFG'') (under td ''BOOT.EFI.CFG'') have_efi) u = (Inr (Exited 0 m), w1) \<and>
    u (under td ''ks.cfg'') = Some ks \<and> (\<exists>raw. u (under td ''BOOT.CFG'') = Some (patch_bootcfg raw)) \<and>
    (have_efi \<longrightarrow> (\<exists>raw. u (under td ''BOOT.EFI.CFG'') = Some (patch_bootcfg raw))) \<and>
    w' = (\<lambda>p. if startswith p (td @ ''/'') then None else w1 p)"
proof -
  let ?k = "under td ''ks.cfg''" and ?b = "under td ''BOOT.CFG''" and ?e = "under td ''BOOT.EFI.CFG''"
  let ?w = "(w(out := None))(?k \<mapsto> ks)"
  note fr = esxi_extraction_frame [OF apart(1,2)]
  have n: "?k \<noteq> ?b" "?k \<noteq> ?e" "?b \<noteq> ?e" by (simp_all add: under_neq(4))
  from assms(1) obtain w1 w2 w3 w4 u have_efi where
    e1: "extract_file X x v BOOTCFG_BIOS ?b ?w = (Inr True, w2)" and p1: "patch_file ?b w2 = (Inr (), w3)"
    and e2: "extract_file X x v BOOTCFG_UEFI ?e w3 = (Inr have_efi, w4)" and p2: "(if have_efi then patch_file ?e else ret ()) w4 = (Inr (), u)"
    and r: "run_checked X (esxi_xorriso_cmd x v out ?k ?b ?e have_efi) u = (Inr (), w1)"
    and w': "w' = (\<lambda>p. if startswith p (td @ ''/'') then None else w1 p)"
    by (auto simp: esxi_prepare_iso_def Let_def seqE_ok bindE_ok throw_def dest!: finally_rmtree split: if_splits)
  have k2: "w2 ?k = Some ks" using extract_file_ok [OF e1] frame [OF fr(1), of ?w] by simp
  obtain raw where b3: "w3 = w2(?b \<mapsto> patch_bootcfg raw)" using p1 by (auto simp: patch_file_ok)
  have k4: "w4 ?k = Some ks" "w4 ?b = Some (patch_bootcfg raw)"
    using extract_file_ok [OF e2] frame [OF fr(2), of w3] frame [OF fr(3) [OF apart(3)], of w3] b3 k2 n by simp_all
  have "u ?k = Some ks \<and> u ?b = Some (patch_bootcfg raw) \<and> (have_efi \<longrightarrow> (\<exists>raw. u ?e = Some (patch_bootcfg raw)))"
  proof (cases have_efi)
    case True
    then obtain raw' where "u = w4(?e \<mapsto> patch_bootcfg raw')" using p2 by (auto simp: patch_file_ok)
    then show ?thesis using k4 n by auto
  next
    case False
    then show ?thesis using p2 k4 by (simp add: ret_def)
  qed
  then show ?thesis using r w' unfolding run_checked_ok by blast
qed

definition sample_xorriso :: tool where
  "sample_xorriso argv u = (Inr (Exited 0 []), case argv of
     _ # _ # _ # _ # _ # _ # _ # p # _ \<Rightarrow> if p \<noteq> ''/v.iso'' then u(p \<mapsto> ''kernelopt=x'') else u | _ \<Rightarrow> u)"

theorem esxi_image_is_faithful_witness:
  "\<exists>u have_efi raw. u ''/t/ks.cfg'' = Some ''rootpw x'' \<and> u ''/t/BOOT.CFG'' = Some (patch_bootcfg raw) \<and>
     fst (sample_xorriso (esxi_xorriso_cmd ''xorriso'' ''/v.iso'' ''/o.iso'' ''/t/ks.cfg'' ''/t/BOOT.CFG'' ''/t/BOOT.EFI.CFG'' have_efi) u) = Inr (Exited 0 [])"
proof -
  have "\<not> isl (fst (esxi_prepare_iso (Some ''xorriso'') sample_xorriso ''/t'' ''/v.iso'' ''/o.iso'' ''rootpw x'' (\<lambda>_. None)))" by code_simp
  then obtain w' where w: "esxi_prepare_iso (Some ''xorriso'') sample_xorriso ''/t'' ''/v.iso'' ''/o.iso'' ''rootpw x'' (\<lambda>_. None) = (Inr (), w')"
    using isl_unit_split by blast
  have f: "p \<notin> set argv \<Longrightarrow> snd (sample_xorriso argv u) p = u p" for argv u p
    by (auto simp: sample_xorriso_def split: list.splits)
  have a: "\<not> startswith ''xorriso'' (''/t'' @ ''/'')" "\<not> startswith ''/v.iso'' (''/t'' @ ''/'')" "''/t'' \<noteq> ''/EFI/BOOT''" by code_simp+
  have n: "under ''/t'' ''ks.cfg'' = ''/t/ks.cfg''" "under ''/t'' ''BOOT.CFG'' = ''/t/BOOT.CFG''" "under ''/t'' ''BOOT.EFI.CFG'' = ''/t/BOOT.EFI.CFG''" by code_simp+
  from esxi_image_is_faithful [OF w f a, unfolded n] obtain u have_efi raw where "u ''/t/ks.cfg'' = Some ''rootpw x''" "u ''/t/BOOT.CFG'' = Some (patch_bootcfg raw)" by blast
  moreover have "fst (sample_xorriso argv u) = Inr (Exited 0 [])" for argv by (simp add: sample_xorriso_def)
  ultimately show ?thesis by blast
qed

end
