(* ===== verification/Installer_Keys.thy ===== *)
theory Installer_Keys
  imports Esxi_Kickstart
begin

text \<open>
  The contract of \<^verbatim>\<open>Builder.config_hash\<close> (\<^verbatim>\<open>builders/base.py\<close>) over the three builders: the text whose digest names the built disks determines
  the size of the OS disk, the digest of the base image or installer medium, and the digest of the sidecar image. The locale
  \<open>disk_key\<close> states it, and is interpreted for cloud-init, Proxmox and ESXi. What the installers leave out of their texts is shown at the end.
\<close>

subsection \<open>Texts of sections\<close>

definition sec :: "string \<Rightarrow> string \<Rightarrow> string" where
  "sec x a = (x @ CHR 0x0A # ''---'') @ CHR 0x0A # a"

definition one_line :: "string \<Rightarrow> bool" where
  "one_line a \<longleftrightarrow> CHR 0x0A \<notin> set a"

lemma sec_inj: "one_line a \<Longrightarrow> one_line b \<Longrightarrow> sec x a = sec y b \<Longrightarrow> x = y \<and> a = b"
proof -
  assume l: "one_line a" "one_line b" and e: "sec x a = sec y b"
  have n: "CHR 0x0A \<notin> set ''---''" by simp
  note s = last_sep_unique [OF l [unfolded one_line_def], THEN iffD1, OF e [unfolded sec_def]]
  note t = last_sep_unique [OF n n, THEN iffD1, OF s [THEN conjunct1]]
  show ?thesis using s t by simp
qed

lemma one_line_simps [simp]: "one_line []" "one_line (c # s) \<longleftrightarrow> c \<noteq> CHR 0x0A \<and> one_line s" "one_line (s @ t) \<longleftrightarrow> one_line s \<and> one_line t"
  "one_line KICKSTART_KERNELOPT" "one_line (string_of_int i)"
  using plain_number(1) [of i] by (auto simp: one_line_def KICKSTART_KERNELOPT_def plain_token_def)

lemma one_line_take: "one_line s \<Longrightarrow> one_line (take n s)"
  unfolding one_line_def by (meson in_set_takeD)

subsection \<open>The contract\<close>

locale disk_key =
  fixes key_text :: "'b \<Rightarrow> vm_spec \<Rightarrow> string \<Rightarrow> string \<Rightarrow> string result"
    and settled :: "'b \<Rightarrow> bool"
  assumes recovers: "settled b \<Longrightarrow> settled b' \<Longrightarrow> one_line (firmware s) \<Longrightarrow> one_line (firmware s') \<Longrightarrow>
    one_line base \<Longrightarrow> one_line base' \<Longrightarrow> one_line sc \<Longrightarrow> one_line sc' \<Longrightarrow>
    key_text b s base sc = Inr t \<Longrightarrow> key_text b' s' base' sc' = Inr t \<Longrightarrow>
    disk_size_gb (os_drive s) = disk_size_gb (os_drive s') \<and> base = base' \<and> sc = sc'"
begin

lemma drifted_inputs_miss:
  assumes "settled b" "one_line (firmware s)" "one_line base" "one_line base'" "one_line sc" "one_line sc'"
    and "key_text b s base sc = Inr t" "key_text b s base' sc' = Inr t'" "base \<noteq> base' \<or> sc \<noteq> sc'"
  shows "t \<noteq> t'"
  using recovers [OF assms(1,1,2,2,3-6)] assms(7-9) by blast

lemma resized_os_disk_misses:
  assumes "settled b" "one_line (firmware s)" "one_line (firmware s')" "one_line base" "one_line sc"
    and "key_text b s base sc = Inr t" "key_text b s' base sc = Inr t'" "disk_size_gb (os_drive s) \<noteq> disk_size_gb (os_drive s')"
  shows "t \<noteq> t'"
  using recovers [OF assms(1,1,2,3,4,4,5,5)] assms(6-8) by blast

lemma equal_keys:
  assumes "settled b" "settled b'" "one_line (firmware s)" "one_line (firmware s')" "one_line base" "one_line base'" "one_line sc" "one_line sc'"
    and "key_text b s base sc = Inr t" "key_text b' s' base' sc' = Inr t'" "take 16 (sha t) = take 16 (sha t') \<Longrightarrow> t = t'"
    and "bindR (key_text b s base sc) (\<lambda>t. Inr (take 16 (sha t))) = bindR (key_text b' s' base' sc') (\<lambda>t. Inr (take 16 (sha t)))"
  shows "disk_size_gb (os_drive s) = disk_size_gb (os_drive s') \<and> base = base' \<and> sc = sc'"
  using recovers [OF assms(1-8)] assms(9-12) by simp

end

subsection \<open>The three builders\<close>

interpretation cik: disk_key "\<lambda>(dump, B, adr, macs, bn, ag) s base sc. ci_config_text dump B s adr base sc macs bn ag" "\<lambda>_. True"
proof
  fix b b' s s' base base' sc sc' t
  assume l: "one_line base" "one_line base'" "one_line sc" "one_line sc'"
    and t: "(\<lambda>(dump, B, adr, macs, bn, ag) s base sc. ci_config_text dump B s adr base sc macs bn ag) b s base sc = Inr t"
    and t': "(\<lambda>(dump, B, adr, macs, bn, ag) s base sc. ci_config_text dump B s adr base sc macs bn ag) b' s' base' sc' = Inr t"
  obtain dump B adr macs bn ag where b: "b = (dump, B, adr, macs, bn, ag)" by (cases b rule: prod_cases6)
  obtain dump' B' adr' macs' bn' ag' where b': "b' = (dump', B', adr', macs', bn', ag')" by (cases b' rule: prod_cases6)
  from config_text_form [OF t [unfolded b prod.case]] obtain u m v where c: "t = combined u m v (disks_text s) base sc" by blast
  from config_text_form [OF t' [unfolded b' prod.case]] obtain u' m' v' where c': "t = combined u' m' v' (disks_text s') base' sc'" by blast
  from combined_tail [OF disks_text_newline disks_text_newline l [unfolded one_line_def] trans [OF c [symmetric] c']]
  show "disk_size_gb (os_drive s) = disk_size_gb (os_drive s') \<and> base = base' \<and> sc = sc'" using disks_text_inj by blast
qed

definition pve_head :: "string \<Rightarrow> string \<Rightarrow> string \<Rightarrow> string \<Rightarrow> string \<Rightarrow> string" where
  "pve_head settings fqdn pw keys network =
     ''settings:'' @ settings @ newline @ ''---'' @ newline @ ''fqdn:'' @ fqdn @ newline @ ''---'' @ newline @
     ''root-password:'' @ pw @ newline @ ''---'' @ newline @ ''ssh-keys:'' @ keys @ newline @ ''---'' @ newline @ ''network:'' @ newline @ network"

lemma pve_combined_sec:
  "pve_combined st fq pw ks nw d f b c = sec (sec (sec (sec (pve_head st fq pw ks nw) (''disks:'' @ d)) (''first-boot:'' @ f)) (''base:'' @ b)) (''sidecar:'' @ c)"
  by (simp add: pve_combined_def pve_head_def sec_def newline_def)

definition pve_settled :: "(string \<Rightarrow> string) \<times> proxmox_builder \<times> (name, network_addressing) dict \<Rightarrow> bool" where
  "pve_settled = (\<lambda>(sha, B, adr). one_line (sha (first_boot_script B)) \<and> one_line (pb_filesystem B) \<and> one_line (pb_disk_device B))"

lemma pve_text_form:
  "pve_config_text sha B s adr base sc = Inr t \<Longrightarrow> \<exists>h. t = sec (sec (sec (sec h (''disks:'' @ pb_filesystem B @ '':'' @ pb_disk_device B @ '':'' @ string_of_int (disk_size_gb (os_drive s))))
     (''first-boot:'' @ take 24 (sha (first_boot_script B)))) (''base:'' @ base)) (''sidecar:'' @ sc)"
  unfolding pve_config_text_def pve_combined_sec first_boot_digest_def by (auto simp: bindR_def split: sum.splits)

lemma size_unique:
  assumes "fs @ '':'' @ dev @ '':'' @ string_of_int i = fs' @ '':'' @ dev' @ '':'' @ string_of_int j"
  shows "i = j"
proof -
  have c: "CHR '':'' \<notin> set (string_of_int k)" for k using string_of_int_chars [of "CHR '':''" k] by (auto simp: is_digit_def less_eq_char_def)
  have "(fs @ '':'' @ dev) @ CHR '':'' # string_of_int i = (fs' @ '':'' @ dev') @ CHR '':'' # string_of_int j" using assms by simp
  from last_sep_unique [OF c c, THEN iffD1, OF this] show ?thesis by (simp add: string_of_int_inj)
qed

interpretation pvek: disk_key "\<lambda>(sha, B, adr) s base sc. pve_config_text sha B s adr base sc" pve_settled
proof
  fix b b' s s' base base' sc sc' t
  assume st: "pve_settled b" "pve_settled b'" and l: "one_line base" "one_line base'" "one_line sc" "one_line sc'"
    and t: "(\<lambda>(sha, B, adr) s base sc. pve_config_text sha B s adr base sc) b s base sc = Inr t"
    and t': "(\<lambda>(sha, B, adr) s base sc. pve_config_text sha B s adr base sc) b' s' base' sc' = Inr t"
  obtain sha B adr sha' B' adr' where b: "b = (sha, B, adr)" "b' = (sha', B', adr')" by (cases b; cases b') auto
  let ?d = "\<lambda>B s. pb_filesystem B @ '':'' @ pb_disk_device B @ '':'' @ string_of_int (disk_size_gb (os_drive s))"
  obtain h where h: "t = sec (sec (sec (sec h (''disks:'' @ ?d B s)) (''first-boot:'' @ take 24 (sha (first_boot_script B)))) (''base:'' @ base)) (''sidecar:'' @ sc)"
    using pve_text_form [OF t [unfolded b prod.case]] by blast
  obtain h' where h': "t = sec (sec (sec (sec h' (''disks:'' @ ?d B' s')) (''first-boot:'' @ take 24 (sha' (first_boot_script B')))) (''base:'' @ base')) (''sidecar:'' @ sc')"
    using pve_text_form [OF t' [unfolded b prod.case]] by blast
  have o: "one_line (''sidecar:'' @ sc)" "one_line (''sidecar:'' @ sc')" "one_line (''base:'' @ base)" "one_line (''base:'' @ base')"
    "one_line (''first-boot:'' @ take 24 (sha (first_boot_script B)))" "one_line (''first-boot:'' @ take 24 (sha' (first_boot_script B')))"
    "one_line (''disks:'' @ ?d B s)" "one_line (''disks:'' @ ?d B' s')"
    using l st one_line_take unfolding b pve_settled_def by simp_all
  note s1 = sec_inj [OF o(1,2) trans [OF h [symmetric] h']]
  note s2 = sec_inj [OF o(3,4) s1 [THEN conjunct1]]
  note s3 = sec_inj [OF o(5,6) s2 [THEN conjunct1]]
  note s4 = sec_inj [OF o(7,8) s3 [THEN conjunct1], THEN conjunct2]
  have "disk_size_gb (os_drive s) = disk_size_gb (os_drive s')" using s4 size_unique by simp
  then show "disk_size_gb (os_drive s) = disk_size_gb (os_drive s') \<and> base = base' \<and> sc = sc'" using s1 s2 by simp
qed

definition esxi_settled :: "(string \<Rightarrow> string) \<times> esxi_builder \<Rightarrow> bool" where
  "esxi_settled = (\<lambda>(sha, B). True)"

lemma esxi_text_form:
  "esxi_config_text sha B s base sc = Inr t \<Longrightarrow> \<exists>h. t = sec (sec (sec (sec (sec h (''disk:'' @ string_of_int (disk_size_gb (os_drive s)))) (''firmware:'' @ firmware s))
     (''kernelopt:'' @ KICKSTART_KERNELOPT)) (''base:'' @ base)) (''sidecar:'' @ sc)"
proof -
  have c: "esxi_combined pw key lic ks d fw b c = sec (sec (sec (sec (sec (''root-password:'' @ pw @ newline @ ''---'' @ newline @ ''ssh-key:'' @ key @ newline @ ''---'' @ newline @
     ''license:'' @ lic @ newline @ ''---'' @ newline @ ''kickstart:'' @ ks) (''disk:'' @ d)) (''firmware:'' @ fw)) (''kernelopt:'' @ KICKSTART_KERNELOPT)) (''base:'' @ b)) (''sidecar:'' @ c)"
    for pw key lic ks d fw b c by (simp add: esxi_combined_def sec_def newline_def)
  show "esxi_config_text sha B s base sc = Inr t \<Longrightarrow> \<exists>h. t = sec (sec (sec (sec (sec h (''disk:'' @ string_of_int (disk_size_gb (os_drive s)))) (''firmware:'' @ firmware s))
     (''kernelopt:'' @ KICKSTART_KERNELOPT)) (''base:'' @ base)) (''sidecar:'' @ sc)"
    unfolding esxi_config_text_def c by (auto simp: bindR_def split: sum.splits)
qed

lemma esxi_text_determines:
  assumes "one_line (firmware s)" "one_line (firmware s')" "one_line base" "one_line base'" "one_line sc" "one_line sc'"
    and t: "esxi_config_text sha B s base sc = Inr t" "esxi_config_text sha' B' s' base' sc' = Inr t"
  shows "disk_size_gb (os_drive s) = disk_size_gb (os_drive s') \<and> firmware s = firmware s' \<and> base = base' \<and> sc = sc'"
proof -
  obtain h where h: "t = sec (sec (sec (sec (sec h (''disk:'' @ string_of_int (disk_size_gb (os_drive s)))) (''firmware:'' @ firmware s))
     (''kernelopt:'' @ KICKSTART_KERNELOPT)) (''base:'' @ base)) (''sidecar:'' @ sc)" using esxi_text_form [OF t(1)] by blast
  obtain h' where h': "t = sec (sec (sec (sec (sec h' (''disk:'' @ string_of_int (disk_size_gb (os_drive s')))) (''firmware:'' @ firmware s'))
     (''kernelopt:'' @ KICKSTART_KERNELOPT)) (''base:'' @ base')) (''sidecar:'' @ sc')" using esxi_text_form [OF t(2)] by blast
  have o: "one_line (''sidecar:'' @ sc)" "one_line (''sidecar:'' @ sc')" "one_line (''base:'' @ base)" "one_line (''base:'' @ base')"
    "one_line (''kernelopt:'' @ KICKSTART_KERNELOPT)" "one_line (''firmware:'' @ firmware s)" "one_line (''firmware:'' @ firmware s')"
    "one_line (''disk:'' @ string_of_int (disk_size_gb (os_drive s)))" "one_line (''disk:'' @ string_of_int (disk_size_gb (os_drive s')))"
    using assms(1-6) by simp_all
  note s1 = sec_inj [OF o(1,2) trans [OF h [symmetric] h']]
  note s2 = sec_inj [OF o(3,4) s1 [THEN conjunct1]]
  note s3 = sec_inj [OF o(5,5) s2 [THEN conjunct1]]
  note s4 = sec_inj [OF o(6,7) s3 [THEN conjunct1]]
  note s5 = sec_inj [OF o(8,9) s4 [THEN conjunct1], THEN conjunct2]
  show ?thesis using s1 s2 s4 s5 by (simp add: string_of_int_inj)
qed

interpretation esxik: disk_key "\<lambda>(sha, B) s base sc. esxi_config_text sha B s base sc" esxi_settled
proof
  fix b b' s s' base base' sc sc' t
  assume l: "one_line (firmware s)" "one_line (firmware s')" "one_line base" "one_line base'" "one_line sc" "one_line sc'"
    and t: "(\<lambda>(sha, B) s base sc. esxi_config_text sha B s base sc) b s base sc = Inr t"
    and t': "(\<lambda>(sha, B) s base sc. esxi_config_text sha B s base sc) b' s' base' sc' = Inr t"
  obtain sha B sha' B' where b: "b = (sha, B)" "b' = (sha', B')" by (cases b; cases b') auto
  from esxi_text_determines [OF l t [unfolded b prod.case] t' [unfolded b prod.case]]
  show "disk_size_gb (os_drive s) = disk_size_gb (os_drive s') \<and> base = base' \<and> sc = sc'" by blast
qed

text \<open>C39: The key of an installed disk separates what its text covers: under either installer, equal keys mean the same OS disk size, the same installer medium and the
  same sidecar image, unless the digests of the two texts collide. A drifted installer or sidecar and a resized OS disk never reuse an artifact.\<close>

theorem installer_keys_are_sensitive:
  assumes "one_line (firmware s)" "one_line (firmware s')" "one_line base" "one_line base'" "one_line sc" "one_line sc'"
  shows "(pve_settled (sha, B, adr) \<and> pve_settled (sha, B', adr') \<and> pve_config_text sha B s adr base sc = Inr t \<and> pve_config_text sha B' s' adr' base' sc' = Inr t' \<and>
      (take 16 (sha t) = take 16 (sha t') \<longrightarrow> t = t') \<and> pve_config_hash sha B s adr base sc = pve_config_hash sha B' s' adr' base' sc' \<longrightarrow>
      disk_size_gb (os_drive s) = disk_size_gb (os_drive s') \<and> base = base' \<and> sc = sc') \<and>
    (esxi_config_text sha E s base sc = Inr u \<and> esxi_config_text sha E' s' base' sc' = Inr u' \<and>
      (take 16 (sha u) = take 16 (sha u') \<longrightarrow> u = u') \<and> esxi_config_hash sha E s base sc = esxi_config_hash sha E' s' base' sc' \<longrightarrow>
      disk_size_gb (os_drive s) = disk_size_gb (os_drive s') \<and> base = base' \<and> sc = sc')"
proof (rule conjI; rule impI; elim conjE)
  assume h: "pve_settled (sha, B, adr)" "pve_settled (sha, B', adr')" "pve_config_text sha B s adr base sc = Inr t" "pve_config_text sha B' s' adr' base' sc' = Inr t'"
    "take 16 (sha t) = take 16 (sha t') \<longrightarrow> t = t'" "pve_config_hash sha B s adr base sc = pve_config_hash sha B' s' adr' base' sc'"
  show "disk_size_gb (os_drive s) = disk_size_gb (os_drive s') \<and> base = base' \<and> sc = sc'"
    using pvek.equal_keys [OF h(1,2) assms, of t t' sha] h(3-6) by (simp only: prod.case pve_config_hash_def)
next
  assume h: "esxi_config_text sha E s base sc = Inr u" "esxi_config_text sha E' s' base' sc' = Inr u'"
    "take 16 (sha u) = take 16 (sha u') \<longrightarrow> u = u'" "esxi_config_hash sha E s base sc = esxi_config_hash sha E' s' base' sc'"
  show "disk_size_gb (os_drive s) = disk_size_gb (os_drive s') \<and> base = base' \<and> sc = sc'"
    using esxik.equal_keys [of "(sha, E)" "(sha, E')", OF _ _ assms, of u u' sha] h by (simp only: prod.case esxi_config_hash_def esxi_settled_def)
qed

definition sized_spec :: "int \<Rightarrow> int list \<Rightarrow> string \<Rightarrow> vm_spec" where
  "sized_spec gb data fw = \<lparr>vs_name = ''node'', devices = [CPU 2 True, Memory 4096, OSDrive (PoolHandle ''p'') gb] @ map (HardDrive (PoolHandle ''p'')) data, firmware = fw\<rparr>"

abbreviation sample_sha :: "string \<Rightarrow> string" where
  "sample_sha \<equiv> (\<lambda>t. if last t = CHR ''c'' then ''c'' else ''x'')"

theorem installer_keys_are_sensitive_witness:
  "esxi_config_hash sample_sha sample_ks (sized_spec 8 [] ''uefi'') ''aa'' ''bb'' \<noteq> esxi_config_hash sample_sha sample_ks (sized_spec 8 [] ''uefi'') ''aa'' ''bc'' \<and>
   pve_config_hash sample_sha (sample_pve ''x'') (sized_spec 8 [] ''uefi'') [] ''aa'' ''bb'' \<noteq> pve_config_hash sample_sha (sample_pve ''x'') (sized_spec 8 [] ''uefi'') [] ''aa'' ''bc''"
proof -
  let ?s = "sized_spec 8 [] ''uefi''" and ?B = "sample_pve ''x''"
  have f: "one_line (firmware ?s)" "one_line ''aa''" "one_line ''bb''" "one_line ''bc''" by (simp_all add: sized_spec_def)
  obtain ks root root' net where "build_kickstart sample_ks = Inr ks" "root_credential (eb_credentials sample_ks) = Inr root"
    "root_credential (pb_credentials ?B) = Inr root'" "network_block ?B ?s [] = Inr net"
  proof -
    have "\<not> isl (root_credential (eb_credentials sample_ks))" "\<not> isl (root_credential (pb_credentials ?B))" "\<not> isl (network_block ?B ?s [])" by code_simp+
    then show ?thesis using sample_ks_ok(2) that by (metis isl_def sum.collapse(2))
  qed
  then have "\<exists>u. esxi_config_text sample_sha sample_ks ?s ''aa'' sc = Inr u" "\<exists>t. pve_config_text sample_sha ?B ?s [] ''aa'' sc = Inr t" for sc
    by (simp_all add: esxi_config_text_def pve_config_text_def)
  then obtain u u' t t' where e: "esxi_config_text sample_sha sample_ks ?s ''aa'' ''bb'' = Inr u" "esxi_config_text sample_sha sample_ks ?s ''aa'' ''bc'' = Inr u'"
    and p: "pve_config_text sample_sha ?B ?s [] ''aa'' ''bb'' = Inr t" "pve_config_text sample_sha ?B ?s [] ''aa'' ''bc'' = Inr t'" by blast
  have l: "last (sec x (''sidecar:'' @ sc)) = last sc" if "sc \<noteq> []" for x sc using that by (simp add: sec_def)
  have "last u = CHR ''b''" "last u' = CHR ''c''" "last t = CHR ''b''" "last t' = CHR ''c''"
    using esxi_text_form [OF e(1)] esxi_text_form [OF e(2)] pve_text_form [OF p(1)] pve_text_form [OF p(2)] l [of "''bb''"] l [of "''bc''"] by (auto simp del: append.simps)
  then have c: "take 16 (sample_sha u) = take 16 (sample_sha u') \<longrightarrow> u = u'" "take 16 (sample_sha t) = take 16 (sample_sha t') \<longrightarrow> t = t'" by simp_all
  have st: "pve_settled (sample_sha, ?B, [])" unfolding pve_settled_def by (simp add: one_line_def sample_pve_def)
  have d: "''bb'' \<noteq> ''bc''" by simp
  have "esxi_config_hash sample_sha sample_ks ?s ''aa'' ''bb'' \<noteq> esxi_config_hash sample_sha sample_ks ?s ''aa'' ''bc''"
    using installer_keys_are_sensitive [OF f(1,1,2,2,3,4), THEN conjunct2, rule_format, OF conjI [OF e(1) conjI [OF e(2) conjI [OF c(1)]]]] d by argo
  moreover have "pve_config_hash sample_sha ?B ?s [] ''aa'' ''bb'' \<noteq> pve_config_hash sample_sha ?B ?s [] ''aa'' ''bc''"
    using installer_keys_are_sensitive [OF f(1,1,2,2,3,4), THEN conjunct1, rule_format, OF conjI [OF st conjI [OF st conjI [OF p(1) conjI [OF p(2) conjI [OF c(2)]]]]]] d by argo
  ultimately show ?thesis by blast
qed

subsection \<open>What the installers leave out\<close>

text \<open>The base class asks that everything that changes the set of built disks moves the key. The texts of both installers know the OS disk only: adding, removing or
  resizing a data disk keeps the key. The Proxmox text does not know the firmware either.\<close>

theorem installer_keys_ignore_data_disks:
  assumes "vs_name s = vs_name s'" "nics s = nics s'" "disk_size_gb (os_drive s) = disk_size_gb (os_drive s')" "firmware s = firmware s'"
  shows "pve_config_hash sha B s adr base sc = pve_config_hash sha B s' adr base sc \<and> esxi_config_hash sha E s base sc = esxi_config_hash sha E s' base sc"
  using assms by (simp add: pve_config_hash_def pve_config_text_def network_block_def esxi_config_hash_def esxi_config_text_def)

theorem pve_key_ignores_firmware:
  assumes "vs_name s = vs_name s'" "nics s = nics s'" "disk_size_gb (os_drive s) = disk_size_gb (os_drive s')"
  shows "pve_config_hash sha B s adr base sc = pve_config_hash sha B s' adr base sc"
  using assms by (simp add: pve_config_hash_def pve_config_text_def network_block_def)

theorem resized_data_disk_keeps_the_key:
  "pve_config_hash sha B (sized_spec 8 [10] fw) adr base sc = pve_config_hash sha B (sized_spec 8 [20] fw) adr base sc \<and>
   esxi_config_hash sha E (sized_spec 8 [10] fw) base sc = esxi_config_hash sha E (sized_spec 8 [20] fw) base sc \<and>
   map disk_size_gb (data_drives (sized_spec 8 [10] fw)) \<noteq> map disk_size_gb (data_drives (sized_spec 8 [20] fw))"
proof -
  have "vs_name (sized_spec 8 [10] fw) = vs_name (sized_spec 8 [20] fw)" "nics (sized_spec 8 [10] fw) = nics (sized_spec 8 [20] fw)"
    "disk_size_gb (os_drive (sized_spec 8 [10] fw)) = disk_size_gb (os_drive (sized_spec 8 [20] fw))" "firmware (sized_spec 8 [10] fw) = firmware (sized_spec 8 [20] fw)"
    "map disk_size_gb (data_drives (sized_spec 8 [10] fw)) \<noteq> map disk_size_gb (data_drives (sized_spec 8 [20] fw))" by code_simp+
  then show ?thesis using installer_keys_ignore_data_disks by blast
qed

end
