(* ===== verification/Dashboard_State.thy ===== *)
theory Dashboard_State
  imports Prelude "HOL-Library.AList"
begin

text \<open>
  The state behind the live dashboard (\<^verbatim>\<open>orchestrator/dashboard_state.py\<close>): the stages of the VMs, the records of the tests and
  the two bounded buffers. Worker threads call the operations; each runs under one lock, so a run is a sequence of them in any order, the
  reachable states of \<open>dash_step\<close>. A reading of the monotonic clock is an integer argument.
\<close>

datatype vm_stage = PENDING | PROVISIONING | BUILDING | BOOTING | BINDING | READY | FAILED

definition is_terminal :: "vm_stage \<Rightarrow> bool" where
  "is_terminal s \<longleftrightarrow> s = READY \<or> s = FAILED"

datatype test_status = Running | Passed | Failed

record vm_record =
  v_name :: string
  v_stage :: vm_stage
  v_started_at :: "int option"
  v_detail :: "string option"

record vm_view =
  w_name :: string
  w_stage :: vm_stage
  w_elapsed :: "int option"
  w_detail :: "string option"

record test_record =
  t_name :: string
  t_status :: test_status
  t_duration :: int
  t_error :: "string option"

record dashboard =
  d_vms :: "(string, vm_record) dict"
  d_tests :: "(string, test_record) dict"
  d_log_max :: nat
  d_log_ring :: "string list"
  d_serial_max :: nat
  d_serial_ring :: "(string \<times> string) list"

record dash_snapshot =
  s_vms :: "vm_view list"
  s_tests :: "test_record list"
  s_log_lines :: "string list"
  s_serial_lines :: "(string \<times> string) list"

definition LOG_RING :: nat where "LOG_RING = 200"
definition SERIAL_RING :: nat where "SERIAL_RING = 500"

definition DashboardState :: "nat \<Rightarrow> nat \<Rightarrow> dashboard" where
  "DashboardState log_maxlen serial_maxlen =
     \<lparr>d_vms = [], d_tests = [], d_log_max = log_maxlen, d_log_ring = [], d_serial_max = serial_maxlen, d_serial_ring = []\<rparr>"

definition fresh_vm :: "string \<Rightarrow> vm_record" where
  "fresh_vm n = \<lparr>v_name = n, v_stage = PENDING, v_started_at = None, v_detail = None\<rparr>"

definition setdefault :: "string \<Rightarrow> (string, vm_record) dict \<Rightarrow> (string, vm_record) dict" where
  "setdefault n d = (case map_of d n of None \<Rightarrow> AList.update n (fresh_vm n) d | Some _ \<Rightarrow> d)"

definition seed_vms :: "string list \<Rightarrow> dashboard \<Rightarrow> dashboard" where
  "seed_vms names D = D\<lparr>d_vms := fold setdefault names (d_vms D)\<rparr>"

definition set_vm_stage :: "int \<Rightarrow> string \<Rightarrow> vm_stage \<Rightarrow> string option \<Rightarrow> dashboard \<Rightarrow> dashboard" where
  "set_vm_stage now n stage detail D =
     (let rec = (case map_of (d_vms D) n of Some r \<Rightarrow> r | None \<Rightarrow> fresh_vm n);
          started = (if v_started_at rec = None \<and> stage \<noteq> PENDING then Some now else v_started_at rec)
      in D\<lparr>d_vms := AList.update n (rec\<lparr>v_stage := stage, v_started_at := started, v_detail := (if detail \<noteq> None then detail else v_detail rec)\<rparr>) (d_vms D)\<rparr>)"

text \<open>\<^verbatim>\<open>rec.detail or detail\<close>: an empty text counts as none.\<close>

definition aborted :: "string \<Rightarrow> vm_record \<Rightarrow> vm_record" where
  "aborted detail r =
     (if is_terminal (v_stage r) then r
      else r\<lparr>v_stage := FAILED, v_detail := (case v_detail r of Some (c # t) \<Rightarrow> Some (c # t) | _ \<Rightarrow> Some detail)\<rparr>)"

definition abort_unfinished :: "string \<Rightarrow> dashboard \<Rightarrow> dashboard" where
  "abort_unfinished detail D = D\<lparr>d_vms := map (\<lambda>(n, r). (n, aborted detail r)) (d_vms D)\<rparr>"

definition start_test :: "string \<Rightarrow> dashboard \<Rightarrow> dashboard" where
  "start_test n D = D\<lparr>d_tests := AList.update n \<lparr>t_name = n, t_status = Running, t_duration = 0, t_error = None\<rparr> (d_tests D)\<rparr>"

definition finish_test :: "string \<Rightarrow> bool \<Rightarrow> int \<Rightarrow> string option \<Rightarrow> dashboard \<Rightarrow> dashboard" where
  "finish_test n passed duration error D =
     D\<lparr>d_tests := AList.update n \<lparr>t_name = n, t_status = (if passed then Passed else Failed), t_duration = duration, t_error = error\<rparr> (d_tests D)\<rparr>"

text \<open>\<^verbatim>\<open>deque(maxlen=m).append(x)\<close>.\<close>

definition ring_append :: "nat \<Rightarrow> 'a \<Rightarrow> 'a list \<Rightarrow> 'a list" where
  "ring_append m x xs = drop (length xs + 1 - m) (xs @ [x])"

definition append_log :: "string \<Rightarrow> dashboard \<Rightarrow> dashboard" where
  "append_log line D = D\<lparr>d_log_ring := ring_append (d_log_max D) line (d_log_ring D)\<rparr>"

definition append_serial :: "string \<Rightarrow> string \<Rightarrow> dashboard \<Rightarrow> dashboard" where
  "append_serial n line D = D\<lparr>d_serial_ring := ring_append (d_serial_max D) (n, line) (d_serial_ring D)\<rparr>"

definition view_of :: "int \<Rightarrow> vm_record \<Rightarrow> vm_view" where
  "view_of now r = \<lparr>w_name = v_name r, w_stage = v_stage r, w_elapsed = map_option (\<lambda>t. now - t) (v_started_at r), w_detail = v_detail r\<rparr>"

definition take_snapshot :: "int \<Rightarrow> dashboard \<Rightarrow> dash_snapshot" where
  "take_snapshot now D =
     \<lparr>s_vms = map (view_of now \<circ> snd) (d_vms D), s_tests = map snd (d_tests D), s_log_lines = d_log_ring D, s_serial_lines = d_serial_ring D\<rparr>"

subsection \<open>Runs\<close>

text \<open>
  A state with the latest clock reading that an operation has used. Operations interleave in any order; a worker reads the clock before it waits
  for the lock, so a reading may be older than the ones before it.
\<close>

inductive dash_step :: "int \<times> dashboard \<Rightarrow> int \<times> dashboard \<Rightarrow> bool" where
  seed: "dash_step (t, D) (t, seed_vms names D)"
| stage: "dash_step (t, D) (max t now, set_vm_stage now n st detail D)"
| abort: "dash_step (t, D) (t, abort_unfinished detail D)"
| start: "dash_step (t, D) (t, start_test n D)"
| finish: "dash_step (t, D) (t, finish_test n p dur err D)"
| log_line: "dash_step (t, D) (t, append_log l D)"
| serial_line: "dash_step (t, D) (t, append_serial n l D)"

inductive_cases dash_stepE: "dash_step (t, D) (t', D')"

inductive dash_reachable :: "int \<times> dashboard \<Rightarrow> bool" where
  init: "dash_reachable (t, DashboardState m k)"
| step: "dash_reachable s \<Longrightarrow> dash_step s s' \<Longrightarrow> dash_reachable s'"

fun dash_wf :: "int \<times> dashboard \<Rightarrow> bool" where
  "dash_wf (t, D) \<longleftrightarrow>
     distinct (dkeys (d_vms D)) \<and> (\<forall>(n, r) \<in> set (d_vms D). v_name r = n \<and> (v_started_at r = None \<longrightarrow> v_stage r = PENDING \<or> v_stage r = FAILED) \<and>
       (\<forall>t0 \<in> set_option (v_started_at r). t0 \<le> t)) \<and>
     distinct (dkeys (d_tests D)) \<and> (\<forall>(n, r) \<in> set (d_tests D). t_name r = n) \<and>
     length (d_log_ring D) \<le> d_log_max D \<and> length (d_serial_ring D) \<le> d_serial_max D"

subsection \<open>The invariant\<close>

lemma update_keys: "distinct (dkeys d) \<Longrightarrow> distinct (dkeys (AList.update k v d))"
  by (simp add: distinct_update)

lemma update_all:
  "(\<forall>(n, r) \<in> set d. P n r) \<Longrightarrow> P k v \<Longrightarrow> \<forall>(n, r) \<in> set (AList.update k v d). P n r"
  by (induction d) auto

lemma setdefault_all:
  assumes "distinct (dkeys d)" "\<forall>(n, r) \<in> set d. P n r" "\<And>n. P n (fresh_vm n)"
  shows "distinct (dkeys (fold setdefault names d)) \<and> (\<forall>(n, r) \<in> set (fold setdefault names d). P n r)"
  using assms
proof (induction names arbitrary: d)
  case (Cons n names)
  have "distinct (dkeys (setdefault n d)) \<and> (\<forall>(n, r) \<in> set (setdefault n d). P n r)"
    using Cons.prems update_keys update_all [of d P n "fresh_vm n"] by (auto simp: setdefault_def split: option.splits)
  then show ?case using Cons.IH [of "setdefault n d"] Cons.prems(3) by simp
qed simp

lemma ring_append_length: "length (ring_append m x xs) \<le> m"
  by (simp add: ring_append_def)

definition vm_ok :: "int \<Rightarrow> string \<Rightarrow> vm_record \<Rightarrow> bool" where
  "vm_ok t n r \<longleftrightarrow> v_name r = n \<and> (v_started_at r = None \<longrightarrow> v_stage r = PENDING \<or> v_stage r = FAILED) \<and> (\<forall>t0 \<in> set_option (v_started_at r). t0 \<le> t)"

lemma dash_wf_iff:
  "dash_wf (t, D) \<longleftrightarrow> distinct (dkeys (d_vms D)) \<and> (\<forall>(n, r) \<in> set (d_vms D). vm_ok t n r) \<and>
     distinct (dkeys (d_tests D)) \<and> (\<forall>(n, r) \<in> set (d_tests D). t_name r = n) \<and>
     length (d_log_ring D) \<le> d_log_max D \<and> length (d_serial_ring D) \<le> d_serial_max D"
  by (simp add: vm_ok_def)

lemma set_vm_stage_wf:
  assumes "dash_wf (t, D)"
  shows "dash_wf (max t now, set_vm_stage now n st detail D)"
proof -
  have all: "\<forall>(n, r) \<in> set (d_vms D). vm_ok (max t now) n r" using assms by (auto simp: vm_ok_def)
  define rec where "rec = (case map_of (d_vms D) n of Some r \<Rightarrow> r | None \<Rightarrow> fresh_vm n)"
  define rec' where "rec' = rec\<lparr>v_stage := st, v_started_at := (if v_started_at rec = None \<and> st \<noteq> PENDING then Some now else v_started_at rec),
    v_detail := (if detail \<noteq> None then detail else v_detail rec)\<rparr>"
  have "vm_ok (max t now) n rec"
    using all map_of_SomeD [of "d_vms D" n] by (auto simp: rec_def fresh_vm_def vm_ok_def split: option.splits)
  then have "vm_ok (max t now) n rec'" by (cases "v_started_at rec") (simp_all add: vm_ok_def rec'_def)
  then have "\<forall>(n, r) \<in> set (AList.update n rec' (d_vms D)). vm_ok (max t now) n r" by (rule update_all [OF all])
  moreover have "set_vm_stage now n st detail D = D\<lparr>d_vms := AList.update n rec' (d_vms D)\<rparr>"
    by (simp only: set_vm_stage_def Let_def rec'_def rec_def)
  ultimately show ?thesis using assms update_keys [of "d_vms D" n rec'] unfolding dash_wf_iff by simp
qed

lemma test_update_wf:
  assumes "dash_wf (t, D)" "t_name r = n"
  shows "dash_wf (t, D\<lparr>d_tests := AList.update n r (d_tests D)\<rparr>)"
proof -
  have "\<forall>(n, r) \<in> set (d_tests D). t_name r = n" using assms(1) unfolding dash_wf_iff by blast
  then have "\<forall>(n, r) \<in> set (AList.update n r (d_tests D)). t_name r = n" using assms(2) by (rule update_all)
  then show ?thesis using assms(1) update_keys [of "d_tests D" n r] unfolding dash_wf_iff by simp
qed

lemma dash_step_wf: "dash_step s s' \<Longrightarrow> dash_wf s \<Longrightarrow> dash_wf s'"
proof (induction rule: dash_step.induct)
  case (seed t D names)
  then show ?case
    using setdefault_all [of "d_vms D" "vm_ok t" names] by (simp add: dash_wf_iff seed_vms_def vm_ok_def fresh_vm_def del: dash_wf.simps)
next
  case (stage t D now n st detail)
  then show ?case using set_vm_stage_wf by blast
next
  case (abort t D detail)
  have "dkeys (map (\<lambda>(n, r). (n, aborted detail r)) (d_vms D)) = dkeys (d_vms D)" by (simp add: case_prod_unfold comp_def)
  then have keys: "distinct (dkeys (map (\<lambda>(n, r). (n, aborted detail r)) (d_vms D)))" using abort by (simp only: dash_wf_iff)
  have one: "vm_ok t n r \<Longrightarrow> vm_ok t n (aborted detail r)" for n r
    by (cases "is_terminal (v_stage r)") (simp_all add: vm_ok_def aborted_def)
  then have "\<forall>(n, r) \<in> set (map (\<lambda>(n, r). (n, aborted detail r)) (d_vms D)). vm_ok t n r" using abort unfolding dash_wf_iff by auto
  then show ?case using abort keys unfolding dash_wf_iff abort_unfinished_def by (simp del: map_map)
next
  case (start t D n)
  then show ?case by (simp add: start_test_def test_update_wf del: dash_wf.simps)
next
  case (finish t D n p dur err)
  then show ?case by (simp add: finish_test_def test_update_wf del: dash_wf.simps)
qed (simp_all add: append_log_def append_serial_def ring_append_length)

lemma aborted_view:
  "w_name (view_of now (aborted detail r)) = w_name (view_of now r) \<and> is_terminal (w_stage (view_of now (aborted detail r))) \<and>
     (is_terminal (w_stage (view_of now r)) \<longrightarrow> view_of now (aborted detail r) = view_of now r)"
  by (cases "is_terminal (v_stage r)") (simp_all add: view_of_def aborted_def, simp add: is_terminal_def)

lemma reachable_wf: "dash_reachable s \<Longrightarrow> dash_wf s"
  by (induction rule: dash_reachable.induct) (auto simp: DashboardState_def intro: dash_step_wf)

text \<open>Whatever the worker threads report, in whatever order, a snapshot is consistent: each VM appears once, a VM without elapsed time is pending or was failed before
  it started, no elapsed time is negative when the clock is read after every reading used before, the buffers stay within their bounds; and after the sweep of an interrupted run every VM is in a
  final state, those that were in one unchanged.\<close>

theorem snapshot_is_consistent:
  assumes "dash_reachable (t, D)" "t \<le> now"
  shows "distinct (map w_name (s_vms (take_snapshot now D))) \<and>
    (\<forall>v \<in> set (s_vms (take_snapshot now D)). (w_elapsed v = None \<longrightarrow> w_stage v = PENDING \<or> w_stage v = FAILED) \<and> (\<forall>e \<in> set_option (w_elapsed v). 0 \<le> e)) \<and>
    length (s_log_lines (take_snapshot now D)) \<le> d_log_max D \<and> length (s_serial_lines (take_snapshot now D)) \<le> d_serial_max D \<and>
    list_all2 (\<lambda>v v'. w_name v' = w_name v \<and> is_terminal (w_stage v') \<and> (is_terminal (w_stage v) \<longrightarrow> v' = v))
      (s_vms (take_snapshot now D)) (s_vms (take_snapshot now (abort_unfinished detail D)))"
proof -
  have wf: "distinct (dkeys (d_vms D))" "\<forall>(n, r) \<in> set (d_vms D). vm_ok t n r"
    "length (d_log_ring D) \<le> d_log_max D" "length (d_serial_ring D) \<le> d_serial_max D"
    using reachable_wf [OF assms(1)] unfolding dash_wf_iff by blast+
  have "map w_name (s_vms (take_snapshot now D)) = dkeys (d_vms D)"
    using wf(2) by (auto simp: take_snapshot_def view_of_def vm_ok_def)
  then have uniq: "distinct (map w_name (s_vms (take_snapshot now D)))" using wf(1) by simp
  have times: "(w_elapsed v = None \<longrightarrow> w_stage v = PENDING \<or> w_stage v = FAILED) \<and> (\<forall>e \<in> set_option (w_elapsed v). 0 \<le> e)"
    if "v \<in> set (s_vms (take_snapshot now D))" for v
    using that wf(2) assms(2) by (fastforce simp: take_snapshot_def view_of_def vm_ok_def)
  have sweep: "list_all2 (\<lambda>v v'. w_name v' = w_name v \<and> is_terminal (w_stage v') \<and> (is_terminal (w_stage v) \<longrightarrow> v' = v))
      (map (view_of now \<circ> snd) ds) (map (view_of now \<circ> snd) (map (\<lambda>(n, r). (n, aborted detail r)) ds))" for ds
    by (induction ds) (simp_all add: aborted_view case_prod_unfold)
  have "s_vms (take_snapshot now D) = map (view_of now \<circ> snd) (d_vms D)"
    "s_vms (take_snapshot now (abort_unfinished detail D)) = map (view_of now \<circ> snd) (map (\<lambda>(n, r). (n, aborted detail r)) (d_vms D))"
    by (simp_all add: take_snapshot_def abort_unfinished_def)
  then have "list_all2 (\<lambda>v v'. w_name v' = w_name v \<and> is_terminal (w_stage v') \<and> (is_terminal (w_stage v) \<longrightarrow> v' = v))
      (s_vms (take_snapshot now D)) (s_vms (take_snapshot now (abort_unfinished detail D)))"
    using sweep [of "d_vms D"] by argo
  moreover have "length (s_log_lines (take_snapshot now D)) \<le> d_log_max D" "length (s_serial_lines (take_snapshot now D)) \<le> d_serial_max D"
    using wf(3,4) by (simp_all add: take_snapshot_def)
  ultimately show ?thesis using uniq times by blast
qed

definition sample_run :: dashboard where
  "sample_run = append_log ''x'' (set_vm_stage 7 ''web'' BOOTING None (seed_vms [''web'', ''db''] (DashboardState LOG_RING SERIAL_RING)))"

lemma sample_run_reachable: "dash_reachable (7, sample_run)"
proof -
  have "dash_reachable (0, DashboardState LOG_RING SERIAL_RING)" by (rule dash_reachable.init)
  then have "dash_reachable (0, seed_vms [''web'', ''db''] (DashboardState LOG_RING SERIAL_RING))" by (rule dash_reachable.step [OF _ dash_step.seed])
  then have "dash_reachable (7, set_vm_stage 7 ''web'' BOOTING None (seed_vms [''web'', ''db''] (DashboardState LOG_RING SERIAL_RING)))"
    using dash_reachable.step [OF _ dash_step.stage [of 0 _ 7]] by simp
  then show ?thesis unfolding sample_run_def by (rule dash_reachable.step [OF _ dash_step.log_line])
qed

theorem snapshot_is_consistent_witness:
  "map w_stage (s_vms (take_snapshot 9 sample_run)) = [BOOTING, PENDING] \<and> distinct (map w_name (s_vms (take_snapshot 9 sample_run)))"
proof -
  have "map w_stage (s_vms (take_snapshot 9 sample_run)) = [BOOTING, PENDING]" by code_simp
  then show ?thesis using snapshot_is_consistent [OF sample_run_reachable, of 9] by simp
qed

text \<open>The log pane shows the last lines.\<close>

lemma log_ring_is_tail:
  "d_log_ring (fold append_log ls (DashboardState m k)) = drop (length ls - m) ls"
proof (induction ls rule: rev_induct)
  case (snoc l ls)
  have m: "d_log_max (fold append_log ls D) = d_log_max D" for ls D by (induction ls arbitrary: D) (simp_all add: append_log_def)
  have "d_log_ring (fold append_log (ls @ [l]) (DashboardState m k)) = ring_append m l (drop (length ls - m) ls)"
    using snoc m [of ls "DashboardState m k"] by (simp add: append_log_def [of l] DashboardState_def)
  then show ?case by (cases "length ls \<le> m") (simp_all add: ring_append_def Suc_diff_le)
qed (simp add: DashboardState_def)

text \<open>
  A snapshot reads the clock before it takes the lock: a worker that reads it later and takes the lock first leaves a start in the future, and the
  elapsed time is negative.
\<close>

theorem elapsed_can_be_negative:
  "dash_reachable (7, sample_run) \<and> map w_elapsed (s_vms (take_snapshot 6 sample_run)) = [Some (-1), None]"
  using sample_run_reachable by (simp add: sample_run_def append_log_def set_vm_stage_def seed_vms_def setdefault_def fresh_vm_def
      DashboardState_def take_snapshot_def view_of_def Let_def)

text \<open>The first activity of a VM is stamped once.\<close>

lemma first_activity_is_kept:
  "map_of (d_vms D) n = Some r \<Longrightarrow> v_started_at r = Some t0 \<Longrightarrow>
     \<exists>r'. map_of (d_vms (set_vm_stage now n st detail D)) n = Some r' \<and> v_started_at r' = Some t0 \<and> v_stage r' = st"
  by (simp add: set_vm_stage_def Let_def update_conv')

end
