(* ===== verification/Spec2Isabelle.thy ===== *)
theory Spec2Isabelle
  imports Plan_Graph Teardown Cache_Keys Sidecar_Config Driver_Naming Build_Result Runtime Http_Cache Binding Preflight Guest_Agent Serial_Sink Cloud_Init Installer_Keys Dashboard_State
begin

text \<open>
  \<^bold>\<open>TestRange\<close>: a verification of the Python program under \<^verbatim>\<open>src/testrange\<close>, which builds virtual machines from
  a declarative plan, brings them up on a hypervisor, runs tests against them and tears everything down.

  \<^bold>\<open>How the program works.\<close> A plan file fills a \<^verbatim>\<open>Hypervisor\<close> container with pools, switches and VMs; \<^verbatim>\<open>Plan\<close> freezes
  and validates it and assembles a build graph. A connection profile binds the plan to one of three backends (libvirt,
  Proxmox, ESXi), whose preflight decides whether the plan can run there. The orchestrator then walks the graph twice in
  topological waves: the build walk produces the disks that the artifact cache lacks, the run walk brings the VMs up and
  waits until they are ready. Every resource is written to a ledger on disk before it is created, so that
  the end of a run, or a later \<^verbatim>\<open>cleanup\<close> after a crash, can destroy what exists.

  \<^bold>\<open>How code becomes definitions.\<close> A dataclass is a record or a constructor, a validating constructor a function into
  \<open>error + value\<close> (\<open>result\<close>, with the values a message interpolates and not its English text), a dictionary an association list in
  insertion order, bytes and text a \<open>string\<close>. Stateful code that may raise is an effect (\<open>Effects\<close>): a function from the world
  to a result and the world after it, so that what an operation leaves behind when it fails is part of every statement. What
  the environment decides (a failing write, the answer of a backend call, an interrupt, the clock) is an argument that is a
  function of how often the environment was asked; a theorem about every such argument is about every fault at every point.
  Third-party code (the hypervisor libraries, \<^verbatim>\<open>requests\<close>, \<^verbatim>\<open>paramiko\<close>, SHA-256, the ISO writer, the TOML parser, the YAML printer,
  \<^verbatim>\<open>xorriso\<close>) is a parameter.

  \<^bold>\<open>The theories\<close>, in the order of their dependencies.

  \<^item> \<open>Exceptions\<close> (\<^verbatim>\<open>exceptions.py\<close>), \<open>Prelude\<close>, \<open>Strings\<close>, \<open>Effects\<close>: error values with the class hierarchy as predicates, the
    shared dictionaries, the part of \<^verbatim>\<open>str\<close> and \<^verbatim>\<open>int\<close> that the program uses, and the effect combinators with the two
    relations \<open>keeps\<close> and \<open>steps\<close> on which the crash-safety proofs rest.
  \<^item> \<open>Build_Graph\<close>, \<open>Graph_Schedule\<close>, \<open>Graph_Cycle\<close>, \<open>Graph_Contract\<close>, \<open>Graph_Theorems\<close> (\<^verbatim>\<open>graph/\<close>): the constructor with Kahn's
    algorithm and the cycle search. It succeeds exactly on acyclic, well-named graphs, its error names a genuine defect,
    its waves are the levels of the reference definition and form a schedule (locale \<open>wave_schedule\<close>, interpreted for the
    full and the content waves).
  \<^item> \<open>Cache_Keys\<close> (\<^verbatim>\<open>graph/keys.py\<close>, \<^verbatim>\<open>graph/node.py\<close>): the walk that gives each node its content key.
  \<^item> \<open>Names\<close>, \<open>Ipv4\<close>, \<open>Devices\<close>, \<open>Networks\<close>, \<open>Plan_Validation\<close> (\<^verbatim>\<open>credentials/\<close>, \<^verbatim>\<open>devices/\<close>, \<^verbatim>\<open>networks/\<close>, \<^verbatim>\<open>vms/\<close>, the used part of
    \<^verbatim>\<open>ipaddress\<close>): charset rules, value types, the address layout of a switch, and whole-plan validation, which accepts
    a plan exactly when every static address is free.
  \<^item> \<open>Hypervisor\<close>, \<open>Plan_Graph\<close> (\<^verbatim>\<open>hypervisor.py\<close>, \<^verbatim>\<open>handles.py\<close>, \<^verbatim>\<open>nodes.py\<close>, \<^verbatim>\<open>plan.py\<close>): the container as a state machine with
    its reachable states, and the graph of a plan, in which a VM comes after the infrastructure it uses.
  \<^item> \<open>Sidecar_Config\<close> (\<^verbatim>\<open>networks/sidecar.py\<close>): the files of a switch's sidecar VM; no value can inject a directive, the DHCP
    pool avoids every assigned address, and the lease file is read back.
  \<^item> \<open>State_Schema\<close>, \<open>State_Store\<close>, \<open>Ledger_Contract\<close>, \<open>Teardown\<close> (\<^verbatim>\<open>state/\<close>, \<^verbatim>\<open>orchestrator/teardown.py\<close>): the ledger, its JSON
    form, the locale of the contract between ledger and backend with its two composition rules, and teardown in reverse
    order. \<open>history\<close> records every state a crash can leave; completeness of the ledger holds in all of them.
  \<^item> \<open>Driver_Naming\<close> (\<^verbatim>\<open>drivers/*/_naming.py\<close>), \<open>Connection_Uri\<close>, \<open>Binding\<close> (\<^verbatim>\<open>connect.py\<close>, \<^verbatim>\<open>drivers/*/_profile.py\<close>,
    \<^verbatim>\<open>drivers/_registry.py\<close>, \<^verbatim>\<open>orchestrator/backend.py\<close>): resource names within the backends' limits, the teardown URI
    (locale \<open>teardown_uri\<close>, interpreted for the three backends), profiles, and that cleanup reaches the backend of the run.
  \<^item> \<open>Preflight\<close> (\<^verbatim>\<open>preflight.py\<close> and the preflights of the drivers): the locale \<open>preflight_contract\<close>, interpreted for the three
    backends, and what a passed gate means.
  \<^item> \<open>Communicators\<close> (\<^verbatim>\<open>communicators/\<close>), \<open>Build_Result\<close> (the console protocol of \<^verbatim>\<open>orchestrator/vm_build.py\<close>, \<^verbatim>\<open>_ansi.py\<close>),
    \<open>Parallel\<close> (\<^verbatim>\<open>orchestrator/_parallel.py\<close>): transports as state machines, the result record of a build, and the worker
    pool, which refines the serial loop.
  \<^item> \<open>Provision\<close>, \<open>VM_Build\<close>, \<open>VM_Run\<close>, \<open>Executor\<close>, \<open>Runtime\<close> (the other files of \<^verbatim>\<open>orchestrator/\<close>): provisioning, the build of one
    VM, bring-up, the two graph walks, and the life of a run with its test runner.
  \<^item> \<open>Local_Cache\<close>, \<open>Http_Cache\<close> (\<^verbatim>\<open>cache/\<close>): both cache tiers and the broker under arbitrary faults and servers (locale
    \<open>catalogue\<close>); content always hashes to its name, and no interleaving of adds loses an alias.
  \<^item> \<open>Guest_Agent\<close>, \<open>Serial_Sink\<close> (\<^verbatim>\<open>drivers/*/_guest.py\<close>, \<^verbatim>\<open>drivers/*/_serial.py\<close>): commands and files through the agents of the
    guests (locale \<open>guest_channel\<close>: only the errors of the contract leave a channel) and the console sinks (locale \<open>console_sink\<close>: a silent guest cannot
    hold a build past its deadline), interpreted for the backends that promise it.
  \<^item> \<open>Cloud_Init\<close>, \<open>Boot_Media\<close>, \<open>Proxmox_Answer\<close>, \<open>Esxi_Kickstart\<close>, \<open>Installer_Keys\<close> (\<^verbatim>\<open>builders/\<close>, \<^verbatim>\<open>packages/\<close>): the documents each builder hands to its
    installer, read back by a specification reader of their format; the atomic preparation of a boot medium; and the keys of built
    disks (locale \<open>disk_key\<close>, interpreted for the three builders).
  \<^item> \<open>Dashboard_State\<close> (\<^verbatim>\<open>orchestrator/dashboard_state.py\<close>): the state the worker threads report into, with its reachable states.

  \<^bold>\<open>Bounds.\<close> A loop that the source ends at a deadline takes the number of its rounds as an argument (\<open>rc_polls\<close>, the attempts of
  a communicator): the theorems hold for every number. The worker pool takes a schedule. The loop that reads a guest file until its end is a partial function, shown to return
  for every agent that serves files. No other fuel is used; the remaining loops are total functions.

  \<^bold>\<open>Not modelled.\<close> The command line (\<^verbatim>\<open>cli.py\<close>), the drawing of the terminal dashboard and log output; the sidecar's ISO writer
  (\<^verbatim>\<open>builders/sidecar_iso.py\<close>); the calls the drivers make on their hypervisor libraries, which are the environment of the orchestrator here.
\<close>

end
